(* ===== verification/Prelude.thy ===== *)
theory Prelude
  imports Main "HOL-Library.Word"
begin

text \<open>
  Shared vocabulary of the TFDB development: the fixed-width integer types of the C++ sources
  (\<open>std::uint8_t\<close> \<dots> \<open>std::uint64_t\<close>; \<open>std::int64_t\<close> is a 64-bit word read with \<open>sint\<close>), byte
  vectors as lists, and the two list primitives every component uses: \<open>blit\<close> (copy bytes over a
  vector at an offset, as \<open>std::copy\<close> and the \<open>put\<close> helpers do) and \<open>sub_bytes\<close> (the bytes of
  a range). The lemmas are the algebra of these two: lengths, reading back what was written, and
  independence of disjoint ranges.
\<close>

unbundle bit_operations_syntax

type_synonym u8 = "8 word"
type_synonym u16 = "16 word"
type_synonym u32 = "32 word"
type_synonym u64 = "64 word"
type_synonym i64 = "64 word"
type_synonym bytes = "u8 list"

named_theorems blit_simps \<open>reading and writing byte ranges\<close>

section \<open>Byte ranges\<close>

text \<open>A copy never changes the length of the vector; what would fall outside it is dropped, so
  that every use has to show its range is inside.\<close>

definition blit :: "'a list \<Rightarrow> nat \<Rightarrow> 'a list \<Rightarrow> 'a list" where
  "blit xs off ys = take (length xs) (take off xs @ ys @ drop (off + length ys) xs)"

definition sub_bytes :: "'a list \<Rightarrow> nat \<Rightarrow> nat \<Rightarrow> 'a list" where
  "sub_bytes xs off n = take n (drop off xs)"

lemma length_blit [simp]: "length (blit xs off ys) = length xs"
  by (simp add: blit_def min_def)

lemma blit_eq:
  "off + length ys \<le> length xs \<Longrightarrow> blit xs off ys = take off xs @ ys @ drop (off + length ys) xs"
  by (simp add: blit_def)

lemma length_sub_bytes [simp]: "length (sub_bytes xs off n) = min n (length xs - off)"
  by (simp add: sub_bytes_def)

lemma nth_sub_bytes [simp]:
  "i < n \<Longrightarrow> off + i < length xs \<Longrightarrow> sub_bytes xs off n ! i = xs ! (off + i)"
  by (simp add: sub_bytes_def)

lemma nth_blit:
  assumes "i < length xs"
  shows "blit xs off ys ! i =
    (if off \<le> i \<and> i < off + length ys then ys ! (i - off) else xs ! i)"
  using assms by (auto simp: blit_def nth_append min_def not_less)

lemma nth_blit_outside:
  "i < length xs \<Longrightarrow> i < off \<or> off + length ys \<le> i \<Longrightarrow> blit xs off ys ! i = xs ! i"
  by (auto simp: nth_blit)

lemma blit_Nil [simp]: "off \<le> length xs \<Longrightarrow> blit xs off [] = xs"
  by (simp add: blit_def)

lemma sub_bytes_0 [simp]: "sub_bytes xs off 0 = []"
  by (simp add: sub_bytes_def)

lemma sub_bytes_all [simp]: "n = length xs \<Longrightarrow> sub_bytes xs 0 n = xs"
  by (simp add: sub_bytes_def)

lemma sub_bytes_blit_same [blit_simps]:
  "off + length ys \<le> length xs \<Longrightarrow> n = length ys \<Longrightarrow> sub_bytes (blit xs off ys) off n = ys"
  by (simp add: blit_eq sub_bytes_def)

lemma sub_bytes_blit_disjoint [blit_simps]:
  assumes "pos + n \<le> off \<or> off + length ys \<le> pos"
  shows "sub_bytes (blit xs off ys) pos n = sub_bytes xs pos n"
proof (rule nth_equalityI)
  show "length (sub_bytes (blit xs off ys) pos n) = length (sub_bytes xs pos n)"
    by simp
next
  fix i assume "i < length (sub_bytes (blit xs off ys) pos n)"
  then have i: "i < n" "pos + i < length xs" by auto
  then have "blit xs off ys ! (pos + i) = xs ! (pos + i)"
    using assms by (intro nth_blit_outside) auto
  then show "sub_bytes (blit xs off ys) pos n ! i = sub_bytes xs pos n ! i"
    using i by simp
qed

lemma sub_bytes_split:
  "sub_bytes xs off (m + n) = sub_bytes xs off m @ sub_bytes xs (off + m) n"
  by (simp add: sub_bytes_def take_add ac_simps)

lemma sub_bytes_sub_bytes:
  "pos + m \<le> n \<Longrightarrow> sub_bytes (sub_bytes xs off n) pos m = sub_bytes xs (off + pos) m"
  by (simp add: sub_bytes_def drop_take ac_simps)

lemma sub_bytes_append_left [simp]:
  "off + n \<le> length xs \<Longrightarrow> sub_bytes (xs @ ys) off n = sub_bytes xs off n"
  by (simp add: sub_bytes_def)

lemma sub_bytes_append_right:
  "length xs \<le> off \<Longrightarrow> sub_bytes (xs @ ys) off n = sub_bytes ys (off - length xs) n"
  by (simp add: sub_bytes_def)

lemma sub_bytes_prefix [simp]: "n = length ys \<Longrightarrow> off = length xs \<Longrightarrow> sub_bytes (xs @ ys @ zs) off n = ys"
  by (simp add: sub_bytes_def)

lemma take_Suc_sub_bytes: "take (i + n) xs = take i xs @ sub_bytes xs i n"
  by (simp add: sub_bytes_def take_add)

lemma sub_bytes_Cons_nth:
  "off < length xs \<Longrightarrow> sub_bytes xs off (Suc n) = xs ! off # sub_bytes xs (Suc off) n"
  by (simp add: sub_bytes_def Cons_nth_drop_Suc [symmetric])

lemma blit_split:
  assumes "off + length ys + length zs \<le> length xs"
  shows "blit (blit xs off ys) (off + length ys) zs = blit xs off (ys @ zs)"
  using assms by (simp add: blit_eq ac_simps)

section \<open>Rounding up\<close>

lemma round_up_aux:
  fixes q :: nat
  assumes "m < q"
  shows "(q * d + m + q - 1) div q = (if m = 0 then d else Suc d)"
proof (rule div_nat_eqI)
  show "q * (if m = 0 then d else Suc d) \<le> q * d + m + q - 1" using assms by auto
  show "q * d + m + q - 1 < q * Suc (if m = 0 then d else Suc d)" using assms by auto
qed

lemma round_up_eq:
  fixes q :: nat
  assumes "0 < q"
  shows "(v + q - 1) div q * q = v + (if v mod q = 0 then 0 else q - v mod q)"
proof -
  define d m where "d = v div q" and "m = v mod q"
  have v: "v = q * d + m" and m: "m < q" using assms by (simp_all add: d_def m_def)
  have vm: "v mod q = m" by (simp add: m_def)
  have "(v + q - 1) div q * q = (if m = 0 then q * d else q * d + q)"
    using round_up_aux [OF m, of d] by (simp add: v algebra_simps)
  then show ?thesis using m unfolding vm by (simp add: v)
qed

section \<open>Words\<close>

lemma u8_less: "unat (b :: u8) < 256"
  using unsigned_less [where ?'a = nat, of b] by simp

lemma ucast_u8_unat [simp]: "unat (ucast (b :: u8) :: 'a::len word) = unat b" if "8 \<le> LENGTH('a)"
proof -
  have "(2::nat) ^ 8 \<le> 2 ^ LENGTH('a)" using that by (rule power_increasing) simp
  with u8_less [of b] have "unat b < 2 ^ LENGTH('a)" by simp
  then show ?thesis by (simp add: unsigned_ucast_eq take_bit_nat_eq_self_iff)
qed

lemma not_bit_u8: "8 \<le> n \<Longrightarrow> \<not> bit (b :: u8) n"
  by (auto dest: bit_imp_le_length)

lemma bit_u8_less: "bit (b :: u8) n \<Longrightarrow> n < 8"
  by (auto dest: bit_imp_le_length)

lemma unat_of_nat_u8: "n < 256 \<Longrightarrow> unat (of_nat n :: u8) = n"
  by (simp add: unat_of_nat)

lemma unat_of_nat_u32: "n < 2 ^ 32 \<Longrightarrow> unat (of_nat n :: u32) = n"
  by (simp add: unat_of_nat)

lemma unat_of_nat_u64: "n < 2 ^ 64 \<Longrightarrow> unat (of_nat n :: u64) = n"
  by (simp add: unat_of_nat)

lemma unat_u16_less: "unat (c :: u16) < 65536"
  using unsigned_less [where ?'a = nat, of c] by simp

lemma unat_u32_less: "unat (c :: u32) < 2 ^ 32"
  using unsigned_less [where ?'a = nat, of c] by simp

lemma unat_u64_less: "unat (c :: u64) < 2 ^ 64"
  using unsigned_less [where ?'a = nat, of c] by simp

lemma unat_ucast_u16_u32 [simp]: "unat (ucast (c :: u16) :: u32) = unat c"
  using unat_u16_less [of c] by (simp add: unsigned_ucast_eq take_bit_nat_eq_self_iff)

lemma unat_ucast_u32_u64 [simp]: "unat (ucast (q :: u32) :: u64) = unat q"
  using unat_u32_less [of q] by (simp add: unsigned_ucast_eq take_bit_nat_eq_self_iff)

lemma ucast_u16_u32_u16 [simp]: "(ucast (ucast (c :: u16) :: u32) :: u16) = c"
  by (rule bit_word_eqI) (simp add: bit_simps)

lemma ucast_u16_u32_le [simp]: "\<not> 0xffff < (ucast (c :: u16) :: u32)"
  using unat_u16_less [of c] by (simp add: word_less_nat_alt)

lemma ucast_u32_u64_eq_0 [simp]: "(ucast (c :: u32) :: u64) = 0 \<longleftrightarrow> c = 0"
  by (simp add: unat_eq_0 [symmetric])

end
