(* ===== verification/Status.thy ===== *)
theory Status
  imports Prelude
begin

text \<open>
  \<open>tfdb::Status\<close> (include/tfdb/status.hpp, src/status.cpp): a status code and a diagnostic
  message. Fallible operations return \<open>status + 'a\<close>: \<open>Inl\<close> carries a status that is not
  \<open>ok\<close>, \<open>Inr\<close> the value the operation delivers through its output parameter. Views of bytes
  (include/tfdb/bytes.hpp) may have a null data pointer, which operations must reject unless the
  size is zero.
\<close>

datatype status_code =
    St_ok
  | Invalid_argument
  | Out_of_range
  | Io_error
  | Interrupted
  | No_space
  | Corrupt
  | Unsupported
  | Not_found
  | Busy
  | Overwritten
  | Generation_exhausted
  | Closed
  | Internal_error

datatype status = Status (code: status_code) (message: string)

definition Ok :: status where
  "Ok = Status St_ok []"

abbreviation Error :: "status_code \<Rightarrow> string \<Rightarrow> status" where
  "Error c m \<equiv> Status c m"

definition status_ok :: "status \<Rightarrow> bool" where
  "status_ok s = (code s = St_ok)"

fun status_code_name :: "status_code \<Rightarrow> string" where
  "status_code_name St_ok = ''ok''"
| "status_code_name Invalid_argument = ''invalid_argument''"
| "status_code_name Out_of_range = ''out_of_range''"
| "status_code_name Io_error = ''io_error''"
| "status_code_name Interrupted = ''interrupted''"
| "status_code_name No_space = ''no_space''"
| "status_code_name Corrupt = ''corrupt''"
| "status_code_name Unsupported = ''unsupported''"
| "status_code_name Not_found = ''not_found''"
| "status_code_name Busy = ''busy''"
| "status_code_name Overwritten = ''overwritten''"
| "status_code_name Generation_exhausted = ''generation_exhausted''"
| "status_code_name Closed = ''closed''"
| "status_code_name Internal_error = ''internal_error''"

section \<open>Byte views\<close>

text \<open>\<open>View bs\<close> is a view with a data pointer to the bytes \<open>bs\<close>; \<open>Null_view n\<close> is a view
  whose data pointer is null and whose size field is \<open>n\<close>.\<close>

datatype byte_view = View bytes | Null_view nat

primrec view_size :: "byte_view \<Rightarrow> nat" where
  "view_size (View bs) = length bs"
| "view_size (Null_view n) = n"

primrec view_data_null :: "byte_view \<Rightarrow> bool" where
  "view_data_null (View bs) = False"
| "view_data_null (Null_view n) = True"

definition view_empty :: "byte_view \<Rightarrow> bool" where
  "view_empty v = (view_size v = 0)"

definition view_valid :: "byte_view \<Rightarrow> bool" where
  "view_valid v = (view_size v = 0 \<or> \<not> view_data_null v)"

text \<open>The bytes a valid view denotes.\<close>

primrec view_bytes :: "byte_view \<Rightarrow> bytes" where
  "view_bytes (View bs) = bs"
| "view_bytes (Null_view n) = []"

lemma status_ok_simps [simp]:
  "status_ok Ok" "status_ok (Status c m) = (c = St_ok)" "code Ok = St_ok"
  by (simp_all add: status_ok_def Ok_def)

lemma view_valid_View [simp]: "view_valid (View bs)"
  by (simp add: view_valid_def)

lemma view_empty_View [simp]: "view_empty (View bs) = (bs = [])"
  by (simp add: view_empty_def)

lemma view_size_bytes: "view_valid v \<Longrightarrow> length (view_bytes v) = view_size v"
  by (cases v) (auto simp: view_valid_def)

lemma status_code_name_inj: "status_code_name a = status_code_name b \<Longrightarrow> a = b"
  by (cases a; cases b) simp_all

end
