(* ===== verification/Storage.thy ===== *)
theory Storage
  imports Status
begin

text \<open>
  The storage interface (include/tfdb/storage.hpp) and the exact transfers over it
  (src/storage_posix.cpp, \<open>read_exact\<close> and \<open>write_exact\<close>). A backend is a record of its virtual
  functions over a state \<open>'s\<close>; a read takes the current contents of the caller's buffer and
  returns the new contents, which a backend may have filled only in part. The exact transfers
  retry short and interrupted calls, so with a backend that interrupts for ever they do not
  return: they are partial functions into \<open>option\<close>. The locale \<open>storage_contract\<close> states what
  clients rely on, with a measure that bounds consecutive interruptions, and shows that exact
  transfers then return and move exactly the requested range.
\<close>

record io_result =
  transferred :: nat
  io_status :: status

record 's storage =
  storage_size :: "'s \<Rightarrow> u64"
  storage_writable :: "'s \<Rightarrow> bool"
  read_at :: "u64 \<Rightarrow> byte_view \<Rightarrow> 's \<Rightarrow> io_result \<times> bytes \<times> 's"
  write_at :: "u64 \<Rightarrow> byte_view \<Rightarrow> 's \<Rightarrow> io_result \<times> 's"
  flush :: "'s \<Rightarrow> status \<times> 's"

partial_function (option) read_exact_loop ::
  "'s storage \<Rightarrow> u64 \<Rightarrow> nat \<Rightarrow> bytes \<Rightarrow> 's \<Rightarrow> (status \<times> bytes \<times> 's) option" where
  "read_exact_loop storage offset done output s =
     (if done < length output then
        let (result, part, s) = read_at storage (offset + of_nat done) (View (drop done output)) s;
            output = blit output done part
        in if \<not> status_ok (io_status result)
           then if code (io_status result) = Interrupted \<and> transferred result = 0
             then read_exact_loop storage offset done output s
             else Some (io_status result, output, s)
           else if transferred result = 0
           then Some (Error Io_error ''read made no progress before requested length'', output, s)
           else if transferred result > length output - done
           then Some (Error Internal_error ''backend over-reported read length'', output, s)
           else read_exact_loop storage offset (done + transferred result) output s
      else Some (Ok, output, s))"

definition read_exact ::
  "'s storage \<Rightarrow> u64 \<Rightarrow> byte_view \<Rightarrow> 's \<Rightarrow> (status \<times> bytes \<times> 's) option" where
  "read_exact storage offset output s =
     (if \<not> view_valid output
      then Some (Error Invalid_argument ''null non-empty exact-read buffer'', [], s)
      else read_exact_loop storage offset 0 (view_bytes output) s)"

partial_function (option) write_exact_loop ::
  "'s storage \<Rightarrow> u64 \<Rightarrow> nat \<Rightarrow> bytes \<Rightarrow> 's \<Rightarrow> (status \<times> 's) option" where
  "write_exact_loop storage offset done input s =
     (if done < length input then
        let (result, s) = write_at storage (offset + of_nat done) (View (drop done input)) s
        in if \<not> status_ok (io_status result)
           then if code (io_status result) = Interrupted \<and> transferred result = 0
             then write_exact_loop storage offset done input s
             else Some (io_status result, s)
           else if transferred result = 0
           then Some (Error Io_error ''write made no progress'', s)
           else if transferred result > length input - done
           then Some (Error Internal_error ''backend over-reported write length'', s)
           else write_exact_loop storage offset (done + transferred result) input s
      else Some (Ok, s))"

definition write_exact :: "'s storage \<Rightarrow> u64 \<Rightarrow> byte_view \<Rightarrow> 's \<Rightarrow> (status \<times> 's) option" where
  "write_exact storage offset input s =
     (if \<not> view_valid input
      then Some (Error Invalid_argument ''null non-empty exact-write buffer'', s)
      else write_exact_loop storage offset 0 (view_bytes input) s)"

section \<open>The contract of a backend\<close>

text \<open>What a transfer loop does next: call again, stop, or advance.\<close>

lemma io_result_cases:
  obtains (retry) "\<not> status_ok (io_status r)" "code (io_status r) = Interrupted" "transferred r = 0"
    | (fail) "\<not> (status_ok (io_status r) \<and> 0 < transferred r)"
        "\<not> (code (io_status r) = Interrupted \<and> transferred r = 0)"
    | (more) "status_ok (io_status r)" "0 < transferred r"
  by (cases "code (io_status r) = Interrupted"; cases "transferred r = 0") (auto simp: status_ok_def)


text \<open>\<open>image\<close> is what reads return, \<open>durable\<close> what survives a crash that loses everything
  unflushed; \<open>good\<close> is the backend's own invariant and \<open>stall\<close> bounds how often calls are
  interrupted in a row. A write call that fails may change nothing.\<close>

locale storage_contract =
  fixes st :: "'s storage"
    and image durable :: "'s \<Rightarrow> bytes"
    and good :: "'s \<Rightarrow> bool"
    and read_stall write_stall :: "'s \<Rightarrow> nat"
  assumes size_image: "good s \<Longrightarrow> unat (storage_size st s) = length (image s)"
    and read_ok: "good s \<Longrightarrow> read_at st off (View buf) s = (r, part, s') \<Longrightarrow>
        good s' \<and> image s' = image s \<and> durable s' = durable s \<and>
        (transferred r \<noteq> 0 \<longrightarrow> status_ok (io_status r) \<and> unat off + length buf \<le> length (image s)) \<and>
        transferred r \<le> length buf \<and>
        part = blit buf 0 (sub_bytes (image s) (unat off) (transferred r))"
    and read_stall: "good s \<Longrightarrow> read_at st off (View buf) s = (r, part, s') \<Longrightarrow>
        code (io_status r) = Interrupted \<Longrightarrow> read_stall s' < read_stall s"
    and write_ok: "good s \<Longrightarrow> write_at st off (View buf) s = (r, s') \<Longrightarrow>
        good s' \<and> durable s' = durable s \<and>
        (transferred r \<noteq> 0 \<longrightarrow> status_ok (io_status r) \<and> unat off + length buf \<le> length (image s)) \<and>
        transferred r \<le> length buf \<and>
        image s' = blit (image s) (unat off) (take (transferred r) buf)"
    and write_stall: "good s \<Longrightarrow> write_at st off (View buf) s = (r, s') \<Longrightarrow>
        code (io_status r) = Interrupted \<Longrightarrow> write_stall s' < write_stall s"
    and flush_ok: "good s \<Longrightarrow> flush st s = (fs, s') \<Longrightarrow>
        good s' \<and> image s' = image s \<and> durable s' = (if status_ok fs then image s else durable s)"
begin

lemma length_image_write: "good s \<Longrightarrow> write_at st off (View buf) s = (r, s') \<Longrightarrow>
    length (image s') = length (image s)"
  using write_ok [of s off buf r s'] by simp

lemma image_less: "good s \<Longrightarrow> length (image s) < 2 ^ 64"
  using size_image [of s] unat_u64_less [of "storage_size st s"] by simp

lemma unat_offset: "unat (off :: u64) + d < 2 ^ 64 \<Longrightarrow> unat (off + of_nat d) = unat off + d"
  by (simp add: unat_word_ariths unat_of_nat)

text \<open>An exact read returns, leaves the medium alone, and on success the rest of the buffer holds
  the medium's bytes.\<close>

lemma read_exact_loop_correct:
  assumes "good s" "d \<le> length buf" "0 < d \<Longrightarrow> unat off + length buf \<le> length (image s)"
  shows "\<exists>r out s'. read_exact_loop st off d buf s = Some (r, out, s') \<and> good s' \<and>
    image s' = image s \<and> durable s' = durable s \<and> length out = length buf \<and>
    (status_ok r \<longrightarrow> (buf \<noteq> [] \<longrightarrow> unat off + length buf \<le> length (image s)) \<and>
      out = take d buf @ sub_bytes (image s) (unat off + d) (length buf - d))"
  using assms
proof (induction "length buf - d" arbitrary: d buf s rule: less_induct)
  case outer: less
  from outer.prems outer.hyps show ?case
  proof (induction "read_stall s" arbitrary: buf s rule: less_induct)
    case inner: less
    obtain r part s1 where rd: "read_at st (off + of_nat d) (View (drop d buf)) s = (r, part, s1)"
      by (cases "read_at st (off + of_nat d) (View (drop d buf)) s") auto
    note ok = read_ok [OF inner.prems(1) rd]
    let ?out = "blit buf d part"
    note step = read_exact_loop.simps [of st off d buf s]
    show ?case
    proof (cases "d < length buf")
      case False
      then have "read_exact_loop st off d buf s = Some (Ok, buf, s)" using step by simp
      then show ?thesis using False inner.prems by auto
    next
      case d: True
      show ?thesis
      proof (cases rule: io_result_cases [of r])
        case retry
        then have "?out = buf" using ok by (simp add: blit_def)
        with step d rd retry have "read_exact_loop st off d buf s = read_exact_loop st off d buf s1"
          by simp
        then show ?thesis
          using inner.hyps [OF read_stall [OF inner.prems(1) rd retry(2)], of buf] inner.prems ok
          by simp
      next
        case fail
        then have "\<exists>r'. \<not> status_ok r' \<and> read_exact_loop st off d buf s = Some (r', ?out, s1)"
        proof (cases "status_ok (io_status r)")
          case True
          then show ?thesis using fail(1) d rd by (subst step) simp
        next
          case False
          then show ?thesis using fail(2) d rd by (intro exI [of _ "io_status r"]) (subst step, auto)
        qed
        then show ?thesis using ok by auto
      next
        case more
        let ?n = "transferred r"
        have fits: "unat (off + of_nat d) + (length buf - d) \<le> length (image s)" "?n \<le> length buf - d"
          using ok more by auto
        have small: "unat off + d < 2 ^ 64"
          using inner.prems(3) d image_less [OF inner.prems(1)] unat_u64_less [of off]
          by (cases "d = 0") auto
        note off = unat_offset [OF small]
        have bound: "unat off + length buf \<le> length (image s)"
          using fits(1) d by (simp add: off)
        have new: "take (d + ?n) ?out = take d buf @ sub_bytes (image s) (unat off + d) ?n"
          using ok d fits(2) bound by (simp add: off blit_eq)
        have "read_exact_loop st off d buf s = read_exact_loop st off (d + ?n) ?out s1"
          using step d rd more fits(2) by simp
        moreover have "\<exists>r' out s'. read_exact_loop st off (d + ?n) ?out s1 = Some (r', out, s') \<and> good s' \<and>
          image s' = image s1 \<and> durable s' = durable s1 \<and> length out = length ?out \<and>
          (status_ok r' \<longrightarrow> (?out \<noteq> [] \<longrightarrow> unat off + length ?out \<le> length (image s1)) \<and>
            out = take (d + ?n) ?out @ sub_bytes (image s1) (unat off + (d + ?n)) (length ?out - (d + ?n)))"
          using more fits(2) d bound ok by (intro inner.prems(4)) auto
        moreover have "sub_bytes (image s) (unat off + d) (length buf - d) =
            sub_bytes (image s) (unat off + d) ?n @
            sub_bytes (image s) (unat off + (d + ?n)) (length buf - (d + ?n))"
          using sub_bytes_split [of "image s" "unat off + d" ?n "length buf - (d + ?n)"] fits(2) d
          by (simp add: add.assoc)
        ultimately show ?thesis using new ok bound by auto
      qed
    qed
  qed
qed

text \<open>An exact write returns and writes a prefix of the bytes at its offset, all of them on
  success; nothing becomes durable by it.\<close>

lemma write_exact_loop_correct:
  assumes "good s" "d \<le> length buf" "0 < d \<Longrightarrow> unat off + length buf \<le> length (image s)"
  shows "\<exists>r s' n. write_exact_loop st off d buf s = Some (r, s') \<and> good s' \<and> durable s' = durable s \<and>
    n \<le> length buf - d \<and> image s' = blit (image s) (unat off + d) (take n (drop d buf)) \<and>
    (0 < n \<longrightarrow> unat off + length buf \<le> length (image s)) \<and>
    (status_ok r \<longrightarrow> n = length buf - d)"
  using assms
proof (induction "length buf - d" arbitrary: d s rule: less_induct)
  case outer: less
  from outer.prems outer.hyps show ?case
  proof (induction "write_stall s" arbitrary: s rule: less_induct)
    case inner: less
    obtain r s1 where wr: "write_at st (off + of_nat d) (View (drop d buf)) s = (r, s1)"
      by (cases "write_at st (off + of_nat d) (View (drop d buf)) s") auto
    note ok = write_ok [OF inner.prems(1) wr]
    note step = write_exact_loop.simps [of st off d buf s]
    have same: "blit (image s) k [] = image s" for k by (simp add: blit_def)
    show ?case
    proof (cases "d < length buf")
      case False
      then have "write_exact_loop st off d buf s = Some (Ok, s)" using step by simp
      then show ?thesis using False inner.prems same by auto
    next
      case d: True
      show ?thesis
      proof (cases rule: io_result_cases [of r])
        case retry
        with step d wr have "write_exact_loop st off d buf s = write_exact_loop st off d buf s1" by simp
        then show ?thesis
          using inner.hyps [OF write_stall [OF inner.prems(1) wr retry(2)]] inner.prems ok retry same
          by simp
      next
        case fail
        then have "transferred r = 0" using ok by auto
        moreover from fail have "\<exists>r'. \<not> status_ok r' \<and> write_exact_loop st off d buf s = Some (r', s1)"
        proof (cases "status_ok (io_status r)")
          case True
          then show ?thesis using fail(1) d wr by (subst step) simp
        next
          case False
          then show ?thesis using fail(2) d wr by (intro exI [of _ "io_status r"]) (subst step, auto)
        qed
        ultimately show ?thesis using ok same by fastforce
      next
        case more
        let ?n = "transferred r"
        have fits: "unat (off + of_nat d) + (length buf - d) \<le> length (image s)" "?n \<le> length buf - d"
          using ok more by auto
        have small: "unat off + d < 2 ^ 64"
          using inner.prems(3) d image_less [OF inner.prems(1)] unat_u64_less [of off]
          by (cases "d = 0") auto
        note off = unat_offset [OF small]
        have bound: "unat off + length buf \<le> length (image s)"
          using fits(1) d by (simp add: off)
        have img: "image s1 = blit (image s) (unat off + d) (take ?n (drop d buf))"
          using ok by (simp add: off)
        have c: "length buf - (d + ?n) < length buf - d" "good s1" "d + ?n \<le> length buf"
          "unat off + length buf \<le> length (image s1)"
          using more(2) fits(2) d bound ok img by auto
        obtain r' s' m where IH: "write_exact_loop st off (d + ?n) buf s1 = Some (r', s')"
          "good s'" "durable s' = durable s1" "m \<le> length buf - (d + ?n)"
          "image s' = blit (image s1) (unat off + (d + ?n)) (take m (drop (d + ?n) buf))"
          "status_ok r' \<longrightarrow> m = length buf - (d + ?n)"
          using inner.prems(4) [OF c] by blast
        have "write_exact_loop st off d buf s = write_exact_loop st off (d + ?n) buf s1"
          using step d wr more fits(2) by simp
        moreover have "blit (blit (image s) (unat off + d) (take ?n (drop d buf))) (unat off + (d + ?n))
            (take m (drop (d + ?n) buf)) = blit (image s) (unat off + d) (take (?n + m) (drop d buf))"
        proof -
          have "length (take ?n (drop d buf)) = ?n" using fits(2) by simp
          moreover have "take (?n + m) (drop d buf) = take ?n (drop d buf) @ take m (drop (d + ?n) buf)"
            by (simp add: take_add add.commute [of d])
          ultimately show ?thesis
            using blit_split [of "unat off + d" "take ?n (drop d buf)" "take m (drop (d + ?n) buf)" "image s"]
              IH(4) fits(2) bound d by (simp add: add.assoc)
        qed
        ultimately show ?thesis using IH ok bound img fits(2) d
          by (intro exI [of _ r'] exI [of _ s'] exI [of _ "?n + m"]) auto
      qed
    qed
  qed
qed

lemma read_exact_correct:
  assumes "good s"
  obtains r out s' where "read_exact st off (View buf) s = Some (r, out, s')"
    "good s'" "image s' = image s" "durable s' = durable s" "length out = length buf"
    "status_ok r \<Longrightarrow> buf \<noteq> [] \<Longrightarrow> unat off + length buf \<le> length (image s)"
    "status_ok r \<Longrightarrow> out = sub_bytes (image s) (unat off) (length buf)"
  using read_exact_loop_correct [of s 0 buf off] assms that by (auto simp: read_exact_def)

lemma write_exact_correct:
  assumes "good s"
  obtains r s' n where "write_exact st off (View buf) s = Some (r, s')"
    "good s'" "durable s' = durable s" "n \<le> length buf"
    "image s' = blit (image s) (unat off) (take n buf)"
    "0 < n \<Longrightarrow> unat off + length buf \<le> length (image s)" "status_ok r \<Longrightarrow> n = length buf"
  using write_exact_loop_correct [of s 0 buf off] assms that by (auto simp: write_exact_def)

text \<open>What was written is what is read, whatever short transfers happened in between.\<close>

lemma write_read_exact:
  assumes "good s" "write_exact st off (View buf) s = Some (r, s')" "status_ok r"
    "read_exact st off (View buf') s' = Some (r', out, s'')" "status_ok r'" "length buf' = length buf"
  shows "out = buf"
proof (cases "buf = []")
  case False
  obtain n where w: "good s'" "n \<le> length buf" "image s' = blit (image s) (unat off) (take n buf)"
    "0 < n \<Longrightarrow> unat off + length buf \<le> length (image s)" "n = length buf"
    using assms(1,2,3) write_exact_correct [OF assms(1), of off buf] by (metis option.inject prod.inject)
  moreover have "out = sub_bytes (image s') (unat off) (length buf')"
    using assms(4,5) read_exact_correct [OF w(1), of off buf'] by (metis option.inject prod.inject)
  ultimately show ?thesis using False assms(6) by (simp add: sub_bytes_blit_same)
next
  case True
  then show ?thesis
    using assms(4,6) by (simp add: read_exact_def read_exact_loop.simps [of st off 0 "[]"])
qed

end

end
