(* ===== verification/Memory_Storage.thy ===== *)
theory Memory_Storage
  imports Storage
begin

text \<open>
  The fault-injecting in-memory backend (include/tfdb/memory_storage.hpp, src/memory_storage.cpp).
  The state holds the volatile and the durable image, the writes since the last flush, the fault
  rules, the event log and the counters. A hook is the caller's code, run between the two critical
  sections of a call: it is an argument of the operations, a transformer of the backend's state.
  The theory interprets \<open>storage_contract\<close> for every backend without a hook, whatever faults are
  injected, and proves what the crash operations produce.
\<close>

datatype storage_operation = Op_read | Op_write | Op_flush

record storage_counters =
  read_calls :: u64
  write_calls :: u64
  flush_calls :: u64
  read_bytes :: u64
  write_bytes :: u64

definition zero_counters :: storage_counters where
  "zero_counters = \<lparr>read_calls = 0, write_calls = 0, flush_calls = 0, read_bytes = 0, write_bytes = 0\<rparr>"

record fault_rule =
  fault_operation :: storage_operation
  fault_call :: u64
  transfer_before_error :: nat
  fault_result :: status_code

record storage_event =
  event_operation :: storage_operation
  event_call :: u64
  event_offset :: u64
  event_requested :: nat
  event_transferred :: nat
  event_result :: status_code

record write_fragment =
  fragment_call :: u64
  offset_in_write :: nat
  fragment_length :: nat

datatype hook_point = Hook_before | Hook_after

record dirty_write =
  dirty_call :: u64
  dirty_offset :: u64
  dirty_bytes :: bytes

record memory_storage =
  mem_volatile :: bytes
  mem_durable :: bytes
  mem_writable :: bool
  mem_faults :: "fault_rule list"
  mem_dirty_writes :: "dirty_write list"
  mem_events :: "storage_event list"
  mem_counters :: storage_counters

type_synonym storage_hook =
  "(storage_operation \<Rightarrow> hook_point \<Rightarrow> u64 \<Rightarrow> u64 \<Rightarrow> nat \<Rightarrow> memory_storage \<Rightarrow> memory_storage) option"

definition run_hook ::
  "storage_hook \<Rightarrow> storage_operation \<Rightarrow> hook_point \<Rightarrow> u64 \<Rightarrow> u64 \<Rightarrow> nat \<Rightarrow> memory_storage \<Rightarrow> memory_storage" where
  "run_hook hook op point call offset n s =
     (case hook of None \<Rightarrow> s | Some h \<Rightarrow> h op point call offset n s)"

definition new_memory_storage :: "u64 \<Rightarrow> bool \<Rightarrow> memory_storage" where
  "new_memory_storage sz writable =
     \<lparr>mem_volatile = replicate (unat sz) 0, mem_durable = replicate (unat sz) 0,
      mem_writable = writable, mem_faults = [], mem_dirty_writes = [], mem_events = [],
      mem_counters = zero_counters\<rparr>"

definition mem_size :: "memory_storage \<Rightarrow> u64" where
  "mem_size s = of_nat (length (mem_volatile s))"

fun matching_fault :: "fault_rule list \<Rightarrow> storage_operation \<Rightarrow> u64 \<Rightarrow> fault_rule option" where
  "matching_fault [] op call = None"
| "matching_fault (rule # rules) op call =
     (if fault_operation rule = op \<and> fault_call rule = call then Some rule
      else matching_fault rules op call)"

text \<open>How much a call transfers and with which status, given the rule that matches it.\<close>

definition fault_outcome :: "fault_rule option \<Rightarrow> nat \<Rightarrow> string \<Rightarrow> nat \<times> status" where
  "fault_outcome fault n msg =
     (case fault of
        None \<Rightarrow> (n, Ok)
      | Some rule \<Rightarrow>
          if fault_result rule = St_ok then (min (transfer_before_error rule) n, Ok)
          else (0, Error (fault_result rule) msg))"

definition mem_read_at ::
  "storage_hook \<Rightarrow> u64 \<Rightarrow> byte_view \<Rightarrow> memory_storage \<Rightarrow> io_result \<times> bytes \<times> memory_storage" where
  "mem_read_at hook offset output s =
     (if \<not> view_valid output
      then (\<lparr>transferred = 0, io_status = Error Invalid_argument ''null non-empty memory read buffer''\<rparr>, [], s)
      else
        let call = read_calls (mem_counters s) + 1;
            s = s\<lparr>mem_counters := (mem_counters s)\<lparr>read_calls := call\<rparr>\<rparr>;
            n = view_size output;
            s = run_hook hook Op_read Hook_before call offset n s;
            (result, buffer, s) =
              (if unat offset > length (mem_volatile s) \<or> n > length (mem_volatile s) - unat offset
               then (\<lparr>transferred = 0, io_status = Error Out_of_range ''memory read outside image''\<rparr>,
                     view_bytes output, s)
               else let (transfer, status) =
                      fault_outcome (matching_fault (mem_faults s) Op_read call) n ''injected read fault''
                 in (\<lparr>transferred = transfer, io_status = status\<rparr>,
                     blit (view_bytes output) 0 (sub_bytes (mem_volatile s) (unat offset) transfer),
                     s\<lparr>mem_counters := (mem_counters s)
                         \<lparr>read_bytes := read_bytes (mem_counters s) + of_nat transfer\<rparr>\<rparr>));
            s = s\<lparr>mem_events := mem_events s @
                 [\<lparr>event_operation = Op_read, event_call = call, event_offset = offset, event_requested = n,
                   event_transferred = transferred result, event_result = code (io_status result)\<rparr>]\<rparr>;
            s = run_hook hook Op_read Hook_after call offset n s
        in (result, buffer, s))"

definition mem_write_at ::
  "storage_hook \<Rightarrow> u64 \<Rightarrow> byte_view \<Rightarrow> memory_storage \<Rightarrow> io_result \<times> memory_storage" where
  "mem_write_at hook offset input s =
     (if \<not> view_valid input
      then (\<lparr>transferred = 0, io_status = Error Invalid_argument ''null non-empty memory write buffer''\<rparr>, s)
      else
        let call = write_calls (mem_counters s) + 1;
            s = s\<lparr>mem_counters := (mem_counters s)\<lparr>write_calls := call\<rparr>\<rparr>;
            n = view_size input;
            s = run_hook hook Op_write Hook_before call offset n s;
            (result, s) =
              (if \<not> mem_writable s
               then (\<lparr>transferred = 0, io_status = Error Io_error ''memory storage is read-only''\<rparr>, s)
               else if unat offset > length (mem_volatile s) \<or> n > length (mem_volatile s) - unat offset
               then (\<lparr>transferred = 0, io_status = Error No_space ''memory write outside image''\<rparr>, s)
               else let (transfer, status) =
                      fault_outcome (matching_fault (mem_faults s) Op_write call) n ''injected write fault'';
                      bytes = take transfer (view_bytes input);
                      s = (if transfer \<noteq> 0
                           then s\<lparr>mem_volatile := blit (mem_volatile s) (unat offset) bytes,
                                  mem_dirty_writes := mem_dirty_writes s @
                                    [\<lparr>dirty_call = call, dirty_offset = offset, dirty_bytes = bytes\<rparr>]\<rparr>
                           else s)
                 in (\<lparr>transferred = transfer, io_status = status\<rparr>,
                     s\<lparr>mem_counters := (mem_counters s)
                         \<lparr>write_bytes := write_bytes (mem_counters s) + of_nat transfer\<rparr>\<rparr>));
            s = s\<lparr>mem_events := mem_events s @
                 [\<lparr>event_operation = Op_write, event_call = call, event_offset = offset, event_requested = n,
                   event_transferred = transferred result, event_result = code (io_status result)\<rparr>]\<rparr>;
            s = run_hook hook Op_write Hook_after call offset n s
        in (result, s))"

definition mem_flush :: "storage_hook \<Rightarrow> memory_storage \<Rightarrow> status \<times> memory_storage" where
  "mem_flush hook s =
     (let call = flush_calls (mem_counters s) + 1;
          s = s\<lparr>mem_counters := (mem_counters s)\<lparr>flush_calls := call\<rparr>\<rparr>;
          s = run_hook hook Op_flush Hook_before call 0 0 s;
          (status, s) =
            (case matching_fault (mem_faults s) Op_flush call of
               Some rule \<Rightarrow>
                 if fault_result rule \<noteq> St_ok
                 then (Error (fault_result rule) ''injected flush fault'', s)
                 else (Ok, s\<lparr>mem_durable := mem_volatile s, mem_dirty_writes := []\<rparr>)
             | None \<Rightarrow> (Ok, s\<lparr>mem_durable := mem_volatile s, mem_dirty_writes := []\<rparr>));
          s = s\<lparr>mem_events := mem_events s @
               [\<lparr>event_operation = Op_flush, event_call = call, event_offset = 0, event_requested = 0,
                 event_transferred = 0, event_result = code status\<rparr>]\<rparr>;
          s = run_hook hook Op_flush Hook_after call 0 0 s
      in (status, s))"

definition add_fault :: "fault_rule \<Rightarrow> memory_storage \<Rightarrow> memory_storage" where
  "add_fault rule s = s\<lparr>mem_faults := mem_faults s @ [rule]\<rparr>"

definition clear_faults :: "memory_storage \<Rightarrow> memory_storage" where
  "clear_faults s = s\<lparr>mem_faults := []\<rparr>"

definition crash_discard_volatile :: "memory_storage \<Rightarrow> memory_storage" where
  "crash_discard_volatile s = s\<lparr>mem_volatile := mem_durable s, mem_dirty_writes := []\<rparr>"

definition apply_dirty :: "dirty_write \<Rightarrow> bytes \<Rightarrow> bytes" where
  "apply_dirty w img = blit img (unat (dirty_offset w)) (dirty_bytes w)"

definition crash_persist_all_dirty :: "memory_storage \<Rightarrow> memory_storage" where
  "crash_persist_all_dirty s =
     (let durable = fold apply_dirty (mem_dirty_writes s) (mem_durable s)
      in s\<lparr>mem_durable := durable, mem_volatile := durable, mem_dirty_writes := []\<rparr>)"

definition select_fragment :: "memory_storage \<Rightarrow> write_fragment \<Rightarrow> status + dirty_write" where
  "select_fragment s fragment =
     (case find (\<lambda>w. dirty_call w = fragment_call fragment) (mem_dirty_writes s) of
        None \<Rightarrow> Inl (Error Invalid_argument ''invalid dirty write fragment'')
      | Some selected \<Rightarrow>
          if offset_in_write fragment > length (dirty_bytes selected) \<or>
             fragment_length fragment > length (dirty_bytes selected) - offset_in_write fragment
          then Inl (Error Invalid_argument ''invalid dirty write fragment'')
          else let destination = dirty_offset selected + of_nat (offset_in_write fragment) in
            if unat destination > length (mem_durable s) \<or>
               fragment_length fragment > length (mem_durable s) - unat destination
            then Inl (Error Out_of_range ''dirty fragment outside image'')
            else Inr selected)"

fun select_fragments :: "memory_storage \<Rightarrow> write_fragment list \<Rightarrow> status + dirty_write list" where
  "select_fragments s [] = Inr []"
| "select_fragments s (fragment # fragments) =
     (case select_fragment s fragment of
        Inl e \<Rightarrow> Inl e
      | Inr w \<Rightarrow> (case select_fragments s fragments of Inl e \<Rightarrow> Inl e | Inr ws \<Rightarrow> Inr (w # ws)))"

definition apply_fragment :: "write_fragment \<times> dirty_write \<Rightarrow> bytes \<Rightarrow> bytes" where
  "apply_fragment = (\<lambda>(fragment, selected) img.
     let destination = dirty_offset selected + of_nat (offset_in_write fragment) in
     blit img (unat destination)
       (sub_bytes (dirty_bytes selected) (offset_in_write fragment) (fragment_length fragment)))"

definition crash_materialize ::
  "write_fragment list \<Rightarrow> memory_storage \<Rightarrow> status \<times> memory_storage" where
  "crash_materialize fragments s =
     (case select_fragments s fragments of
        Inl e \<Rightarrow> (e, s)
      | Inr selected_writes \<Rightarrow>
          let materialized = fold apply_fragment (zip fragments selected_writes) (mem_durable s)
          in (Ok, s\<lparr>mem_durable := materialized, mem_volatile := materialized, mem_dirty_writes := []\<rparr>))"

definition corrupt_durable :: "u64 \<Rightarrow> u8 \<Rightarrow> memory_storage \<Rightarrow> status \<times> memory_storage" where
  "corrupt_durable offset xor_mask s =
     (if unat offset \<ge> length (mem_durable s)
      then (Error Out_of_range ''durable corruption outside image'', s)
      else (Ok, s\<lparr>mem_durable := (mem_durable s)[unat offset := xor (mem_durable s ! unat offset) xor_mask]\<rparr>))"

definition corrupt_volatile :: "u64 \<Rightarrow> u8 \<Rightarrow> memory_storage \<Rightarrow> status \<times> memory_storage" where
  "corrupt_volatile offset xor_mask s =
     (if unat offset \<ge> length (mem_volatile s)
      then (Error Out_of_range ''volatile corruption outside image'', s)
      else (Ok, s\<lparr>mem_volatile := (mem_volatile s)[unat offset := xor (mem_volatile s ! unat offset) xor_mask]\<rparr>))"

definition mem_reset_counters :: "memory_storage \<Rightarrow> memory_storage" where
  "mem_reset_counters s =
     s\<lparr>mem_counters := zero_counters, mem_events := [], mem_dirty_writes := []\<rparr>"

definition memory_backend :: "storage_hook \<Rightarrow> memory_storage storage" where
  "memory_backend hook =
     \<lparr>storage_size = mem_size, storage_writable = mem_writable, read_at = mem_read_at hook,
      write_at = mem_write_at hook, flush = mem_flush hook\<rparr>"

section \<open>The backend keeps the storage contract\<close>

definition mem_good :: "memory_storage \<Rightarrow> bool" where
  "mem_good s \<longleftrightarrow> length (mem_volatile s) < 2 ^ 64 \<and> length (mem_volatile s) = length (mem_durable s) \<and>
     length (mem_faults s) < 2 ^ 64"

text \<open>How many calls of an operation are interrupted in a row from a call number on.\<close>

definition interrupts :: "fault_rule list \<Rightarrow> storage_operation \<Rightarrow> u64 \<Rightarrow> bool" where
  "interrupts rules op call \<longleftrightarrow>
     (case matching_fault rules op call of None \<Rightarrow> False | Some r \<Rightarrow> fault_result r = Interrupted)"

definition stall :: "fault_rule list \<Rightarrow> storage_operation \<Rightarrow> u64 \<Rightarrow> nat" where
  "stall rules op calls = (LEAST k. \<not> interrupts rules op (calls + 1 + of_nat k))"

lemma interrupts_call: "interrupts rules op call \<Longrightarrow> call \<in> fault_call ` set rules"
  by (induction rules op call rule: matching_fault.induct)
    (auto simp: interrupts_def split: if_splits option.splits)

lemma some_call_not_interrupted:
  assumes "length rules < 2 ^ 64"
  shows "\<exists>k. \<not> interrupts rules op (calls + 1 + of_nat k)"
proof (rule ccontr)
  assume "\<nexists>k. \<not> interrupts rules op (calls + 1 + of_nat k)"
  then have "interrupts rules op (calls + 1 + of_nat (unat (w - (calls + 1))))" for w by blast
  then have "UNIV \<subseteq> fault_call ` set rules" by (force dest: interrupts_call)
  then have "card (UNIV :: u64 set) \<le> card (fault_call ` set rules)" by (intro card_mono) auto
  also have "\<dots> \<le> length rules" using card_image_le [of "set rules" fault_call] card_length [of rules] by simp
  finally show False using assms by (simp add: card_word)
qed

lemma stall_decreases:
  assumes "length rules < 2 ^ 64" "interrupts rules op (calls + 1)"
  shows "stall rules op (calls + 1) < stall rules op calls"
proof -
  let ?P = "\<lambda>k. \<not> interrupts rules op (calls + 1 + of_nat k)"
  have least: "?P (stall rules op calls)"
    unfolding stall_def using some_call_not_interrupted [OF assms(1)] by (rule LeastI_ex)
  then obtain k where k: "stall rules op calls = Suc k" using assms(2) by (cases "stall rules op calls") auto
  have "\<not> interrupts rules op (calls + 1 + 1 + of_nat k)" using least unfolding k by (simp add: algebra_simps)
  then have "stall rules op (calls + 1) \<le> k" unfolding stall_def by (rule Least_le)
  then show ?thesis by (simp add: k)
qed

lemma run_hook_None [simp]: "run_hook None op point call offset n s = s"
  by (simp add: run_hook_def)

lemma fault_outcome_cases:
  assumes "fault_outcome fault n msg = (t, status)"
  shows "t \<le> n \<and> (t \<noteq> 0 \<longrightarrow> status = Ok) \<and>
    (code status = Interrupted \<longrightarrow> (\<exists>r. fault = Some r \<and> fault_result r = Interrupted))"
  using assms by (auto simp: fault_outcome_def split: option.splits if_splits)

definition mem_read_stall :: "memory_storage \<Rightarrow> nat" where
  "mem_read_stall s = stall (mem_faults s) Op_read (read_calls (mem_counters s))"

definition mem_write_stall :: "memory_storage \<Rightarrow> nat" where
  "mem_write_stall s = stall (mem_faults s) Op_write (write_calls (mem_counters s))"

lemma mem_read_at_spec:
  assumes "mem_good s" "mem_read_at None off (View buf) s = (r, part, s')"
  shows "mem_good s' \<and> mem_volatile s' = mem_volatile s \<and> mem_durable s' = mem_durable s \<and>
    mem_dirty_writes s' = mem_dirty_writes s \<and>
    (transferred r \<noteq> 0 \<longrightarrow> status_ok (io_status r) \<and> unat off + length buf \<le> length (mem_volatile s)) \<and>
    transferred r \<le> length buf \<and>
    part = blit buf 0 (sub_bytes (mem_volatile s) (unat off) (transferred r)) \<and>
    (code (io_status r) = Interrupted \<longrightarrow> mem_read_stall s' < mem_read_stall s)"
proof -
  let ?f = "matching_fault (mem_faults s) Op_read (read_calls (mem_counters s) + 1)"
  obtain t status where o: "fault_outcome ?f (length buf) ''injected read fault'' = (t, status)"
    by fastforce
  note oc = fault_outcome_cases [OF o]
  have "code status = Interrupted \<Longrightarrow> interrupts (mem_faults s) Op_read (read_calls (mem_counters s) + 1)"
    using oc by (auto simp: interrupts_def)
  then have st: "code status = Interrupted \<Longrightarrow>
      stall (mem_faults s) Op_read (read_calls (mem_counters s) + 1) < stall (mem_faults s) Op_read (read_calls (mem_counters s))"
    using assms(1) by (intro stall_decreases) (auto simp: mem_good_def)
  show ?thesis
    using assms oc st o
    by (auto simp: mem_read_at_def Let_def mem_good_def mem_read_stall_def blit_def split: if_splits)
qed

lemma mem_write_at_spec:
  assumes "mem_good s" "mem_write_at None off (View buf) s = (r, s')"
  shows "mem_good s' \<and> mem_durable s' = mem_durable s \<and>
    (transferred r \<noteq> 0 \<longrightarrow> status_ok (io_status r) \<and> unat off + length buf \<le> length (mem_volatile s)) \<and>
    transferred r \<le> length buf \<and>
    mem_volatile s' = blit (mem_volatile s) (unat off) (take (transferred r) buf) \<and>
    mem_dirty_writes s' = mem_dirty_writes s @ (if transferred r = 0 then [] else
      [\<lparr>dirty_call = write_calls (mem_counters s) + 1, dirty_offset = off, dirty_bytes = take (transferred r) buf\<rparr>]) \<and>
    (code (io_status r) = Interrupted \<longrightarrow> mem_write_stall s' < mem_write_stall s)"
proof -
  let ?f = "matching_fault (mem_faults s) Op_write (write_calls (mem_counters s) + 1)"
  obtain t status where o: "fault_outcome ?f (length buf) ''injected write fault'' = (t, status)"
    by fastforce
  note oc = fault_outcome_cases [OF o]
  have "code status = Interrupted \<Longrightarrow> interrupts (mem_faults s) Op_write (write_calls (mem_counters s) + 1)"
    using oc by (auto simp: interrupts_def)
  then have st: "code status = Interrupted \<Longrightarrow>
      stall (mem_faults s) Op_write (write_calls (mem_counters s) + 1) < stall (mem_faults s) Op_write (write_calls (mem_counters s))"
    using assms(1) by (intro stall_decreases) (auto simp: mem_good_def)
  have same: "blit xs k [] = xs" for xs :: bytes and k by (simp add: blit_def)
  consider (refused) "\<not> mem_writable s \<or> unat off > length (mem_volatile s) \<or>
      length buf > length (mem_volatile s) - unat off"
    | (inside) "mem_writable s" "unat off + length buf \<le> length (mem_volatile s)"
    by fastforce
  then show ?thesis
  proof cases
    case refused
    then show ?thesis using assms same
      by (auto simp: mem_write_at_def Let_def mem_good_def split: if_splits)
  next
    case inside
    then have "\<not> (unat off > length (mem_volatile s) \<or> length buf > length (mem_volatile s) - unat off)"
      by linarith
    with inside assms oc st o same show ?thesis
      by (cases "t = 0")
        (auto simp: mem_write_at_def Let_def mem_good_def mem_write_stall_def)
  qed
qed

lemma mem_flush_spec:
  assumes "mem_good s" "mem_flush None s = (r, s')"
  shows "mem_good s' \<and> mem_volatile s' = mem_volatile s \<and>
    mem_durable s' = (if status_ok r then mem_volatile s else mem_durable s) \<and>
    mem_dirty_writes s' = (if status_ok r then [] else mem_dirty_writes s)"
  using assms by (auto simp: mem_flush_def Let_def mem_good_def split: option.splits if_splits)

interpretation mem: storage_contract "memory_backend None" mem_volatile mem_durable mem_good
  mem_read_stall mem_write_stall
proof
  show "unat (storage_size (memory_backend None) s) = length (mem_volatile s)" if "mem_good s" for s
    using that by (simp add: memory_backend_def mem_size_def mem_good_def unat_of_nat)
  fix s off buf r part s' fs
  assume good: "mem_good s"
  {
    assume "read_at (memory_backend None) off (View buf) s = (r, part, s')"
    note spec = mem_read_at_spec [OF good this [unfolded memory_backend_def, simplified]]
    show "mem_good s' \<and> mem_volatile s' = mem_volatile s \<and> mem_durable s' = mem_durable s \<and>
        (transferred r \<noteq> 0 \<longrightarrow> status_ok (io_status r) \<and> unat off + length buf \<le> length (mem_volatile s)) \<and>
        transferred r \<le> length buf \<and>
        part = blit buf 0 (sub_bytes (mem_volatile s) (unat off) (transferred r))"
      using spec by blast
    show "mem_read_stall s' < mem_read_stall s" if "code (io_status r) = Interrupted"
      using spec that by blast
  }
  {
    assume "write_at (memory_backend None) off (View buf) s = (r, s')"
    note spec = mem_write_at_spec [OF good this [unfolded memory_backend_def, simplified]]
    show "mem_good s' \<and> mem_durable s' = mem_durable s \<and>
        (transferred r \<noteq> 0 \<longrightarrow> status_ok (io_status r) \<and> unat off + length buf \<le> length (mem_volatile s)) \<and>
        transferred r \<le> length buf \<and>
        mem_volatile s' = blit (mem_volatile s) (unat off) (take (transferred r) buf)"
      using spec by blast
    show "mem_write_stall s' < mem_write_stall s" if "code (io_status r) = Interrupted"
      using spec that by blast
  }
  assume "flush (memory_backend None) s = (fs, s')"
  then show "mem_good s' \<and> mem_volatile s' = mem_volatile s \<and>
      mem_durable s' = (if status_ok fs then mem_volatile s else mem_durable s)"
    using mem_flush_spec [OF good, of fs s'] by (simp add: memory_backend_def)
qed

section \<open>Histories and crashes\<close>

text \<open>Every operation of the backend that changes its state, under any faults.\<close>

inductive mem_step :: "memory_storage \<Rightarrow> memory_storage \<Rightarrow> bool" where
  read: "mem_read_at None off (View buf) s = (r, part, s') \<Longrightarrow> mem_step s s'"
| transfer: "mem_write_at None off (View buf) s = (r, s') \<Longrightarrow> mem_step s s'"
| flush: "mem_flush None s = (fs, s') \<Longrightarrow> mem_step s s'"
| add_fault: "length (mem_faults s) + 1 < 2 ^ 64 \<Longrightarrow> mem_step s (add_fault rule s)"
| clear_faults: "mem_step s (clear_faults s)"
| discard: "mem_step s (crash_discard_volatile s)"
| persist: "mem_step s (crash_persist_all_dirty s)"
| materialize: "crash_materialize fragments s = (fs, s') \<Longrightarrow> mem_step s s'"
| corrupt_durable: "corrupt_durable off bits s = (fs, s') \<Longrightarrow> mem_step s s'"
| corrupt_volatile: "corrupt_volatile off bits s = (fs, s') \<Longrightarrow> mem_step s s'"
| reset: "mem_step s (mem_reset_counters s)"

text \<open>Whatever happens, the unflushed writes that the backend remembers lie within the image.\<close>

definition mem_bounded :: "memory_storage \<Rightarrow> bool" where
  "mem_bounded s \<longleftrightarrow> mem_good s \<and>
     (\<forall>w \<in> set (mem_dirty_writes s). unat (dirty_offset w) + length (dirty_bytes w) \<le> length (mem_durable s))"

lemma length_fold_apply_dirty [simp]: "length (fold apply_dirty ws img) = length img"
  by (induction ws arbitrary: img) (simp_all add: apply_dirty_def)

lemma length_fold_apply_fragment [simp]: "length (fold apply_fragment fs img) = length img"
  by (induction fs arbitrary: img) (simp_all add: apply_fragment_def split_beta Let_def)

lemma mem_step_bounded: "mem_step s s' \<Longrightarrow> mem_bounded s \<Longrightarrow> mem_bounded s'"
proof (induction rule: mem_step.induct)
  case (read off buf s r part s')
  then show ?case using mem_read_at_spec [of s off buf r part s'] by (auto simp: mem_bounded_def)
next
  case (transfer off buf s r s')
  then show ?case
    using mem_write_at_spec [of s off buf r s'] by (auto simp: mem_bounded_def mem_good_def)
next
  case (flush s fs s')
  then show ?case using mem_flush_spec [of s fs s'] by (auto simp: mem_bounded_def mem_good_def split: if_splits)
next
  case (materialize fragments s fs s')
  then show ?case
    by (auto simp: mem_bounded_def mem_good_def crash_materialize_def Let_def split: sum.splits)
qed (auto simp: mem_bounded_def mem_good_def add_fault_def clear_faults_def crash_discard_volatile_def
    crash_persist_all_dirty_def corrupt_durable_def corrupt_volatile_def mem_reset_counters_def Let_def split: if_splits)

lemma mem_reachable_bounded:
  assumes "mem_step\<^sup>*\<^sup>* (new_memory_storage sz w) s"
  shows "mem_bounded s"
  using assms
proof (induction rule: rtranclp_induct)
  case base
  show ?case using unat_u64_less [of sz] by (simp add: mem_bounded_def mem_good_def new_memory_storage_def)
qed (rule mem_step_bounded)

text \<open>What may happen between a flush and a crash: transfers, flushes that fail, and changes of the fault
  rules. Corruption and counter resets are not among them: they break the link between the images and the
  remembered writes on purpose.\<close>

inductive unflushed_step :: "memory_storage \<Rightarrow> memory_storage \<Rightarrow> bool" where
  read: "mem_read_at None off (View buf) s = (r, part, s') \<Longrightarrow> unflushed_step s s'"
| transfer: "mem_write_at None off (View buf) s = (r, s') \<Longrightarrow> unflushed_step s s'"
| flush_fails: "mem_flush None s = (fs, s') \<Longrightarrow> \<not> status_ok fs \<Longrightarrow> unflushed_step s s'"
| add_fault: "length (mem_faults s) + 1 < 2 ^ 64 \<Longrightarrow> unflushed_step s (add_fault rule s)"
| clear_faults: "unflushed_step s (clear_faults s)"

text \<open>Then the durable image stays, and the remembered writes, replayed on it, give what reads show.\<close>

definition replays :: "bytes \<Rightarrow> memory_storage \<Rightarrow> bool" where
  "replays img s \<longleftrightarrow> mem_good s \<and> mem_durable s = img \<and> mem_volatile s = fold apply_dirty (mem_dirty_writes s) img"

lemma unflushed_step_replays: "unflushed_step s s' \<Longrightarrow> replays img s \<Longrightarrow> replays img s'"
proof (induction rule: unflushed_step.induct)
  case (read off buf s r part s')
  then show ?case using mem_read_at_spec [of s off buf r part s'] by (auto simp: replays_def)
next
  case (transfer off buf s r s')
  then have good: "mem_good s" by (simp add: replays_def)
  note spec = mem_write_at_spec [OF good transfer(1)]
  then have "mem_volatile s' = fold apply_dirty (mem_dirty_writes s') img"
    using transfer(2) by (cases "transferred r = 0") (simp_all add: replays_def apply_dirty_def blit_def)
  then show ?case using spec transfer(2) by (simp add: replays_def)
next
  case (flush_fails s fs s')
  then show ?case using mem_flush_spec [of s fs s'] by (auto simp: replays_def)
qed (auto simp: replays_def mem_good_def add_fault_def clear_faults_def)

lemma unflushed_replays: "unflushed_step\<^sup>*\<^sup>* s s' \<Longrightarrow> replays img s \<Longrightarrow> replays img s'"
  by (induction rule: rtranclp_induct) (auto intro: unflushed_step_replays)

text \<open>A byte of a torn image is an old durable byte or a byte an unflushed write put there.\<close>

definition from_dirty :: "dirty_write list \<Rightarrow> nat \<Rightarrow> u8 \<Rightarrow> bool" where
  "from_dirty ws i b \<longleftrightarrow> (\<exists>w \<in> set ws. unat (dirty_offset w) \<le> i \<and>
     i < unat (dirty_offset w) + length (dirty_bytes w) \<and> b = dirty_bytes w ! (i - unat (dirty_offset w)))"

lemma select_fragments_dirty:
  "select_fragments s fs = Inr ws \<Longrightarrow> (f, w) \<in> set (zip fs ws) \<Longrightarrow>
    w \<in> set (mem_dirty_writes s) \<and> offset_in_write f + fragment_length f \<le> length (dirty_bytes w)"
proof (induction fs arbitrary: ws)
  case (Cons f' fs)
  then show ?case
    by (auto simp: select_fragment_def find_Some_iff Let_def split: sum.splits option.splits if_splits)
qed simp

lemma select_fragments_error: "select_fragments s fs = Inl e \<Longrightarrow> \<not> status_ok e"
proof (induction fs)
  case (Cons f fs)
  show ?case
  proof (cases "select_fragment s f")
    case (Inl e')
    then have "\<not> status_ok e'"
      by (auto simp: select_fragment_def Let_def split: option.splits if_splits)
    with Inl Cons.prems show ?thesis by simp
  next
    case (Inr w)
    with Cons show ?thesis by (auto split: sum.splits)
  qed
qed simp

lemma apply_fragment_nth:
  assumes "offset_in_write f + fragment_length f \<le> length (dirty_bytes w)" "w \<in> set ws"
    and "unat (dirty_offset w) + length (dirty_bytes w) \<le> length img" "length img < 2 ^ 64"
    and "i < length img"
  shows "apply_fragment (f, w) img ! i = img ! i \<or> from_dirty ws i (apply_fragment (f, w) img ! i)"
proof -
  have d: "unat (dirty_offset w + of_nat (offset_in_write f)) = unat (dirty_offset w) + offset_in_write f"
    using assms(1,3,4) by (intro mem.unat_offset) simp
  let ?o = "unat (dirty_offset w) + offset_in_write f"
  show ?thesis
  proof (cases "?o \<le> i \<and> i < ?o + fragment_length f")
    case True
    then obtain j where j: "i = ?o + j" "j < fragment_length f" using le_Suc_ex by auto
    then have "apply_fragment (f, w) img ! i = dirty_bytes w ! (i - unat (dirty_offset w))"
      using assms(1,5) by (simp add: apply_fragment_def Let_def d nth_blit)
    moreover have "unat (dirty_offset w) \<le> i" "i < unat (dirty_offset w) + length (dirty_bytes w)"
      using True assms(1) by auto
    ultimately show ?thesis using assms(2) by (auto simp: from_dirty_def)
  next
    case False
    then show ?thesis using assms(1,5) by (auto simp: apply_fragment_def Let_def d nth_blit)
  qed
qed

lemma fold_apply_fragment_nth:
  assumes "\<And>f w. (f, w) \<in> set fws \<Longrightarrow> w \<in> set ws \<and> offset_in_write f + fragment_length f \<le> length (dirty_bytes w) \<and>
      unat (dirty_offset w) + length (dirty_bytes w) \<le> length img"
    and "length img < 2 ^ 64" "i < length img"
  shows "fold apply_fragment fws img ! i = img ! i \<or> from_dirty ws i (fold apply_fragment fws img ! i)"
  using assms
proof (induction fws arbitrary: img)
  case (Cons fw fws)
  obtain f w where fw: "fw = (f, w)" by fastforce
  let ?img = "apply_fragment (f, w) img"
  have len: "length ?img = length img" by (simp add: apply_fragment_def Let_def)
  have "fold apply_fragment fws ?img ! i = ?img ! i \<or> from_dirty ws i (fold apply_fragment fws ?img ! i)"
    using Cons.prems by (intro Cons.IH) (auto simp: len)
  moreover have "?img ! i = img ! i \<or> from_dirty ws i (?img ! i)"
    using Cons.prems(1) [of f w] Cons.prems(2,3) fw by (intro apply_fragment_nth) auto
  ultimately show ?case by (auto simp: fw)
qed simp

section \<open>Properties\<close>

text \<open>C28: Exact transfers over the in-memory backend return under every set of injected faults,
  short transfers and interruptions included, and when a write and a later read of the same range
  both report success the read delivers the bytes written.\<close>

theorem memory_exact_transfers:
  assumes "mem_good s"
  shows "\<exists>r s'. write_exact (memory_backend None) off (View buf) s = Some (r, s') \<and>
    (\<exists>r' out s''. read_exact (memory_backend None) off (View (replicate (length buf) 0)) s' = Some (r', out, s'') \<and>
      (status_ok r \<and> status_ok r' \<longrightarrow> out = buf))"
proof -
  obtain r s' where w: "write_exact (memory_backend None) off (View buf) s = Some (r, s')" "mem_good s'"
    using mem.write_exact_correct [OF assms] by metis
  moreover obtain r' out s'' where
    "read_exact (memory_backend None) off (View (replicate (length buf) 0)) s' = Some (r', out, s'')"
    using mem.read_exact_correct [OF w(2)] by metis
  ultimately show ?thesis using mem.write_read_exact [OF assms w(1)] by fastforce
qed

theorem memory_exact_transfers_witness:
  "\<exists>r s'. write_exact (memory_backend None) 1 (View [5, 6]) (add_fault \<lparr>fault_operation = Op_write,
      fault_call = 1, transfer_before_error = 0, fault_result = Interrupted\<rparr> (new_memory_storage 4 True)) = Some (r, s') \<and>
    (\<exists>r' out s''. read_exact (memory_backend None) 1 (View (replicate (length [5, 6 :: u8]) 0)) s' = Some (r', out, s'') \<and>
      (status_ok r \<and> status_ok r' \<longrightarrow> out = [5, 6]))"
  by (rule memory_exact_transfers) (simp add: mem_good_def add_fault_def new_memory_storage_def)

text \<open>C29: what a crash leaves. After any history of the backend, take a flush that succeeds and then any
  transfers, under any faults, with flushes that fail: a crash that discards the unflushed writes leaves,
  durable and for reads, exactly what reads showed at the flush, and a crash that persists them exactly
  what reads showed at the crash. The history before the flush may hold crashes, corruption and counter
  resets; after the flush there is none of these.\<close>

theorem memory_crash_images:
  assumes history: "mem_step\<^sup>*\<^sup>* (new_memory_storage sz w) s1" and flushed: "mem_flush None s1 = (fs, s2)" "status_ok fs"
    and later: "unflushed_step\<^sup>*\<^sup>* s2 s"
  shows "mem_volatile (crash_discard_volatile s) = mem_volatile s1 \<and> mem_durable (crash_discard_volatile s) = mem_volatile s1 \<and>
    mem_volatile (crash_persist_all_dirty s) = mem_volatile s \<and> mem_durable (crash_persist_all_dirty s) = mem_volatile s"
proof -
  have "mem_good s1" using mem_reachable_bounded [OF history] by (simp add: mem_bounded_def)
  then have "replays (mem_volatile s1) s2" using mem_flush_spec [OF _ flushed(1)] flushed(2) by (simp add: replays_def)
  from unflushed_replays [OF later this] show ?thesis
    by (simp add: replays_def crash_discard_volatile_def crash_persist_all_dirty_def Let_def)
qed

theorem memory_crash_images_witness:
  "\<exists>s1 s2 s. snd (mem_write_at None 1 (View [5, 6]) (new_memory_storage 4 True)) = s1 \<and> mem_flush None s1 = (Ok, s2) \<and>
    snd (mem_write_at None 2 (View [7]) s2) = s \<and> mem_volatile s = [0, 5, 7, 0] \<and>
    mem_durable (crash_discard_volatile s) = [0, 5, 6, 0] \<and> mem_durable (crash_persist_all_dirty s) = [0, 5, 7, 0]"
proof -
  let ?s1 = "snd (mem_write_at None 1 (View [5, 6]) (new_memory_storage 4 True))"
  let ?s2 = "snd (mem_flush None ?s1)"
  let ?s = "snd (mem_write_at None 2 (View [7]) ?s2)"
  have f: "mem_flush None ?s1 = (Ok, ?s2)" and v: "mem_volatile ?s1 = [0, 5, 6, 0]" "mem_volatile ?s = [0, 5, 7, 0]" by code_simp+
  have h: "mem_step\<^sup>*\<^sup>* (new_memory_storage 4 True) ?s1"
    using mem_step.transfer [OF prod.collapse [symmetric]] by (rule r_into_rtranclp)
  have l: "unflushed_step\<^sup>*\<^sup>* ?s2 ?s" using unflushed_step.transfer [OF prod.collapse [symmetric]] by (rule r_into_rtranclp)
  from memory_crash_images [OF h f _ l] f v show ?thesis by (metis status_ok_simps(1))
qed

text \<open>C30: a crash that materialises chosen fragments of the unflushed writes, in any order, after any
  history of the backend, fails without changing anything or leaves an image in which every byte is the
  old durable byte or a byte that an unflushed write put at that place.\<close>

theorem memory_torn_image:
  assumes "mem_step\<^sup>*\<^sup>* (new_memory_storage sz w) s" and "crash_materialize fragments s = (r, s')"
  shows "if status_ok r
    then mem_volatile s' = mem_durable s' \<and> length (mem_durable s') = length (mem_durable s) \<and>
      (\<forall>i. i < length (mem_durable s) \<longrightarrow> mem_durable s' ! i = mem_durable s ! i \<or>
        from_dirty (mem_dirty_writes s) i (mem_durable s' ! i))
    else s' = s"
proof (cases "select_fragments s fragments")
  case (Inl e)
  then have "\<not> status_ok e" by (rule select_fragments_error)
  with Inl show ?thesis using assms(2) by (auto simp: crash_materialize_def)
next
  case (Inr ws)
  have bounded: "mem_bounded s" by (rule mem_reachable_bounded [OF assms(1)])
  let ?img = "fold apply_fragment (zip fragments ws) (mem_durable s)"
  have "\<forall>i. i < length (mem_durable s) \<longrightarrow> ?img ! i = mem_durable s ! i \<or>
      from_dirty (mem_dirty_writes s) i (?img ! i)"
    using bounded select_fragments_dirty [OF Inr]
    by (intro allI impI fold_apply_fragment_nth) (auto simp: mem_bounded_def mem_good_def)
  moreover have "r = Ok" "mem_durable s' = ?img" "mem_volatile s' = ?img"
    using Inr assms(2) by (auto simp: crash_materialize_def Let_def)
  ultimately show ?thesis by simp
qed

theorem memory_torn_image_witness:
  "\<exists>s r s'. snd (mem_write_at None 1 (View [1, 2, 3]) (new_memory_storage 4 True)) = s \<and>
    crash_materialize [\<lparr>fragment_call = 1, offset_in_write = 1, fragment_length = 1\<rparr>] s = (r, s') \<and> status_ok r \<and>
    mem_durable s' = [0, 0, 2, 0] \<and> from_dirty (mem_dirty_writes s) 2 (mem_durable s' ! 2)"
proof -
  let ?s = "snd (mem_write_at None 1 (View [1, 2, 3]) (new_memory_storage 4 True))"
  let ?m = "crash_materialize [\<lparr>fragment_call = 1, offset_in_write = 1, fragment_length = 1\<rparr>] ?s"
  have m: "?m = (fst ?m, snd ?m)" by simp
  have e: "status_ok (fst ?m)" "mem_durable (snd ?m) = [0, 0, 2, 0]" "mem_durable ?s = [0, 0, 0, 0]" by code_simp+
  have h: "mem_step\<^sup>*\<^sup>* (new_memory_storage 4 True) ?s"
    using mem_step.transfer [OF prod.collapse [symmetric]] by (rule r_into_rtranclp)
  from memory_torn_image [OF h m] e have "from_dirty (mem_dirty_writes ?s) 2 (mem_durable (snd ?m) ! 2)"
    by (auto dest!: spec [of _ 2])
  then show ?thesis using m e by metis
qed

end
