(* ===== verification/Counting_Storage.thy ===== *)
theory Counting_Storage
  imports Memory_Storage
begin

text \<open>
  The counting decorator (include/tfdb/counting_storage.hpp, src/counting_storage.cpp): a backend
  that forwards every call to its delegate and counts calls and transferred bytes. It keeps the
  contract of whatever it wraps: the locale \<open>counted_backend\<close> extends \<open>storage_contract\<close> of the
  delegate and is a sublocale instance of the same contract on the wrapped state.
\<close>

record 's counting_storage =
  counting_delegate :: 's
  counting_counters :: storage_counters

definition counting_read_at ::
  "'s storage \<Rightarrow> u64 \<Rightarrow> byte_view \<Rightarrow> 's counting_storage \<Rightarrow> io_result \<times> bytes \<times> 's counting_storage" where
  "counting_read_at delegate offset output s =
     (let (result, buffer, d) = read_at delegate offset output (counting_delegate s);
          c = counting_counters s
      in (result, buffer,
          \<lparr>counting_delegate = d,
           counting_counters = c\<lparr>read_calls := read_calls c + 1,
             read_bytes := read_bytes c + of_nat (transferred result)\<rparr>\<rparr>))"

definition counting_write_at ::
  "'s storage \<Rightarrow> u64 \<Rightarrow> byte_view \<Rightarrow> 's counting_storage \<Rightarrow> io_result \<times> 's counting_storage" where
  "counting_write_at delegate offset input s =
     (let (result, d) = write_at delegate offset input (counting_delegate s);
          c = counting_counters s
      in (result,
          \<lparr>counting_delegate = d,
           counting_counters = c\<lparr>write_calls := write_calls c + 1,
             write_bytes := write_bytes c + of_nat (transferred result)\<rparr>\<rparr>))"

definition counting_flush :: "'s storage \<Rightarrow> 's counting_storage \<Rightarrow> status \<times> 's counting_storage" where
  "counting_flush delegate s =
     (let (status, d) = flush delegate (counting_delegate s);
          c = counting_counters s
      in (status, \<lparr>counting_delegate = d, counting_counters = c\<lparr>flush_calls := flush_calls c + 1\<rparr>\<rparr>))"

definition counting_reset_counters :: "'s counting_storage \<Rightarrow> 's counting_storage" where
  "counting_reset_counters s = s\<lparr>counting_counters := zero_counters\<rparr>"

definition counting_backend :: "'s storage \<Rightarrow> 's counting_storage storage" where
  "counting_backend delegate =
     \<lparr>storage_size = (\<lambda>s. storage_size delegate (counting_delegate s)),
      storage_writable = (\<lambda>s. storage_writable delegate (counting_delegate s)),
      read_at = counting_read_at delegate,
      write_at = counting_write_at delegate,
      flush = counting_flush delegate\<rparr>"

text \<open>Every call of the wrapper is one call of the delegate with the same result.\<close>

lemma counting_read_at_delegate:
  "read_at (counting_backend delegate) offset v s = (r, b, s') \<Longrightarrow>
    read_at delegate offset v (counting_delegate s) = (r, b, counting_delegate s')"
  by (auto simp: counting_backend_def counting_read_at_def Let_def split: prod.splits)

lemma counting_write_at_delegate:
  "write_at (counting_backend delegate) offset v s = (r, s') \<Longrightarrow>
    write_at delegate offset v (counting_delegate s) = (r, counting_delegate s')"
  by (auto simp: counting_backend_def counting_write_at_def Let_def split: prod.splits)

lemma counting_flush_delegate:
  "flush (counting_backend delegate) s = (r, s') \<Longrightarrow>
    flush delegate (counting_delegate s) = (r, counting_delegate s')"
  by (auto simp: counting_backend_def counting_flush_def Let_def split: prod.splits)

locale counted_backend = storage_contract st image durable good read_stall write_stall
  for st :: "'s storage" and image durable good read_stall write_stall

sublocale counted_backend \<subseteq> counted: storage_contract "counting_backend st"
  "\<lambda>s. image (counting_delegate s)" "\<lambda>s. durable (counting_delegate s)"
  "\<lambda>s. good (counting_delegate s)" "\<lambda>s. read_stall (counting_delegate s)"
  "\<lambda>s. write_stall (counting_delegate s)"
proof
  fix s s' :: "'s counting_storage" and off buf r part fs
  assume good: "good (counting_delegate s)"
  show "unat (storage_size (counting_backend st) s) = length (image (counting_delegate s))"
    using size_image [OF good] by (simp add: counting_backend_def)
  {
    assume "read_at (counting_backend st) off (View buf) s = (r, part, s')"
    note d = counting_read_at_delegate [OF this]
    show "good (counting_delegate s') \<and> image (counting_delegate s') = image (counting_delegate s) \<and>
        durable (counting_delegate s') = durable (counting_delegate s) \<and>
        (transferred r \<noteq> 0 \<longrightarrow> status_ok (io_status r) \<and>
          unat off + length buf \<le> length (image (counting_delegate s))) \<and>
        transferred r \<le> length buf \<and>
        part = blit buf 0 (sub_bytes (image (counting_delegate s)) (unat off) (transferred r))"
      by (rule read_ok [OF good d])
    show "read_stall (counting_delegate s') < read_stall (counting_delegate s)"
      if "code (io_status r) = Interrupted"
      by (rule read_stall [OF good d that])
  }
  {
    assume "write_at (counting_backend st) off (View buf) s = (r, s')"
    note d = counting_write_at_delegate [OF this]
    show "good (counting_delegate s') \<and> durable (counting_delegate s') = durable (counting_delegate s) \<and>
        (transferred r \<noteq> 0 \<longrightarrow> status_ok (io_status r) \<and>
          unat off + length buf \<le> length (image (counting_delegate s))) \<and>
        transferred r \<le> length buf \<and>
        image (counting_delegate s') = blit (image (counting_delegate s)) (unat off) (take (transferred r) buf)"
      by (rule write_ok [OF good d])
    show "write_stall (counting_delegate s') < write_stall (counting_delegate s)"
      if "code (io_status r) = Interrupted"
      by (rule write_stall [OF good d that])
  }
  assume "flush (counting_backend st) s = (fs, s')"
  note d = counting_flush_delegate [OF this]
  show "good (counting_delegate s') \<and> image (counting_delegate s') = image (counting_delegate s) \<and>
      durable (counting_delegate s') =
        (if status_ok fs then image (counting_delegate s) else durable (counting_delegate s))"
    by (rule flush_ok [OF good d])
qed

interpretation counted_mem: counted_backend "memory_backend None" mem_volatile mem_durable mem_good
  mem_read_stall mem_write_stall ..

text \<open>C33: Wrapped around the in-memory backend, the counting backend does to the delegate exactly
  what a direct call does, and its counters stay equal to those the delegate keeps of itself through
  every read, write and flush with a valid buffer.\<close>

theorem counting_agrees_with_memory:
  assumes "view_valid v" and "counting_counters s = mem_counters (counting_delegate s)"
  shows "(\<lambda>(r, b, s'). counting_counters s' = mem_counters (counting_delegate s') \<and>
        mem_read_at None off v (counting_delegate s) = (r, b, counting_delegate s'))
      (read_at (counting_backend (memory_backend None)) off v s) \<and>
    (\<lambda>(r, s'). counting_counters s' = mem_counters (counting_delegate s') \<and>
        mem_write_at None off v (counting_delegate s) = (r, counting_delegate s'))
      (write_at (counting_backend (memory_backend None)) off v s) \<and>
    (\<lambda>(r, s'). counting_counters s' = mem_counters (counting_delegate s') \<and>
        mem_flush None (counting_delegate s) = (r, counting_delegate s'))
      (flush (counting_backend (memory_backend None)) s)"
proof (intro conjI)
  show "(\<lambda>(r, b, s'). counting_counters s' = mem_counters (counting_delegate s') \<and>
        mem_read_at None off v (counting_delegate s) = (r, b, counting_delegate s'))
      (read_at (counting_backend (memory_backend None)) off v s)"
    using assms
    by (simp add: counting_backend_def counting_read_at_def memory_backend_def mem_read_at_def Let_def
        split: prod.split)
  show "(\<lambda>(r, s'). counting_counters s' = mem_counters (counting_delegate s') \<and>
        mem_write_at None off v (counting_delegate s) = (r, counting_delegate s'))
      (write_at (counting_backend (memory_backend None)) off v s)"
    using assms
    by (simp add: counting_backend_def counting_write_at_def memory_backend_def mem_write_at_def Let_def
        split: prod.split)
  show "(\<lambda>(r, s'). counting_counters s' = mem_counters (counting_delegate s') \<and>
        mem_flush None (counting_delegate s) = (r, counting_delegate s'))
      (flush (counting_backend (memory_backend None)) s)"
    using assms
    by (simp add: counting_backend_def counting_flush_def memory_backend_def mem_flush_def Let_def
        split: prod.split option.split)
qed

theorem counting_agrees_with_memory_witness:
  "let s = \<lparr>counting_delegate = new_memory_storage 4 True, counting_counters = zero_counters\<rparr> in
    (\<lambda>(r, s'). counting_counters s' = mem_counters (counting_delegate s') \<and>
        mem_write_at None 1 (View [9]) (counting_delegate s) = (r, counting_delegate s'))
      (write_at (counting_backend (memory_backend None)) 1 (View [9]) s)"
  using counting_agrees_with_memory [of "View [9]"
      "\<lparr>counting_delegate = new_memory_storage 4 True, counting_counters = zero_counters\<rparr>" 1]
  by (simp add: new_memory_storage_def Let_def)

end
