(* ===== verification/File_Storage.thy ===== *)
theory File_Storage
  imports Storage
begin

text \<open>
  The file backend (include/tfdb/storage.hpp, src/storage_posix.cpp, \<open>FileStorage\<close>). The system calls
  it makes are the kernel's: \<open>'k posix\<close> is a record of them over a state \<open>'k\<close> of the kernel, an
  argument of every operation. A call returns its result or the \<open>errno\<close> it set. The loops around
  \<open>fsync\<close> and \<open>fdatasync\<close> retry while the call is interrupted, so they are partial functions into
  \<open>option\<close>. What the backend relies on is stated in two locales: \<open>posix_file\<close>, what positional
  transfers and \<open>fdatasync\<close> do to an open file, and \<open>posix_descriptors\<close>, what calls do to the set of
  open descriptors.
\<close>

section \<open>System calls\<close>

datatype errno = EINTR | ENOSPC | EDQUOT | EINVAL | EAGAIN | Errno nat

text \<open>\<open>EWOULDBLOCK\<close> is \<open>EAGAIN\<close> on Linux.\<close>

datatype open_flag = O_RDONLY | O_RDWR | O_CREAT | O_EXCL | O_DIRECTORY | O_CLOEXEC

datatype file_kind = Regular_file | Block_device | Other_file

record file_stat =
  st_kind :: file_kind
  st_size :: i64

record 'k posix =
  sys_open :: "string \<Rightarrow> open_flag list \<Rightarrow> nat \<Rightarrow> 'k \<Rightarrow> (errno + int) \<times> 'k"
  sys_close :: "int \<Rightarrow> 'k \<Rightarrow> 'k"
  sys_flock :: "int \<Rightarrow> 'k \<Rightarrow> errno option \<times> 'k"
  sys_fstat :: "int \<Rightarrow> 'k \<Rightarrow> (errno + file_stat) \<times> 'k"
  sys_blkgetsize64 :: "int \<Rightarrow> 'k \<Rightarrow> (errno + u64) \<times> 'k"
  sys_ftruncate :: "int \<Rightarrow> u64 \<Rightarrow> 'k \<Rightarrow> errno option \<times> 'k"
  sys_fallocate :: "int \<Rightarrow> u64 \<Rightarrow> 'k \<Rightarrow> errno option \<times> 'k"
  sys_fdatasync :: "int \<Rightarrow> 'k \<Rightarrow> errno option \<times> 'k"
  sys_fsync :: "int \<Rightarrow> 'k \<Rightarrow> errno option \<times> 'k"
  sys_pread :: "int \<Rightarrow> nat \<Rightarrow> u64 \<Rightarrow> 'k \<Rightarrow> (errno + bytes) \<times> 'k"
  sys_pwrite :: "int \<Rightarrow> bytes \<Rightarrow> u64 \<Rightarrow> 'k \<Rightarrow> (errno + nat) \<times> 'k"
  sys_strerror :: "errno \<Rightarrow> string"

definition int64_max :: nat where
  "int64_max = 2 ^ 63 - 1"

section \<open>Helpers\<close>

definition errno_code :: "errno \<Rightarrow> status_code" where
  "errno_code error =
     (if error = EAGAIN then Busy
      else if error = EINVAL then Invalid_argument
      else if error = ENOSPC \<or> error = EDQUOT then No_space
      else if error = EINTR then Interrupted
      else Io_error)"

definition errno_status :: "'k posix \<Rightarrow> string \<Rightarrow> errno \<Rightarrow> status" where
  "errno_status px operation error = Error (errno_code error) (operation @ '': '' @ sys_strerror px error)"

definition lock_writer :: "'k posix \<Rightarrow> int \<Rightarrow> 'k \<Rightarrow> status \<times> 'k" where
  "lock_writer px fd k =
     (case sys_flock px fd k of
        (Some e, k) \<Rightarrow> (errno_status px ''exclusive writer lock'' e, k)
      | (None, k) \<Rightarrow> (Ok, k))"

text \<open>\<open>while (call() != 0) { if (errno == EINTR) continue; ... }\<close>: the error that ends it, if any.\<close>

partial_function (option) retry_interrupted :: "('k \<Rightarrow> errno option \<times> 'k) \<Rightarrow> 'k \<Rightarrow> (errno option \<times> 'k) option" where
  "retry_interrupted call k =
     (case call k of
        (None, k') \<Rightarrow> Some (None, k')
      | (Some e, k') \<Rightarrow> if e = EINTR then retry_interrupted call k' else Some (Some e, k'))"

definition parent_directory :: "string \<Rightarrow> string" where
  "parent_directory path =
     (if CHR ''/'' \<notin> set path then ''.''
      else let directory = rev (tl (dropWhile (\<lambda>c. c \<noteq> CHR ''/'') (rev path)))
        in if directory = [] then ''/'' else directory)"

definition sync_parent_directory :: "'k posix \<Rightarrow> string \<Rightarrow> 'k \<Rightarrow> (status \<times> 'k) option" where
  "sync_parent_directory px path k =
     (case sys_open px (parent_directory path) [O_RDONLY, O_DIRECTORY, O_CLOEXEC] 0 k of
        (Inl e, k) \<Rightarrow> Some (errno_status px ''open parent directory'' e, k)
      | (Inr directory_fd, k) \<Rightarrow>
          (case retry_interrupted (sys_fsync px directory_fd) k of
             None \<Rightarrow> None
           | Some (r, k) \<Rightarrow>
               Some (case r of None \<Rightarrow> Ok | Some e \<Rightarrow> errno_status px ''fsync parent directory'' e,
                 sys_close px directory_fd k)))"

definition determine_size :: "'k posix \<Rightarrow> int \<Rightarrow> 'k \<Rightarrow> (status + u64) \<times> 'k" where
  "determine_size px fd k =
     (case sys_fstat px fd k of
        (Inl e, k) \<Rightarrow> (Inl (errno_status px ''fstat'' e), k)
      | (Inr info, k) \<Rightarrow>
          if st_kind info = Block_device
          then (case sys_blkgetsize64 px fd k of
              (Inl e, k) \<Rightarrow> (Inl (errno_status px ''BLKGETSIZE64'' e), k)
            | (Inr nbytes, k) \<Rightarrow> (Inr nbytes, k))
          else if st_kind info \<noteq> Regular_file
          then (Inl (Error Invalid_argument ''storage must be a regular file or block device''), k)
          else if st_size info <s 0
          then (Inl (Error Out_of_range ''negative storage size''), k)
          else (Inr (st_size info), k))"

section \<open>The backend\<close>

record file_storage =
  fs_fd :: int
  fs_size :: u64
  fs_writable :: bool

definition open_existing :: "'k posix \<Rightarrow> string \<Rightarrow> bool \<Rightarrow> bool \<Rightarrow> 'k \<Rightarrow> (status + file_storage) \<times> 'k" where
  "open_existing px path writable null_output k =
     (if null_output then (Inl (Error Invalid_argument ''null output''), k)
      else case sys_open px path (if writable then [O_RDWR, O_CLOEXEC] else [O_RDONLY, O_CLOEXEC]) 0 k of
        (Inl e, k) \<Rightarrow> (Inl (errno_status px ''open'' e), k)
      | (Inr fd, k) \<Rightarrow>
          (let (lock_status, k) = (if writable then lock_writer px fd k else (Ok, k)) in
           if \<not> status_ok lock_status then (Inl lock_status, sys_close px fd k)
           else (case determine_size px fd k of
                (Inl status, k) \<Rightarrow> (Inl status, sys_close px fd k)
              | (Inr nbytes, k) \<Rightarrow> (Inr \<lparr>fs_fd = fd, fs_size = nbytes, fs_writable = writable\<rparr>, k))))"

text \<open>\<open>FileStorage::create\<close> after the descriptor is open, and the whole of it. Every error path closes the
  descriptor.\<close>

definition create_open :: "'k posix \<Rightarrow> string \<Rightarrow> u64 \<Rightarrow> bool \<Rightarrow> int \<Rightarrow> 'k \<Rightarrow> (status \<times> 'k) option" where
  "create_open px path nbytes overwrite fd k =
     (let (lock_status, k) = lock_writer px fd k in
      if \<not> status_ok lock_status then Some (lock_status, sys_close px fd k)
      else let (truncated, k) = (if overwrite then sys_ftruncate px fd nbytes k else (None, k)) in
      case truncated of
        Some e \<Rightarrow> Some (errno_status px ''ftruncate'' e, sys_close px fd k)
      | None \<Rightarrow>
          (case sys_fallocate px fd nbytes k of
             (Some e, k) \<Rightarrow> Some (errno_status px ''posix_fallocate'' e, sys_close px fd k)
           | (None, k) \<Rightarrow>
               (case retry_interrupted (sys_fdatasync px fd) k of
                  None \<Rightarrow> None
                | Some (Some e, k) \<Rightarrow> Some (errno_status px ''fdatasync created file'' e, sys_close px fd k)
                | Some (None, k) \<Rightarrow>
                    (case sync_parent_directory px path k of
                       None \<Rightarrow> None
                     | Some (directory_status, k) \<Rightarrow>
                         if \<not> status_ok directory_status then Some (directory_status, sys_close px fd k)
                         else Some (Ok, k)))))"

definition create_file ::
  "'k posix \<Rightarrow> string \<Rightarrow> u64 \<Rightarrow> bool \<Rightarrow> bool \<Rightarrow> 'k \<Rightarrow> ((status + file_storage) \<times> 'k) option" where
  "create_file px path nbytes overwrite null_output k =
     (if null_output \<or> nbytes = 0 \<or> unat nbytes > int64_max
      then Some (Inl (Error Invalid_argument ''invalid create output or size''), k)
      else case sys_open px path ([O_RDWR, O_CREAT, O_CLOEXEC] @ (if \<not> overwrite then [O_EXCL] else [])) 416 k of
        (Inl e, k) \<Rightarrow> Some (Inl (errno_status px ''create'' e), k)
      | (Inr fd, k) \<Rightarrow>
          (case create_open px path nbytes overwrite fd k of
             None \<Rightarrow> None
           | Some (status, k) \<Rightarrow>
               if \<not> status_ok status then Some (Inl status, k)
               else Some (Inr \<lparr>fs_fd = fd, fs_size = nbytes, fs_writable = True\<rparr>, k)))"

definition file_destroy :: "'k posix \<Rightarrow> file_storage \<Rightarrow> 'k \<Rightarrow> 'k" where
  "file_destroy px file k = (if fs_fd file \<ge> 0 then sys_close px (fs_fd file) k else k)"

record 'k opened_file =
  of_kernel :: 'k
  of_file :: file_storage

definition file_read_at ::
  "'k posix \<Rightarrow> u64 \<Rightarrow> byte_view \<Rightarrow> 'k opened_file \<Rightarrow> io_result \<times> bytes \<times> 'k opened_file" where
  "file_read_at px offset output s =
     (let nbytes = fs_size (of_file s); buffer = view_bytes output in
      if \<not> view_valid output
      then (\<lparr>transferred = 0, io_status = Error Invalid_argument ''null non-empty read buffer''\<rparr>, buffer, s)
      else if offset > nbytes \<or> view_size output > unat (nbytes - offset) \<or> unat offset > int64_max \<or>
        view_size output > int64_max \<or> view_size output > int64_max - unat offset
      then (\<lparr>transferred = 0, io_status = Error Out_of_range ''read offset too large''\<rparr>, buffer, s)
      else case sys_pread px (fs_fd (of_file s)) (view_size output) offset (of_kernel s) of
        (Inl e, k) \<Rightarrow> (\<lparr>transferred = 0, io_status = errno_status px ''pread'' e\<rparr>, buffer, s\<lparr>of_kernel := k\<rparr>)
      | (Inr data, k) \<Rightarrow> (\<lparr>transferred = length data, io_status = Ok\<rparr>, blit buffer 0 data, s\<lparr>of_kernel := k\<rparr>))"

definition file_write_at :: "'k posix \<Rightarrow> u64 \<Rightarrow> byte_view \<Rightarrow> 'k opened_file \<Rightarrow> io_result \<times> 'k opened_file" where
  "file_write_at px offset input s =
     (let nbytes = fs_size (of_file s) in
      if \<not> fs_writable (of_file s)
      then (\<lparr>transferred = 0, io_status = Error Io_error ''storage is read-only''\<rparr>, s)
      else if \<not> view_valid input
      then (\<lparr>transferred = 0, io_status = Error Invalid_argument ''null non-empty write buffer''\<rparr>, s)
      else if offset > nbytes \<or> view_size input > unat (nbytes - offset)
      then (\<lparr>transferred = 0, io_status = Error No_space ''write outside storage''\<rparr>, s)
      else if unat offset > int64_max
      then (\<lparr>transferred = 0, io_status = Error Out_of_range ''write offset too large''\<rparr>, s)
      else if view_size input > int64_max \<or> view_size input > int64_max - unat offset
      then (\<lparr>transferred = 0, io_status = Error Out_of_range ''write length exceeds POSIX range''\<rparr>, s)
      else case sys_pwrite px (fs_fd (of_file s)) (view_bytes input) offset (of_kernel s) of
        (Inl e, k) \<Rightarrow> (\<lparr>transferred = 0, io_status = errno_status px ''pwrite'' e\<rparr>, s\<lparr>of_kernel := k\<rparr>)
      | (Inr n, k) \<Rightarrow> (\<lparr>transferred = n, io_status = Ok\<rparr>, s\<lparr>of_kernel := k\<rparr>))"

definition file_flush :: "'k posix \<Rightarrow> 'k opened_file \<Rightarrow> (status \<times> 'k opened_file) option" where
  "file_flush px s =
     (if \<not> fs_writable (of_file s) then Some (Error Io_error ''storage is read-only'', s)
      else case retry_interrupted (sys_fdatasync px (fs_fd (of_file s))) (of_kernel s) of
        None \<Rightarrow> None
      | Some (Some e, k) \<Rightarrow> Some (errno_status px ''fdatasync'' e, s\<lparr>of_kernel := k\<rparr>)
      | Some (None, k) \<Rightarrow> Some (Ok, s\<lparr>of_kernel := k\<rparr>))"

text \<open>The backend's virtual functions. A flush that is interrupted for ever does not return; the interface's
  total \<open>flush\<close> says nothing about it then.\<close>

definition file_backend :: "'k posix \<Rightarrow> 'k opened_file storage" where
  "file_backend px =
     \<lparr>storage_size = (\<lambda>s. fs_size (of_file s)), storage_writable = (\<lambda>s. fs_writable (of_file s)),
      read_at = file_read_at px, write_at = file_write_at px, flush = (\<lambda>s. the (file_flush px s))\<rparr>"

section \<open>The contract\<close>

lemma errno_not_ok [simp]: "\<not> status_ok (errno_status px operation e)"
  by (auto simp: errno_status_def errno_code_def)

lemma blit_nothing: "blit xs off [] = xs"
  by (cases "off \<le> length xs") (simp_all add: blit_def)

text \<open>What POSIX says of the calls on an open file, in a state \<open>ready\<close> of the kernel: a transfer inside the
  file moves a prefix of the range and nothing else, an error moves nothing, a successful \<open>fdatasync\<close>
  makes the file's contents durable, and calls are not interrupted for ever. \<open>durable\<close> is the contents at
  the last successful \<open>fdatasync\<close>.\<close>

locale posix_file =
  fixes px :: "'k posix" and fd :: int and image durable :: "'k \<Rightarrow> bytes" and ready :: "'k \<Rightarrow> bool"
    and read_stall write_stall sync_stall :: "'k \<Rightarrow> nat"
  assumes pread: "ready k \<Longrightarrow> unat off + n \<le> length (image k) \<Longrightarrow> sys_pread px fd n off k = (r, k') \<Longrightarrow>
      ready k' \<and> image k' = image k \<and> durable k' = durable k \<and>
      (case r of Inr data \<Rightarrow> \<exists>m \<le> n. data = sub_bytes (image k) (unat off) m
       | Inl e \<Rightarrow> e = EINTR \<longrightarrow> read_stall k' < read_stall k)"
    and pwrite: "ready k \<Longrightarrow> unat off + length input \<le> length (image k) \<Longrightarrow> sys_pwrite px fd input off k = (w, k') \<Longrightarrow>
      ready k' \<and> durable k' = durable k \<and>
      (case w of Inr m \<Rightarrow> m \<le> length input \<and> image k' = blit (image k) (unat off) (take m input)
       | Inl e \<Rightarrow> image k' = image k \<and> (e = EINTR \<longrightarrow> write_stall k' < write_stall k))"
    and fdatasync: "ready k \<Longrightarrow> sys_fdatasync px fd k = (e, k') \<Longrightarrow>
      ready k' \<and> image k' = image k \<and> durable k' = (if e = None then image k else durable k) \<and>
      (e = Some EINTR \<longrightarrow> sync_stall k' < sync_stall k)"
begin

text \<open>The descriptor is open on the file, whose size has not changed since it was opened.\<close>

definition file_ok :: "'k opened_file \<Rightarrow> bool" where
  "file_ok s \<longleftrightarrow> fs_fd (of_file s) = fd \<and> ready (of_kernel s) \<and> unat (fs_size (of_file s)) = length (image (of_kernel s))"

lemma sync_returns:
  assumes "ready k"
  shows "\<exists>e k'. retry_interrupted (sys_fdatasync px fd) k = Some (e, k') \<and> ready k' \<and> image k' = image k \<and>
    durable k' = (if e = None then image k else durable k)"
  using assms
proof (induction "sync_stall k" arbitrary: k rule: less_induct)
  case less
  obtain e k1 where c: "sys_fdatasync px fd k = (e, k1)" by fastforce
  note f = fdatasync [OF less.prems c]
  show ?case
  proof (cases "e = Some EINTR")
    case True
    then obtain e' k2 where "retry_interrupted (sys_fdatasync px fd) k1 = Some (e', k2)" "ready k2" "image k2 = image k1"
      "durable k2 = (if e' = None then image k1 else durable k1)"
      using less.hyps [of k1] f by blast
    then show ?thesis using c True f by (simp add: retry_interrupted.simps [of _ k])
  next
    case False
    then show ?thesis using c f by (cases e) (simp_all add: retry_interrupted.simps [of _ k])
  qed
qed

lemma inside_file:
  assumes "file_ok s" "\<not> off > fs_size (of_file s)" "\<not> n > unat (fs_size (of_file s) - off)"
  shows "unat off + n \<le> length (image (of_kernel s))"
  using assms by (simp add: file_ok_def not_less word_le_nat_alt unat_sub)

lemma errno_status_code [simp]:
  "code (errno_status px operation e) = Interrupted \<longleftrightarrow> e = EINTR"
  by (auto simp: errno_status_def errno_code_def)

lemma file_read_spec:
  assumes s: "file_ok s" and r: "file_read_at px off (View buf) s = (r, part, s')"
  shows "file_ok s' \<and> image (of_kernel s') = image (of_kernel s) \<and> durable (of_kernel s') = durable (of_kernel s) \<and>
    (transferred r \<noteq> 0 \<longrightarrow> status_ok (io_status r) \<and> unat off + length buf \<le> length (image (of_kernel s))) \<and>
    transferred r \<le> length buf \<and> part = blit buf 0 (sub_bytes (image (of_kernel s)) (unat off) (transferred r)) \<and>
    (code (io_status r) = Interrupted \<longrightarrow> read_stall (of_kernel s') < read_stall (of_kernel s))"
proof -
  let ?k = "of_kernel s" and ?n = "fs_size (of_file s)"
  have fd: "fs_fd (of_file s) = fd" "ready ?k" using s by (simp_all add: file_ok_def)
  obtain d k' where c: "sys_pread px fd (length buf) off ?k = (d, k')" by fastforce
  show ?thesis
  proof (cases "off > ?n \<or> length buf > unat (?n - off) \<or> unat off > int64_max \<or> length buf > int64_max \<or>
      length buf > int64_max - unat off")
    case True
    then show ?thesis using r s by (auto simp: file_read_at_def Let_def)
  next
    case False
    then have rng: "unat off + length buf \<le> length (image ?k)" by (intro inside_file [OF s]) auto
    note p = pread [OF fd(2) rng c]
    show ?thesis
    proof (cases d)
      case (Inl e)
      then show ?thesis using r False c p s fd by (auto simp: file_read_at_def Let_def file_ok_def)
    next
      case (Inr data)
      then obtain m where m: "m \<le> length buf" "data = sub_bytes (image ?k) (unat off) m" using p by auto
      have "length data = m" using m rng by simp
      then show ?thesis using r False c p s fd Inr m rng by (auto simp: file_read_at_def Let_def file_ok_def)
    qed
  qed
qed

lemma file_write_spec:
  assumes s: "file_ok s" and r: "file_write_at px off (View buf) s = (r, s')"
  shows "file_ok s' \<and> durable (of_kernel s') = durable (of_kernel s) \<and>
    (transferred r \<noteq> 0 \<longrightarrow> status_ok (io_status r) \<and> unat off + length buf \<le> length (image (of_kernel s))) \<and>
    transferred r \<le> length buf \<and> image (of_kernel s') = blit (image (of_kernel s)) (unat off) (take (transferred r) buf) \<and>
    (code (io_status r) = Interrupted \<longrightarrow> write_stall (of_kernel s') < write_stall (of_kernel s))"
proof -
  let ?k = "of_kernel s" and ?n = "fs_size (of_file s)"
  have fd: "fs_fd (of_file s) = fd" "ready ?k" using s by (simp_all add: file_ok_def)
  obtain d k' where c: "sys_pwrite px fd buf off ?k = (d, k')" by fastforce
  show ?thesis
  proof (cases "\<not> fs_writable (of_file s) \<or> off > ?n \<or> length buf > unat (?n - off) \<or> unat off > int64_max \<or>
      length buf > int64_max \<or> length buf > int64_max - unat off")
    case True
    then show ?thesis using r s by (auto simp: file_write_at_def Let_def blit_nothing split: if_splits)
  next
    case False
    then have rng: "unat off + length buf \<le> length (image ?k)" by (intro inside_file [OF s]) auto
    note p = pwrite [OF fd(2) rng c]
    show ?thesis
      using r False c p s fd rng by (cases d) (auto simp: file_write_at_def Let_def file_ok_def)
  qed
qed

lemma file_flush_spec:
  assumes s: "file_ok s"
  obtains fs s' where "file_flush px s = Some (fs, s')" "file_ok s'" "image (of_kernel s') = image (of_kernel s)"
    "durable (of_kernel s') = (if status_ok fs then image (of_kernel s) else durable (of_kernel s))"
proof (cases "fs_writable (of_file s)")
  case True
  have fd: "fs_fd (of_file s) = fd" "ready (of_kernel s)" using s by (simp_all add: file_ok_def)
  obtain e k' where "retry_interrupted (sys_fdatasync px fd) (of_kernel s) = Some (e, k')" "ready k'"
    "image k' = image (of_kernel s)" "durable k' = (if e = None then image (of_kernel s) else durable (of_kernel s))"
    using sync_returns [OF fd(2)] by blast
  then show ?thesis using that True s fd by (cases e) (auto simp: file_flush_def file_ok_def)
qed (use that s in \<open>simp add: file_flush_def\<close>)

end

sublocale posix_file \<subseteq> posix: storage_contract "file_backend px" "\<lambda>s. image (of_kernel s)" "\<lambda>s. durable (of_kernel s)"
  file_ok "\<lambda>s. read_stall (of_kernel s)" "\<lambda>s. write_stall (of_kernel s)"
proof
  fix s s' :: "'k opened_file" and off buf r part fs
  assume s: "file_ok s"
  show "unat (storage_size (file_backend px) s) = length (image (of_kernel s))" using s by (simp add: file_backend_def file_ok_def)
  {
    assume "read_at (file_backend px) off (View buf) s = (r, part, s')"
    then have "file_read_at px off (View buf) s = (r, part, s')" by (simp add: file_backend_def)
    note read = file_read_spec [OF s this]
    then show "file_ok s' \<and> image (of_kernel s') = image (of_kernel s) \<and> durable (of_kernel s') = durable (of_kernel s) \<and>
        (transferred r \<noteq> 0 \<longrightarrow> status_ok (io_status r) \<and> unat off + length buf \<le> length (image (of_kernel s))) \<and>
        transferred r \<le> length buf \<and> part = blit buf 0 (sub_bytes (image (of_kernel s)) (unat off) (transferred r))"
      by blast
    show "read_stall (of_kernel s') < read_stall (of_kernel s)" if "code (io_status r) = Interrupted" using read that by blast
  }
  {
    assume "write_at (file_backend px) off (View buf) s = (r, s')"
    then have "file_write_at px off (View buf) s = (r, s')" by (simp add: file_backend_def)
    note wrote = file_write_spec [OF s this]
    then show "file_ok s' \<and> durable (of_kernel s') = durable (of_kernel s) \<and>
        (transferred r \<noteq> 0 \<longrightarrow> status_ok (io_status r) \<and> unat off + length buf \<le> length (image (of_kernel s))) \<and>
        transferred r \<le> length buf \<and> image (of_kernel s') = blit (image (of_kernel s)) (unat off) (take (transferred r) buf)"
      by blast
    show "write_stall (of_kernel s') < write_stall (of_kernel s)" if "code (io_status r) = Interrupted" using wrote that by blast
  }
  assume "flush (file_backend px) s = (fs, s')"
  then have fl: "the (file_flush px s) = (fs, s')" by (simp add: file_backend_def)
  obtain fs1 s1 where f: "file_flush px s = Some (fs1, s1)" "file_ok s1" "image (of_kernel s1) = image (of_kernel s)"
    "durable (of_kernel s1) = (if status_ok fs1 then image (of_kernel s) else durable (of_kernel s))"
    by (rule file_flush_spec [OF s])
  have "fs1 = fs" "s1 = s'" using fl f(1) by simp_all
  then show "file_ok s' \<and> image (of_kernel s') = image (of_kernel s) \<and>
      durable (of_kernel s') = (if status_ok fs then image (of_kernel s) else durable (of_kernel s))" using f by simp
qed

context posix_file
begin

lemma file_contract: "storage_contract (file_backend px) (\<lambda>s. image (of_kernel s)) (\<lambda>s. durable (of_kernel s)) file_ok
    (\<lambda>s. read_stall (of_kernel s)) (\<lambda>s. write_stall (of_kernel s))"
  by (rule posix.storage_contract_axioms)

end

section \<open>Descriptors\<close>

text \<open>What the calls do to the set of open descriptors: \<open>open\<close> adds a new one when it succeeds, \<open>close\<close> removes
  one, no other call changes it.\<close>

locale posix_descriptors =
  fixes px :: "'k posix" and opens :: "'k \<Rightarrow> int set"
  assumes open_call: "sys_open px path flags mode k = (r, k') \<Longrightarrow>
      (case r of Inr fd \<Rightarrow> 0 \<le> fd \<and> fd \<notin> opens k \<and> opens k' = insert fd (opens k) | Inl _ \<Rightarrow> opens k' = opens k)"
    and close_call [simp]: "opens (sys_close px fd k) = opens k - {fd}"
    and other_calls [simp]: "opens (snd (sys_flock px fd k)) = opens k" "opens (snd (sys_fstat px fd k)) = opens k"
      "opens (snd (sys_blkgetsize64 px fd k)) = opens k" "opens (snd (sys_ftruncate px fd n k)) = opens k"
      "opens (snd (sys_fallocate px fd n k)) = opens k" "opens (snd (sys_fdatasync px fd k)) = opens k"
      "opens (snd (sys_fsync px fd k)) = opens k"
begin

lemma call_keeps: "call k = (r, k') \<Longrightarrow> (\<And>k. opens (snd (call k)) = opens k) \<Longrightarrow> opens k' = opens k"
  by (metis snd_conv)

lemma retry_keeps:
  assumes call: "\<And>k. opens (snd (call k)) = opens k" and r: "retry_interrupted call k = Some (r, k')"
  shows "opens k' = opens k"
proof -
  have "(\<forall>k. opens (snd (c k)) = opens k) \<longrightarrow> opens (snd p) = opens k" if "retry_interrupted c k = Some p" for c k p
    using that
  proof (rule retry_interrupted.raw_induct [rotated, where P = "\<lambda>c k p. (\<forall>k. opens (snd (c k)) = opens k) \<longrightarrow> opens (snd p) = opens k"],
      goal_cases)
    case (1 rec c k p)
    obtain e k1 where c: "c k = (e, k1)" by fastforce
    show ?case
    proof
      assume keep: "\<forall>k. opens (snd (c k)) = opens k"
      then have k1: "opens k1 = opens k" using c by (metis snd_conv)
      show "opens (snd p) = opens k"
        using 1(2) c k1 keep 1(1) [of c k1 p] by (auto split: option.splits if_splits)
    qed
  qed
  from this [OF r] call show ?thesis by simp
qed

lemma lock_keeps: "lock_writer px fd k = (r, k') \<Longrightarrow> opens k' = opens k"
  using call_keeps [of "sys_flock px fd" k] by (auto simp: lock_writer_def split: prod.splits option.splits)

lemma size_keeps: "determine_size px fd k = (r, k') \<Longrightarrow> opens k' = opens k"
  using call_keeps [of "sys_fstat px fd" k] call_keeps [of "sys_blkgetsize64 px fd"]
  by (fastforce simp: determine_size_def split: prod.splits sum.splits if_splits)

lemma sync_directory_keeps:
  assumes "sync_parent_directory px path k = Some (r, k')"
  shows "opens k' = opens k"
proof -
  obtain d k1 where o: "sys_open px (parent_directory path) [O_RDONLY, O_DIRECTORY, O_CLOEXEC] 0 k = (d, k1)" by fastforce
  note opened = open_call [OF o]
  show ?thesis
  proof (cases d)
    case (Inl e)
    then show ?thesis using assms o opened by (simp add: sync_parent_directory_def)
  next
    case (Inr fd)
    then obtain e k2 where sync: "retry_interrupted (sys_fsync px fd) k1 = Some (e, k2)" and k': "k' = sys_close px fd k2"
      using assms o by (auto simp: sync_parent_directory_def split: option.splits)
    have "opens k2 = opens k1" by (rule retry_keeps [OF other_calls(7) sync])
    then show ?thesis using k' opened Inr by simp
  qed
qed

lemma create_open_descriptors:
  assumes "create_open px path n overwrite fd k = Some (r, k')"
  shows "opens k' = (if status_ok r then opens k else opens k - {fd})"
proof -
  obtain l k1 where l: "lock_writer px fd k = (l, k1)" by fastforce
  obtain t k2 where t: "(if overwrite then sys_ftruncate px fd n k1 else (None, k1)) = (t, k2)" by fastforce
  obtain a k3 where a: "sys_fallocate px fd n k2 = (a, k3)" by fastforce
  have k: "opens k1 = opens k" "opens k3 = opens k2" by (rule lock_keeps [OF l], rule call_keeps [OF a other_calls(5)])
  have k2: "opens k2 = opens k1" using t call_keeps [of "sys_ftruncate px fd n" k1 t k2] by (cases overwrite) simp_all
  note run = assms [unfolded create_open_def Let_def l t prod.case]
  show ?thesis
  proof (cases "status_ok l \<and> t = None \<and> a = None")
    case False
    then show ?thesis using run k k2 by (cases "status_ok l"; cases t; cases a) (auto simp: a)
  next
    case True
    then obtain e k4 where s: "retry_interrupted (sys_fdatasync px fd) k3 = Some (e, k4)"
      using run by (cases "retry_interrupted (sys_fdatasync px fd) k3") (auto simp: a)
    have k4: "opens k4 = opens k3" by (rule retry_keeps [OF other_calls(6) s])
    show ?thesis
    proof (cases e)
      case None
      then obtain st k5 where d: "sync_parent_directory px path k4 = Some (st, k5)"
        using run True s by (cases "sync_parent_directory px path k4") (auto simp: a)
      then show ?thesis using run True s None k k2 k4 sync_directory_keeps [OF d] by (cases "status_ok st") (auto simp: a)
    qed (use run True s k k2 k4 in \<open>auto simp: a\<close>)
  qed
qed

lemma open_existing_descriptors:
  assumes "open_existing px path wr null k = (r, k')"
  shows "case r of Inl _ \<Rightarrow> opens k' = opens k | Inr file \<Rightarrow> 0 \<le> fs_fd file \<and> fs_fd file \<notin> opens k \<and> opens k' = insert (fs_fd file) (opens k)"
proof (cases null)
  case True
  then show ?thesis using assms by (auto simp: open_existing_def)
next
  case False
  obtain d k1 where o: "sys_open px path (if wr then [O_RDWR, O_CLOEXEC] else [O_RDONLY, O_CLOEXEC]) 0 k = (d, k1)" by fastforce
  note opened = open_call [OF o]
  show ?thesis
  proof (cases d)
    case (Inl e)
    then show ?thesis using assms o opened False by (auto simp: open_existing_def)
  next
    case (Inr fd)
    obtain l k2 where l: "(if wr then lock_writer px fd k1 else (Ok, k1)) = (l, k2)" by fastforce
    obtain n k3 where n: "determine_size px fd k2 = (n, k3)" by fastforce
    have k2: "opens k2 = opens k1" using l lock_keeps [of fd k1 l k2] by (cases wr) simp_all
    have k3: "opens k3 = opens k2" by (rule size_keeps [OF n])
    have "(r, k') = (if \<not> status_ok l then (Inl l, sys_close px fd k2) else (case n of Inl status \<Rightarrow> (Inl status, sys_close px fd k3)
        | Inr nbytes \<Rightarrow> (Inr \<lparr>fs_fd = fd, fs_size = nbytes, fs_writable = wr\<rparr>, k3)))"
      using assms o False Inr l n by (cases n; cases "status_ok l") (simp_all add: open_existing_def)
    then show ?thesis using opened Inr k2 k3 by (cases n) (auto split: if_splits)
  qed
qed

lemma create_file_descriptors:
  assumes "create_file px path n overwrite null k = Some (r, k')"
  shows "case r of Inl _ \<Rightarrow> opens k' = opens k | Inr file \<Rightarrow> 0 \<le> fs_fd file \<and> fs_fd file \<notin> opens k \<and> opens k' = insert (fs_fd file) (opens k)"
proof (cases "null \<or> n = 0 \<or> unat n > int64_max")
  case True
  then show ?thesis using assms by (auto simp: create_file_def)
next
  case False
  obtain d k1 where o: "sys_open px path ([O_RDWR, O_CREAT, O_CLOEXEC] @ (if \<not> overwrite then [O_EXCL] else [])) 416 k = (d, k1)" by fastforce
  note opened = open_call [OF o]
  show ?thesis
  proof (cases d)
    case (Inl e)
    then show ?thesis using assms o opened False by (auto simp: create_file_def)
  next
    case (Inr fd)
    then obtain st k2 where c: "create_open px path n overwrite fd k1 = Some (st, k2)"
      using assms o False by (auto simp: create_file_def split: option.splits)
    then show ?thesis using assms o opened False Inr create_open_descriptors [OF c] by (auto simp: create_file_def split: if_splits)
  qed
qed

end

section \<open>A kernel\<close>

text \<open>A kernel with one file, that interrupts as many calls as it is told to: the assumptions can hold.\<close>

record test_kernel =
  tk_bytes :: bytes
  tk_durable :: bytes
  tk_interrupts :: nat
  tk_open :: "int list"

definition tk_close :: "int \<Rightarrow> test_kernel \<Rightarrow> test_kernel" where
  "tk_close fd k = k\<lparr>tk_open := filter (\<lambda>x. x \<noteq> fd) (tk_open k)\<rparr>"

definition test_posix :: "test_kernel posix" where
  "test_posix =
     \<lparr>sys_open = (\<lambda>_ _ _ k. let fd = fold max (tk_open k) 2 + 1 in (Inr fd, k\<lparr>tk_open := fd # tk_open k\<rparr>)),
      sys_close = tk_close, sys_flock = (\<lambda>_ k. (None, k)),
      sys_fstat = (\<lambda>_ k. (Inr \<lparr>st_kind = Regular_file, st_size = of_nat (length (tk_bytes k))\<rparr>, k)),
      sys_blkgetsize64 = (\<lambda>_ k. (Inl EINVAL, k)), sys_ftruncate = (\<lambda>_ n k. (None, k\<lparr>tk_bytes := replicate (unat n) 0\<rparr>)),
      sys_fallocate = (\<lambda>_ _ k. (None, k)),
      sys_fdatasync = (\<lambda>_ k. case tk_interrupts k of Suc n \<Rightarrow> (Some EINTR, k\<lparr>tk_interrupts := n\<rparr>)
        | 0 \<Rightarrow> (None, k\<lparr>tk_durable := tk_bytes k\<rparr>)),
      sys_fsync = (\<lambda>_ k. (None, k)),
      sys_pread = (\<lambda>_ n off k. case tk_interrupts k of Suc i \<Rightarrow> (Inl EINTR, k\<lparr>tk_interrupts := i\<rparr>)
        | 0 \<Rightarrow> (Inr (sub_bytes (tk_bytes k) (unat off) n), k)),
      sys_pwrite = (\<lambda>_ input off k. case tk_interrupts k of Suc i \<Rightarrow> (Inl EINTR, k\<lparr>tk_interrupts := i\<rparr>)
        | 0 \<Rightarrow> (Inr (length input), k\<lparr>tk_bytes := blit (tk_bytes k) (unat off) input\<rparr>)),
      sys_strerror = (\<lambda>_. ''error'')\<rparr>"

interpretation test_file: posix_file test_posix fd tk_bytes tk_durable "\<lambda>_. True" tk_interrupts tk_interrupts tk_interrupts for fd
  by unfold_locales (auto simp: test_posix_def split: nat.splits)

lemma fold_max_start: "(n :: int) \<le> fold max xs n"
  by (induction xs arbitrary: n) (simp_all, meson max.boundedE)

lemma fold_max_bound: "(x :: int) \<in> set xs \<Longrightarrow> x \<le> fold max xs n"
  by (induction xs arbitrary: n) (auto intro: order_trans [OF max.cobounded1 fold_max_start])

interpretation test_descriptors: posix_descriptors test_posix "\<lambda>k. set (tk_open k)"
proof
  fix path flags mode k r and k' :: test_kernel
  assume "sys_open test_posix path flags mode k = (r, k')"
  then have r: "r = Inr (fold max (tk_open k) 2 + 1)" "k' = k\<lparr>tk_open := (fold max (tk_open k) 2 + 1) # tk_open k\<rparr>"
    by (auto simp: test_posix_def Let_def)
  have "0 \<le> fold max (tk_open k) 2 + 1" "fold max (tk_open k) 2 + 1 \<notin> set (tk_open k)"
    using fold_max_start [of 2 "tk_open k"] fold_max_bound [of "fold max (tk_open k) 2 + 1" "tk_open k" 2] by auto
  then show "case r of Inr fd \<Rightarrow> 0 \<le> fd \<and> fd \<notin> set (tk_open k) \<and> set (tk_open k') = insert fd (set (tk_open k))
      | Inl _ \<Rightarrow> set (tk_open k') = set (tk_open k)" using r by simp
qed (auto simp: test_posix_def tk_close_def split: nat.splits)

section \<open>Properties\<close>

text \<open>C31: the file backend moves exactly the bytes asked for. On a kernel whose positional transfers and
  \<open>fdatasync\<close> behave as POSIX says, whatever they return, exact transfers over \<open>FileStorage\<close> and its flush
  return; a successful read delivers the file's bytes, a successful write changes exactly the range, and
  after a successful flush the file's contents are durable.\<close>

theorem file_exact_transfers:
  assumes kernel: "posix_file px fd contents durable ready read_stall write_stall sync_stall"
    and s: "fs_fd (of_file s) = fd" "ready (of_kernel s)" "unat (fs_size (of_file s)) = length (contents (of_kernel s))"
  shows "(\<exists>r out s'. read_exact (file_backend px) off (View buf) s = Some (r, out, s') \<and>
      contents (of_kernel s') = contents (of_kernel s) \<and>
      (status_ok r \<longrightarrow> out = sub_bytes (contents (of_kernel s)) (unat off) (length buf))) \<and>
    (\<exists>r s'. write_exact (file_backend px) off (View buf) s = Some (r, s') \<and>
      (status_ok r \<longrightarrow> contents (of_kernel s') = blit (contents (of_kernel s)) (unat off) buf)) \<and>
    (\<exists>r s'. file_flush px s = Some (r, s') \<and> (status_ok r \<longrightarrow> durable (of_kernel s') = contents (of_kernel s)))"
proof (intro conjI)
  have ok: "posix_file.file_ok fd contents ready s" using s by (simp add: posix_file.file_ok_def [OF kernel])
  have contract: "storage_contract (file_backend px) (\<lambda>s. contents (of_kernel s)) (\<lambda>s. durable (of_kernel s))
      (posix_file.file_ok fd contents ready) (\<lambda>s. read_stall (of_kernel s)) (\<lambda>s. write_stall (of_kernel s))"
    by (rule posix_file.file_contract [OF kernel])
  show "\<exists>r out s'. read_exact (file_backend px) off (View buf) s = Some (r, out, s') \<and>
      contents (of_kernel s') = contents (of_kernel s) \<and> (status_ok r \<longrightarrow> out = sub_bytes (contents (of_kernel s)) (unat off) (length buf))"
    by (rule storage_contract.read_exact_correct [OF contract ok, of off buf]) blast
  show "\<exists>r s'. write_exact (file_backend px) off (View buf) s = Some (r, s') \<and>
      (status_ok r \<longrightarrow> contents (of_kernel s') = blit (contents (of_kernel s)) (unat off) buf)"
    by (rule storage_contract.write_exact_correct [OF contract ok, of off buf]) (auto simp: take_all)
  show "\<exists>r s'. file_flush px s = Some (r, s') \<and> (status_ok r \<longrightarrow> durable (of_kernel s') = contents (of_kernel s))"
    by (rule posix_file.file_flush_spec [OF kernel ok]) auto
qed

theorem file_exact_transfers_witness:
  "\<exists>s r out s'. tk_interrupts (of_kernel s) = 2 \<and> tk_bytes (of_kernel s) = [1, 2, 3] \<and>
    read_exact (file_backend test_posix) 1 (View [0, 0]) s = Some (r, out, s') \<and> (status_ok r \<longrightarrow> out = [2, 3])"
proof -
  let ?s = "\<lparr>of_kernel = \<lparr>tk_bytes = [1, 2, 3], tk_durable = [0, 0, 0], tk_interrupts = 2, tk_open = [3]\<rparr>,
    of_file = \<lparr>fs_fd = 3, fs_size = 3, fs_writable = True\<rparr>\<rparr>"
  have "posix_file test_posix 3 tk_bytes tk_durable (\<lambda>_. True) tk_interrupts tk_interrupts tk_interrupts"
    by (rule test_file.posix_file_axioms)
  from file_exact_transfers [OF this, of ?s 1 "[0, 0]"]
  show ?thesis by (intro exI [of _ ?s]) (auto simp: sub_bytes_def)
qed

text \<open>C32: no descriptor leaks. Whatever the calls return, an \<open>open_existing\<close> or \<open>create\<close> that fails leaves no
  descriptor open, one that succeeds leaves open exactly the one its object owns, and destroying the
  object closes it.\<close>

theorem file_descriptors_balanced:
  assumes kernel: "posix_descriptors px opens"
  shows "(open_existing px path wr null k = (r, k') \<longrightarrow> opens k' =
      (case r of Inl _ \<Rightarrow> opens k | Inr file \<Rightarrow> insert (fs_fd file) (opens k)) \<and>
      (case r of Inl _ \<Rightarrow> True | Inr file \<Rightarrow> opens (file_destroy px file k') = opens k)) \<and>
    (create_file px path n overwrite null k = Some (r, k') \<longrightarrow> opens k' =
      (case r of Inl _ \<Rightarrow> opens k | Inr file \<Rightarrow> insert (fs_fd file) (opens k)) \<and>
      (case r of Inl _ \<Rightarrow> True | Inr file \<Rightarrow> opens (file_destroy px file k') = opens k))"
proof -
  have balanced: "opens k' = (case r of Inl _ \<Rightarrow> opens k | Inr file \<Rightarrow> insert (fs_fd file) (opens k)) \<and>
      (case r of Inl _ \<Rightarrow> True | Inr file \<Rightarrow> opens (file_destroy px file k') = opens k)"
    if "case r of Inl _ \<Rightarrow> opens k' = opens k
      | Inr file \<Rightarrow> 0 \<le> fs_fd file \<and> fs_fd file \<notin> opens k \<and> opens k' = insert (fs_fd file) (opens k)"
    using that by (auto simp: file_destroy_def posix_descriptors.close_call [OF kernel] split: sum.splits)
  show ?thesis
    using balanced posix_descriptors.open_existing_descriptors [OF kernel, of path wr null k r k']
      posix_descriptors.create_file_descriptors [OF kernel, of path n overwrite null k r k'] by blast
qed

theorem file_descriptors_balanced_witness:
  "\<exists>k file k'. open_existing test_posix ''ring.tfdb'' True False k = (Inr file, k') \<and>
    set (tk_open k') = insert (fs_fd file) (set (tk_open k)) \<and> set (tk_open (file_destroy test_posix file k')) = set (tk_open k)"
proof -
  let ?k = "\<lparr>tk_bytes = [1, 2, 3], tk_durable = [0, 0, 0], tk_interrupts = 2, tk_open = [3]\<rparr>"
  let ?file = "\<lparr>fs_fd = 4, fs_size = 3, fs_writable = True\<rparr>"
  have o: "open_existing test_posix ''ring.tfdb'' True False ?k = (Inr ?file, ?k\<lparr>tk_open := [4, 3]\<rparr>)"
    by code_simp
  have "posix_descriptors test_posix (\<lambda>k. set (tk_open k))" by (rule test_descriptors.posix_descriptors_axioms)
  from file_descriptors_balanced [OF this, of "''ring.tfdb''" True False ?k "Inr ?file" "?k\<lparr>tk_open := [4, 3]\<rparr>"] o
  show ?thesis by (intro exI [of _ ?k] exI [of _ ?file] exI [of _ "?k\<lparr>tk_open := [4, 3]\<rparr>"]) simp
qed

end
