(* ===== verification/Le_Bytes.thy ===== *)
theory Le_Bytes
  imports Status
begin

text \<open>
  The little-endian field accessors of src/internal_format.cpp (and their copies in
  src/record_profile.cpp): \<open>put16\<close>, \<open>put32\<close>, \<open>put64\<close>, \<open>puti64\<close> write a field at an offset of a
  byte vector, the \<open>get\<close> functions read it back. A C++ pointer \<open>out + off\<close> is the vector and the
  offset. The lemmas collected in \<open>le_simps\<close> evaluate a read over a sequence of writes at
  constant offsets, which is how the header round trips are proved.
\<close>

definition put16 :: "bytes \<Rightarrow> nat \<Rightarrow> u16 \<Rightarrow> bytes" where
  "put16 out off value = blit out off [ucast value, ucast (drop_bit 8 value)]"

definition put32 :: "bytes \<Rightarrow> nat \<Rightarrow> u32 \<Rightarrow> bytes" where
  "put32 out off value = blit out off (map (\<lambda>i. ucast (drop_bit (i * 8) value)) [0..<4])"

definition put64 :: "bytes \<Rightarrow> nat \<Rightarrow> u64 \<Rightarrow> bytes" where
  "put64 out off value = blit out off (map (\<lambda>i. ucast (drop_bit (i * 8) value)) [0..<8])"

definition puti64 :: "bytes \<Rightarrow> nat \<Rightarrow> i64 \<Rightarrow> bytes" where
  "puti64 out off value = put64 out off value"

definition get16 :: "bytes \<Rightarrow> nat \<Rightarrow> u16" where
  "get16 data off = ucast (data ! off) OR push_bit 8 (ucast (data ! (off + 1)))"

definition get32 :: "bytes \<Rightarrow> nat \<Rightarrow> u32" where
  "get32 data off =
     foldl (\<lambda>value i. value OR push_bit (i * 8) (ucast (data ! (off + i)))) 0 [0..<4]"

definition get64 :: "bytes \<Rightarrow> nat \<Rightarrow> u64" where
  "get64 data off =
     foldl (\<lambda>value i. value OR push_bit (i * 8) (ucast (data ! (off + i)))) 0 [0..<8]"

text \<open>\<open>INT64_MAX\<close>; the conversion back to a signed value avoids an implementation-defined cast.\<close>

definition int64_max :: i64 where
  "int64_max = 0x7fffffffffffffff"

definition geti64 :: "bytes \<Rightarrow> nat \<Rightarrow> i64" where
  "geti64 data off =
     (let value = get64 data off in
      if value \<le> int64_max then value else - 1 - NOT value)"

definition magic_is :: "bytes \<Rightarrow> bytes \<Rightarrow> bool" where
  "magic_is data magic = (8 \<le> length data \<and> take 8 data = magic)"

definition all_zero :: "bytes \<Rightarrow> nat \<Rightarrow> nat \<Rightarrow> bool" where
  "all_zero data off n = list_all (\<lambda>i. data ! (off + i) = 0) [0..<n]"

section \<open>Algebra of the accessors\<close>

named_theorems le_simps \<open>field reads over field writes at constant offsets\<close>

lemma upt_4: "[0..<4] = [0, 1, 2, 3::nat]" and upt_8: "[0..<8] = [0, 1, 2, 3, 4, 5, 6, 7::nat]"
  by (simp_all add: upt_rec)

lemma length_puts [simp, le_simps]:
  "length (put16 out off a) = length out"
  "length (put32 out off b) = length out"
  "length (put64 out off c) = length out"
  by (simp_all add: put16_def put32_def put64_def)

lemma get64_cong:
  "(\<And>i. i < 8 \<Longrightarrow> xs ! (p + i) = ys ! (q + i)) \<Longrightarrow> get64 xs p = get64 ys q"
  unfolding get64_def by (rule foldl_cong) auto

lemma get32_cong:
  "(\<And>i. i < 4 \<Longrightarrow> xs ! (p + i) = ys ! (q + i)) \<Longrightarrow> get32 xs p = get32 ys q"
  unfolding get32_def by (rule foldl_cong) auto

lemma get16_cong:
  "(\<And>i. i < 2 \<Longrightarrow> xs ! (p + i) = ys ! (q + i)) \<Longrightarrow> get16 xs p = get16 ys q"
proof -
  assume eq: "\<And>i. i < 2 \<Longrightarrow> xs ! (p + i) = ys ! (q + i)"
  from eq [of 0] eq [of 1] show "get16 xs p = get16 ys q" by (simp add: get16_def)
qed

lemma bit_le_fold:
  fixes f :: "nat \<Rightarrow> u8"
  shows "bit (foldl (\<lambda>value i. value OR push_bit (i * 8) (ucast (f i))) (0 :: 'a::len word) [0..<k]) n
     \<longleftrightarrow> n < LENGTH('a) \<and> n div 8 < k \<and> bit (f (n div 8)) (n mod 8)"
proof (induction k)
  case 0
  then show ?case by simp
next
  case (Suc k)
  have hi: "bit (f k) (n - k * 8) \<Longrightarrow> k * 8 \<le> n \<Longrightarrow> n div 8 = k"
    using bit_imp_le_length [of "f k" "n - k * 8"] by (intro div_nat_eqI) auto
  have lo: "n div 8 = k \<Longrightarrow> k * 8 \<le> n \<and> n - k * 8 = n mod 8"
    by (auto simp: minus_mult_div_eq_mod mult.commute)
  show ?case
    using hi lo by (auto simp: Suc.IH bit_simps less_Suc_eq)
qed

lemma bit_drop_byte:
  "bit (ucast (drop_bit (n div 8 * 8) v) :: u8) (n mod 8) = bit v n"
  by (simp add: bit_simps)

lemma get64_encoded: "get64 (map (\<lambda>i. ucast (drop_bit (i * 8) v)) [0..<8]) 0 = v"
proof (rule bit_word_eqI)
  fix n assume "n < LENGTH(64)"
  then have "n < 64" "n div 8 < 8" by auto
  then show "bit (get64 (map (\<lambda>i. ucast (drop_bit (i * 8) v)) [0..<8]) 0) n = bit v n"
    by (simp add: get64_def bit_le_fold bit_drop_byte)
qed

lemma get32_encoded: "get32 (map (\<lambda>i. ucast (drop_bit (i * 8) v)) [0..<4]) 0 = v"
proof (rule bit_word_eqI)
  fix n assume "n < LENGTH(32)"
  then have "n < 32" "n div 8 < 4" by auto
  then show "bit (get32 (map (\<lambda>i. ucast (drop_bit (i * 8) v)) [0..<4]) 0) n = bit v n"
    by (simp add: get32_def bit_le_fold bit_drop_byte)
qed

lemma get16_encoded: "get16 [ucast v, ucast (drop_bit 8 v)] 0 = v"
proof (rule bit_word_eqI)
  fix n assume "n < LENGTH(16)"
  then have "n < 16" by simp
  then show "bit (get16 [ucast v, ucast (drop_bit 8 v)] 0) n = bit v n"
    by (simp add: get16_def bit_simps) auto
qed

lemma get64_put64 [le_simps]: "off + 8 \<le> length out \<Longrightarrow> get64 (put64 out off v) off = v"
  by (subst get64_encoded [of v, symmetric])
     (auto intro!: get64_cong simp: put64_def nth_blit)

lemma get32_put32 [le_simps]: "off + 4 \<le> length out \<Longrightarrow> get32 (put32 out off v) off = v"
  by (subst get32_encoded [of v, symmetric])
     (auto intro!: get32_cong simp: put32_def nth_blit)

lemma get16_put16 [le_simps]: "off + 2 \<le> length out \<Longrightarrow> get16 (put16 out off v) off = v"
  by (subst get16_encoded [of v, symmetric])
     (auto intro!: get16_cong simp: put16_def nth_blit)

lemma gets_blit_other:
  shows "pos + 8 \<le> length out \<Longrightarrow> pos + 8 \<le> off \<or> off + length ys \<le> pos \<Longrightarrow>
      get64 (blit out off ys) pos = get64 out pos"
    and "pos + 4 \<le> length out \<Longrightarrow> pos + 4 \<le> off \<or> off + length ys \<le> pos \<Longrightarrow>
      get32 (blit out off ys) pos = get32 out pos"
    and "pos + 2 \<le> length out \<Longrightarrow> pos + 2 \<le> off \<or> off + length ys \<le> pos \<Longrightarrow>
      get16 (blit out off ys) pos = get16 out pos"
  by (auto intro!: get64_cong get32_cong get16_cong nth_blit_outside)

lemma get_put_other [le_simps]:
  "pos + 2 \<le> length out \<Longrightarrow> pos + 2 \<le> off \<or> off + 2 \<le> pos \<Longrightarrow>
     get16 (put16 out off a) pos = get16 out pos"
  "pos + 2 \<le> length out \<Longrightarrow> pos + 2 \<le> off \<or> off + 4 \<le> pos \<Longrightarrow>
     get16 (put32 out off b) pos = get16 out pos"
  "pos + 2 \<le> length out \<Longrightarrow> pos + 2 \<le> off \<or> off + 8 \<le> pos \<Longrightarrow>
     get16 (put64 out off c) pos = get16 out pos"
  "pos + 4 \<le> length out \<Longrightarrow> pos + 4 \<le> off \<or> off + 2 \<le> pos \<Longrightarrow>
     get32 (put16 out off a) pos = get32 out pos"
  "pos + 4 \<le> length out \<Longrightarrow> pos + 4 \<le> off \<or> off + 4 \<le> pos \<Longrightarrow>
     get32 (put32 out off b) pos = get32 out pos"
  "pos + 4 \<le> length out \<Longrightarrow> pos + 4 \<le> off \<or> off + 8 \<le> pos \<Longrightarrow>
     get32 (put64 out off c) pos = get32 out pos"
  "pos + 8 \<le> length out \<Longrightarrow> pos + 8 \<le> off \<or> off + 2 \<le> pos \<Longrightarrow>
     get64 (put16 out off a) pos = get64 out pos"
  "pos + 8 \<le> length out \<Longrightarrow> pos + 8 \<le> off \<or> off + 4 \<le> pos \<Longrightarrow>
     get64 (put32 out off b) pos = get64 out pos"
  "pos + 8 \<le> length out \<Longrightarrow> pos + 8 \<le> off \<or> off + 8 \<le> pos \<Longrightarrow>
     get64 (put64 out off c) pos = get64 out pos"
  by (simp_all add: put16_def put32_def put64_def gets_blit_other)

text \<open>Reading a signed field gives back the bit pattern, so \<open>sint\<close> of it is the stored time.\<close>

lemma geti64_eq_get64 [le_simps]: "geti64 data off = get64 data off"
  by (simp add: geti64_def Let_def not_eq_complement)

lemma puti64_eq_put64 [le_simps]: "puti64 out off v = put64 out off v"
  by (simp add: puti64_def)

lemma all_zero_iff: "all_zero data off n \<longleftrightarrow> (\<forall>i < n. data ! (off + i) = 0)"
  by (auto simp: all_zero_def list_all_iff)

lemma all_zero_blit:
  assumes "pos + n \<le> length out"
    and "pos + n \<le> off \<or> off + length ys \<le> pos"
  shows "all_zero (blit out off ys) pos n = all_zero out pos n"
  using assms by (auto simp: all_zero_iff nth_blit_outside)

lemma all_zero_put [le_simps]:
  "pos + n \<le> length out \<Longrightarrow> pos + n \<le> off \<or> off + 2 \<le> pos \<Longrightarrow>
     all_zero (put16 out off a) pos n = all_zero out pos n"
  "pos + n \<le> length out \<Longrightarrow> pos + n \<le> off \<or> off + 4 \<le> pos \<Longrightarrow>
     all_zero (put32 out off b) pos n = all_zero out pos n"
  "pos + n \<le> length out \<Longrightarrow> pos + n \<le> off \<or> off + 8 \<le> pos \<Longrightarrow>
     all_zero (put64 out off c) pos n = all_zero out pos n"
  by (simp_all add: put16_def put32_def put64_def all_zero_blit)

lemma all_zero_replicate [le_simps]: "pos + n \<le> m \<Longrightarrow> all_zero (replicate m 0) pos n"
  by (simp add: all_zero_iff)

lemma take_blit_other: "n \<le> off \<Longrightarrow> take n (blit out off ys) = take n out"
  by (rule nth_equalityI) (auto simp: nth_blit)

lemma take_put [le_simps]:
  "n \<le> off \<Longrightarrow> take n (put16 out off a) = take n out"
  "n \<le> off \<Longrightarrow> take n (put32 out off b) = take n out"
  "n \<le> off \<Longrightarrow> take n (put64 out off c) = take n out"
  by (simp_all add: put16_def put32_def put64_def take_blit_other)

end
