(* ===== verification/Crc32c.thy ===== *)
theory Crc32c
  imports Le_Bytes
begin

text \<open>
  CRC32C (Castagnoli) as src/internal_format.cpp computes it: a 256-entry table built bit by bit
  and one table lookup per byte. \<open>crc32c_bitwise\<close> is the reference: eight shift/xor steps per
  byte, no table. The main results are the equivalence of the two, the incremental-update law the
  format code relies on, and error detection: two byte strings that differ only inside a window
  of four consecutive bytes never have the same CRC.
\<close>

definition kCrc32cInit :: u32 where
  "kCrc32cInit = 0xffffffff"

text \<open>One round of the table construction loop.\<close>

definition crc_bit :: "u32 \<Rightarrow> u32" where
  "crc_bit value = drop_bit 1 value XOR (if value AND 1 \<noteq> 0 then 0x82f63b78 else 0)"

definition crc32c_table :: "u32 list" where
  "crc32c_table = map (\<lambda>i. (crc_bit ^^ 8) (of_nat i)) [0..<256]"

definition crc32c_update :: "u32 \<Rightarrow> bytes \<Rightarrow> u32" where
  "crc32c_update state data =
     foldl (\<lambda>state b. crc32c_table ! unat ((state XOR ucast b) AND 0xff) XOR drop_bit 8 state)
       state data"

definition crc32c_finish :: "u32 \<Rightarrow> u32" where
  "crc32c_finish state = state XOR 0xffffffff"

definition crc32c :: "bytes \<Rightarrow> u32" where
  "crc32c data = crc32c_finish (crc32c_update kCrc32cInit data)"

definition crc32c_with_zeroed_field :: "bytes \<Rightarrow> nat \<Rightarrow> u32" where
  "crc32c_with_zeroed_field data crc_offset =
     (let state = crc32c_update kCrc32cInit (take crc_offset data);
          state = crc32c_update state [0, 0, 0, 0]
      in crc32c_finish
           (crc32c_update state (sub_bytes data (crc_offset + 4) (length data - crc_offset - 4))))"

text \<open>The reference: no table, one polynomial division step per bit.\<close>

definition crc_byte :: "u32 \<Rightarrow> u8 \<Rightarrow> u32" where
  "crc_byte state b = (crc_bit ^^ 8) (state XOR ucast b)"

definition crc32c_bitwise :: "bytes \<Rightarrow> u32" where
  "crc32c_bitwise data = foldl crc_byte 0xffffffff data XOR 0xffffffff"

section \<open>The bit step is an injective linear map\<close>

lemma and_1_nonzero_iff: "(v :: u32) AND 1 \<noteq> 0 \<longleftrightarrow> bit v 0"
  by (simp add: and_one_eq bit_0 odd_iff_mod_2_eq_one)

lemma bit_crc_bit:
  "bit (crc_bit v) n \<longleftrightarrow> (bit v (Suc n) \<noteq> (bit v 0 \<and> bit (0x82f63b78 :: u32) n))"
  by (simp add: crc_bit_def and_1_nonzero_iff bit_simps)

lemma crc_bit_xor: "crc_bit (a XOR b) = crc_bit a XOR crc_bit b"
  by (rule bit_word_eqI) (auto simp: bit_crc_bit bit_simps)

lemma crc_bit_inj: "crc_bit a = crc_bit b \<longleftrightarrow> a = b"
proof
  assume eq: "crc_bit a = crc_bit b"
  have "bit (0x82f63b78 :: u32) 31" by simp
  moreover have "\<not> bit a 32" "\<not> bit b 32" by (auto dest: bit_imp_le_length)
  ultimately have low: "bit a 0 = bit b 0"
    using arg_cong [OF eq, of "\<lambda>v. bit v 31"] by (simp add: bit_crc_bit)
  show "a = b"
  proof (rule bit_word_eqI)
    fix n show "bit a n = bit b n"
      using low arg_cong [OF eq, of "\<lambda>v. bit v (n - 1)"] by (cases n) (auto simp: bit_crc_bit)
  qed
qed simp

lemma crc_bits_xor: "(crc_bit ^^ k) (a XOR b) = (crc_bit ^^ k) a XOR (crc_bit ^^ k) b"
  by (induction k) (simp_all add: crc_bit_xor)

lemma crc_bits_inj: "(crc_bit ^^ k) a = (crc_bit ^^ k) b \<longleftrightarrow> a = b"
  by (induction k) (simp_all add: crc_bit_inj)

text \<open>On a word whose low bits are clear the steps are plain shifts.\<close>

lemma crc_bits_shift: "(\<And>n. n < k \<Longrightarrow> \<not> bit v n) \<Longrightarrow> (crc_bit ^^ k) v = drop_bit k v"
proof (induction k)
  case 0
  then show ?case by simp
next
  case (Suc k)
  then have "(crc_bit ^^ k) v = drop_bit k v" by simp
  moreover have "\<not> bit (drop_bit k v) 0" using Suc.prems by (simp add: bit_simps)
  then have "crc_bit (drop_bit k v) = drop_bit 1 (drop_bit k v)"
    by (simp add: crc_bit_def and_1_nonzero_iff)
  ultimately show ?case by simp
qed

section \<open>Table lookup equals the bitwise reference\<close>

lemma crc32c_table_nth: "i < 256 \<Longrightarrow> crc32c_table ! i = (crc_bit ^^ 8) (of_nat i)"
  by (simp add: crc32c_table_def)

lemma table_step_eq_crc_byte:
  "crc32c_table ! unat ((s XOR ucast b) AND 0xff) XOR drop_bit 8 s = crc_byte s b"
proof -
  define x :: u32 where "x = s XOR ucast b"
  have mask: "(0xff :: u32) = mask 8" by (simp add: mask_eq_exp_minus_1)
  have "unat (x AND 0xff) < 256"
    unfolding mask
    by (simp add: unsigned_take_bit_eq take_bit_nat_less_exp [of 8, simplified] flip: take_bit_eq_mask)
  then have "crc32c_table ! unat (x AND 0xff) = (crc_bit ^^ 8) (x AND 0xff)"
    by (simp add: crc32c_table_nth)
  moreover have "(crc_bit ^^ 8) (x AND NOT 0xff) = drop_bit 8 (x AND NOT 0xff)"
    unfolding mask by (rule crc_bits_shift) (simp add: bit_simps)
  moreover have "drop_bit 8 (x AND NOT 0xff) = drop_bit 8 s"
    unfolding mask x_def by (rule bit_word_eqI) (auto simp: bit_simps dest: bit_imp_le_length)
  moreover have "x = (x AND 0xff) XOR (x AND NOT 0xff)"
    by (rule bit_word_eqI) (auto simp: bit_simps)
  ultimately show ?thesis
    unfolding crc_byte_def x_def [symmetric] using crc_bits_xor by metis
qed

lemma crc32c_update_eq: "crc32c_update s data = foldl crc_byte s data"
  by (simp add: crc32c_update_def table_step_eq_crc_byte)

lemma crc32c_eq_bitwise: "crc32c data = crc32c_bitwise data"
  by (simp add: crc32c_def crc32c_bitwise_def crc32c_finish_def crc32c_update_eq kCrc32cInit_def)

section \<open>Incremental updates and the zeroed field\<close>

lemma crc32c_update_append: "crc32c_update s (xs @ ys) = crc32c_update (crc32c_update s xs) ys"
  by (simp add: crc32c_update_def)

lemma put32_zero: "put32 data off 0 = blit data off [0, 0, 0, 0]"
  by (simp add: put32_def upt_4)

lemma crc32c_with_zeroed_field_eq:
  assumes "crc_offset + 4 \<le> length data"
  shows "crc32c_with_zeroed_field data crc_offset = crc32c (put32 data crc_offset 0)"
  using assms
  by (simp add: crc32c_with_zeroed_field_def Let_def crc32c_def put32_zero blit_eq
      crc32c_update_append sub_bytes_def eval_nat_numeral flip: append.simps)

section \<open>Error detection\<close>

lemma xor_right_cancel: "(a :: 'a::len word) XOR c = b XOR c \<longleftrightarrow> a = b"
  by (metis xor.assoc xor.right_neutral xor_self_eq)

lemma crc_byte_inj_state: "crc_byte s b = crc_byte t b \<longleftrightarrow> s = t"
  by (simp add: crc_byte_def crc_bits_inj xor_right_cancel)

lemma fold_crc_byte_inj: "foldl crc_byte s xs = foldl crc_byte t xs \<longleftrightarrow> s = t"
  by (induction xs arbitrary: s t) (simp_all add: crc_byte_inj_state)

lemma length_4_conv: "length xs = 4 \<Longrightarrow> \<exists>a b c d. xs = [a, b, c, d]"
  by (auto simp: numeral_eq_Suc length_Suc_conv)

text \<open>Four bytes enter the register as one 32-bit word followed by 32 steps.\<close>

definition word_of_4 :: "u8 \<Rightarrow> u8 \<Rightarrow> u8 \<Rightarrow> u8 \<Rightarrow> u32" where
  "word_of_4 a b c d =
     ucast a XOR push_bit 8 (ucast b) XOR push_bit 16 (ucast c) XOR push_bit 24 (ucast d)"

lemma crc_bits_push:
  "k \<le> 24 \<Longrightarrow> (crc_bit ^^ k) (push_bit k (ucast (b :: u8))) = ucast b"
  by (subst crc_bits_shift)
     (use bit_u8_less [of b] in \<open>force simp: bit_simps intro!: bit_word_eqI\<close>)+

lemma fold_crc_byte_4:
  "foldl crc_byte s [a, b, c, d] = (crc_bit ^^ 32) (s XOR word_of_4 a b c d)"
proof -
  have absorb: "(crc_bit ^^ k) x XOR ucast e = (crc_bit ^^ k) (x XOR push_bit k (ucast e))"
    if "k \<le> 24" for k x and e :: u8
    using crc_bits_push [OF that, of e] by (simp add: crc_bits_xor)
  have comp: "(crc_bit ^^ 8) ((crc_bit ^^ k) x) = (crc_bit ^^ (8 + k)) x" for k x
    by (simp only: funpow_add comp_apply)
  show ?thesis
    by (simp add: crc_byte_def absorb comp word_of_4_def xor.assoc del: funpow.simps)
qed

lemma word_of_4_inj:
  assumes "word_of_4 a b c d = word_of_4 a' b' c' d'"
  shows "a = a' \<and> b = b' \<and> c = c' \<and> d = d'"
proof -
  have split: "ucast (word_of_4 a b c d) = a \<and> ucast (drop_bit 8 (word_of_4 a b c d)) = b \<and>
      ucast (drop_bit 16 (word_of_4 a b c d)) = c \<and> ucast (drop_bit 24 (word_of_4 a b c d)) = d"
    for a b c d :: u8
    by (auto intro!: bit_word_eqI simp: word_of_4_def bit_simps not_bit_u8)
  from split [of a b c d] split [of a' b' c' d'] assms show ?thesis by metis
qed

lemma fold_crc_byte_window_inj:
  assumes "length w = length w'" and "length w \<le> 4"
    and eq: "foldl crc_byte s w = foldl crc_byte s w'"
  shows "w = w'"
proof -
  define z where "z = replicate (4 - length w) (0 :: u8)"
  have len: "length (w @ z) = 4" "length (w' @ z) = 4"
    using assms by (auto simp: z_def)
  then obtain a b c d a' b' c' d' where
    ws: "w @ z = [a, b, c, d]" "w' @ z = [a', b', c', d']"
    by (metis length_4_conv)
  have "foldl crc_byte s (w @ z) = foldl crc_byte s (w' @ z)"
    using eq by simp
  then have "word_of_4 a b c d = word_of_4 a' b' c' d'"
    unfolding ws fold_crc_byte_4 crc_bits_inj by (simp add: xor.commute [of s] xor_right_cancel)
  then have "w @ z = w' @ z" unfolding ws by (auto dest: word_of_4_inj)
  then show ?thesis by simp
qed

text \<open>The detection lemma the format components build on.\<close>

lemma crc32c_window_inj:
  assumes "length w = length w'" and "length w \<le> 4"
    and "crc32c (pre @ w @ post) = crc32c (pre @ w' @ post)"
  shows "w = w'"
proof (rule fold_crc_byte_window_inj)
  show "foldl crc_byte (crc32c_update kCrc32cInit pre) w =
        foldl crc_byte (crc32c_update kCrc32cInit pre) w'"
    using assms(3)
    by (simp add: crc32c_def crc32c_finish_def xor_right_cancel crc32c_update_append
        crc32c_update_eq fold_crc_byte_inj)
qed (use assms in auto)

section \<open>Properties\<close>

text \<open>C18: The table-driven CRC32C of the source computes the bitwise CRC32C with the reflected
  Castagnoli polynomial, on every byte string.\<close>

theorem crc32c_table_correct: "crc32c data = crc32c_bitwise data"
  by (rule crc32c_eq_bitwise)

text \<open>C19: CRC32C detects every corruption confined to four consecutive bytes: replacing a
  window of at most four bytes by a different window of the same length always changes the CRC.\<close>

theorem crc32c_detects_burst:
  assumes "length w = length w'" and "length w \<le> 4" and "w \<noteq> w'"
  shows "crc32c (pre @ w @ post) \<noteq> crc32c (pre @ w' @ post)"
  using assms crc32c_window_inj by blast

theorem crc32c_detects_burst_witness:
  "crc32c ([0x54, 0x46] @ [1, 2, 3, 4] @ [9]) \<noteq> crc32c ([0x54, 0x46] @ [1, 2, 3, 5] @ [9])"
  by (rule crc32c_detects_burst) simp_all

text \<open>The published check value of CRC32C, the CRC of the string 123456789.\<close>

lemma funpow_8: "(f ^^ 8) x = f (f (f (f (f (f (f (f x)))))))"
  by (simp add: numeral_eq_Suc)

lemma crc32c_check_value:
  "crc32c [0x31, 0x32, 0x33, 0x34, 0x35, 0x36, 0x37, 0x38, 0x39] = 0xe3069283"
  unfolding crc32c_eq_bitwise
  by (simp add: crc32c_bitwise_def crc_byte_def crc_bit_def funpow_8)

end
