(* ===== verification/Wire_Format.thy ===== *)
theory Wire_Format
  imports Crc32c
begin

text \<open>
  The on-media structures of format v1 (src/internal_format.hpp, src/internal_format.cpp) except
  the partition header: volume header, block header, time-index entries and partition footer,
  each as a record with an encoder into a fixed number of bytes and a decoder that checks magic,
  version, declared size, CRC and the structure's own bounds. Records carry the C++ struct's
  fields under a prefix (\<open>vh_\<close>, \<open>bh_\<close>, \<open>ie_\<close>, \<open>pf_\<close>). A decoder takes a flag for a null output
  pointer, as the C++ functions test it.
\<close>

section \<open>Constants\<close>

abbreviation (input) kFormatMajor :: u16 where "kFormatMajor \<equiv> 1"
abbreviation (input) kFormatMinor :: u16 where "kFormatMinor \<equiv> 0"
abbreviation (input) kVolumeHeaderCopySize :: "'a::numeral" where "kVolumeHeaderCopySize \<equiv> 4096"
abbreviation (input) kVolumeHeaderEncodedSize :: "'a::numeral" where "kVolumeHeaderEncodedSize \<equiv> 256"
abbreviation (input) kVolumePrefixSize :: "'a::numeral" where "kVolumePrefixSize \<equiv> 8192"
abbreviation (input) kPartitionHeaderRegionSize :: "'a::numeral" where "kPartitionHeaderRegionSize \<equiv> 4096"
abbreviation (input) kPartitionHeaderEncodedSize :: "'a::numeral" where "kPartitionHeaderEncodedSize \<equiv> 1024"
abbreviation (input) kPartitionFooterRegionSize :: "'a::numeral" where "kPartitionFooterRegionSize \<equiv> 4096"
abbreviation (input) kPartitionFooterEncodedSize :: "'a::numeral" where "kPartitionFooterEncodedSize \<equiv> 256"
abbreviation (input) kBlockHeaderEncodedSize :: "'a::numeral" where "kBlockHeaderEncodedSize \<equiv> 128"
abbreviation (input) kIndexEntryEncodedSize :: "'a::numeral" where "kIndexEntryEncodedSize \<equiv> 48"

definition kVolumeMagic :: bytes where
  "kVolumeMagic = [0x54, 0x46, 0x44, 0x42, 0x56, 0x4f, 0x4c, 0x31]"

definition kPartitionMagic :: bytes where
  "kPartitionMagic = [0x54, 0x46, 0x44, 0x42, 0x50, 0x41, 0x52, 0x31]"

definition kBlockMagic :: bytes where
  "kBlockMagic = [0x54, 0x46, 0x44, 0x42, 0x42, 0x4c, 0x4b, 0x31]"

definition kFooterMagic :: bytes where
  "kFooterMagic = [0x54, 0x46, 0x44, 0x42, 0x46, 0x54, 0x52, 0x31]"

text \<open>\<open>CompressionId\<close> is an enum with underlying type \<open>std::uint16_t\<close>: any 16-bit value may
  appear on media.\<close>

type_synonym compression_id = u16
abbreviation (input) Compression_none :: compression_id where "Compression_none \<equiv> 0"
abbreviation (input) Compression_packbits :: compression_id where "Compression_packbits \<equiv> 1"
abbreviation (input) Compression_lz4_block :: compression_id where "Compression_lz4_block \<equiv> 2"

section \<open>Structures\<close>

record volume_header =
  vh_volume_id_high :: u64
  vh_volume_id_low :: u64
  vh_volume_size :: u64
  vh_partition_size :: u64
  vh_partition_count :: u32
  vh_index_region_size :: u32
  vh_max_block_payload :: u32
  vh_persistence_quantum :: u32
  vh_created_time_ns :: i64

record block_header =
  bh_generation :: u64
  bh_slot :: u32
  bh_sequence :: u32
  bh_flags :: u32
  bh_record_count :: u32
  bh_stored_size :: u32
  bh_raw_size :: u32
  bh_frame_span :: u32
  bh_min_time_ns :: i64
  bh_max_time_ns :: i64
  bh_compression :: compression_id
  bh_compression_version :: u16
  bh_payload_crc :: u32
  bh_volume_id_low :: u64
  bh_volume_id_high :: u64
  bh_writer_id_high :: u64
  bh_writer_id_low :: u64
  bh_previous_writer_id_high :: u64
  bh_previous_writer_id_low :: u64

record index_entry =
  ie_offset :: u64
  ie_frame_size :: u32
  ie_frame_span :: u32
  ie_sequence :: u32
  ie_record_count :: u32
  ie_min_time_ns :: i64
  ie_max_time_ns :: i64
  ie_flags :: u32
  ie_raw_size :: u32
  ie_writer_id_high :: u64
  ie_writer_id_low :: u64

record partition_footer =
  pf_volume_id_high :: u64
  pf_volume_id_low :: u64
  pf_generation :: u64
  pf_slot :: u32
  pf_flags :: u32
  pf_block_count :: u32
  pf_index_offset :: u64
  pf_index_size :: u32
  pf_data_end :: u64
  pf_min_time_ns :: i64
  pf_max_time_ns :: i64
  pf_index_crc :: u32

section \<open>Shared checks\<close>

definition common_check :: "bytes \<Rightarrow> bytes \<Rightarrow> u32 \<Rightarrow> nat \<Rightarrow> status" where
  "common_check data magic expected_size crc_offset =
     (if length data < unat expected_size then Error Corrupt ''truncated structure''
      else if \<not> magic_is data magic then Error Corrupt ''structure magic mismatch''
      else if get16 data 8 \<noteq> kFormatMajor then Error Unsupported ''unsupported format major''
      else if get16 data 10 > kFormatMinor then Error Unsupported ''unsupported format minor''
      else let encoded_size = get32 data 12 in
        if encoded_size \<noteq> expected_size \<or> unat encoded_size > length data
        then Error Corrupt ''structure size mismatch''
        else if crc_offset + 4 > unat encoded_size
        then Error Internal_error ''structure CRC field outside its own encoding''
        else let expected_crc = get32 data crc_offset in
          if crc32c_with_zeroed_field (take (unat encoded_size) data) crc_offset \<noteq> expected_crc
          then Error Corrupt ''structure CRC mismatch''
          else Ok)"

definition finish_crc :: "bytes \<Rightarrow> nat \<Rightarrow> bytes" where
  "finish_crc data off =
     (let data = put32 data off 0 in put32 data off (crc32c data))"

definition align_up :: "u64 \<Rightarrow> u32 \<Rightarrow> u64 \<times> bool" where
  "align_up value quantum =
     (if quantum = 0 then (0, True)
      else let remainder = value mod ucast quantum in
        if remainder = 0 then (value, False)
        else let add = ucast quantum - remainder in
          if value > - 1 - add then (0, True) else (value + add, False))"

section \<open>Volume header\<close>

definition encode_volume_header :: "volume_header \<Rightarrow> bytes" where
  "encode_volume_header h =
     (let out = replicate kVolumeHeaderEncodedSize 0;
          out = blit out 0 kVolumeMagic;
          out = put16 out 8 kFormatMajor; out = put16 out 10 kFormatMinor;
          out = put32 out 12 kVolumeHeaderEncodedSize;
          out = put64 out 16 (vh_volume_id_high h); out = put64 out 24 (vh_volume_id_low h);
          out = put64 out 32 (vh_volume_size h); out = put64 out 40 (vh_partition_size h);
          out = put32 out 48 (vh_partition_count h); out = put32 out 52 (vh_index_region_size h);
          out = put32 out 56 (vh_max_block_payload h);
          out = put32 out 60 (vh_persistence_quantum h);
          out = puti64 out 64 (vh_created_time_ns h)
      in finish_crc out 72)"

definition decode_volume_header :: "bytes \<Rightarrow> bool \<Rightarrow> status + volume_header" where
  "decode_volume_header data null_header =
     (if null_header then Inl (Error Invalid_argument ''null volume header'')
      else let status = common_check data kVolumeMagic kVolumeHeaderEncodedSize 72 in
        if \<not> status_ok status then Inl status
        else if \<not> all_zero data 76 (kVolumeHeaderEncodedSize - 76)
        then Inl (Error Corrupt ''volume header reserved bytes are nonzero'')
        else let h = \<lparr>
            vh_volume_id_high = get64 data 16, vh_volume_id_low = get64 data 24,
            vh_volume_size = get64 data 32, vh_partition_size = get64 data 40,
            vh_partition_count = get32 data 48, vh_index_region_size = get32 data 52,
            vh_max_block_payload = get32 data 56, vh_persistence_quantum = get32 data 60,
            vh_created_time_ns = geti64 data 64 \<rparr> in
          if vh_partition_count h < 2 \<or> vh_partition_size h = 0 \<or>
             vh_max_block_payload h = 0 \<or> vh_persistence_quantum h = 0
          then Inl (Error Corrupt ''invalid volume geometry'')
          else Inr h)"

section \<open>Block header\<close>

definition encode_block_header :: "block_header \<Rightarrow> bytes" where
  "encode_block_header h =
     (let out = replicate kBlockHeaderEncodedSize 0;
          out = blit out 0 kBlockMagic;
          out = put16 out 8 kFormatMajor; out = put16 out 10 kFormatMinor;
          out = put32 out 12 kBlockHeaderEncodedSize; out = put64 out 16 (bh_generation h);
          out = put32 out 24 (bh_sequence h); out = put32 out 28 (bh_flags h);
          out = put32 out 32 (bh_record_count h); out = put32 out 36 (bh_stored_size h);
          out = put32 out 40 (bh_raw_size h); out = put32 out 44 (bh_frame_span h);
          out = puti64 out 48 (bh_min_time_ns h); out = puti64 out 56 (bh_max_time_ns h);
          out = put16 out 64 (bh_compression h);
          out = put16 out 66 (bh_compression_version h); out = put32 out 68 (bh_payload_crc h);
          out = put32 out 76 (bh_slot h); out = put64 out 80 (bh_volume_id_low h);
          out = put64 out 88 (bh_volume_id_high h);
          out = put64 out 96 (bh_writer_id_high h);
          out = put64 out 104 (bh_writer_id_low h);
          out = put64 out 112 (bh_previous_writer_id_high h);
          out = put64 out 120 (bh_previous_writer_id_low h)
      in finish_crc out 72)"

definition decode_block_header :: "bytes \<Rightarrow> bool \<Rightarrow> status + block_header" where
  "decode_block_header data null_header =
     (if null_header then Inl (Error Invalid_argument ''null block header'')
      else let status = common_check data kBlockMagic kBlockHeaderEncodedSize 72 in
        if \<not> status_ok status then Inl status
        else let h = \<lparr>
            bh_generation = get64 data 16, bh_slot = get32 data 76,
            bh_sequence = get32 data 24, bh_flags = get32 data 28,
            bh_record_count = get32 data 32, bh_stored_size = get32 data 36,
            bh_raw_size = get32 data 40, bh_frame_span = get32 data 44,
            bh_min_time_ns = geti64 data 48, bh_max_time_ns = geti64 data 56,
            bh_compression = get16 data 64, bh_compression_version = get16 data 66,
            bh_payload_crc = get32 data 68, bh_volume_id_low = get64 data 80,
            bh_volume_id_high = get64 data 88, bh_writer_id_high = get64 data 96,
            bh_writer_id_low = get64 data 104, bh_previous_writer_id_high = get64 data 112,
            bh_previous_writer_id_low = get64 data 120 \<rparr> in
          if bh_stored_size h = 0 \<or> bh_raw_size h = 0 \<or> bh_record_count h = 0 \<or>
             (bh_writer_id_high h = 0 \<and> bh_writer_id_low h = 0) \<or>
             bh_max_time_ns h <s bh_min_time_ns h \<or>
             bh_frame_span h < kBlockHeaderEncodedSize + bh_stored_size h
          then Inl (Error Corrupt ''invalid block bounds'')
          else Inr h)"

section \<open>Time index\<close>

definition encode_index_entry :: "index_entry \<Rightarrow> bytes \<Rightarrow> nat \<Rightarrow> bytes" where
  "encode_index_entry e out off =
     (let out = put64 out off (ie_offset e); out = put32 out (off + 8) (ie_frame_size e);
          out = put32 out (off + 12) (ie_frame_span e);
          out = put32 out (off + 16) (ie_sequence e); out = put32 out (off + 20) (ie_record_count e);
          out = puti64 out (off + 24) (ie_min_time_ns e); out = puti64 out (off + 32) (ie_max_time_ns e);
          out = put32 out (off + 40) (ie_flags e); out = put32 out (off + 44) (ie_raw_size e)
      in out)"

text \<open>The chain state of an entry is not on media; a decoded entry carries zero writer IDs, the
  default member initialisers.\<close>

definition decode_index_entry :: "bytes \<Rightarrow> bool \<Rightarrow> status + index_entry" where
  "decode_index_entry data null_entry =
     (if null_entry \<or> length data < kIndexEntryEncodedSize
      then Inl (Error Corrupt ''truncated index entry'')
      else let e = \<lparr>
          ie_offset = get64 data 0, ie_frame_size = get32 data 8,
          ie_frame_span = get32 data 12, ie_sequence = get32 data 16,
          ie_record_count = get32 data 20, ie_min_time_ns = geti64 data 24,
          ie_max_time_ns = geti64 data 32, ie_flags = get32 data 40,
          ie_raw_size = get32 data 44, ie_writer_id_high = 0, ie_writer_id_low = 0 \<rparr> in
        if ie_frame_size e < kBlockHeaderEncodedSize \<or> ie_frame_size e > ie_frame_span e \<or>
           ie_record_count e = 0 \<or> ie_max_time_ns e <s ie_min_time_ns e
        then Inl (Error Corrupt ''invalid index entry'')
        else Inr e)"

definition encode_index :: "index_entry list \<Rightarrow> bytes" where
  "encode_index entries =
     foldl (\<lambda>out i. encode_index_entry (entries ! i) out (i * kIndexEntryEncodedSize))
       (replicate (length entries * kIndexEntryEncodedSize) 0) [0..<length entries]"

fun decode_index_from :: "bytes \<Rightarrow> nat \<Rightarrow> nat \<Rightarrow> index_entry list \<Rightarrow> status + index_entry list" where
  "decode_index_from data off 0 entries = Inr entries"
| "decode_index_from data off (Suc n) entries =
     (case decode_index_entry (sub_bytes data off kIndexEntryEncodedSize) False of
        Inl status \<Rightarrow> Inl status
      | Inr entry \<Rightarrow>
          decode_index_from data (off + kIndexEntryEncodedSize) n (entries @ [entry]))"

definition decode_index :: "bytes \<Rightarrow> bool \<Rightarrow> status + index_entry list" where
  "decode_index data null_entries =
     (if null_entries \<or> length data mod kIndexEntryEncodedSize \<noteq> 0
      then Inl (Error Corrupt ''invalid index length'')
      else decode_index_from data 0 (length data div kIndexEntryEncodedSize) [])"

section \<open>Partition footer\<close>

definition encode_partition_footer :: "partition_footer \<Rightarrow> bytes" where
  "encode_partition_footer f =
     (let out = replicate kPartitionFooterEncodedSize 0;
          out = blit out 0 kFooterMagic;
          out = put16 out 8 kFormatMajor; out = put16 out 10 kFormatMinor;
          out = put32 out 12 kPartitionFooterEncodedSize;
          out = put64 out 16 (pf_volume_id_high f); out = put64 out 24 (pf_volume_id_low f);
          out = put64 out 32 (pf_generation f); out = put32 out 40 (pf_slot f);
          out = put32 out 44 (pf_flags f); out = put32 out 48 (pf_block_count f);
          out = put32 out 52 kIndexEntryEncodedSize; out = put64 out 56 (pf_index_offset f);
          out = put32 out 64 (pf_index_size f); out = put64 out 72 (pf_data_end f);
          out = puti64 out 80 (pf_min_time_ns f); out = puti64 out 88 (pf_max_time_ns f);
          out = put32 out 96 (pf_index_crc f)
      in finish_crc out 100)"

definition decode_partition_footer :: "bytes \<Rightarrow> bool \<Rightarrow> status + partition_footer" where
  "decode_partition_footer data null_footer =
     (if null_footer then Inl (Error Invalid_argument ''null footer'')
      else let status = common_check data kFooterMagic kPartitionFooterEncodedSize 100 in
        if \<not> status_ok status then Inl status
        else if \<not> all_zero data 68 4 \<or> \<not> all_zero data 104 (kPartitionFooterEncodedSize - 104)
        then Inl (Error Corrupt ''footer reserved bytes are nonzero'')
        else if get32 data 52 \<noteq> kIndexEntryEncodedSize
        then Inl (Error Unsupported ''unsupported index entry size'')
        else let f = \<lparr>
            pf_volume_id_high = get64 data 16, pf_volume_id_low = get64 data 24,
            pf_generation = get64 data 32, pf_slot = get32 data 40,
            pf_flags = get32 data 44, pf_block_count = get32 data 48,
            pf_index_offset = get64 data 56, pf_index_size = get32 data 64,
            pf_data_end = get64 data 72, pf_min_time_ns = geti64 data 80,
            pf_max_time_ns = geti64 data 88, pf_index_crc = get32 data 96 \<rparr> in
          if (ucast (pf_index_size f) :: u64) \<noteq> ucast (pf_block_count f) * kIndexEntryEncodedSize \<or>
             (pf_block_count f \<noteq> 0 \<and> pf_max_time_ns f <s pf_min_time_ns f)
          then Inl (Error Corrupt ''invalid footer bounds'')
          else Inr f)"

section \<open>Field reads survive the CRC field\<close>

lemma put32_put32_same [simp]: "put32 (put32 out off a) off b = put32 out off b"
  by (rule nth_equalityI) (auto simp: put32_def nth_blit)

lemma length_finish_crc [simp, le_simps]:
  "length (finish_crc out off) = length out"
  by (simp add: finish_crc_def Let_def)

lemma finish_crc_valid:
  assumes "off + 4 \<le> length out"
  shows "crc32c_with_zeroed_field (finish_crc out off) off = get32 (finish_crc out off) off"
  using assms by (simp add: finish_crc_def Let_def crc32c_with_zeroed_field_eq get32_put32)

lemma gets_finish_crc [le_simps]:
  shows "pos + 2 \<le> length out \<Longrightarrow> pos + 2 \<le> off \<or> off + 4 \<le> pos \<Longrightarrow>
      get16 (finish_crc out off) pos = get16 out pos"
    and "pos + 4 \<le> length out \<Longrightarrow> pos + 4 \<le> off \<or> off + 4 \<le> pos \<Longrightarrow>
      get32 (finish_crc out off) pos = get32 out pos"
    and "pos + 8 \<le> length out \<Longrightarrow> pos + 8 \<le> off \<or> off + 4 \<le> pos \<Longrightarrow>
      get64 (finish_crc out off) pos = get64 out pos"
    and "pos + n \<le> length out \<Longrightarrow> pos + n \<le> off \<or> off + 4 \<le> pos \<Longrightarrow>
      all_zero (finish_crc out off) pos n = all_zero out pos n"
    and "m \<le> off \<Longrightarrow> take m (finish_crc out off) = take m out"
  by (simp_all add: finish_crc_def Let_def le_simps)

lemma blit_0_replicate [le_simps]:
  "length magic = 8 \<Longrightarrow> 8 \<le> n \<Longrightarrow> take 8 (blit (replicate n 0) 0 magic) = magic"
  "length magic = 8 \<Longrightarrow> 8 \<le> pos \<Longrightarrow> pos + k \<le> n \<Longrightarrow>
     all_zero (blit (replicate n 0) 0 magic) pos k"
  by (simp_all add: blit_eq all_zero_iff nth_append)

lemma length_magics [simp]:
  "length kVolumeMagic = 8" "length kPartitionMagic = 8" "length kBlockMagic = 8"
  "length kFooterMagic = 8"
  by (simp_all add: kVolumeMagic_def kPartitionMagic_def kBlockMagic_def kFooterMagic_def)

section \<open>Round trips\<close>

lemma common_check_okI:
  assumes "length data = unat n" and "take 8 data = magic" and "length magic = 8" and "16 \<le> unat n"
    and "get16 data 8 = kFormatMajor" and "get16 data 10 = kFormatMinor" and "get32 data 12 = n"
    and "off + 4 \<le> unat n" and "crc32c_with_zeroed_field data off = get32 data off"
  shows "common_check data magic n off = Ok"
  using assms by (simp add: common_check_def magic_is_def Let_def)

lemma encode_volume_header_check:
  "common_check (encode_volume_header h) kVolumeMagic 256 72 = Ok"
  by (rule common_check_okI)
     (simp_all add: encode_volume_header_def Let_def finish_crc_valid le_simps)

lemma encode_block_header_check:
  "common_check (encode_block_header h) kBlockMagic 128 72 = Ok"
  by (rule common_check_okI)
     (simp_all add: encode_block_header_def Let_def finish_crc_valid le_simps)

lemma encode_partition_footer_check:
  "common_check (encode_partition_footer f) kFooterMagic 256 100 = Ok"
  by (rule common_check_okI)
     (simp_all add: encode_partition_footer_def Let_def finish_crc_valid le_simps)

lemma length_encoded_headers [simp]:
  "length (encode_volume_header v) = 256" "length (encode_block_header b) = 128"
  "length (encode_partition_footer f) = 256"
  by (simp_all add: encode_volume_header_def encode_block_header_def encode_partition_footer_def
      Let_def le_simps)

text \<open>The bounds a header must satisfy for its own decoder to accept it.\<close>

definition volume_header_wf :: "volume_header \<Rightarrow> bool" where
  "volume_header_wf h \<longleftrightarrow> 2 \<le> vh_partition_count h \<and> vh_partition_size h \<noteq> 0 \<and>
     vh_max_block_payload h \<noteq> 0 \<and> vh_persistence_quantum h \<noteq> 0"

definition block_header_wf :: "block_header \<Rightarrow> bool" where
  "block_header_wf h \<longleftrightarrow> bh_stored_size h \<noteq> 0 \<and> bh_raw_size h \<noteq> 0 \<and> bh_record_count h \<noteq> 0 \<and>
     (bh_writer_id_high h \<noteq> 0 \<or> bh_writer_id_low h \<noteq> 0) \<and>
     bh_min_time_ns h \<le>s bh_max_time_ns h \<and>
     kBlockHeaderEncodedSize + bh_stored_size h \<le> bh_frame_span h"

definition partition_footer_wf :: "partition_footer \<Rightarrow> bool" where
  "partition_footer_wf f \<longleftrightarrow>
     (ucast (pf_index_size f) :: u64) = ucast (pf_block_count f) * kIndexEntryEncodedSize \<and>
     (pf_block_count f \<noteq> 0 \<longrightarrow> pf_min_time_ns f \<le>s pf_max_time_ns f)"

definition index_entry_wf :: "index_entry \<Rightarrow> bool" where
  "index_entry_wf e \<longleftrightarrow> kBlockHeaderEncodedSize \<le> ie_frame_size e \<and>
     ie_frame_size e \<le> ie_frame_span e \<and> ie_record_count e \<noteq> 0 \<and>
     ie_min_time_ns e \<le>s ie_max_time_ns e"

lemma decode_encode_volume_header:
  "volume_header_wf h \<Longrightarrow> decode_volume_header (encode_volume_header h) False = Inr h"
  by (simp add: decode_volume_header_def encode_volume_header_check volume_header_wf_def not_less)
     (simp add: encode_volume_header_def Let_def le_simps)

lemma decode_encode_block_header:
  "block_header_wf h \<Longrightarrow> decode_block_header (encode_block_header h) False = Inr h"
  by (simp add: decode_block_header_def encode_block_header_check block_header_wf_def not_less
        signed.not_less)
     (auto simp: encode_block_header_def Let_def le_simps)

lemma decode_encode_partition_footer:
  "partition_footer_wf f \<Longrightarrow> decode_partition_footer (encode_partition_footer f) False = Inr f"
  by (simp add: decode_partition_footer_def encode_partition_footer_check partition_footer_wf_def
        signed.not_less)
     (auto simp: encode_partition_footer_def Let_def le_simps)

text \<open>C20: Decoding an encoded volume header gives the header back, for every header with at
  least two partitions and nonzero partition size, block payload and quantum.\<close>

theorem volume_header_roundtrip:
  "volume_header_wf h \<Longrightarrow> decode_volume_header (encode_volume_header h) False = Inr h"
  by (rule decode_encode_volume_header)

theorem volume_header_roundtrip_witness:
  "\<exists>h. volume_header_wf h \<and> vh_partition_size h = 20480 \<and>
     decode_volume_header (encode_volume_header h) False = Inr h"
proof -
  define h where "h = \<lparr>vh_volume_id_high = 7, vh_volume_id_low = 9, vh_volume_size = 0x100000,
    vh_partition_size = 20480, vh_partition_count = 3, vh_index_region_size = 4096,
    vh_max_block_payload = 512, vh_persistence_quantum = 512, vh_created_time_ns = - 5\<rparr>"
  have "volume_header_wf h" by (simp add: volume_header_wf_def h_def)
  with volume_header_roundtrip [of h] show ?thesis by (auto simp: h_def)
qed

text \<open>C21: Decoding an encoded block header gives the header back, for every header with
  nonzero sizes, record count and writer ID, an ordered time range and a span that covers the
  frame.\<close>

theorem block_header_roundtrip:
  "block_header_wf h \<Longrightarrow> decode_block_header (encode_block_header h) False = Inr h"
  by (rule decode_encode_block_header)

theorem block_header_roundtrip_witness:
  "\<exists>h. block_header_wf h \<and> bh_stored_size h = 300 \<and>
     decode_block_header (encode_block_header h) False = Inr h"
proof -
  define h where "h = \<lparr>bh_generation = 4, bh_slot = 1, bh_sequence = 2, bh_flags = 1,
    bh_record_count = 3, bh_stored_size = 300, bh_raw_size = 300, bh_frame_span = 512,
    bh_min_time_ns = - 1, bh_max_time_ns = 10, bh_compression = 0, bh_compression_version = 1,
    bh_payload_crc = 77, bh_volume_id_low = 9, bh_volume_id_high = 7, bh_writer_id_high = 1,
    bh_writer_id_low = 2, bh_previous_writer_id_high = 0, bh_previous_writer_id_low = 0\<rparr>"
  have "block_header_wf h" by (simp add: block_header_wf_def h_def word_sle_eq)
  with block_header_roundtrip [of h] show ?thesis by (auto simp: h_def)
qed

text \<open>C22: Decoding an encoded partition footer gives the footer back whenever its index size is
  48 bytes per block and its time range is ordered.\<close>

theorem partition_footer_roundtrip:
  "partition_footer_wf f \<Longrightarrow> decode_partition_footer (encode_partition_footer f) False = Inr f"
  by (rule decode_encode_partition_footer)

theorem partition_footer_roundtrip_witness:
  "\<exists>f. partition_footer_wf f \<and> pf_block_count f = 2 \<and>
     decode_partition_footer (encode_partition_footer f) False = Inr f"
proof -
  define f where "f = \<lparr>pf_volume_id_high = 7, pf_volume_id_low = 9, pf_generation = 4, pf_slot = 1,
    pf_flags = 0, pf_block_count = 2, pf_index_offset = 12288, pf_index_size = 96,
    pf_data_end = 5120, pf_min_time_ns = - 1, pf_max_time_ns = 10, pf_index_crc = 5\<rparr>"
  have "partition_footer_wf f" by (simp add: partition_footer_wf_def f_def word_sle_eq)
  with partition_footer_roundtrip [of f] show ?thesis by (auto simp: f_def)
qed

section \<open>The index as a concatenation of entries\<close>

definition le64_bytes :: "u64 \<Rightarrow> bytes" where
  "le64_bytes v = map (\<lambda>i. ucast (drop_bit (i * 8) v)) [0..<8]"

definition le32_bytes :: "u32 \<Rightarrow> bytes" where
  "le32_bytes v = map (\<lambda>i. ucast (drop_bit (i * 8) v)) [0..<4]"

definition index_entry_bytes :: "index_entry \<Rightarrow> bytes" where
  "index_entry_bytes e =
     le64_bytes (ie_offset e) @ le32_bytes (ie_frame_size e) @ le32_bytes (ie_frame_span e) @
     le32_bytes (ie_sequence e) @ le32_bytes (ie_record_count e) @
     le64_bytes (ie_min_time_ns e) @ le64_bytes (ie_max_time_ns e) @
     le32_bytes (ie_flags e) @ le32_bytes (ie_raw_size e)"

definition strip_chain :: "index_entry \<Rightarrow> index_entry" where
  "strip_chain e = e\<lparr>ie_writer_id_high := 0, ie_writer_id_low := 0\<rparr>"

lemma length_le_bytes [simp]: "length (le64_bytes a) = 8" "length (le32_bytes b) = 4"
  by (simp_all add: le64_bytes_def le32_bytes_def)

lemma length_index_entry_bytes [simp]: "length (index_entry_bytes e) = 48"
  by (simp add: index_entry_bytes_def)

lemma blit_extend:
  "off' = off + length ys \<Longrightarrow> off + length ys + length zs \<le> length xs \<Longrightarrow>
   blit (blit xs off ys) off' zs = blit xs off (ys @ zs)"
  by (simp add: blit_split)

lemma encode_index_entry_blit:
  "off + 48 \<le> length out \<Longrightarrow> encode_index_entry e out off = blit out off (index_entry_bytes e)"
  by (simp add: encode_index_entry_def Let_def puti64_def put64_def put32_def
      le64_bytes_def [symmetric] le32_bytes_def [symmetric] blit_extend index_entry_bytes_def)

lemma decode_index_entry_bytes:
  assumes "index_entry_wf e"
  shows "decode_index_entry (index_entry_bytes e) False = Inr (strip_chain e)"
proof -
  have "index_entry_bytes e = encode_index_entry e (replicate 48 0) 0"
    by (simp add: encode_index_entry_blit blit_eq)
  then show ?thesis
    using assms
    by (auto simp: decode_index_entry_def encode_index_entry_def Let_def le_simps strip_chain_def
        index_entry_wf_def signed.not_less)
qed

lemma encode_index_prefix:
  "k \<le> length es \<Longrightarrow>
   foldl (\<lambda>out i. encode_index_entry (es ! i) out (i * 48)) (replicate (length es * 48) 0) [0..<k] =
   concat (map index_entry_bytes (take k es)) @ replicate ((length es - k) * 48) 0"
proof (induction k)
  case 0
  then show ?case by simp
next
  case (Suc k)
  let ?done = "concat (map index_entry_bytes (take k es))"
  have len: "length ?done = k * 48"
    using Suc.prems by (simp add: length_concat comp_def sum_list_triv min_def)
  have rep: "replicate ((length es - k) * 48) (0 :: u8) =
      replicate 48 0 @ replicate ((length es - Suc k) * 48) 0"
    using Suc.prems by (simp flip: replicate_add)
  have "foldl (\<lambda>out i. encode_index_entry (es ! i) out (i * 48))
      (replicate (length es * 48) 0) [0..<Suc k] =
    encode_index_entry (es ! k) (?done @ replicate ((length es - k) * 48) 0) (k * 48)"
    using Suc by simp
  also have "\<dots> = ?done @ index_entry_bytes (es ! k) @ replicate ((length es - Suc k) * 48) 0"
    using Suc.prems len unfolding rep
    by (subst encode_index_entry_blit) (simp_all add: blit_eq)
  finally show ?case
    using Suc.prems by (simp add: take_Suc_conv_app_nth)
qed

lemma encode_index_concat: "encode_index es = concat (map index_entry_bytes es)"
  using encode_index_prefix [of "length es" es] by (simp add: encode_index_def)

lemma length_encode_index [simp]: "length (encode_index es) = length es * 48"
  by (simp add: encode_index_concat length_concat comp_def sum_list_triv)

lemma decode_index_from_concat:
  assumes "list_all index_entry_wf es"
  shows "decode_index_from (pre @ concat (map index_entry_bytes es)) (length pre) (length es) acc =
    Inr (acc @ map strip_chain es)"
  using assms
proof (induction es arbitrary: pre acc)
  case Nil
  then show ?case by simp
next
  case (Cons e es)
  from Cons.IH [of "pre @ index_entry_bytes e" "acc @ [strip_chain e]"] Cons.prems
  show ?case by (simp add: decode_index_entry_bytes)
qed

lemma decode_encode_index:
  "list_all index_entry_wf es \<Longrightarrow> decode_index (encode_index es) False = Inr (map strip_chain es)"
  using decode_index_from_concat [of es "[]" "[]"]
  by (simp add: decode_index_def encode_index_concat length_concat comp_def sum_list_triv)

text \<open>C23: A time index written by the sealer reads back as the same entries in the same order
  (the writer-chain fields, which are not on media, read as zero), whatever their number.\<close>

theorem index_roundtrip:
  "list_all index_entry_wf es \<Longrightarrow> decode_index (encode_index es) False = Inr (map strip_chain es)"
  by (rule decode_encode_index)

theorem index_roundtrip_witness:
  "\<exists>e. index_entry_wf e \<and> ie_writer_id_high e = 3 \<and>
     decode_index (encode_index [e, e]) False = Inr [strip_chain e, strip_chain e]"
proof -
  define e where "e = \<lparr>ie_offset = 4096, ie_frame_size = 428, ie_frame_span = 512, ie_sequence = 0,
    ie_record_count = 3, ie_min_time_ns = - 1, ie_max_time_ns = 10, ie_flags = 0, ie_raw_size = 300,
    ie_writer_id_high = 3, ie_writer_id_low = 4\<rparr>"
  have "index_entry_wf e" by (simp add: index_entry_wf_def e_def word_sle_eq)
  with index_roundtrip [of "[e, e]"] show ?thesis by (auto simp: e_def)
qed

section \<open>Corruption of a checked structure\<close>

lemma get32_inj:
  assumes "get32 xs p = get32 ys q" and "i < 4"
  shows "xs ! (p + i) = ys ! (q + i)"
proof (rule bit_word_eqI)
  fix n assume "n < LENGTH(8)"
  then have n: "n < 8" by simp
  have "bit (get32 zs r) (8 * i + n) = bit (zs ! (r + i)) n" for zs r
    using n assms(2) unfolding get32_def bit_le_fold by simp
  with assms(1) show "bit (xs ! (p + i)) n = bit (ys ! (q + i)) n" by metis
qed

lemma crc32c_with_zeroed_field_update:
  assumes "off + 4 \<le> length data" and "i < length data" and "i < off \<or> off + 4 \<le> i"
    and "b \<noteq> data ! i"
  shows "crc32c_with_zeroed_field (data[i := b]) off \<noteq> crc32c_with_zeroed_field data off"
proof -
  let ?z = "put32 data off 0"
  have nth: "?z ! i = data ! i"
    using assms by (simp add: put32_def nth_blit_outside)
  have upd: "put32 (data[i := b]) off 0 = ?z[i := b]"
    using assms by (intro nth_equalityI) (auto simp: put32_def nth_blit nth_list_update)
  have "?z = take i ?z @ [?z ! i] @ drop (Suc i) ?z"
    using assms by (simp add: id_take_nth_drop)
  moreover have "?z[i := b] = take i ?z @ [b] @ drop (Suc i) ?z"
    using assms by (simp add: upd_conv_take_nth_drop)
  ultimately have "crc32c (?z[i := b]) \<noteq> crc32c ?z"
    using crc32c_window_inj [of "[b]" "[?z ! i]" "take i ?z" "drop (Suc i) ?z"] assms(4) nth
    by auto
  then show ?thesis
    using assms by (simp add: crc32c_with_zeroed_field_eq upd)
qed

text \<open>A structure whose CRC field matches does not match any more after a change of one byte.\<close>

lemma crc_field_update:
  assumes crc: "crc32c_with_zeroed_field data off = get32 data off" and off: "off + 4 \<le> length data"
    and i: "i < length data" "b \<noteq> data ! i"
  shows "crc32c_with_zeroed_field (data[i := b]) off \<noteq> get32 (data[i := b]) off"
proof (cases "i < off \<or> off + 4 \<le> i")
  case True
  then have "get32 (data[i := b]) off = get32 data off" by (auto intro!: get32_cong)
  then show ?thesis using crc32c_with_zeroed_field_update [OF off i(1) True i(2)] crc by simp
next
  case False
  then have "put32 (data[i := b]) off 0 = put32 data off 0"
    using off i by (intro nth_equalityI) (auto simp: put32_def nth_blit nth_list_update)
  then have "crc32c_with_zeroed_field (data[i := b]) off = get32 data off"
    using off crc by (simp add: crc32c_with_zeroed_field_eq)
  moreover have "i - off < 4" "off + (i - off) = i" using False by auto
  ultimately show ?thesis using get32_inj [of "data[i := b]" off data off "i - off"] i by auto
qed

lemma common_check_byte_flip:
  assumes ok: "common_check data magic n off = Ok" and i: "i < unat n" and b: "b \<noteq> data ! i"
  shows "common_check (data[i := b]) magic n off \<noteq> Ok"
proof
  let ?t = "take (unat n) data"
  assume ok': "common_check (data[i := b]) magic n off = Ok"
  have len: "unat n \<le> length data" "off + 4 \<le> unat n"
    and crc: "crc32c_with_zeroed_field ?t off = get32 data off"
    using ok by (auto simp: common_check_def Let_def Ok_def split: if_splits)
  have crc': "crc32c_with_zeroed_field (?t[i := b]) off = get32 (data[i := b]) off"
    using ok' unfolding take_update_swap [symmetric] by (auto simp: common_check_def Let_def Ok_def split: if_splits)
  have field: "get32 (take (unat n) xs) off = get32 xs off" if "unat n \<le> length xs" for xs
    using that len(2) by (intro get32_cong) auto
  then have "crc32c_with_zeroed_field (?t[i := b]) off \<noteq> get32 (?t[i := b]) off"
    using crc len i b by (intro crc_field_update) auto
  then show False using crc' field [of "data[i := b]"] len(1) by (simp add: take_update_swap)
qed

lemma status_ok_common_check: "status_ok (common_check data magic n off) \<longleftrightarrow> common_check data magic n off = Ok"
  by (auto simp: common_check_def Let_def Ok_def)

lemma status_ok_byte_flip:
  "status_ok (common_check data magic n off) \<Longrightarrow> i < unat n \<Longrightarrow> b \<noteq> data ! i \<Longrightarrow>
   \<not> status_ok (common_check (data[i := b]) magic n off)"
  by (simp add: status_ok_common_check common_check_byte_flip)

section \<open>Rounding up to the persistence quantum\<close>

lemma unat_max_minus_u64: "unat (- 1 - a :: u64) = 2 ^ 64 - 1 - unat a"
  by (simp add: unat_sub word_less_eq_iff_unsigned unsigned_minus_1_eq_mask mask_eq_exp_minus_1)

lemma align_up_cases:
  assumes "quantum \<noteq> 0"
  shows "align_up value quantum =
    (let m = unat value mod unat quantum; add = (if m = 0 then 0 else unat quantum - m) in
     if unat value + add < 2 ^ 64 then (of_nat (unat value + add), False) else (0, True))"
proof -
  let ?q = "ucast quantum :: u64"
  let ?m = "unat value mod unat quantum"
  have q: "0 < unat quantum" using assms by (simp add: unat_gt_0)
  have rem: "unat (value mod ?q) = ?m" by (simp add: unat_mod_distrib)
  have rem0: "value mod ?q = 0 \<longleftrightarrow> ?m = 0" by (simp add: unat_eq_0 [symmetric] rem)
  have mlt: "?m < unat quantum" using q by simp
  have add: "unat (?q - value mod ?q) = unat quantum - ?m"
    using mlt by (subst unat_sub) (simp_all add: word_le_nat_alt rem)
  have vlt: "unat value < 2 ^ 64" using unat_u64_less .
  have qlt: "unat quantum < 2 ^ 32" using unat_u32_less .
  have over: "value > - 1 - (?q - value mod ?q) \<longleftrightarrow> 2 ^ 64 \<le> unat value + (unat quantum - ?m)"
    unfolding word_less_iff_unsigned [where ?'a = nat] unat_max_minus_u64 add
    using vlt qlt by auto
  have sum: "value + (?q - value mod ?q) = of_nat (unat value + (unat quantum - ?m))"
    unfolding add [symmetric] of_nat_add of_nat_unat by simp
  show ?thesis
    using assms vlt by (auto simp: align_up_def Let_def rem0 over sum not_le)
qed

lemma align_up_ok:
  assumes "align_up value quantum = (r, False)"
  shows "unat value \<le> unat r" "unat quantum dvd unat r" "unat r < unat value + unat quantum"
    "quantum \<noteq> 0"
proof -
  show q: "quantum \<noteq> 0" using assms by (auto simp: align_up_def)
  then have pos: "0 < unat quantum" by (simp add: unat_gt_0)
  let ?m = "unat value mod unat quantum"
  let ?add = "if ?m = 0 then 0 else unat quantum - ?m"
  have lt: "unat value + ?add < 2 ^ 64" and "r = of_nat (unat value + ?add)"
    using assms q by (auto simp: align_up_cases Let_def split: if_splits)
  then have r: "unat r = unat value + ?add" by (simp only: unat_of_nat_u64)
  show "unat value \<le> unat r" unfolding r by simp
  show "unat quantum dvd unat r" unfolding r round_up_eq [OF pos, symmetric] by simp
  show "unat r < unat value + unat quantum"
    unfolding r using pos by auto
qed

text \<open>C24: \<open>align_up\<close> returns the least multiple of the quantum that is at least the value, and
  reports overflow exactly when the quantum is zero or that multiple does not fit 64 bits.\<close>

theorem align_up_correct:
  "align_up value quantum =
     (if quantum = 0 then (0, True)
      else let r = (unat value + unat quantum - 1) div unat quantum * unat quantum in
        if r < 2 ^ 64 then (of_nat r, False) else (0, True))"
proof (cases "quantum = 0")
  case False
  then have "0 < unat quantum" by (simp add: unat_gt_0)
  with False show ?thesis by (simp add: align_up_cases Let_def round_up_eq del: One_nat_def)
qed (simp add: align_up_def)

end
