(* ===== verification/Codec.thy ===== *)
theory Codec
  imports Wire_Format
begin

text \<open>
  The compression interface (include/tfdb/codec.hpp, \<open>CompressionCodec\<close>) and the identity codec of
  src/codec.cpp. A codec object is a record of its five virtual functions; \<open>compress\<close> and
  \<open>decompress\<close> take a flag for a null output pointer and a byte view. The locale
  \<open>compression_codec\<close> states what the block writer and reader rely on: compression succeeds on
  every valid input, respects the declared bound, never turns data into nothing, and
  decompression inverts it and never returns another size than the one asked for. \<open>SIZE_MAX\<close> is
  that of a 64-bit platform; a \<open>std::vector\<close> of bytes is always shorter than \<open>2 ^ 63\<close>.
\<close>

record codec =
  codec_id :: compression_id
  codec_version :: u16
  max_compressed_size :: "nat \<Rightarrow> nat"
  compress :: "byte_view \<Rightarrow> bool \<Rightarrow> status + bytes"
  decompress :: "byte_view \<Rightarrow> nat \<Rightarrow> bool \<Rightarrow> status + bytes"

definition SIZE_MAX :: nat where
  "SIZE_MAX = 2 ^ 64 - 1"

text \<open>The longest byte vector that can exist.\<close>

definition vector_max :: nat where
  "vector_max = 2 ^ 63 - 1"

locale compression_codec =
  fixes c :: codec
  assumes compress_total:
      "view_valid v \<Longrightarrow> length (view_bytes v) \<le> vector_max \<Longrightarrow> \<exists>ys. compress c v False = Inr ys"
    and compress_bound:
      "view_valid v \<Longrightarrow> length (view_bytes v) \<le> vector_max \<Longrightarrow> compress c v False = Inr ys \<Longrightarrow>
       length ys \<le> max_compressed_size c (length (view_bytes v))"
    and compress_nonempty:
      "view_valid v \<Longrightarrow> view_bytes v \<noteq> [] \<Longrightarrow> compress c v False = Inr ys \<Longrightarrow> ys \<noteq> []"
    and decompress_compress:
      "view_valid v \<Longrightarrow> length (view_bytes v) \<le> vector_max \<Longrightarrow> compress c v False = Inr ys \<Longrightarrow>
       decompress c (View ys) (length (view_bytes v)) False = Inr (view_bytes v)"
    and decompress_size:
      "decompress c w n False = Inr xs \<Longrightarrow> length xs = n"
begin

text \<open>What the block writer's guards need: on any nonempty builder the codec neither fails, nor
  exceeds its bound, nor returns nothing, so none of these faults can occur.\<close>

lemma compress_usable:
  assumes "xs \<noteq> []" and "length xs \<le> vector_max"
  obtains ys where "compress c (View xs) False = Inr ys" "ys \<noteq> []"
    "length ys \<le> max_compressed_size c (length xs)"
    "decompress c (View ys) (length xs) False = Inr xs"
proof -
  from compress_total [of "View xs"] assms(2) obtain ys
    where ys: "compress c (View xs) False = Inr ys" by auto
  have v: "view_valid (View xs)" by simp
  show thesis
  proof (rule that [OF ys])
    show "ys \<noteq> []" using compress_nonempty [OF v _ ys] assms(1) by simp
    show "length ys \<le> max_compressed_size c (length xs)"
      using compress_bound [OF v _ ys] assms(2) by simp
    show "decompress c (View ys) (length xs) False = Inr xs"
      using decompress_compress [OF v _ ys] assms(2) by simp
  qed
qed

lemma compress_inj:
  assumes "length xs \<le> vector_max" and "length xs = length xs'"
    and "compress c (View xs) False = Inr ys" and "compress c (View xs') False = Inr ys"
  shows "xs = xs'"
  using decompress_compress [of "View xs" ys] decompress_compress [of "View xs'" ys] assms by simp

end

section \<open>The identity codec\<close>

definition none_compress :: "byte_view \<Rightarrow> bool \<Rightarrow> status + bytes" where
  "none_compress input null_output =
     (if null_output then Inl (Error Invalid_argument ''null output'')
      else if \<not> view_valid input
      then Inl (Error Invalid_argument ''null non-empty compression input'')
      else let encoded = (if \<not> view_empty input then view_bytes input else []) in Inr encoded)"

definition none_decompress :: "byte_view \<Rightarrow> nat \<Rightarrow> bool \<Rightarrow> status + bytes" where
  "none_decompress input expected_size null_output =
     (if null_output then Inl (Error Invalid_argument ''null output'')
      else if \<not> view_valid input
      then Inl (Error Invalid_argument ''null non-empty decompression input'')
      else if view_size input \<noteq> expected_size
      then Inl (Error Corrupt ''raw block size mismatch'')
      else let decoded = (if \<not> view_empty input then view_bytes input else []) in Inr decoded)"

definition none_codec :: codec where
  "none_codec = \<lparr>codec_id = Compression_none, codec_version = 1,
     max_compressed_size = (\<lambda>input_size. input_size),
     compress = none_compress, decompress = none_decompress\<rparr>"

lemma none_codec_simps [simp]:
  "codec_id none_codec = Compression_none" "codec_version none_codec = 1"
  "max_compressed_size none_codec n = n" "compress none_codec = none_compress"
  "decompress none_codec = none_decompress"
  by (simp_all add: none_codec_def)

lemma view_bytes_nonempty:
  "view_valid v \<Longrightarrow> (if \<not> view_empty v then view_bytes v else []) = view_bytes v"
  by (cases v) (auto simp: view_empty_def view_valid_def)

lemma none_compress_eq: "view_valid v \<Longrightarrow> none_compress v False = Inr (view_bytes v)"
  unfolding none_compress_def Let_def by (simp only: view_bytes_nonempty if_False not_True_eq_False)

lemma none_decompress_eq:
  "view_valid v \<Longrightarrow> none_decompress v n False =
     (if length (view_bytes v) = n then Inr (view_bytes v)
      else Inl (Error Corrupt ''raw block size mismatch''))"
  unfolding none_decompress_def Let_def
  by (simp add: view_bytes_nonempty view_size_bytes)

interpretation none: compression_codec none_codec
proof
  show "\<exists>ys. compress none_codec v False = Inr ys" if "view_valid v" for v
    using that by (simp add: none_compress_eq)
  show "length ys \<le> max_compressed_size none_codec (length (view_bytes v))"
    if "view_valid v" "compress none_codec v False = Inr ys" for v ys
    using that by (simp add: none_compress_eq)
  show "ys \<noteq> []" if "view_valid v" "view_bytes v \<noteq> []" "compress none_codec v False = Inr ys"
    for v ys
    using that by (simp add: none_compress_eq)
  show "decompress none_codec (View ys) (length (view_bytes v)) False = Inr (view_bytes v)"
    if "view_valid v" "compress none_codec v False = Inr ys" for v ys
    using that by (simp add: none_compress_eq none_decompress_eq)
  show "length xs = n" if "decompress none_codec w n False = Inr xs" for w n xs
    using that
  proof (cases "view_valid w")
    case True
    with that show ?thesis by (auto simp: none_decompress_eq split: if_splits)
  qed (simp add: none_decompress_def)
qed

end
