(* ===== verification/Packbits.thy ===== *)
theory Packbits
  imports Codec
begin

text \<open>
  The PackBits codec of src/codec.cpp (\<open>PackBitsCodec\<close>): runs of three or more equal bytes become
  a two-byte repeat token, everything else is grouped into literals of at most 128 bytes. The
  loops follow the source, over a position in the input. The theory interprets
  \<open>compression_codec\<close>: the decoder inverts the encoder on every input and the encoding never
  exceeds the declared bound of one byte per started 128 bytes.
\<close>

function repeated_from :: "bytes \<Rightarrow> nat \<Rightarrow> nat \<Rightarrow> nat" where
  "repeated_from input position count =
     (if position + count < length input \<and> count < 130 \<and>
         input ! (position + count) = input ! position
      then repeated_from input position (count + 1) else count)"
  by pat_completeness auto
termination
  by (relation "measure (\<lambda>(input, position, count). 130 - count)") auto

declare repeated_from.simps [simp del]

definition repeated :: "bytes \<Rightarrow> nat \<Rightarrow> nat" where
  "repeated input position = repeated_from input position 1"

lemma repeated_from_ge: "count \<le> repeated_from input position count"
proof (induction input position count rule: repeated_from.induct)
  case (1 input position count)
  show ?case
  proof (cases "position + count < length input \<and> count < 130 \<and>
      input ! (position + count) = input ! position")
    case True
    with 1 have "count + 1 \<le> repeated_from input position (count + 1)" by blast
    with True show ?thesis by (auto simp: repeated_from.simps [of input position count])
  next
    case False
    then show ?thesis by (subst repeated_from.simps) auto
  qed
qed

lemma repeated_ge_1: "1 \<le> repeated input position"
  unfolding repeated_def by (rule repeated_from_ge)

text \<open>The inner loop that extends a literal group until a run, the group limit or the end.\<close>

function literal_end :: "bytes \<Rightarrow> nat \<Rightarrow> nat \<Rightarrow> nat" where
  "literal_end input literal_begin position =
     (if position < length input \<and> position - literal_begin < 128 then
        let run = repeated input position in
        if run \<ge> 3 then position
        else literal_end input literal_begin
               (position + min run (128 - (position - literal_begin)))
      else position)"
  by pat_completeness auto
termination
proof (relation "measure (\<lambda>(input, literal_begin, position). length input - position)", goal_cases)
  case (2 input literal_begin position run)
  have "0 < repeated input position" using repeated_ge_1 [of input position] by linarith
  with 2 show ?case by (auto simp: min_def)
qed simp

declare literal_end.simps [simp del]

lemma literal_end_ge: "position \<le> literal_end input literal_begin position"
proof (induction input literal_begin position rule: literal_end.induct)
  case (1 input literal_begin position)
  then show ?case
    by (subst literal_end.simps) (force simp: Let_def)
qed

function packbits_compress_from :: "bytes \<Rightarrow> nat \<Rightarrow> bytes \<Rightarrow> bytes" where
  "packbits_compress_from input position encoded =
     (if position < length input then
        let run = repeated input position in
        if run \<ge> 3 then
          let run = min run 130 in
          packbits_compress_from input (position + run)
            (encoded @ [0x80 OR of_nat (run - 3), input ! position])
        else
          let literal_begin = position;
              position = literal_end input literal_begin (position + run);
              count = position - literal_begin in
          packbits_compress_from input position
            (encoded @ [of_nat (count - 1)] @ sub_bytes input literal_begin count)
      else encoded)"
  by pat_completeness auto
termination
proof (relation "measure (\<lambda>(input, position, encoded). length input - position)", goal_cases)
  case (2 input position encoded run run')
  then show ?case by (auto simp: min_def)
next
  case (3 input position encoded run literal_begin e count)
  have "position < literal_end input position (position + repeated input position)"
    using literal_end_ge [of "position + repeated input position" input position]
      repeated_ge_1 [of input position] by linarith
  with 3 show ?case by simp
qed simp

declare packbits_compress_from.simps [simp del]

function packbits_decompress_from :: "bytes \<Rightarrow> nat \<Rightarrow> nat \<Rightarrow> bytes \<Rightarrow> status + bytes" where
  "packbits_decompress_from input expected_size position decoded =
     (if position < length input then
        let token = input ! position; position = position + 1 in
        if token AND 0x80 = 0 then
          let count = unat token + 1 in
          if count > length input - position \<or> count > expected_size - length decoded
          then Inl (Error Corrupt ''invalid PackBits literal'')
          else packbits_decompress_from input expected_size (position + count)
                 (decoded @ sub_bytes input position count)
        else
          let count = unat (token AND 0x7f) + 3 in
          if position = length input \<or> count > expected_size - length decoded
          then Inl (Error Corrupt ''invalid PackBits run'')
          else packbits_decompress_from input expected_size (position + 1)
                 (decoded @ replicate count (input ! position))
      else if length decoded \<noteq> expected_size
      then Inl (Error Corrupt ''PackBits output size mismatch'')
      else Inr decoded)"
  by pat_completeness auto
termination
  by (relation "measure (\<lambda>(input, expected_size, position, decoded). length input - position)") auto

declare packbits_decompress_from.simps [simp del]

definition packbits_max_compressed_size :: "nat \<Rightarrow> nat" where
  "packbits_max_compressed_size input_size =
     (let overhead = input_size div 128 + (if input_size mod 128 = 0 then 0 else 1) in
      if input_size > SIZE_MAX - overhead then SIZE_MAX else input_size + overhead)"

definition packbits_compress :: "byte_view \<Rightarrow> bool \<Rightarrow> status + bytes" where
  "packbits_compress input null_output =
     (if null_output then Inl (Error Invalid_argument ''null output'')
      else if \<not> view_valid input
      then Inl (Error Invalid_argument ''null non-empty compression input'')
      else Inr (packbits_compress_from (view_bytes input) 0 []))"

definition packbits_decompress :: "byte_view \<Rightarrow> nat \<Rightarrow> bool \<Rightarrow> status + bytes" where
  "packbits_decompress input expected_size null_output =
     (if null_output then Inl (Error Invalid_argument ''null output'')
      else if \<not> view_valid input
      then Inl (Error Invalid_argument ''null non-empty decompression input'')
      else packbits_decompress_from (view_bytes input) expected_size 0 [])"

definition packbits_codec :: codec where
  "packbits_codec = \<lparr>codec_id = Compression_packbits, codec_version = 1,
     max_compressed_size = packbits_max_compressed_size,
     compress = packbits_compress, decompress = packbits_decompress\<rparr>"

section \<open>Runs and literal groups\<close>

lemma repeated_from_spec:
  assumes "position + count \<le> length input" and "count \<le> 130"
    and "\<forall>i < count. input ! (position + i) = input ! position"
  shows "position + repeated_from input position count \<le> length input \<and>
    repeated_from input position count \<le> 130 \<and>
    (\<forall>i < repeated_from input position count. input ! (position + i) = input ! position)"
  using assms
proof (induction input position count rule: repeated_from.induct)
  case (1 input position count)
  show ?case
  proof (cases "position + count < length input \<and> count < 130 \<and>
      input ! (position + count) = input ! position")
    case True
    with 1 show ?thesis
      by (simp add: repeated_from.simps [of input position count] less_Suc_eq)
  next
    case False
    with 1 show ?thesis by (subst (1 2 3) repeated_from.simps) auto
  qed
qed

lemma repeated_spec:
  assumes "position < length input"
  shows "position + repeated input position \<le> length input" "repeated input position \<le> 130"
    "sub_bytes input position (repeated input position) =
       replicate (repeated input position) (input ! position)"
proof -
  have *: "position + repeated input position \<le> length input \<and> repeated input position \<le> 130 \<and>
      (\<forall>i < repeated input position. input ! (position + i) = input ! position)"
    using repeated_from_spec [of position 1 input] assms by (auto simp: repeated_def)
  then show "position + repeated input position \<le> length input" "repeated input position \<le> 130"
    by auto
  with * show "sub_bytes input position (repeated input position) =
       replicate (repeated input position) (input ! position)"
    by (intro nth_equalityI) auto
qed

lemma literal_end_spec:
  assumes "position \<le> length input" and "literal_begin \<le> position"
    and "position - literal_begin \<le> 128"
  defines "e \<equiv> literal_end input literal_begin position"
  shows "e \<le> length input" "e - literal_begin \<le> 128"
    "e < length input \<Longrightarrow> e - literal_begin < 128 \<Longrightarrow> 3 \<le> repeated input e"
proof -
  have "e \<le> length input \<and> e - literal_begin \<le> 128 \<and>
      (e < length input \<longrightarrow> e - literal_begin < 128 \<longrightarrow> 3 \<le> repeated input e)"
    using assms(1-3) unfolding e_def
  proof (induction input literal_begin position rule: literal_end.induct)
    case (1 input literal_begin position)
    show ?case
    proof (cases "position < length input \<and> position - literal_begin < 128 \<and>
        repeated input position < 3")
      case True
      then have "position + min (repeated input position) (128 - (position - literal_begin))
          \<le> length input"
        "position + min (repeated input position) (128 - (position - literal_begin)) - literal_begin
          \<le> 128"
        using repeated_spec(1) [of position input] by auto
      with True 1 show ?thesis
        by (simp add: literal_end.simps [of input literal_begin position] Let_def)
    next
      case False
      with 1 show ?thesis
        by (subst (1 2 3 4 5) literal_end.simps) (auto simp: Let_def not_less)
    qed
  qed
  then show "e \<le> length input" "e - literal_begin \<le> 128"
    "e < length input \<Longrightarrow> e - literal_begin < 128 \<Longrightarrow> 3 \<le> repeated input e" by auto
qed

section \<open>The encoder as a sequence of tokens\<close>

lemma packbits_compress_run:
  assumes "position < length input" and "3 \<le> repeated input position"
  shows "packbits_compress_from input position encoded =
    packbits_compress_from input (position + repeated input position)
      (encoded @ [0x80 OR of_nat (repeated input position - 3), input ! position])"
  using assms repeated_spec(2) [OF assms(1)]
  by (subst packbits_compress_from.simps) (simp add: Let_def min_def)

lemma packbits_compress_literal:
  assumes "position < length input" and "repeated input position < 3"
  defines "e \<equiv> literal_end input position (position + repeated input position)"
  shows "packbits_compress_from input position encoded =
    packbits_compress_from input e
      (encoded @ [of_nat (e - position - 1)] @ sub_bytes input position (e - position))"
    "position < e" "e \<le> length input" "e - position \<le> 128"
    "e < length input \<Longrightarrow> e - position < 128 \<Longrightarrow> 3 \<le> repeated input e"
proof -
  show "packbits_compress_from input position encoded =
    packbits_compress_from input e
      (encoded @ [of_nat (e - position - 1)] @ sub_bytes input position (e - position))"
    using assms(1,2) unfolding e_def by (subst packbits_compress_from.simps) (simp add: Let_def)
  show "position < e"
    using literal_end_ge [of "position + repeated input position" input position]
      repeated_ge_1 [of input position] unfolding e_def by linarith
  show "e \<le> length input" "e - position \<le> 128"
    "e < length input \<Longrightarrow> e - position < 128 \<Longrightarrow> 3 \<le> repeated input e"
    using literal_end_spec [of "position + repeated input position" input position]
      repeated_spec(1) [OF assms(1)] assms(2) unfolding e_def by auto
qed

lemma packbits_induct [consumes 0, case_names finish run literal]:
  assumes "\<And>position encoded. length input \<le> position \<Longrightarrow> P position encoded"
    and "\<And>position encoded. position < length input \<Longrightarrow> 3 \<le> repeated input position \<Longrightarrow>
      P (position + repeated input position)
        (encoded @ [0x80 OR of_nat (repeated input position - 3), input ! position]) \<Longrightarrow>
      P position encoded"
    and "\<And>position encoded e. position < length input \<Longrightarrow> repeated input position < 3 \<Longrightarrow>
      e = literal_end input position (position + repeated input position) \<Longrightarrow>
      P e (encoded @ [of_nat (e - position - 1)] @ sub_bytes input position (e - position)) \<Longrightarrow>
      P position encoded"
  shows "P position encoded"
proof (induction "length input - position" arbitrary: position encoded rule: less_induct)
  case less
  consider "length input \<le> position"
    | "position < length input" "3 \<le> repeated input position"
    | "position < length input" "repeated input position < 3" by linarith
  then show ?case
  proof cases
    case 2
    show ?thesis by (rule assms(2) [OF 2]) (rule less, use 2 in simp)
  next
    case 3
    show ?thesis
      by (rule assms(3) [OF 3 refl]) (rule less, use 3 packbits_compress_literal(2) [OF 3] in simp)
  qed (rule assms(1))
qed

lemma packbits_compress_extends: "\<exists>rest. packbits_compress_from input position encoded = encoded @ rest"
proof (induction position encoded rule: packbits_induct [where input = input])
  case (finish position encoded)
  then show ?case by (subst packbits_compress_from.simps) simp
next
  case (run position encoded)
  then show ?case by (auto simp: packbits_compress_run)
next
  case (literal position encoded e)
  then show ?case by (auto simp: packbits_compress_literal(1))
qed

section \<open>Round trip\<close>

lemma bit_u8_0x80: "bit (0x80 :: u8) k \<longleftrightarrow> k = 7"
  using bit_exp_iff [where ?'a = u8, of 7 k] by auto

lemma bit_int_0x80: "bit (0x80 :: int) k \<longleftrightarrow> k = 7"
  using bit_exp_iff [where ?'a = int, of 7 k] by auto

lemma and_0x80_eq_0: "\<not> bit x 7 \<Longrightarrow> (x :: u8) AND 0x80 = 0"
  by (rule bit_word_eqI) (auto simp: bit_simps bit_int_0x80)

lemma or_0x80_and_0x80: "((0x80 :: u8) OR x) AND 0x80 \<noteq> 0"
proof -
  have "bit (((0x80 :: u8) OR x) AND 0x80) 7" by (simp add: bit_simps bit_u8_0x80)
  then show ?thesis by auto
qed

lemma or_0x80_and_0x7f: "((0x80 :: u8) OR x) AND 0x7f = take_bit 7 x"
proof -
  have c: "(0x7f :: u8) = mask 7" by (simp add: mask_eq_exp_minus_1)
  show ?thesis unfolding c by (rule bit_word_eqI) (auto simp: bit_simps bit_int_0x80)
qed

lemma packbits_literal_token:
  assumes "n < 128"
  shows "(of_nat n :: u8) AND 0x80 = 0" "unat (of_nat n :: u8) = n"
proof -
  show "unat (of_nat n :: u8) = n" using assms by (simp add: unat_of_nat)
  have "n div 2 ^ 7 = 0" using assms by simp
  then have "\<not> bit n 7" by (simp only: bit_iff_odd) simp
  then show "(of_nat n :: u8) AND 0x80 = 0" by (intro and_0x80_eq_0) (simp add: bit_of_nat_iff)
qed

lemma packbits_run_token:
  assumes "n < 128"
  shows "((0x80 :: u8) OR of_nat n) AND 0x80 \<noteq> 0" "unat (((0x80 :: u8) OR of_nat n) AND 0x7f) = n"
proof -
  have "take_bit 7 (of_nat n :: u8) = of_nat (take_bit 7 n)" by (simp add: take_bit_of_nat)
  also have "take_bit 7 n = n" using assms by (simp add: take_bit_nat_eq_self_iff)
  finally show "unat (((0x80 :: u8) OR of_nat n) AND 0x7f) = n"
    using assms unfolding or_0x80_and_0x7f by (simp add: unat_of_nat)
qed (rule or_0x80_and_0x80)

lemma packbits_decode_literal:
  assumes "input = pre @ [t] @ lits @ post"
    and "t AND 0x80 = 0" and "unat t + 1 = length lits"
    and "length decoded + length lits \<le> expected"
  shows "packbits_decompress_from input expected (length pre) decoded =
    packbits_decompress_from input expected (length pre + 1 + length lits) (decoded @ lits)"
proof -
  have sub: "sub_bytes input (length pre + 1) (length lits) = lits"
    unfolding assms(1) by (simp add: sub_bytes_def)
  have "input ! length pre = t" "length pre < length input"
    "length lits \<le> length input - (length pre + 1)" "\<not> expected - length decoded < length lits"
    using assms(4) unfolding assms(1) by (auto simp: nth_append)
  then show ?thesis
    using assms(2-4) sub by (subst packbits_decompress_from.simps) (simp add: Let_def)
qed

lemma packbits_decode_run:
  assumes "input = pre @ [t, b] @ post" and "t AND 0x80 \<noteq> 0" and "unat (t AND 0x7f) + 3 = n"
    and "length decoded + n \<le> expected"
  shows "packbits_decompress_from input expected (length pre) decoded =
    packbits_decompress_from input expected (length pre + 2) (decoded @ replicate n b)"
proof -
  have "input ! length pre = t" "input ! (length pre + 1) = b" "length pre < length input"
    "length pre + 1 \<noteq> length input" "\<not> expected - length decoded < n"
    using assms(4) unfolding assms(1) by (auto simp: nth_append)
  then show ?thesis
    using assms(2-4) by (subst packbits_decompress_from.simps) (simp add: Let_def)
qed

lemma packbits_roundtrip_from:
  assumes "position \<le> length input"
  shows "packbits_decompress_from (packbits_compress_from input position encoded) (length input)
      (length encoded) (take position input) = Inr input"
  using assms
proof (induction position encoded rule: packbits_induct [where input = input])
  case (finish position encoded)
  then show ?case
    by (simp add: packbits_compress_from.simps [of input position]
        packbits_decompress_from.simps [of encoded])
next
  case (run position encoded)
  let ?n = "repeated input position"
  let ?t = "0x80 OR of_nat (?n - 3) :: u8"
  let ?tok = "[?t, input ! position]"
  note spec = repeated_spec [OF run(1)]
  have t: "?t AND 0x80 \<noteq> 0" "unat (?t AND 0x7f) + 3 = ?n"
    using packbits_run_token [of "?n - 3"] run(2) spec(2) by (simp_all del: of_nat_diff)
  obtain rest where rest: "packbits_compress_from input position encoded = encoded @ ?tok @ rest"
    using packbits_compress_extends [of input "position + ?n" "encoded @ ?tok"]
      packbits_compress_run [OF run(1,2)] by auto
  have "take (position + ?n) input = take position input @ replicate ?n (input ! position)"
    unfolding take_Suc_sub_bytes spec(3) ..
  then show ?case
    using run(1,3) spec packbits_decode_run [OF rest t, of "take position input" "length input"]
    by (simp add: packbits_compress_run [OF run(1,2)] del: of_nat_diff)
next
  case (literal position encoded e)
  note lit = packbits_compress_literal [OF literal(1,2), folded literal(3)]
  let ?lits = "sub_bytes input position (e - position)"
  let ?t = "of_nat (e - position - 1) :: u8"
  let ?tok = "[?t] @ ?lits"
  have len: "length ?lits = e - position" using lit(3) by simp
  have t: "?t AND 0x80 = 0" "unat ?t + 1 = length ?lits"
    using packbits_literal_token [of "e - position - 1"] lit(2,4) unfolding len
    by (simp_all del: of_nat_diff)
  obtain rest where rest: "packbits_compress_from input position encoded = encoded @ ?tok @ rest"
    using packbits_compress_extends [of input e "encoded @ ?tok"] lit(1) by auto
  have "take e input = take position input @ ?lits"
    using take_Suc_sub_bytes [of position "e - position" input] lit(2) by simp
  moreover have "packbits_decompress_from (packbits_compress_from input position encoded)
      (length input) (length encoded) (take position input) =
    packbits_decompress_from (packbits_compress_from input position encoded) (length input)
      (length encoded + 1 + length ?lits) (take position input @ ?lits)"
    using rest lit(2-4) literal(1) len t
    by (intro packbits_decode_literal [where post = rest and t = ?t]) (simp_all del: of_nat_diff)
  ultimately show ?case
    using literal(4) lit(1,3) len by (simp del: of_nat_diff)
qed

section \<open>Size bound\<close>

definition ceil128 :: "nat \<Rightarrow> nat" where
  "ceil128 n = n div 128 + (if n mod 128 = 0 then 0 else 1)"

lemma ceil128_alt: "ceil128 n = (n + 127) div 128"
  using round_up_aux [of "n mod 128" 128 "n div 128"] by (simp add: ceil128_def add.commute)

lemma ceil128_mono: "m \<le> n \<Longrightarrow> ceil128 m \<le> ceil128 n"
  by (simp add: ceil128_alt div_le_mono)

lemma ceil128_pos: "0 < n \<Longrightarrow> 1 \<le> ceil128 n"
  using ceil128_mono [of 1 n] by (simp add: ceil128_alt)

lemma ceil128_step: "128 \<le> n \<Longrightarrow> ceil128 n = ceil128 (n - 128) + 1"
  using div_add_self2 [of 128 "n - 1"] by (simp add: ceil128_alt)

text \<open>Every literal group that is not full is followed by a run, and a run saves at least one
  byte; the extra unit on the left pays for the group's token.\<close>

lemma packbits_length_from:
  assumes "position \<le> length input"
  shows "length (packbits_compress_from input position encoded) +
      (if position < length input \<and> 3 \<le> repeated input position then 1 else 0) \<le>
    length encoded + (length input - position) + ceil128 (length input - position)"
  using assms
proof (induction position encoded rule: packbits_induct [where input = input])
  case (finish position encoded)
  then show ?case by (simp add: packbits_compress_from.simps [of input position])
next
  case (run position encoded)
  note spec = repeated_spec [OF run(1)]
  have "ceil128 (length input - (position + repeated input position)) \<le>
      ceil128 (length input - position)"
    by (rule ceil128_mono) simp
  with run spec show ?case
    by (simp add: packbits_compress_run [OF run(1,2)] del: of_nat_diff split: if_splits)
next
  case (literal position encoded e)
  note lit = packbits_compress_literal [OF literal(1,2), folded literal(3)]
  let ?rest = "length input - e"
  have IH: "length (packbits_compress_from input position encoded) +
      (if e < length input \<and> 3 \<le> repeated input e then 1 else 0) \<le>
      length encoded + 1 + (e - position) + ?rest + ceil128 ?rest"
    using literal(4) lit(1,3) by simp
  have sum: "(e - position) + ?rest = length input - position" using lit(2,3) by simp
  consider "e = length input" | "e < length input" "e - position < 128" | "e - position = 128"
    using lit(3,4) by linarith
  then have "length (packbits_compress_from input position encoded) \<le>
      length encoded + (length input - position) + ceil128 (length input - position)"
  proof cases
    case 1
    then have "1 \<le> ceil128 (length input - position)" using literal(1) by (intro ceil128_pos) simp
    with 1 IH show ?thesis by (simp add: ceil128_def)
  next
    case 2
    have "ceil128 ?rest \<le> ceil128 (length input - position)"
      using lit(2) by (intro ceil128_mono) simp
    moreover have "length (packbits_compress_from input position encoded) + 1 \<le>
        length encoded + 1 + (e - position) + ?rest + ceil128 ?rest"
      using IH 2 lit(5) [OF 2] by simp
    ultimately show ?thesis using sum by linarith
  next
    case 3
    then have e: "e = position + 128" using lit(2) by simp
    then have "128 \<le> length input - position" using lit(3) by simp
    then have "ceil128 (length input - position) = ceil128 ?rest + 1"
      by (simp add: e ceil128_step [of "length input - position"])
    with 3 IH sum show ?thesis by simp
  qed
  with literal(2) show ?case by simp
qed

lemma packbits_length: "length (packbits_compress_from xs 0 []) \<le> length xs + ceil128 (length xs)"
  using packbits_length_from [of 0 xs "[]"] by (auto split: if_splits)

lemma packbits_max_eq:
  "n \<le> vector_max \<Longrightarrow> packbits_max_compressed_size n = n + ceil128 n"
  by (auto simp: packbits_max_compressed_size_def ceil128_def vector_max_def SIZE_MAX_def Let_def)

lemma packbits_nonempty: "xs \<noteq> [] \<Longrightarrow> packbits_compress_from xs 0 [] \<noteq> []"
proof
  assume "xs \<noteq> []" and "packbits_compress_from xs 0 [] = []"
  with packbits_roundtrip_from [of 0 xs "[]"] show False
    by (simp add: packbits_decompress_from.simps [of "[]"] split: if_splits)
qed

lemma packbits_decompress_length:
  "packbits_decompress_from input n position decoded = Inr xs \<Longrightarrow> length xs = n"
proof (induction input n position decoded rule: packbits_decompress_from.induct)
  case (1 input n position decoded)
  from "1.prems" show ?case
    by (simp add: packbits_decompress_from.simps [of input n position decoded] Let_def "1.IH"
        split: if_splits)
qed

interpretation packbits: compression_codec packbits_codec
proof
  show "\<exists>ys. compress packbits_codec v False = Inr ys" if "view_valid v" for v
    using that by (simp add: packbits_codec_def packbits_compress_def)
  show "length ys \<le> max_compressed_size packbits_codec (length (view_bytes v))"
    if "view_valid v" "length (view_bytes v) \<le> vector_max"
      "compress packbits_codec v False = Inr ys" for v ys
    using that packbits_length [of "view_bytes v"]
    by (auto simp: packbits_codec_def packbits_compress_def packbits_max_eq)
  show "ys \<noteq> []" if "view_valid v" "view_bytes v \<noteq> []" "compress packbits_codec v False = Inr ys"
    for v ys
    using that packbits_nonempty by (auto simp: packbits_codec_def packbits_compress_def)
  show "decompress packbits_codec (View ys) (length (view_bytes v)) False = Inr (view_bytes v)"
    if "view_valid v" "compress packbits_codec v False = Inr ys" for v ys
    using that packbits_roundtrip_from [of 0 "view_bytes v" "[]"]
    by (auto simp: packbits_codec_def packbits_compress_def packbits_decompress_def)
  show "length xs = n" if "decompress packbits_codec w n False = Inr xs" for w n xs
    using that
    by (auto simp: packbits_codec_def packbits_decompress_def
        dest: packbits_decompress_length split: if_splits)
qed

end
