(* ===== verification/Lz4.thy ===== *)
theory Lz4
  imports Codec
begin

text \<open>
  The LZ4 block codec of src/codec.cpp (\<open>Lz4BlockCodec\<close> and its helpers). Positions are those of
  the source; the hash table is a list of positions biased by one. The encoder's loop returns the
  final anchor with the bytes written so far, the decoder's loop the output with the place of
  the last match. The theory interprets \<open>compression_codec\<close>: whatever matches the hash table
  suggests, the decoder rebuilds the input, the stream respects the end-of-block restrictions
  the decoder enforces, and the stored size stays within the declared bound.
\<close>

unbundle bit_operations_syntax

abbreviation (input) kLz4MinMatch :: nat where "kLz4MinMatch \<equiv> 4"
abbreviation (input) kLz4LastLiterals :: nat where "kLz4LastLiterals \<equiv> 5"
abbreviation (input) kLz4MatchFindLimit :: nat where "kLz4MatchFindLimit \<equiv> 12"
abbreviation (input) kLz4MaxDistance :: nat where "kLz4MaxDistance \<equiv> 65535"
abbreviation (input) kLz4HashLog :: nat where "kLz4HashLog \<equiv> 12"
abbreviation (input) kLz4MaxExpansion :: nat where "kLz4MaxExpansion \<equiv> 255"

definition lz4_load32 :: "bytes \<Rightarrow> nat \<Rightarrow> u32" where
  "lz4_load32 data position =
     ucast (data ! position) OR
     push_bit 8 (ucast (data ! (position + 1))) OR
     push_bit 16 (ucast (data ! (position + 2))) OR
     push_bit 24 (ucast (data ! (position + 3)))"

definition lz4_hash :: "u32 \<Rightarrow> nat" where
  "lz4_hash sequence = (let scattered = sequence * 2654435761 in
     unat (drop_bit (32 - kLz4HashLog) scattered))"

fun lz4_write_length :: "nat \<Rightarrow> bytes \<Rightarrow> bytes" where
  "lz4_write_length remaining out =
     (if remaining \<ge> 255 then lz4_write_length (remaining - 255) (out @ [255])
      else out @ [of_nat remaining])"

declare lz4_write_length.simps [simp del]

definition lz4_append_literals :: "bytes \<Rightarrow> nat \<Rightarrow> nat \<Rightarrow> bytes \<Rightarrow> bytes" where
  "lz4_append_literals data begin count out =
     (if count \<noteq> 0 then out @ sub_bytes data begin count else out)"

definition lz4_emit_sequence :: "bytes \<Rightarrow> nat \<Rightarrow> nat \<Rightarrow> nat \<Rightarrow> nat \<Rightarrow> bytes \<Rightarrow> bytes" where
  "lz4_emit_sequence data literal_begin literal_count distance match_length out =
     (let token_index = length out;
          out = out @ [0];
          (token, out) =
            (if literal_count \<ge> 15 then (0xf0 :: u8, lz4_write_length (literal_count - 15) out)
             else (of_nat (push_bit 4 literal_count), out));
          out = lz4_append_literals data literal_begin literal_count out;
          out = out @ [of_nat (distance AND 0xff)];
          out = out @ [of_nat (drop_bit 8 distance AND 0xff)];
          encoded_match = match_length - kLz4MinMatch;
          (token, out) =
            (if encoded_match \<ge> 15 then (token OR 0x0f, lz4_write_length (encoded_match - 15) out)
             else (token OR of_nat encoded_match, out))
      in out[token_index := token])"

definition lz4_emit_last_literals :: "bytes \<Rightarrow> nat \<Rightarrow> nat \<Rightarrow> bytes \<Rightarrow> bytes" where
  "lz4_emit_last_literals data literal_begin literal_count out =
     (let token_index = length out;
          out = out @ [0];
          out = (if literal_count \<ge> 15
                 then lz4_write_length (literal_count - 15) (out[token_index := 0xf0])
                 else out[token_index := of_nat (push_bit 4 literal_count)])
      in lz4_append_literals data literal_begin literal_count out)"

function lz4_read_length :: "bytes \<Rightarrow> nat \<Rightarrow> nat \<Rightarrow> nat \<Rightarrow> (nat \<times> nat) option" where
  "lz4_read_length stored limit position len =
     (if position \<ge> length stored then None
      else let extra = stored ! position; position = position + 1 in
        if len > limit \<or> unat extra > limit - len then None
        else let len = len + unat extra in
          if extra \<noteq> 255 then Some (position, len)
          else lz4_read_length stored limit position len)"
  by pat_completeness auto
termination
  by (relation "measure (\<lambda>(stored, limit, position, len). length stored - position)") auto

declare lz4_read_length.simps [simp del]

definition lz4_output_reserve :: "nat \<Rightarrow> nat \<Rightarrow> nat" where
  "lz4_output_reserve stored_size expected_size =
     (if stored_size > (SIZE_MAX - 32) div kLz4MaxExpansion then expected_size
      else let reachable = stored_size * kLz4MaxExpansion + 32 in
        if reachable < expected_size then reachable else expected_size)"

definition lz4_max_compressed_size :: "nat \<Rightarrow> nat" where
  "lz4_max_compressed_size input_size =
     (let overhead = input_size div 255 + 16 in
      if input_size > SIZE_MAX - overhead then SIZE_MAX else input_size + overhead)"

text \<open>The inner loop of the search: how far a match extends, up to the last literals.\<close>

function lz4_match_length :: "bytes \<Rightarrow> nat \<Rightarrow> nat \<Rightarrow> nat \<Rightarrow> nat \<Rightarrow> nat" where
  "lz4_match_length data match_limit match position len =
     (if position + len < match_limit \<and> data ! (match + len) = data ! (position + len)
      then lz4_match_length data match_limit match position (len + 1) else len)"
  by pat_completeness auto
termination
  by (relation "measure (\<lambda>(data, match_limit, match, position, len). match_limit - (position + len))")
    auto

declare lz4_match_length.simps [simp del]

lemma lz4_match_length_ge: "len \<le> lz4_match_length data match_limit match position len"
proof (induction data match_limit match position len rule: lz4_match_length.induct)
  case (1 data match_limit match position len)
  then show ?case by (subst lz4_match_length.simps) auto
qed

function lz4_compress_loop ::
  "bytes \<Rightarrow> nat list \<Rightarrow> nat \<Rightarrow> nat \<Rightarrow> nat \<Rightarrow> nat \<Rightarrow> bytes \<Rightarrow> nat \<times> bytes" where
  "lz4_compress_loop data table match_find_limit match_limit position anchor encoded =
     (if position < match_find_limit then
        let slot = lz4_hash (lz4_load32 data position);
            candidate = table ! slot;
            table = table[slot := position + 1]
        in if candidate = 0
           then lz4_compress_loop data table match_find_limit match_limit (position + 1) anchor encoded
           else let match = candidate - 1;
                    distance = position - match
             in if distance > kLz4MaxDistance \<or> lz4_load32 data match \<noteq> lz4_load32 data position
                then lz4_compress_loop data table match_find_limit match_limit (position + 1) anchor encoded
                else let len = lz4_match_length data match_limit match position kLz4MinMatch;
                         encoded = lz4_emit_sequence data anchor (position - anchor) distance len encoded;
                         position = position + len
                  in lz4_compress_loop data table match_find_limit match_limit position position encoded
      else (anchor, encoded))"
  by pat_completeness auto
termination
proof (relation "measure (\<lambda>(data, table, match_find_limit, match_limit, position, anchor, encoded).
    match_find_limit - position)", goal_cases)
  case (4 data table match_find_limit match_limit position anchor encoded slot candidate table'
      match distance len encoded' position')
  then show ?case using lz4_match_length_ge [of 4 data match_limit match position] by auto
qed auto

declare lz4_compress_loop.simps [simp del]

definition lz4_compress :: "byte_view \<Rightarrow> bool \<Rightarrow> status + bytes" where
  "lz4_compress input null_output =
     (if null_output then Inl (Error Invalid_argument ''null output'')
      else if \<not> view_valid input
      then Inl (Error Invalid_argument ''null non-empty compression input'')
      else let data = view_bytes input;
               sz = view_size input;
               (anchor, encoded) =
                 (if sz > kLz4MatchFindLimit then
                    let table = replicate (2 ^ kLz4HashLog) 0;
                        match_find_limit = sz - kLz4MatchFindLimit;
                        match_limit = sz - kLz4LastLiterals
                    in lz4_compress_loop data table match_find_limit match_limit 0 0 []
                  else (0, []))
           in Inr (lz4_emit_last_literals data anchor (sz - anchor) encoded))"

text \<open>The byte-by-byte copy of a match into the resized output.\<close>

function lz4_copy_match :: "bytes \<Rightarrow> nat \<Rightarrow> nat \<Rightarrow> nat \<Rightarrow> nat \<Rightarrow> bytes" where
  "lz4_copy_match decoded begin distance match i =
     (if i < match
      then lz4_copy_match (decoded[begin + i := decoded ! (begin - distance + i)]) begin distance match (i + 1)
      else decoded)"
  by pat_completeness auto
termination
  by (relation "measure (\<lambda>(decoded, begin, distance, match, i). match - i)") auto

declare lz4_copy_match.simps [simp del]

lemma lz4_read_length_ge:
  "lz4_read_length stored limit position len = Some (p, l) \<Longrightarrow> position < p"
proof (induction stored limit position len rule: lz4_read_length.induct)
  case (1 stored limit position len)
  from "1.prems" show ?case
    by (subst (asm) lz4_read_length.simps) (auto simp: Let_def dest: "1.IH" split: if_splits)
qed

text \<open>The length nibble of a token, continued in extra bytes when it is saturated.\<close>

definition lz4_length_field :: "bytes \<Rightarrow> nat \<Rightarrow> nat \<Rightarrow> nat \<Rightarrow> (nat \<times> nat) option" where
  "lz4_length_field stored limit position nibble =
     (if nibble = 15 then lz4_read_length stored limit position nibble else Some (position, nibble))"

lemma lz4_length_field_ge [dest]:
  "lz4_length_field stored limit position nibble = Some (p, l) \<Longrightarrow> position \<le> p"
  by (auto simp: lz4_length_field_def dest: lz4_read_length_ge split: if_splits)

record lz4_output =
  lz4_decoded :: bytes
  lz4_matched :: bool
  lz4_last_match_begin :: nat
  lz4_last_match_end :: nat

function lz4_decompress_loop :: "bytes \<Rightarrow> nat \<Rightarrow> nat \<Rightarrow> lz4_output \<Rightarrow> status + lz4_output" where
  "lz4_decompress_loop stored expected_size position st =
     (if position < length stored then
        let token = stored ! position; position = position + 1 in
        (case lz4_length_field stored expected_size position (unat (drop_bit 4 token)) of
           None \<Rightarrow> Inl (Error Corrupt ''invalid LZ4 literal length'')
         | Some (position, literals) \<Rightarrow>
           if literals > length stored - position \<or>
              literals > expected_size - length (lz4_decoded st)
           then Inl (Error Corrupt ''LZ4 literals exceed input or raw size'')
           else let decoded = lz4_decoded st @ sub_bytes stored position literals;
                    position = position + literals
             in if position = length stored
                then if token AND 0x0f \<noteq> 0
                  then Inl (Error Corrupt ''LZ4 final sequence announces a match'')
                  else Inr (st\<lparr>lz4_decoded := decoded\<rparr>)
                else if length stored - position < 2
                then Inl (Error Corrupt ''truncated LZ4 match offset'')
                else let distance = unat (stored ! position) OR push_bit 8 (unat (stored ! (position + 1)));
                         position = position + 2
                  in if distance = 0 \<or> distance > length decoded
                     then Inl (Error Corrupt ''LZ4 match offset outside decoded output'')
                     else (case lz4_length_field stored expected_size position (unat (token AND 0x0f)) of
                         None \<Rightarrow> Inl (Error Corrupt ''invalid LZ4 match length'')
                       | Some (position, match) \<Rightarrow>
                         if match > SIZE_MAX - kLz4MinMatch
                         then Inl (Error Corrupt ''LZ4 match length overflow'')
                         else let match = match + kLz4MinMatch in
                           if match > expected_size - length decoded
                           then Inl (Error Corrupt ''LZ4 match exceeds raw size'')
                           else let begin = length decoded;
                                    decoded = lz4_copy_match (decoded @ replicate match 0) begin distance match 0
                             in lz4_decompress_loop stored expected_size position
                                  \<lparr>lz4_decoded = decoded, lz4_matched = True,
                                   lz4_last_match_begin = begin, lz4_last_match_end = length decoded\<rparr>))
      else Inr st)"
  by pat_completeness auto
termination
  by (relation "measure (\<lambda>(stored, expected_size, position, st). length stored - position)")
    (auto dest!: lz4_length_field_ge)

declare lz4_decompress_loop.simps [simp del]

definition lz4_decompress :: "byte_view \<Rightarrow> nat \<Rightarrow> bool \<Rightarrow> status + bytes" where
  "lz4_decompress input expected_size null_output =
     (if null_output then Inl (Error Invalid_argument ''null output'')
      else if \<not> view_valid input
      then Inl (Error Invalid_argument ''null non-empty decompression input'')
      else case lz4_decompress_loop (view_bytes input) expected_size 0
             \<lparr>lz4_decoded = [], lz4_matched = False, lz4_last_match_begin = 0, lz4_last_match_end = 0\<rparr> of
          Inl s \<Rightarrow> Inl s
        | Inr st \<Rightarrow>
            if length (lz4_decoded st) \<noteq> expected_size
            then Inl (Error Corrupt ''LZ4 output size mismatch'')
            else if lz4_matched st \<and>
              (expected_size - lz4_last_match_end st < kLz4LastLiterals \<or>
               expected_size - lz4_last_match_begin st < kLz4MatchFindLimit)
            then Inl (Error Corrupt ''LZ4 last match breaks the parsing restrictions'')
            else Inr (lz4_decoded st))"

definition lz4_block_codec :: codec where
  "lz4_block_codec = \<lparr>codec_id = Compression_lz4_block, codec_version = 1,
     max_compressed_size = lz4_max_compressed_size,
     compress = lz4_compress, decompress = lz4_decompress\<rparr>"

section \<open>Length fields\<close>

lemma lz4_write_length_append: "lz4_write_length r (a @ b) = a @ lz4_write_length r b"
proof (induction r b rule: lz4_write_length.induct)
  case (1 r b)
  then show ?case
    by (cases "255 \<le> r") (simp_all add: lz4_write_length.simps [of r])
qed

lemma lz4_write_length_Nil: "lz4_write_length r out = out @ lz4_write_length r []"
  using lz4_write_length_append [of r out "[]"] by simp

lemma lz4_write_length_rec:
  "lz4_write_length r [] =
     (if 255 \<le> r then 255 # lz4_write_length (r - 255) [] else [of_nat r])"
  using lz4_write_length_append [of "r - 255" "[255]" "[]"]
  by (simp add: lz4_write_length.simps [of r])

lemma length_lz4_write_length: "length (lz4_write_length r []) = r div 255 + 1"
proof (induction r rule: less_induct)
  case (less r)
  then show ?case
    by (cases "255 \<le> r") (simp_all add: lz4_write_length_rec [of r] le_div_geq)
qed

lemma lz4_read_write_length:
  assumes "len + r \<le> limit"
  shows "lz4_read_length (pre @ lz4_write_length r [] @ post) limit (length pre) len =
     Some (length pre + length (lz4_write_length r []), len + r)"
  using assms
proof (induction r arbitrary: pre len rule: less_induct)
  case (less r)
  show ?case
  proof (cases "255 \<le> r")
    case True
    with less.IH [of "r - 255" "len + 255" "pre @ [255]"] less.prems show ?thesis
      by (simp add: lz4_write_length_rec [of r] lz4_read_length.simps [of "pre @ _"])
  next
    case False
    then have "of_nat r \<noteq> (255 :: u8)" "unat (of_nat r :: u8) = r"
      using unat_of_nat_u8 [of r] by auto
    with False less.prems show ?thesis
      by (simp add: lz4_write_length_rec [of r] lz4_read_length.simps [of "pre @ _"] Let_def)
  qed
qed

text \<open>How a length is stored: a nibble, and the bytes that continue a saturated one.\<close>

definition lz4_nibble :: "nat \<Rightarrow> nat" where
  "lz4_nibble n = min n 15"

definition lz4_extra :: "nat \<Rightarrow> bytes" where
  "lz4_extra n = (if n \<ge> 15 then lz4_write_length (n - 15) [] else [])"

lemma lz4_length_field_extra:
  assumes "n \<le> limit"
  shows "lz4_length_field (pre @ lz4_extra n @ post) limit (length pre) (lz4_nibble n) =
    Some (length pre + length (lz4_extra n), n)"
  using assms lz4_read_write_length [of 15 "n - 15" limit pre post]
  by (auto simp: lz4_length_field_def lz4_extra_def lz4_nibble_def)

lemma length_lz4_extra: "length (lz4_extra n) = (n + 240) div 255"
  by (auto simp: lz4_extra_def length_lz4_write_length le_div_geq not_le)

definition lz4_token :: "nat \<Rightarrow> nat \<Rightarrow> u8" where
  "lz4_token literals match = of_nat (16 * lz4_nibble literals) OR of_nat (lz4_nibble match)"

lemma lz4_nibble_less: "lz4_nibble n < 16" by (simp add: lz4_nibble_def)

lemma lz4_token_nibbles:
  assumes "a < 16" "b < (16::nat)"
  shows "unat (drop_bit 4 (of_nat (16 * a) OR of_nat b :: u8)) = a"
    "unat ((of_nat (16 * a) OR of_nat b :: u8) AND 0x0f) = b"
proof -
  have "\<forall>a<16. \<forall>b<16. unat (drop_bit 4 (of_nat (16 * a) OR of_nat b :: u8)) = a \<and>
      unat ((of_nat (16 * a) OR of_nat b :: u8) AND 0x0f) = b"
    by code_simp
  with assms show "unat (drop_bit 4 (of_nat (16 * a) OR of_nat b :: u8)) = a"
    "unat ((of_nat (16 * a) OR of_nat b :: u8) AND 0x0f) = b" by blast+
qed

definition lz4_sequence :: "bytes \<Rightarrow> nat \<Rightarrow> nat \<Rightarrow> nat \<Rightarrow> nat \<Rightarrow> bytes" where
  "lz4_sequence data b n distance m =
    [lz4_token n (m - 4)] @ lz4_extra n @ sub_bytes data b n @
    [of_nat (distance mod 256), of_nat (distance div 256 mod 256)] @ lz4_extra (m - 4)"

lemma lz4_emit_sequence_eq:
  assumes "4 \<le> m"
  shows "lz4_emit_sequence data b n distance m out = out @ lz4_sequence data b n distance m"
proof -
  have a: "distance AND 255 = distance mod 256" "drop_bit 8 distance AND 255 = distance div 256 mod 256"
    using take_bit_eq_mod [of 8 distance] take_bit_eq_mod [of 8 "distance div 256"]
    by (simp_all add: take_bit_eq_mask mask_eq_exp_minus_1 drop_bit_eq_div)
  show ?thesis
    using assms
    by (auto simp: lz4_emit_sequence_def lz4_sequence_def Let_def lz4_append_literals_def a lz4_extra_def
        lz4_write_length_Nil [of _ "_ @ _"] list_update_append lz4_token_def lz4_nibble_def
        min_def push_bit_eq_mult mult.commute)
qed

lemma lz4_emit_last_literals_eq:
  "lz4_emit_last_literals data b n out =
    out @ [lz4_token n 0] @ lz4_extra n @ sub_bytes data b n"
  by (auto simp: lz4_emit_last_literals_def Let_def lz4_append_literals_def lz4_extra_def
      lz4_write_length_Nil [of _ "_ @ _"] list_update_append lz4_token_def lz4_nibble_def
      min_def push_bit_eq_mult)
section \<open>Matches\<close>

lemma lz4_load32_byte:
  "k < 4 \<Longrightarrow> ucast (drop_bit (8 * k) (lz4_load32 data p)) = data ! (p + k)"
proof -
  assume "k < 4"
  then consider "k = 0" | "k = 1" | "k = 2" | "k = 3" by linarith
  then show ?thesis
    by cases (rule bit_word_eqI, auto simp: lz4_load32_def bit_simps dest: bit_u8_less)+
qed

lemma lz4_load32_eq:
  assumes "lz4_load32 data m = lz4_load32 data p" and "k < 4"
  shows "data ! (m + k) = data ! (p + k)"
  using lz4_load32_byte [OF assms(2), of data] assms(1) by metis

lemma lz4_match_length_spec:
  assumes "\<And>i. i < len \<Longrightarrow> data ! (match + i) = data ! (position + i)"
  shows "i < lz4_match_length data match_limit match position len \<Longrightarrow>
      data ! (match + i) = data ! (position + i)"
    and "lz4_match_length data match_limit match position len \<le> max len (match_limit - position)"
proof -
  have "(\<forall>i < lz4_match_length data match_limit match position len.
      data ! (match + i) = data ! (position + i)) \<and>
    lz4_match_length data match_limit match position len \<le> max len (match_limit - position)"
    using assms
  proof (induction data match_limit match position len rule: lz4_match_length.induct)
    case (1 data match_limit match position len)
    show ?case
    proof (cases "position + len < match_limit \<and> data ! (match + len) = data ! (position + len)")
      case True
      have "data ! (match + i) = data ! (position + i)" if "i < len + 1" for i
        using that True "1.prems" by (cases "i = len") auto
      from "1.IH" [OF True this] True show ?thesis
        by (subst (1 2) lz4_match_length.simps) auto
    next
      case False
      with 1 show ?thesis by (subst (1 2) lz4_match_length.simps) auto
    qed
  qed
  then show "i < lz4_match_length data match_limit match position len \<Longrightarrow>
      data ! (match + i) = data ! (position + i)"
    and "lz4_match_length data match_limit match position len \<le> max len (match_limit - position)"
    by blast+
qed

lemma lz4_copy_match_from:
  assumes "i \<le> m" "b + m \<le> length data" "0 < distance" "distance \<le> b"
    and "\<And>j. j < m \<Longrightarrow> data ! (b - distance + j) = data ! (b + j)"
  shows "lz4_copy_match (take (b + i) data @ replicate (m - i) 0) b distance m i = take (b + m) data"
  using assms(1)
proof (induction "m - i" arbitrary: i)
  case 0
  then show ?case using assms(2) by (subst lz4_copy_match.simps) simp
next
  case (Suc k)
  then have i: "i < m" and r: "replicate (m - i) (0::u8) = 0 # replicate (m - Suc i) 0"
    by (auto simp flip: replicate_Suc simp: Suc_diff_Suc)
  have "(take (b + i) data @ replicate (m - i) 0) ! (b - distance + i) = data ! (b + i)"
    using i assms(2-4) assms(5) [OF i] by (simp add: nth_append)
  moreover have "(take (b + i) data @ replicate (m - i) 0)[b + i := data ! (b + i)] =
      take (b + Suc i) data @ replicate (m - Suc i) 0"
    using i assms(2) by (simp add: r list_update_append take_Suc_conv_app_nth)
  ultimately show ?case
    using Suc(1) [of "Suc i"] Suc(2) i by (subst lz4_copy_match.simps) simp
qed

lemma lz4_copy_match_take:
  assumes "b + m \<le> length data" "0 < distance" "distance \<le> b"
    and "\<And>j. j < m \<Longrightarrow> data ! (b - distance + j) = data ! (b + j)"
  shows "lz4_copy_match (take b data @ replicate m 0) b distance m 0 = take (b + m) data"
  using lz4_copy_match_from [of 0 m b data distance] assms by simp

lemma lz4_distance_bytes:
  assumes "distance < 65536"
  shows "unat (of_nat (distance mod 256) :: u8) OR
    push_bit 8 (unat (of_nat (distance div 256 mod 256) :: u8)) = distance"
proof -
  have "distance div 256 < 256" using assms by (simp add: less_mult_imp_div_less)
  moreover have "take_bit 8 distance OR push_bit 8 (drop_bit 8 distance) = distance"
  proof (rule bit_eqI)
    fix n
    show "bit (take_bit 8 distance OR push_bit 8 (drop_bit 8 distance)) n = bit distance n"
      by (cases "n < 8") (simp_all add: bit_simps)
  qed
  ultimately show ?thesis
    by (simp add: unat_of_nat_u8 take_bit_eq_mod drop_bit_eq_div)
qed
section \<open>Round trip\<close>

lemma lz4_token_fields [simp]:
  "unat (drop_bit 4 (lz4_token n m)) = lz4_nibble n"
  "unat (lz4_token n m AND 0x0f) = lz4_nibble m"
  unfolding lz4_token_def by (rule lz4_token_nibbles; rule lz4_nibble_less)+

lemma lz4_token_no_match [simp]: "lz4_token n 0 AND 0x0f = 0"
  by (rule unat_eq_0 [THEN iffD1]) (simp only: lz4_token_fields, simp add: lz4_nibble_def)

lemma lz4_decode_sequence:
  assumes stored: "stored = pre @ lz4_sequence data a n distance m @ post"
    and st: "lz4_decoded st = take a data"
    and fits: "a + n + m \<le> length data" "length data \<le> vector_max" "4 \<le> m"
    and dist: "0 < distance" "distance \<le> a + n" "distance < 65536"
    and same: "\<And>j. j < m \<Longrightarrow> data ! (a + n - distance + j) = data ! (a + n + j)"
  shows "lz4_decompress_loop stored (length data) (length pre) st =
    lz4_decompress_loop stored (length data) (length (pre @ lz4_sequence data a n distance m))
      \<lparr>lz4_decoded = take (a + n + m) data, lz4_matched = True,
       lz4_last_match_begin = a + n, lz4_last_match_end = a + n + m\<rparr>"
proof -
  define lits where "lits = sub_bytes data a n"
  define off where "off = [of_nat (distance mod 256), of_nat (distance div 256 mod 256) :: u8]"
  define p1 where "p1 = pre @ [lz4_token n (m - 4)]"
  define p2 where "p2 = p1 @ lz4_extra n"
  define p3 where "p3 = p2 @ lits @ off"
  have s1: "stored = p1 @ lz4_extra n @ (lits @ off @ lz4_extra (m - 4) @ post)"
    and s2: "stored = p2 @ lits @ off @ lz4_extra (m - 4) @ post"
    and s3: "stored = p3 @ lz4_extra (m - 4) @ post"
    and s4: "pre @ lz4_sequence data a n distance m = p3 @ lz4_extra (m - 4)"
    by (simp_all add: stored lz4_sequence_def p1_def p2_def p3_def lits_def off_def)
  have len: "length lits = n" "length off = 2"
    using fits(1) by (auto simp: lits_def off_def)
  have l: "length p1 = length pre + 1" "length p2 = length p1 + length (lz4_extra n)"
    "length p3 = length p2 + n + 2"
    by (simp_all add: p3_def p1_def p2_def len)
  have f1: "lz4_length_field stored (length data) (length p1) (lz4_nibble n) = Some (length p2, n)"
    unfolding s1 using fits(1) by (simp only: lz4_length_field_extra [of n] l(2) le_trans [OF le_add2 [of n a]] add_leD1)
  have f2: "lz4_length_field stored (length data) (length p3) (lz4_nibble (m - 4)) =
      Some (length p3 + length (lz4_extra (m - 4)), m - 4)"
    unfolding s3 using fits(1) by (simp add: lz4_length_field_extra)
  have t: "stored ! length pre = lz4_token n (m - 4)" "length pre < length stored"
    by (simp_all add: s1 p1_def)
  have sl: "length stored \<ge> length p2 + n + 2" using s2 len by simp
  have lits: "sub_bytes stored (length p2) n = lits" using s2 len by simp
  have d: "unat (stored ! (length p2 + n)) OR push_bit 8 (unat (stored ! (length p2 + n + 1))) = distance"
    using s2 len(1) lz4_distance_bytes [OF dist(3)] by (simp add: off_def nth_append)
  have dec: "lz4_decoded st @ lits = take (a + n) data" "length (take (a + n) data) = a + n"
    using fits(1) by (simp_all add: st lits_def take_Suc_sub_bytes)
  have copy: "lz4_copy_match (take (a + n) data @ replicate (m - 4 + 4) 0) (a + n) distance (m - 4 + 4) 0 =
      take (a + n + m) data" "length (take (a + n + m) data) = a + n + m"
    using lz4_copy_match_take [OF fits(1) dist(1,2) same] fits(1,3) by simp_all
  have da: "length (lz4_decoded st) = a" using fits(1) by (simp add: st)
  have g: "\<not> SIZE_MAX - 4 < m - 4" "\<not> length data - (a + n) < m" "\<not> length data - a < n"
    "\<not> length stored - length p2 < n" "length p2 + n \<noteq> length stored"
    "\<not> length stored - (length p2 + n) < 2" "m - 4 + 4 = m" "distance \<noteq> 0" "\<not> a + n < distance"
    using fits dist sl by (auto simp: SIZE_MAX_def vector_max_def)
  show ?thesis
    unfolding lz4_decompress_loop.simps [of stored _ "length pre"]
    by (simp only: Let_def t lz4_token_fields f1 l(1,3) [symmetric] option.case prod.case da g lits dec
        d f2 copy copy [unfolded g] s4 len length_append if_True if_False simp_thms)
qed

text \<open>What the decoder needs to know of the last match it saw.\<close>

definition lz4_restrictions :: "nat \<Rightarrow> lz4_output \<Rightarrow> bool" where
  "lz4_restrictions n st \<longleftrightarrow> lz4_matched st \<longrightarrow>
     lz4_last_match_end st + 5 \<le> n \<and> lz4_last_match_begin st + 12 \<le> n"

lemma lz4_hash_less: "lz4_hash sequence < 4096"
proof -
  have "drop_bit 20 (take_bit 32 x) < 4096" for x :: nat
    using take_bit_nat_less_exp [of 32 x] by (simp add: drop_bit_eq_div less_mult_imp_div_less)
  then show ?thesis by (simp add: lz4_hash_def unsigned_drop_bit_eq Let_def)
qed

text \<open>One step of the search: stop, skip a position, or emit a match whose bytes agree.\<close>

lemma lz4_compress_loop_cases:
  fixes data table position anchor encoded
  defines "table' \<equiv> table[lz4_hash (lz4_load32 data position) := position + 1]"
  assumes "length table = 4096" "\<forall>c \<in> set table. c \<le> position"
  obtains (stop) "position \<ge> mfl"
      "lz4_compress_loop data table mfl ml position anchor encoded = (anchor, encoded)"
  | (skip) "position < mfl"
      "lz4_compress_loop data table mfl ml position anchor encoded =
       lz4_compress_loop data table' mfl ml (position + 1) anchor encoded"
  | (match) match len where "position < mfl" "match < position" "position - match \<le> 65535"
      "4 \<le> len" "position + len \<le> max (position + 4) ml"
      "\<And>i. i < len \<Longrightarrow> data ! (match + i) = data ! (position + i)"
      "lz4_compress_loop data table mfl ml position anchor encoded =
       lz4_compress_loop data table' mfl ml (position + len) (position + len)
         (lz4_emit_sequence data anchor (position - anchor) (position - match) len encoded)"
proof -
  let ?slot = "lz4_hash (lz4_load32 data position)"
  note loop = lz4_compress_loop.simps [of data table mfl ml position anchor encoded]
  have "table ! ?slot \<le> position" using assms(2,3) lz4_hash_less by simp
  show thesis
  proof (cases "position < mfl \<and> table ! ?slot \<noteq> 0 \<and>
      \<not> (position - (table ! ?slot - 1) > 65535 \<or>
         lz4_load32 data (table ! ?slot - 1) \<noteq> lz4_load32 data position)")
    case False
    then have "lz4_compress_loop data table mfl ml position anchor encoded =
        (if position < mfl then lz4_compress_loop data table' mfl ml (position + 1) anchor encoded
         else (anchor, encoded))"
      unfolding loop table'_def Let_def by (simp only: if_split split: if_split) blast
    then show ?thesis using stop skip by (cases "position < mfl") simp_all
  next
    case True
    then have tr: "position < mfl" "table ! ?slot \<noteq> 0"
      "(position - (table ! ?slot - 1) > 65535 \<or>
        lz4_load32 data (table ! ?slot - 1) \<noteq> lz4_load32 data position) = False"
      by blast+
    define m where "m = table ! ?slot - 1"
    define len where "len = lz4_match_length data ml m position 4"
    have four: "data ! (m + i) = data ! (position + i)" if "i < 4" for i
      using True that by (intro lz4_load32_eq) (simp_all add: m_def)
    note spec = lz4_match_length_spec [where len = 4 and match_limit = ml, OF four]
    show ?thesis
    proof (rule match [of m len])
      show "position < mfl" "position - m \<le> 65535" using True unfolding m_def by linarith+
      show "m < position" using True \<open>table ! ?slot \<le> position\<close>
        unfolding m_def by linarith
      show "4 \<le> len" unfolding len_def by (rule lz4_match_length_ge)
      show "position + len \<le> max (position + 4) ml" using spec(2) by (auto simp: len_def)
      show "data ! (m + i) = data ! (position + i)" if "i < len" for i
        using spec(1) that by (simp add: len_def)
      show "lz4_compress_loop data table mfl ml position anchor encoded =
        lz4_compress_loop data table' mfl ml (position + len) (position + len)
         (lz4_emit_sequence data anchor (position - anchor) (position - m) len encoded)"
        unfolding loop table'_def m_def len_def Let_def by (simp only: tr if_True if_False simp_thms)
    qed
  qed
qed

text \<open>Everything the search writes is undone by the decoder, from any point of the search on.\<close>

lemma lz4_compress_loop_roundtrip:
  assumes "anchor \<le> position" "position \<le> length data - 5" "13 \<le> length data"
    and "length data \<le> vector_max"
    and "length table = 4096" "\<forall>c \<in> set table. c \<le> position"
    and "lz4_compress_loop data table (length data - 12) (length data - 5) position anchor encoded =
      (anchor', encoded')"
    and "lz4_decoded st = take anchor data" "lz4_restrictions (length data) st"
  shows "anchor' \<le> length data \<and> (\<exists>rest. encoded' = encoded @ rest \<and>
    (\<forall>post. \<exists>st'. lz4_decoded st' = take anchor' data \<and> lz4_restrictions (length data) st' \<and>
      lz4_decompress_loop (encoded' @ post) (length data) (length encoded) st =
      lz4_decompress_loop (encoded' @ post) (length data) (length encoded') st'))"
  using assms
proof (induction "length data - position" arbitrary: position table anchor encoded st
    rule: less_induct)
  case less
  let ?slot = "lz4_hash (lz4_load32 data position)"
  let ?table = "table[?slot := position + 1]"
  have tab: "\<forall>c \<in> set ?table. c \<le> position + 1"
    using less.prems(6) set_update_subset_insert [of table ?slot "position + 1"] by fastforce
  from less.prems(5,6) show ?case
  proof (cases rule: lz4_compress_loop_cases [where data = data and table = table and
        position = position and anchor = anchor and encoded = encoded and
        mfl = "length data - 12" and ml = "length data - 5"])
    case stop
    then show ?thesis using less.prems by auto
  next
    case skip
    then show ?thesis
      using less.prems less.hyps [of "position + 1" anchor ?table encoded st] tab by auto
  next
    case (match m len)
    let ?n = "position - anchor"
    let ?seq = "lz4_sequence data anchor ?n (position - m) len"
    let ?st = "\<lparr>lz4_decoded = take (position + len) data, lz4_matched = True,
       lz4_last_match_begin = position, lz4_last_match_end = position + len\<rparr>"
    have emit: "lz4_emit_sequence data anchor ?n (position - m) len encoded = encoded @ ?seq"
      using match(4) by (simp add: lz4_emit_sequence_eq)
    have bnd: "position + len + 5 \<le> length data" "position + 12 \<le> length data"
      using match(1,5) less.prems(3) by auto
    have "lz4_restrictions (length data) ?st" using bnd by (simp add: lz4_restrictions_def)
    moreover have "lz4_compress_loop data ?table (length data - 12) (length data - 5)
        (position + len) (position + len) (encoded @ ?seq) = (anchor', encoded')"
      using match(7) less.prems(7) emit by simp
    moreover have "\<forall>c \<in> set ?table. c \<le> position + len"
      using tab match(4) by fastforce
    moreover have "length data - (position + len) < length data - position"
      "position + len \<le> length data - 5"
      using bnd match(4) by linarith+
    ultimately have "anchor' \<le> length data \<and> (\<exists>rest. encoded' = (encoded @ ?seq) @ rest \<and>
      (\<forall>post. \<exists>st'. lz4_decoded st' = take anchor' data \<and> lz4_restrictions (length data) st' \<and>
        lz4_decompress_loop (encoded' @ post) (length data) (length (encoded @ ?seq)) ?st =
        lz4_decompress_loop (encoded' @ post) (length data) (length encoded') st'))"
      using less.prems(3-5)
      by (intro less.hyps [of "position + len" "position + len" ?table "encoded @ ?seq" ?st]) simp_all
    then obtain rest where rest: "anchor' \<le> length data"
      "encoded' = (encoded @ ?seq) @ rest"
      "\<And>post. \<exists>st'. lz4_decoded st' = take anchor' data \<and> lz4_restrictions (length data) st' \<and>
        lz4_decompress_loop (encoded' @ post) (length data) (length (encoded @ ?seq)) ?st =
        lz4_decompress_loop (encoded' @ post) (length data) (length encoded') st'"
      by blast
    have "lz4_decompress_loop (encoded' @ post) (length data) (length encoded) st =
      lz4_decompress_loop (encoded' @ post) (length data) (length (encoded @ ?seq)) ?st" for post
      using lz4_decode_sequence [of "encoded' @ post" encoded data anchor ?n "position - m" len
          "rest @ post" st] rest(2) less.prems(1,4,8) match(2-4,6) bnd
      by simp
    with rest show ?thesis by auto
  qed
qed

lemma lz4_decode_last:
  assumes stored: "stored = pre @ [lz4_token n 0] @ lz4_extra n @ sub_bytes data a n"
    and st: "lz4_decoded st = take a data" and n: "n = length data - a" "a \<le> length data"
  shows "lz4_decompress_loop stored (length data) (length pre) st = Inr (st\<lparr>lz4_decoded := data\<rparr>)"
proof -
  define lits where "lits = sub_bytes data a n"
  define p1 where "p1 = pre @ [lz4_token n 0]"
  define p2 where "p2 = p1 @ lz4_extra n"
  have s: "stored = p1 @ lz4_extra n @ lits" "stored = p2 @ lits @ []" "length lits = n"
    using n by (simp_all add: stored p1_def p2_def lits_def)
  have l: "length p1 = length pre + 1" "length p2 = length p1 + length (lz4_extra n)"
    by (simp_all add: p1_def p2_def)
  have f: "lz4_length_field stored (length data) (length p1) (lz4_nibble n) = Some (length p2, n)"
    unfolding s(1) using n by (simp add: lz4_length_field_extra l(2))
  have t: "stored ! length pre = lz4_token n 0" "length pre < length stored"
    by (simp_all add: s p1_def)
  have lits: "sub_bytes stored (length p2) n = lits" using s(3) by (simp add: s(2) sub_bytes_def)
  have dec: "lz4_decoded st @ lits = data"
    using n take_Suc_sub_bytes [of a n data] by (simp add: st lits_def)
  have g: "\<not> length stored - length p2 < n" "\<not> length data - a < n" "length p2 + n = length stored"
    "length (lz4_decoded st) = a"
    using s n by (simp_all add: st)
  show ?thesis
    unfolding lz4_decompress_loop.simps [of stored _ "length pre"]
    by (simp only: Let_def t lz4_token_fields f l(1) [symmetric] option.case prod.case g lits dec
        lz4_token_no_match if_True if_False simp_thms)
qed

lemma lz4_roundtrip:
  assumes "view_valid v" "length (view_bytes v) \<le> vector_max" "lz4_compress v False = Inr ys"
  shows "lz4_decompress (View ys) (length (view_bytes v)) False = Inr (view_bytes v)"
proof -
  let ?d = "view_bytes v"
  let ?st = "\<lparr>lz4_decoded = [], lz4_matched = False, lz4_last_match_begin = 0, lz4_last_match_end = 0\<rparr>"
  have sz: "view_size v = length ?d" using assms(1) by (simp add: view_size_bytes)
  have "\<exists>st. lz4_restrictions (length ?d) st \<and>
      lz4_decompress_loop ys (length ?d) 0 ?st = Inr (st\<lparr>lz4_decoded := ?d\<rparr>)"
  proof (cases "length ?d > 12")
    case True
    obtain a e where loop: "lz4_compress_loop ?d (replicate 4096 0) (length ?d - 12) (length ?d - 5) 0 0 [] = (a, e)"
      by fastforce
    have ys: "ys = e @ [lz4_token (length ?d - a) 0] @ lz4_extra (length ?d - a) @ sub_bytes ?d a (length ?d - a)"
      using assms(1,3) True loop by (simp add: lz4_compress_def sz lz4_emit_last_literals_eq Let_def)
    from lz4_compress_loop_roundtrip [OF _ _ _ assms(2) _ _ loop, of ?st] True
    obtain st where st: "a \<le> length ?d" "lz4_decoded st = take a ?d" "lz4_restrictions (length ?d) st"
      "lz4_decompress_loop ys (length ?d) 0 ?st = lz4_decompress_loop ys (length ?d) (length e) st"
      by (auto simp: lz4_restrictions_def ys)
    then show ?thesis using lz4_decode_last [OF ys st(2)] by auto
  next
    case False
    then have ys: "ys = [] @ [lz4_token (length ?d - 0) 0] @ lz4_extra (length ?d - 0) @ sub_bytes ?d 0 (length ?d - 0)"
      using assms(1,3) by (simp add: lz4_compress_def sz lz4_emit_last_literals_eq Let_def)
    have "lz4_decompress_loop ys (length ?d) 0 ?st = Inr (?st\<lparr>lz4_decoded := ?d\<rparr>)"
      using lz4_decode_last [OF ys, of ?st] by simp
    then show ?thesis by (intro exI [of _ ?st]) (simp add: lz4_restrictions_def)
  qed
  then show ?thesis
    by (auto simp: lz4_decompress_def lz4_restrictions_def)
qed

section \<open>Size bound\<close>

text \<open>Every sequence costs at most 256/255 of the bytes it covers: a match is at least four bytes
  and costs its token, its offset and at most one byte per 255.\<close>

lemma length_lz4_sequence:
  assumes "a + n \<le> length data" "4 \<le> m"
  shows "255 * length (lz4_sequence data a n distance m) \<le> 256 * (n + m)"
proof -
  define x y where "x = (n + 240) div 255" and "y = (m + 236) div 255"
  have "length (sub_bytes data a n) = n" using assms(1) by auto
  then have "length (lz4_sequence data a n distance m) = 3 + n + x + y"
    using assms(2) by (simp add: lz4_sequence_def length_lz4_extra x_def y_def)
  moreover have "255 * x \<le> n + 240" by (simp add: x_def)
  moreover have "y + 4 \<le> m" using assms(2) unfolding y_def by linarith
  ultimately show ?thesis by simp
qed

lemma lz4_compress_loop_length:
  assumes "anchor \<le> position" "position \<le> length data - 5" "13 \<le> length data"
    and "length table = 4096" "\<forall>c \<in> set table. c \<le> position"
    and "lz4_compress_loop data table (length data - 12) (length data - 5) position anchor encoded =
      (anchor', encoded')"
  shows "255 * length encoded' + 256 * anchor \<le> 255 * length encoded + 256 * anchor' \<and> anchor' \<le> length data"
  using assms
proof (induction "length data - position" arbitrary: position table anchor encoded rule: less_induct)
  case less
  let ?slot = "lz4_hash (lz4_load32 data position)"
  let ?table = "table[?slot := position + 1]"
  have tab: "\<forall>c \<in> set ?table. c \<le> position + 1"
    using less.prems(5) set_update_subset_insert [of table ?slot "position + 1"] by fastforce
  from less.prems(4,5) show ?case
  proof (cases rule: lz4_compress_loop_cases [where data = data and table = table and
        position = position and anchor = anchor and encoded = encoded and
        mfl = "length data - 12" and ml = "length data - 5"])
    case stop
    then show ?thesis using less.prems by auto
  next
    case skip
    then show ?thesis using less.prems less.hyps [of "position + 1" anchor ?table encoded] tab by auto
  next
    case (match m len)
    let ?seq = "lz4_sequence data anchor (position - anchor) (position - m) len"
    have bnd: "position + len + 5 \<le> length data" using match(1,5) less.prems(3) by auto
    have "255 * length (encoded @ ?seq) \<le> 255 * length encoded + 256 * (position + len - anchor)"
      using length_lz4_sequence [of anchor "position - anchor" data len "position - m"] bnd match(4)
        less.prems(1) by simp
    moreover have "\<forall>c \<in> set ?table. c \<le> position + len" using tab match(4) by fastforce
    then have "255 * length encoded' + 256 * (position + len) \<le> 255 * length (encoded @ ?seq) + 256 * anchor' \<and>
        anchor' \<le> length data"
      using less.prems(3,4,6) match(4,7) bnd
      by (intro less.hyps [of "position + len" "position + len" ?table "encoded @ ?seq"])
        (simp_all add: lz4_emit_sequence_eq)
    ultimately show ?thesis using less.prems(1) by auto
  qed
qed

lemma lz4_length:
  assumes "view_valid v" "lz4_compress v False = Inr ys"
  shows "255 * length ys \<le> 256 * length (view_bytes v) + 495" "ys \<noteq> []"
proof -
  let ?d = "view_bytes v"
  have sz: "view_size v = length ?d" using assms(1) by (simp add: view_size_bytes)
  obtain a e where ys: "ys = e @ [lz4_token (length ?d - a) 0] @ lz4_extra (length ?d - a) @
      sub_bytes ?d a (length ?d - a)" and e: "255 * length e \<le> 256 * a" "a \<le> length ?d"
  proof (cases "length ?d > 12")
    case True
    obtain a e where loop: "lz4_compress_loop ?d (replicate 4096 0) (length ?d - 12) (length ?d - 5) 0 0 [] = (a, e)"
      by fastforce
    from lz4_compress_loop_length [OF _ _ _ _ _ loop] True
    have "255 * length e \<le> 256 * a" "a \<le> length ?d" by simp_all
    then show ?thesis
      using assms True loop that [of e a] by (simp add: lz4_compress_def sz lz4_emit_last_literals_eq Let_def)
  next
    case False
    then show ?thesis
      using assms that [of "[]" 0] by (simp add: lz4_compress_def sz lz4_emit_last_literals_eq Let_def)
  qed
  let ?n = "length ?d - a"
  have "255 * ((?n + 240) div 255) \<le> ?n + 240" by simp
  moreover have "length ys = length e + 1 + (?n + 240) div 255 + ?n"
    unfolding ys by (simp add: length_lz4_extra)
  ultimately show "255 * length ys \<le> 256 * length ?d + 495" using e by linarith
  show "ys \<noteq> []" by (simp add: ys)
qed

lemma lz4_max_eq: "n \<le> vector_max \<Longrightarrow> lz4_max_compressed_size n = n + n div 255 + 16"
  by (auto simp: lz4_max_compressed_size_def vector_max_def SIZE_MAX_def Let_def)

interpretation lz4: compression_codec lz4_block_codec
proof
  show "\<exists>ys. compress lz4_block_codec v False = Inr ys" if "view_valid v" for v
    using that by (simp add: lz4_block_codec_def lz4_compress_def Let_def split: prod.splits)
  show "length ys \<le> max_compressed_size lz4_block_codec (length (view_bytes v))"
    if "view_valid v" "length (view_bytes v) \<le> vector_max"
      "compress lz4_block_codec v False = Inr ys" for v ys
  proof -
    have "255 * length ys \<le> 256 * length (view_bytes v) + 495"
      using lz4_length(1) that(1,3) by (simp add: lz4_block_codec_def)
    moreover have "length (view_bytes v) < 255 * (length (view_bytes v) div 255) + 255"
      using mult_div_mod_eq [of 255 "length (view_bytes v)"]
        mod_less_divisor [of 255 "length (view_bytes v)"] by linarith
    ultimately show ?thesis
      using that(2) by (simp add: lz4_block_codec_def lz4_max_eq)
  qed
  show "ys \<noteq> []" if "view_valid v" "compress lz4_block_codec v False = Inr ys" for v ys
    using that lz4_length(2) by (simp add: lz4_block_codec_def)
  show "decompress lz4_block_codec (View ys) (length (view_bytes v)) False = Inr (view_bytes v)"
    if "view_valid v" "length (view_bytes v) \<le> vector_max"
      "compress lz4_block_codec v False = Inr ys" for v ys
    using that lz4_roundtrip by (simp add: lz4_block_codec_def)
  show "length xs = n" if "decompress lz4_block_codec w n False = Inr xs" for w n xs
    using that by (auto simp: lz4_block_codec_def lz4_decompress_def split: if_splits sum.splits)
qed

end
