(* ===== verification/Codecs.thy ===== *)
theory Codecs
  imports Packbits Lz4
begin

text \<open>
  The registry of built-in codecs (src/codec.cpp, \<open>built_in_codec\<close>): every compression id the
  format defines maps to a codec that satisfies the \<open>compression_codec\<close> contract and reports that
  id, every other id to no codec.
\<close>

definition built_in_codec :: "compression_id \<Rightarrow> codec option" where
  "built_in_codec cid =
     (if cid = Compression_none then Some none_codec
      else if cid = Compression_packbits then Some packbits_codec
      else if cid = Compression_lz4_block then Some lz4_block_codec
      else None)"

lemma built_in_codec_cases:
  assumes "built_in_codec cid = Some c"
  obtains "c = none_codec" | "c = packbits_codec" | "c = lz4_block_codec"
  using assms by (auto simp: built_in_codec_def split: if_splits)

lemma built_in_codec_contract: "built_in_codec cid = Some c \<Longrightarrow> compression_codec c"
  by (erule built_in_codec_cases)
    (simp_all add: none.compression_codec_axioms packbits.compression_codec_axioms
      lz4.compression_codec_axioms)

lemma built_in_codec_identity:
  "built_in_codec cid = Some c \<Longrightarrow> codec_id c = cid \<and> codec_version c = 1"
  by (auto simp: built_in_codec_def packbits_codec_def lz4_block_codec_def split: if_splits)

text \<open>C27: Every codec the registry hands out reports the id it was asked for and is usable for
  every nonempty block: compression succeeds with a nonempty result within the declared bound, and
  decompression with the original size returns the block.\<close>

theorem built_in_codec_usable:
  assumes "built_in_codec cid = Some c" and "xs \<noteq> []" and "length xs \<le> vector_max"
  shows "codec_id c = cid \<and> (\<exists>ys. compress c (View xs) False = Inr ys \<and> ys \<noteq> [] \<and>
    length ys \<le> max_compressed_size c (length xs) \<and>
    decompress c (View ys) (length xs) False = Inr xs)"
  using compression_codec.compress_usable [OF built_in_codec_contract [OF assms(1)] assms(2,3)]
    built_in_codec_identity [OF assms(1)] by metis

theorem built_in_codec_usable_witness:
  "codec_id lz4_block_codec = 2 \<and> (\<exists>ys. compress lz4_block_codec (View [1, 2]) False = Inr ys \<and>
    ys \<noteq> [] \<and> length ys \<le> max_compressed_size lz4_block_codec (length [1, 2 :: u8]) \<and>
    decompress lz4_block_codec (View ys) (length [1, 2 :: u8]) False = Inr [1, 2])"
  by (rule built_in_codec_usable) (simp_all add: built_in_codec_def vector_max_def)

end
