(* ===== verification/Partition_Header.thy ===== *)
theory Partition_Header
  imports Wire_Format
begin

text \<open>
  The partition header (src/internal_format.cpp, \<open>encode_partition_header\<close> and
  \<open>decode_partition_header\<close>): identity and geometry of a partition generation, the partition
  options (include/tfdb/ring_store.hpp) and a directory of feature descriptors. The decoder walks
  the directory with a state of its own: which core features it has met, the configuration ranges
  claimed so far and the options read so far. The round trip covers every valid set of options;
  further lemmas state what the decoder has established about any header it accepts.
\<close>

abbreviation (input) kFeatureDescriptorSize :: "'a::numeral" where "kFeatureDescriptorSize \<equiv> 40"
abbreviation (input) kFeatureRequired :: u16 where "kFeatureRequired \<equiv> 1"
abbreviation (input) kFeatureCompression :: u16 where "kFeatureCompression \<equiv> 1"
abbreviation (input) kFeatureTimeIndex :: u16 where "kFeatureTimeIndex \<equiv> 2"
abbreviation (input) kFeatureRecordProfile :: u16 where "kFeatureRecordProfile \<equiv> 3"
abbreviation (input) kFeatureIntegrity :: u16 where "kFeatureIntegrity \<equiv> 4"
abbreviation (input) kIntegrityCrc32c :: u32 where "kIntegrityCrc32c \<equiv> 1"
abbreviation (input) kTimeIndexMinMax :: u32 where "kTimeIndexMinMax \<equiv> 1"

record partition_options =
  po_compression :: compression_id
  po_compression_version :: u16
  po_record_format_id :: u64
  po_record_format_version :: u16
  po_time_domain_id :: u64
  po_allowed_backward_skew_ns :: i64
  po_allowed_forward_step_ns :: i64

definition default_partition_options :: partition_options where
  "default_partition_options = \<lparr>po_compression = Compression_none, po_compression_version = 1,
     po_record_format_id = 0, po_record_format_version = 0, po_time_domain_id = 1,
     po_allowed_backward_skew_ns = - 1, po_allowed_forward_step_ns = - 1\<rparr>"

record feature_descriptor =
  fd_kind :: u16
  fd_flags :: u16
  fd_algorithm :: u32
  fd_version :: u16
  fd_config_offset :: u32
  fd_config_length :: u32
  fd_region_offset :: u64
  fd_region_length :: u64

record partition_header =
  ph_volume_id_high :: u64
  ph_volume_id_low :: u64
  ph_generation :: u64
  ph_slot :: u32
  ph_created_time_ns :: i64
  ph_max_block_payload :: u32
  ph_persistence_quantum :: u32
  ph_options :: partition_options
  ph_features :: "feature_descriptor list"

section \<open>Encoding\<close>

definition put_feature :: "bytes \<Rightarrow> nat \<Rightarrow> feature_descriptor \<Rightarrow> bytes" where
  "put_feature out d f =
     (let out = put16 out d (fd_kind f); out = put16 out (d + 2) (fd_flags f);
          out = put32 out (d + 4) (fd_algorithm f); out = put16 out (d + 8) (fd_version f);
          out = put32 out (d + 12) (fd_config_offset f); out = put32 out (d + 16) (fd_config_length f);
          out = put64 out (d + 24) (fd_region_offset f); out = put64 out (d + 32) (fd_region_length f)
      in out)"

definition core_features :: "partition_options \<Rightarrow> u64 \<Rightarrow> u32 \<Rightarrow> feature_descriptor list" where
  "core_features options partition_size index_region_size =
     (let index_offset = partition_size - kPartitionFooterRegionSize - ucast index_region_size in
      [\<lparr>fd_kind = kFeatureCompression, fd_flags = kFeatureRequired,
         fd_algorithm = ucast (po_compression options),
         fd_version = po_compression_version options, fd_config_offset = 0, fd_config_length = 0,
         fd_region_offset = 0, fd_region_length = 0\<rparr>,
       \<lparr>fd_kind = kFeatureTimeIndex, fd_flags = kFeatureRequired, fd_algorithm = kTimeIndexMinMax,
         fd_version = 1, fd_config_offset = 0, fd_config_length = 0,
         fd_region_offset = index_offset, fd_region_length = ucast index_region_size\<rparr>,
       \<lparr>fd_kind = kFeatureRecordProfile, fd_flags = 0, fd_algorithm = 0,
         fd_version = po_record_format_version options, fd_config_offset = 512,
         fd_config_length = 8, fd_region_offset = 0, fd_region_length = 0\<rparr>,
       \<lparr>fd_kind = kFeatureIntegrity, fd_flags = kFeatureRequired, fd_algorithm = kIntegrityCrc32c,
         fd_version = 1, fd_config_offset = 0, fd_config_length = 0,
         fd_region_offset = 0, fd_region_length = 0\<rparr>])"

definition encode_partition_header :: "partition_header \<Rightarrow> u64 \<Rightarrow> u32 \<Rightarrow> bytes" where
  "encode_partition_header h partition_size index_region_size =
     (let out = replicate kPartitionHeaderEncodedSize 0;
          out = blit out 0 kPartitionMagic;
          out = put16 out 8 kFormatMajor; out = put16 out 10 kFormatMinor;
          out = put32 out 12 kPartitionHeaderEncodedSize;
          out = put64 out 16 (ph_volume_id_high h); out = put64 out 24 (ph_volume_id_low h);
          out = put64 out 32 (ph_generation h); out = put32 out 40 (ph_slot h);
          out = puti64 out 48 (ph_created_time_ns h);
          out = put32 out 56 (ph_max_block_payload h);
          out = put32 out 60 (ph_persistence_quantum h);
          out = puti64 out 64 (po_allowed_backward_skew_ns (ph_options h));
          out = puti64 out 72 (po_allowed_forward_step_ns (ph_options h));
          out = put64 out 80 (po_time_domain_id (ph_options h));
          out = put16 out 88 4; out = put16 out 90 kFeatureDescriptorSize;
          out = put32 out 92 128; out = put32 out 96 512; out = put32 out 100 16;
          descriptors = core_features (ph_options h) partition_size index_region_size;
          out = foldl (\<lambda>out i. put_feature out (128 + i * kFeatureDescriptorSize) (descriptors ! i))
                  out [0..<4];
          out = put64 out 512 (po_record_format_id (ph_options h))
      in finish_crc out 104)"

section \<open>Decoding\<close>

text \<open>The locals of the descriptor loop.\<close>

record feature_scan =
  fs_features :: "feature_descriptor list"
  fs_compression :: bool
  fs_time_index :: bool
  fs_integrity :: bool
  fs_record_profile :: bool
  fs_config_ranges :: "(u32 \<times> u32) list"
  fs_options :: partition_options

definition get_feature :: "bytes \<Rightarrow> nat \<Rightarrow> feature_descriptor" where
  "get_feature data d = \<lparr>fd_kind = get16 data d, fd_flags = get16 data (d + 2),
     fd_algorithm = get32 data (d + 4), fd_version = get16 data (d + 8),
     fd_config_offset = get32 data (d + 12), fd_config_length = get32 data (d + 16),
     fd_region_offset = get64 data (d + 24), fd_region_length = get64 data (d + 32)\<rparr>"

text \<open>The configuration-area checks of one descriptor: the ranges claimed so far, extended by
  this descriptor's range when it has one.\<close>

definition claim_config ::
  "feature_descriptor \<Rightarrow> (u32 \<times> u32) list \<Rightarrow> u32 \<Rightarrow> u32 \<Rightarrow> status + (u32 \<times> u32) list" where
  "claim_config feature ranges config_area_offset config_area_length =
     (if fd_config_length feature = 0 then
        (if fd_config_offset feature \<noteq> 0
         then Inl (Error Corrupt ''empty feature config has nonzero offset'')
         else Inr ranges)
      else let config_area_end = config_area_offset + config_area_length in
        if fd_config_offset feature < config_area_offset \<or>
           fd_config_offset feature > config_area_end \<or>
           fd_config_length feature > config_area_end - fd_config_offset feature
        then Inl (Error Corrupt ''feature config outside configuration area'')
        else let feature_end = fd_config_offset feature + fd_config_length feature in
          if list_ex (\<lambda>(first, second). fd_config_offset feature < second \<and> first < feature_end) ranges
          then Inl (Error Corrupt ''overlapping feature configurations'')
          else Inr (ranges @ [(fd_config_offset feature, feature_end)]))"

definition dispatch_feature ::
  "bytes \<Rightarrow> feature_descriptor \<Rightarrow> feature_scan \<Rightarrow> status + feature_scan" where
  "dispatch_feature data feature st =
     (if fd_kind feature = kFeatureCompression then
        (if fs_compression st then Inl (Error Corrupt ''duplicate compression feature'')
         else if fd_flags feature AND kFeatureRequired = 0 \<or> fd_version feature = 0 \<or>
            fd_algorithm feature > 0xffff \<or>
            fd_config_offset feature \<noteq> 0 \<or> fd_config_length feature \<noteq> 0 \<or>
            fd_region_offset feature \<noteq> 0 \<or> fd_region_length feature \<noteq> 0
         then Inl (Error Corrupt ''invalid compression feature descriptor'')
         else Inr (st\<lparr>fs_compression := True, fs_options := (fs_options st)\<lparr>
             po_compression := ucast (fd_algorithm feature),
             po_compression_version := fd_version feature\<rparr>\<rparr>))
      else if fd_kind feature = kFeatureTimeIndex then
        (if fs_time_index st then Inl (Error Corrupt ''duplicate time-index feature'')
         else if fd_flags feature AND kFeatureRequired = 0 \<or>
            fd_config_offset feature \<noteq> 0 \<or> fd_config_length feature \<noteq> 0 \<or>
            fd_region_length feature = 0
         then Inl (Error Corrupt ''invalid time-index feature descriptor'')
         else if fd_algorithm feature \<noteq> kTimeIndexMinMax \<or> fd_version feature \<noteq> 1
         then Inl (Error Unsupported ''unsupported time index'')
         else Inr (st\<lparr>fs_time_index := True\<rparr>))
      else if fd_kind feature = kFeatureRecordProfile then
        (if fs_record_profile st then Inl (Error Corrupt ''duplicate record-profile feature'')
         else if fd_flags feature \<noteq> 0 \<or> fd_algorithm feature \<noteq> 0 \<or>
            fd_config_offset feature \<noteq> 512 \<or> fd_config_length feature \<noteq> 8 \<or>
            fd_region_offset feature \<noteq> 0 \<or> fd_region_length feature \<noteq> 0
         then Inl (Error Corrupt ''invalid record-profile feature descriptor'')
         else Inr (st\<lparr>fs_record_profile := True, fs_options := (fs_options st)\<lparr>
             po_record_format_version := fd_version feature,
             po_record_format_id := get64 data (unat (fd_config_offset feature))\<rparr>\<rparr>))
      else if fd_kind feature = kFeatureIntegrity then
        (if fs_integrity st then Inl (Error Corrupt ''duplicate integrity feature'')
         else if fd_flags feature AND kFeatureRequired = 0 \<or>
            fd_config_offset feature \<noteq> 0 \<or> fd_config_length feature \<noteq> 0 \<or>
            fd_region_offset feature \<noteq> 0 \<or> fd_region_length feature \<noteq> 0
         then Inl (Error Corrupt ''invalid integrity feature descriptor'')
         else if fd_algorithm feature \<noteq> kIntegrityCrc32c \<or> fd_version feature \<noteq> 1
         then Inl (Error Unsupported ''unsupported integrity feature'')
         else Inr (st\<lparr>fs_integrity := True\<rparr>))
      else if fd_flags feature AND kFeatureRequired \<noteq> 0
      then Inl (Error Unsupported ''unknown required feature'')
      else Inr st)"

definition decode_feature ::
  "bytes \<Rightarrow> nat \<Rightarrow> u32 \<Rightarrow> u32 \<Rightarrow> feature_scan \<Rightarrow> status + feature_scan" where
  "decode_feature data d config_area_offset config_area_length st =
     (let feature = get_feature data d in
      if fd_flags feature AND NOT kFeatureRequired \<noteq> 0 \<or>
         \<not> all_zero data (d + 10) 2 \<or> \<not> all_zero data (d + 20) 4
      then Inl (Error Corrupt ''feature descriptor reserved fields are nonzero'')
      else case claim_config feature (fs_config_ranges st) config_area_offset config_area_length of
          Inl e \<Rightarrow> Inl e
        | Inr ranges \<Rightarrow>
            (case dispatch_feature data feature (st\<lparr>fs_config_ranges := ranges\<rparr>) of
               Inl e \<Rightarrow> Inl e
             | Inr st' \<Rightarrow> Inr (st'\<lparr>fs_features := fs_features st' @ [feature]\<rparr>)))"

fun decode_features ::
  "bytes \<Rightarrow> nat \<Rightarrow> nat \<Rightarrow> nat \<Rightarrow> nat \<Rightarrow> u32 \<Rightarrow> u32 \<Rightarrow> feature_scan \<Rightarrow> status + feature_scan" where
  "decode_features data i 0 doff dsize coff clen st = Inr st"
| "decode_features data i (Suc n) doff dsize coff clen st =
     (case decode_feature data (doff + i * dsize) coff clen st of
        Inl e \<Rightarrow> Inl e
      | Inr st' \<Rightarrow> decode_features data (Suc i) n doff dsize coff clen st')"

definition decode_partition_header :: "bytes \<Rightarrow> bool \<Rightarrow> status + partition_header" where
  "decode_partition_header data null_header =
     (if null_header then Inl (Error Invalid_argument ''null partition header'')
      else let status = common_check data kPartitionMagic kPartitionHeaderEncodedSize 104 in
        if \<not> status_ok status then Inl status
        else if \<not> all_zero data 44 4 \<or> \<not> all_zero data 108 20
        then Inl (Error Corrupt ''partition header reserved bytes are nonzero'')
        else let options = default_partition_options\<lparr>
                   po_allowed_backward_skew_ns := geti64 data 64,
                   po_allowed_forward_step_ns := geti64 data 72,
                   po_time_domain_id := get64 data 80\<rparr>;
                 count = get16 data 88; descriptor_size = get16 data 90;
                 descriptor_offset = get32 data 92; config_area_offset = get32 data 96;
                 config_area_length = get32 data 100 in
          if count > 8 \<or> descriptor_size \<noteq> kFeatureDescriptorSize \<or> descriptor_offset \<noteq> 128 \<or>
             config_area_offset \<noteq> 512 \<or> config_area_length \<noteq> 16 \<or>
             (ucast count :: u64) * ucast descriptor_size >
               ucast (kPartitionHeaderEncodedSize - descriptor_offset)
          then Inl (Error Corrupt ''invalid feature directory'')
          else case decode_features data 0 (unat count) (unat descriptor_offset)
                      (unat descriptor_size) config_area_offset config_area_length
                      \<lparr>fs_features = [], fs_compression = False, fs_time_index = False,
                       fs_integrity = False, fs_record_profile = False, fs_config_ranges = [],
                       fs_options = options\<rparr> of
              Inl e \<Rightarrow> Inl e
            | Inr st \<Rightarrow>
                (if \<not> fs_compression st \<or> \<not> fs_time_index st \<or> \<not> fs_integrity st \<or>
                    \<not> fs_record_profile st
                 then Inl (Error Corrupt ''missing core feature'')
                 else if (po_record_format_id (fs_options st) = 0) \<noteq>
                         (po_record_format_version (fs_options st) = 0)
                 then Inl (Error Corrupt ''record profile ID/version mismatch'')
                 else Inr \<lparr>ph_volume_id_high = get64 data 16, ph_volume_id_low = get64 data 24,
                   ph_generation = get64 data 32, ph_slot = get32 data 40,
                   ph_created_time_ns = geti64 data 48, ph_max_block_payload = get32 data 56,
                   ph_persistence_quantum = get32 data 60, ph_options = fs_options st,
                   ph_features = fs_features st\<rparr>))"

section \<open>Round trip\<close>

text \<open>Options a header can carry: a versioned codec and a record profile that is either absent
  or has both its ID and its version.\<close>

definition options_encodable :: "partition_options \<Rightarrow> bool" where
  "options_encodable options \<longleftrightarrow> po_compression_version options \<noteq> 0 \<and>
     (po_record_format_id options = 0 \<longleftrightarrow> po_record_format_version options = 0)"

lemma length_put_feature [simp, le_simps]: "length (put_feature out d f) = length out"
  by (simp add: put_feature_def Let_def)

lemma get_feature_put_feature:
  "d + 40 \<le> length out \<Longrightarrow> get_feature (put_feature out d f) d = f"
  by (simp add: get_feature_def put_feature_def Let_def le_simps)

lemma put_feature_other [le_simps]:
  "pos + 2 \<le> length out \<Longrightarrow> pos + 2 \<le> d \<or> d + 40 \<le> pos \<Longrightarrow>
     get16 (put_feature out d f) pos = get16 out pos"
  "pos + 4 \<le> length out \<Longrightarrow> pos + 4 \<le> d \<or> d + 40 \<le> pos \<Longrightarrow>
     get32 (put_feature out d f) pos = get32 out pos"
  "pos + 8 \<le> length out \<Longrightarrow> pos + 8 \<le> d \<or> d + 40 \<le> pos \<Longrightarrow>
     get64 (put_feature out d f) pos = get64 out pos"
  "pos + n \<le> length out \<Longrightarrow> pos + n \<le> d \<or> d + 40 \<le> pos \<Longrightarrow>
     all_zero (put_feature out d f) pos n = all_zero out pos n"
  "m \<le> d \<Longrightarrow> take m (put_feature out d f) = take m out"
  by (auto simp: put_feature_def Let_def le_simps)

lemma put_feature_gap [le_simps]:
  "d + 40 \<le> length out \<Longrightarrow> all_zero (put_feature out d f) (d + 10) 2 = all_zero out (d + 10) 2"
  "d + 40 \<le> length out \<Longrightarrow> all_zero (put_feature out d f) (d + 20) 4 = all_zero out (d + 20) 4"
  by (auto simp: put_feature_def Let_def le_simps)

lemma get_feature_other [le_simps]:
  "d + 40 \<le> length out \<Longrightarrow> d + 40 \<le> e \<or> e + 40 \<le> d \<Longrightarrow>
     get_feature (put_feature out e f) d = get_feature out d"
  "d + 40 \<le> length out \<Longrightarrow> d + 40 \<le> off \<or> off + 8 \<le> d \<Longrightarrow>
     get_feature (put64 out off v) d = get_feature out d"
  "d + 40 \<le> length out \<Longrightarrow> d + 40 \<le> off \<or> off + 4 \<le> d \<Longrightarrow>
     get_feature (finish_crc out off) d = get_feature out d"
  by (auto simp: get_feature_def le_simps)

lemma encode_partition_header_check:
  "common_check (encode_partition_header h ps irs) kPartitionMagic 1024 104 = Ok"
  by (rule common_check_okI)
     (simp_all add: encode_partition_header_def Let_def upt_4 finish_crc_valid le_simps)

lemma length_encode_partition_header [simp]: "length (encode_partition_header h ps irs) = 1024"
  by (simp add: encode_partition_header_def Let_def upt_4 le_simps)

lemma encoded_features:
  "get_feature (encode_partition_header h ps irs) 128 = core_features (ph_options h) ps irs ! 0"
  "get_feature (encode_partition_header h ps irs) 168 = core_features (ph_options h) ps irs ! 1"
  "get_feature (encode_partition_header h ps irs) 208 = core_features (ph_options h) ps irs ! 2"
  "get_feature (encode_partition_header h ps irs) 248 = core_features (ph_options h) ps irs ! 3"
  by (simp_all add: encode_partition_header_def Let_def upt_4 le_simps get_feature_put_feature)

lemma encoded_gaps:
  "all_zero (encode_partition_header h ps irs) 138 2"
  "all_zero (encode_partition_header h ps irs) 148 4"
  "all_zero (encode_partition_header h ps irs) 178 2"
  "all_zero (encode_partition_header h ps irs) 188 4"
  "all_zero (encode_partition_header h ps irs) 218 2"
  "all_zero (encode_partition_header h ps irs) 228 4"
  "all_zero (encode_partition_header h ps irs) 258 2"
  "all_zero (encode_partition_header h ps irs) 268 4"
  using put_feature_gap [of 128] put_feature_gap [of 168] put_feature_gap [of 208]
    put_feature_gap [of 248]
  by (simp_all add: encode_partition_header_def Let_def upt_4 le_simps)

lemma encoded_fields:
  "all_zero (encode_partition_header h ps irs) 44 4"
  "all_zero (encode_partition_header h ps irs) 108 20"
  "get64 (encode_partition_header h ps irs) 16 = ph_volume_id_high h"
  "get64 (encode_partition_header h ps irs) 24 = ph_volume_id_low h"
  "get64 (encode_partition_header h ps irs) 32 = ph_generation h"
  "get32 (encode_partition_header h ps irs) 40 = ph_slot h"
  "geti64 (encode_partition_header h ps irs) 48 = ph_created_time_ns h"
  "get32 (encode_partition_header h ps irs) 56 = ph_max_block_payload h"
  "get32 (encode_partition_header h ps irs) 60 = ph_persistence_quantum h"
  "geti64 (encode_partition_header h ps irs) 64 = po_allowed_backward_skew_ns (ph_options h)"
  "geti64 (encode_partition_header h ps irs) 72 = po_allowed_forward_step_ns (ph_options h)"
  "get64 (encode_partition_header h ps irs) 80 = po_time_domain_id (ph_options h)"
  "get16 (encode_partition_header h ps irs) 88 = 4"
  "get16 (encode_partition_header h ps irs) 90 = 40"
  "get32 (encode_partition_header h ps irs) 92 = 128"
  "get32 (encode_partition_header h ps irs) 96 = 512"
  "get32 (encode_partition_header h ps irs) 100 = 16"
  "get64 (encode_partition_header h ps irs) 512 = po_record_format_id (ph_options h)"
  by (simp_all add: encode_partition_header_def Let_def upt_4 le_simps)

lemma decode_encode_partition_header:
  assumes "options_encodable (ph_options h)" and "index_region_size \<noteq> 0"
  shows "decode_partition_header (encode_partition_header h partition_size index_region_size) False =
    Inr (h\<lparr>ph_features := core_features (ph_options h) partition_size index_region_size\<rparr>)"
proof -
  have four: "decode_features data i 4 doff dsize coff clen st =
      decode_features data i (Suc (Suc (Suc (Suc 0)))) doff dsize coff clen st"
    for data i doff dsize coff clen st by (simp add: numeral_eq_Suc)
  show ?thesis
    using assms
    by (simp add: encoded_gaps decode_partition_header_def encode_partition_header_check encoded_fields four
        decode_feature_def encoded_features core_features_def Let_def claim_config_def
        dispatch_feature_def default_partition_options_def options_encodable_def)
qed

text \<open>C25: Decoding an encoded partition header gives the header back, options included, with
  the four core features in the directory.\<close>

theorem partition_header_roundtrip:
  assumes "options_encodable (ph_options h)" and "index_region_size \<noteq> 0"
  shows "decode_partition_header (encode_partition_header h partition_size index_region_size) False =
    Inr (h\<lparr>ph_features := core_features (ph_options h) partition_size index_region_size\<rparr>)"
  by (rule decode_encode_partition_header [OF assms])

theorem partition_header_roundtrip_witness:
  "\<exists>h. options_encodable (ph_options h) \<and> po_compression (ph_options h) = 2 \<and>
     decode_partition_header (encode_partition_header h 20480 4096) False =
       Inr (h\<lparr>ph_features := core_features (ph_options h) 20480 4096\<rparr>)"
proof -
  define h where "h = \<lparr>ph_volume_id_high = 7, ph_volume_id_low = 9, ph_generation = 4, ph_slot = 1,
    ph_created_time_ns = 0, ph_max_block_payload = 512, ph_persistence_quantum = 512,
    ph_options = default_partition_options\<lparr>po_compression := 2\<rparr>, ph_features = []\<rparr>"
  have "options_encodable (ph_options h)"
    by (simp add: options_encodable_def h_def default_partition_options_def)
  moreover have "po_compression (ph_options h) = 2" by (simp add: h_def)
  ultimately show ?thesis
    using partition_header_roundtrip [of h 4096 20480] by (intro exI [of _ h]) simp
qed

text \<open>C26: No on-media structure survives a single corrupted byte: flipping any one byte of a
  volume header, partition header, block header or footer that its decoder accepts makes the
  decoder report an error.\<close>

theorem decoders_detect_byte_corruption:
  assumes "b \<noteq> data ! i"
  shows "(decode_volume_header data False = Inr v \<and> i < 256 \<longrightarrow>
      (\<exists>e. decode_volume_header (data[i := b]) False = Inl e)) \<and>
    (decode_partition_header data False = Inr p \<and> i < 1024 \<longrightarrow>
      (\<exists>e. decode_partition_header (data[i := b]) False = Inl e)) \<and>
    (decode_block_header data False = Inr h \<and> i < 128 \<longrightarrow>
      (\<exists>e. decode_block_header (data[i := b]) False = Inl e)) \<and>
    (decode_partition_footer data False = Inr f \<and> i < 256 \<longrightarrow>
      (\<exists>e. decode_partition_footer (data[i := b]) False = Inl e))"
proof (intro conjI impI; elim conjE)
  assume "decode_volume_header data False = Inr v" and "i < 256"
  then have "\<not> status_ok (common_check (data[i := b]) kVolumeMagic 256 72)"
    using assms by (intro status_ok_byte_flip) (auto simp: decode_volume_header_def Let_def split: if_splits)
  then show "\<exists>e. decode_volume_header (data[i := b]) False = Inl e"
    by (simp add: decode_volume_header_def)
next
  assume "decode_partition_header data False = Inr p" and "i < 1024"
  then have "\<not> status_ok (common_check (data[i := b]) kPartitionMagic 1024 104)"
    using assms by (intro status_ok_byte_flip) (auto simp: decode_partition_header_def Let_def split: if_splits)
  then show "\<exists>e. decode_partition_header (data[i := b]) False = Inl e"
    by (simp add: decode_partition_header_def)
next
  assume "decode_block_header data False = Inr h" and "i < 128"
  then have "\<not> status_ok (common_check (data[i := b]) kBlockMagic 128 72)"
    using assms by (intro status_ok_byte_flip) (auto simp: decode_block_header_def Let_def split: if_splits)
  then show "\<exists>e. decode_block_header (data[i := b]) False = Inl e"
    by (simp add: decode_block_header_def)
next
  assume "decode_partition_footer data False = Inr f" and "i < 256"
  then have "\<not> status_ok (common_check (data[i := b]) kFooterMagic 256 100)"
    using assms by (intro status_ok_byte_flip) (auto simp: decode_partition_footer_def Let_def split: if_splits)
  then show "\<exists>e. decode_partition_footer (data[i := b]) False = Inl e"
    by (simp add: decode_partition_footer_def)
qed

theorem decoders_detect_byte_corruption_witness:
  "\<exists>data h. decode_volume_header data False = Inr h \<and>
     (\<exists>e. decode_volume_header (data[40 := data ! 40 + 1]) False = Inl e)"
proof -
  define h where "h = \<lparr>vh_volume_id_high = 7, vh_volume_id_low = 9, vh_volume_size = 0x100000,
    vh_partition_size = 20480, vh_partition_count = 3, vh_index_region_size = 4096,
    vh_max_block_payload = 512, vh_persistence_quantum = 512, vh_created_time_ns = 0\<rparr>"
  define data where "data = encode_volume_header h"
  have "volume_header_wf h" by (simp add: volume_header_wf_def h_def)
  then have ok: "decode_volume_header data False = Inr h"
    unfolding data_def by (rule decode_encode_volume_header)
  have "data ! 40 + 1 \<noteq> data ! 40" by simp
  from decoders_detect_byte_corruption [OF this, of h] ok show ?thesis by auto
qed

end
