(* ===== verification/Ring_Types.thy ===== *)
theory Ring_Types
  imports Codecs Partition_Header Storage
begin

text \<open>
  The state of the ring store (include/tfdb/ring_store.hpp and \<open>RingStore::Impl\<close> of
  src/ring_store.cpp), its pure helpers, and the monad its operations are written in. An operation
  takes the implementation state and returns \<open>None\<close> when the backend never stops interrupting a
  transfer, otherwise a status or a value together with the new state. The backend and the steady
  clock are the environment: the \<open>n\<close>th reading of the clock is \<open>env_clock env n\<close>, and the state
  counts the readings. The lock is not modelled: every operation below runs under it.
\<close>

section \<open>Public structures\<close>

abbreviation (input) kBlockFlagTimeAnomaly :: u32 where "kBlockFlagTimeAnomaly \<equiv> 1"
abbreviation (input) kBlockFlagUnsynchronizedTime :: u32 where "kBlockFlagUnsynchronizedTime \<equiv> 2"
abbreviation (input) kRecordFlagUnsynchronizedTime :: u32 where "kRecordFlagUnsynchronizedTime \<equiv> 1"

record volume_options =
  vo_partition_size :: u64
  vo_index_region_size :: u32
  vo_max_block_payload :: u32
  vo_persistence_quantum :: u32
  vo_volume_id_high :: u64
  vo_volume_id_low :: u64
  vo_allow_explicit_volume_id_for_testing :: bool
  vo_created_time_ns :: i64

record append_contract =
  ac_record_format_id :: u64
  ac_record_format_version :: u16
  ac_time_domain_id :: u64

record open_options =
  oo_writable :: bool
  oo_verify_payloads_on_open :: bool
  oo_next_partition :: partition_options
  oo_compression_codecs :: "codec option list"
  oo_writer_id_high :: u64
  oo_writer_id_low :: u64
  oo_allow_explicit_writer_id_for_testing :: bool

record store_metrics =
  sm_accepted_records :: u64
  sm_accepted_payload_bytes :: u64
  sm_published_blocks :: u64
  sm_stored_block_bytes :: u64
  sm_raw_block_bytes :: u64
  sm_checkpoints :: u64
  sm_rotations :: u64
  sm_time_anomalies :: u64
  sm_overwritten_gaps :: u64
  sm_corrupt_gaps :: u64
  sm_durable_records :: u64
  sm_durable_blocks :: u64
  sm_sync_errors :: u64
  sm_sync_calls :: u64
  sm_last_sync_duration_ns :: u64
  sm_max_sync_duration_ns :: u64
  sm_oldest_undurable_age_ns :: u64
  sm_max_accepted_to_durable_ns :: u64

definition zero_metrics :: store_metrics where
  "zero_metrics = \<lparr>sm_accepted_records = 0, sm_accepted_payload_bytes = 0, sm_published_blocks = 0,
     sm_stored_block_bytes = 0, sm_raw_block_bytes = 0, sm_checkpoints = 0, sm_rotations = 0,
     sm_time_anomalies = 0, sm_overwritten_gaps = 0, sm_corrupt_gaps = 0, sm_durable_records = 0,
     sm_durable_blocks = 0, sm_sync_errors = 0, sm_sync_calls = 0, sm_last_sync_duration_ns = 0,
     sm_max_sync_duration_ns = 0, sm_oldest_undurable_age_ns = 0, sm_max_accepted_to_durable_ns = 0\<rparr>"

record writer_health =
  wh_writable :: bool
  wh_closed :: bool
  wh_faulted :: bool
  wh_fault_code :: status_code
  wh_oldest_undurable_age_ns :: u64
  wh_last_sync_duration_ns :: u64
  wh_max_sync_duration_ns :: u64
  wh_sync_calls :: u64
  wh_sync_errors :: u64
  wh_checkpoints :: u64

record block_metadata =
  bm_partition_slot :: u32
  bm_partition_generation :: u64
  bm_block_sequence :: u32
  bm_record_count :: u32
  bm_min_time_ns :: i64
  bm_max_time_ns :: i64
  bm_flags :: u32
  bm_compression :: compression_id
  bm_stored_size :: u32
  bm_raw_size :: u32
  bm_physical_offset :: u64
  bm_record_format_id :: u64
  bm_record_format_version :: u16
  bm_time_domain_id :: u64

definition zero_metadata :: block_metadata where
  "zero_metadata = \<lparr>bm_partition_slot = 0, bm_partition_generation = 0, bm_block_sequence = 0,
     bm_record_count = 0, bm_min_time_ns = 0, bm_max_time_ns = 0, bm_flags = 0,
     bm_compression = Compression_none, bm_stored_size = 0, bm_raw_size = 0, bm_physical_offset = 0,
     bm_record_format_id = 0, bm_record_format_version = 0, bm_time_domain_id = 0\<rparr>"

datatype block_event_kind = Event_data | Event_overwritten_gap | Event_corrupt_gap

record block_event =
  be_kind :: block_event_kind
  be_metadata :: block_metadata
  be_data :: bytes
  be_detail :: status

record time_range =
  tr_begin_ns :: i64
  tr_end_ns :: i64
  tr_time_domain_id :: u64

record query_options =
  qo_continue_on_gap :: bool
  qo_verify_payload_crc :: bool

record partition_info =
  pi_slot :: u32
  pi_generation :: u64
  pi_sealed :: bool
  pi_block_count :: u32
  pi_data_bytes :: u64
  pi_min_time_ns :: i64
  pi_max_time_ns :: i64
  pi_flags :: u32
  pi_options :: partition_options

record volume_info =
  vi_volume_size :: u64
  vi_partition_size :: u64
  vi_partition_count :: u32
  vi_index_region_size :: u32
  vi_max_block_payload :: u32
  vi_persistence_quantum :: u32
  vi_volume_id_high :: u64
  vi_volume_id_low :: u64
  vi_partitions :: "partition_info list"

section \<open>Helpers\<close>

definition same_volume_header :: "volume_header \<Rightarrow> volume_header \<Rightarrow> bool" where
  "same_volume_header a b \<longleftrightarrow>
     vh_volume_id_high a = vh_volume_id_high b \<and> vh_volume_id_low a = vh_volume_id_low b \<and>
     vh_volume_size a = vh_volume_size b \<and> vh_partition_size a = vh_partition_size b \<and>
     vh_partition_count a = vh_partition_count b \<and>
     vh_index_region_size a = vh_index_region_size b \<and>
     vh_max_block_payload a = vh_max_block_payload b \<and>
     vh_persistence_quantum a = vh_persistence_quantum b \<and>
     vh_created_time_ns a = vh_created_time_ns b"

definition is_power_of_two :: "u32 \<Rightarrow> bool" where
  "is_power_of_two v \<longleftrightarrow> v \<noteq> 0 \<and> and v (v - 1) = 0"

definition validate_volume_geometry :: "volume_header \<Rightarrow> u64 \<Rightarrow> status" where
  "validate_volume_geometry volume backend_size =
     (if vh_volume_id_high volume = 0 \<and> vh_volume_id_low volume = 0
      then Error Corrupt ''zero volume incarnation ID''
      else if vh_volume_size volume > backend_size \<or> vh_volume_size volume < kVolumePrefixSize \<or>
        vh_partition_count volume < 2 \<or> vh_partition_size volume = 0 \<or>
        \<not> is_power_of_two (vh_persistence_quantum volume) \<or>
        vh_persistence_quantum volume > kPartitionHeaderRegionSize \<or>
        vh_max_block_payload volume = 0 \<or>
        vh_index_region_size volume < kIndexEntryEncodedSize \<or>
        (kVolumePrefixSize :: u64) mod ucast (vh_persistence_quantum volume) \<noteq> 0 \<or>
        (kPartitionHeaderRegionSize :: u32) mod vh_persistence_quantum volume \<noteq> 0 \<or>
        vh_partition_size volume mod ucast (vh_persistence_quantum volume) \<noteq> 0 \<or>
        vh_index_region_size volume mod vh_persistence_quantum volume \<noteq> 0
      then Error Corrupt ''invalid volume geometry''
      else let fixed = kPartitionHeaderRegionSize + kPartitionFooterRegionSize +
                 ucast (vh_index_region_size volume) :: u64 in
        if fixed \<ge> vh_partition_size volume \<or>
          vh_partition_size volume - fixed < ucast (vh_persistence_quantum volume) \<or>
          ucast (vh_partition_count volume) >
            (vh_volume_size volume - kVolumePrefixSize) div vh_partition_size volume
        then Error Corrupt ''volume geometry exceeds backend''
        else let (maximum_span, overflow) =
               align_up (kBlockHeaderEncodedSize + ucast (vh_max_block_payload volume))
                 (vh_persistence_quantum volume) in
          if overflow \<or> maximum_span > vh_partition_size volume - fixed
          then Error Corrupt ''maximum block does not fit partition''
          else Ok)"

definition same_index_entry :: "index_entry \<Rightarrow> index_entry \<Rightarrow> bool" where
  "same_index_entry a b \<longleftrightarrow>
     ie_offset a = ie_offset b \<and> ie_frame_size a = ie_frame_size b \<and>
     ie_frame_span a = ie_frame_span b \<and> ie_sequence a = ie_sequence b \<and>
     ie_record_count a = ie_record_count b \<and> ie_min_time_ns a = ie_min_time_ns b \<and>
     ie_max_time_ns a = ie_max_time_ns b \<and> ie_flags a = ie_flags b \<and> ie_raw_size a = ie_raw_size b"

text \<open>Stored block ranges are closed, queries half-open.\<close>

definition ranges_intersect :: "i64 \<Rightarrow> i64 \<Rightarrow> time_range \<Rightarrow> bool" where
  "ranges_intersect min_time max_time r \<longleftrightarrow>
     min_time <s tr_end_ns r \<and> tr_begin_ns r \<le>s max_time"

definition delta_exceeds :: "i64 \<Rightarrow> i64 \<Rightarrow> i64 \<Rightarrow> bool" where
  "delta_exceeds earlier later allowed =
     (if allowed <s 0 then False
      else if later <s earlier then True
      else let distance = later - earlier in distance > allowed)"

fun decimal :: "nat \<Rightarrow> string" where
  "decimal n = (if n < 10 then [char_of (48 + n)] else decimal (n div 10) @ [char_of (48 + n mod 10)])"

declare decimal.simps [simp del]

definition slot_message :: "string \<Rightarrow> u32 \<Rightarrow> u64 \<Rightarrow> string" where
  "slot_message prefix slot generation =
     prefix @ '' slot='' @ decimal (unat slot) @ '' generation='' @ decimal (unat generation)"

text \<open>\<open>std::min\<close> and \<open>std::max\<close> on signed times.\<close>

definition smin :: "i64 \<Rightarrow> i64 \<Rightarrow> i64" where
  "smin a b = (if b <s a then b else a)"

definition smax :: "i64 \<Rightarrow> i64 \<Rightarrow> i64" where
  "smax a b = (if a <s b then b else a)"

section \<open>Implementation state\<close>

record partition_state =
  ps_header :: partition_header
  ps_sealed :: bool
  ps_index_valid :: bool
  ps_footer :: partition_footer
  ps_active_index :: "index_entry list"
  ps_data_end :: u64
  ps_aggregate_flags :: u32
  ps_has_time :: bool
  ps_block_count :: u32
  ps_min_time_ns :: i64
  ps_max_time_ns :: i64

definition zero_footer :: partition_footer where
  "zero_footer = \<lparr>pf_volume_id_high = 0, pf_volume_id_low = 0, pf_generation = 0, pf_slot = 0,
     pf_flags = 0, pf_block_count = 0, pf_index_offset = 0, pf_index_size = 0, pf_data_end = 0,
     pf_min_time_ns = 0, pf_max_time_ns = 0, pf_index_crc = 0\<rparr>"

definition new_partition_state :: "partition_header \<Rightarrow> partition_state" where
  "new_partition_state header = \<lparr>ps_header = header, ps_sealed = False, ps_index_valid = False,
     ps_footer = zero_footer, ps_active_index = [], ps_data_end = kPartitionHeaderRegionSize,
     ps_aggregate_flags = 0, ps_has_time = False, ps_block_count = 0, ps_min_time_ns = 0,
     ps_max_time_ns = 0\<rparr>"

text \<open>The atomics a watchdog reads.\<close>

record health_mirror =
  hm_closed :: bool
  hm_faulted :: bool
  hm_fault_code :: status_code
  hm_have_undurable :: bool
  hm_oldest_undurable_ns :: u64
  hm_last_sync_ns :: u64
  hm_max_sync_ns :: u64
  hm_sync_calls :: u64
  hm_sync_errors :: u64
  hm_checkpoints :: u64

definition new_health :: health_mirror where
  "new_health = \<lparr>hm_closed = False, hm_faulted = False, hm_fault_code = St_ok,
     hm_have_undurable = False, hm_oldest_undurable_ns = 0, hm_last_sync_ns = 0, hm_max_sync_ns = 0,
     hm_sync_calls = 0, hm_sync_errors = 0, hm_checkpoints = 0\<rparr>"

record 's impl =
  media :: 's
  volume :: volume_header
  open_options :: open_options
  writable :: bool
  closed :: bool
  faulted :: bool
  fault_status :: status
  partitions :: "partition_state list"
  active_generation :: u64
  active_slot :: u32
  writer_id_high :: u64
  writer_id_low :: u64
  next_options :: partition_options
  builder :: bytes
  builder_records :: u32
  builder_flags :: u32
  builder_min_time :: i64
  builder_max_time :: i64
  have_last_time :: bool
  last_time :: i64
  dirty :: bool
  have_undurable_records :: bool
  oldest_undurable_record :: u64
  metrics :: store_metrics
  corrupt_slots :: "u32 list"
  health_atomics :: health_mirror
  clock_reads :: nat

record 's env =
  env_storage :: "'s storage"
  env_clock :: "nat \<Rightarrow> u64"

section \<open>The monad of operations\<close>

type_synonym ('x, 'a) op = "'x \<Rightarrow> ((status + 'a) \<times> 'x) option"

definition return_op :: "'a \<Rightarrow> ('x, 'a) op" where
  "return_op a s = Some (Inr a, s)"

definition error_op :: "status \<Rightarrow> ('x, 'a) op" where
  "error_op e s = Some (Inl e, s)"

definition bind_op :: "('x, 'a) op \<Rightarrow> ('a \<Rightarrow> ('x, 'b) op) \<Rightarrow> ('x, 'b) op" where
  "bind_op m f s =
     (case m s of
        None \<Rightarrow> None
      | Some (Inl e, s') \<Rightarrow> Some (Inl e, s')
      | Some (Inr a, s') \<Rightarrow> f a s')"

text \<open>Run \<open>m\<close>; when it ends with an error, continue with the handler.\<close>

definition catch_op :: "('x, 'a) op \<Rightarrow> (status \<Rightarrow> ('x, 'a) op) \<Rightarrow> ('x, 'a) op" where
  "catch_op m h s =
     (case m s of Some (Inl e, s') \<Rightarrow> h e s' | r \<Rightarrow> r)"

text \<open>Run \<open>m\<close> and deliver its status or value as a value.\<close>

definition try_op :: "('x, 'a) op \<Rightarrow> ('x, status + 'a) op" where
  "try_op m s = (case m s of None \<Rightarrow> None | Some (r, s') \<Rightarrow> Some (Inr r, s'))"

definition get_op :: "('x, 'x) op" where
  "get_op s = Some (Inr s, s)"

definition modify_op :: "('x \<Rightarrow> 'x) \<Rightarrow> ('x, unit) op" where
  "modify_op f s = Some (Inr (), f s)"

text \<open>A status as an operation.\<close>

definition status_op :: "status \<Rightarrow> ('x, unit) op" where
  "status_op r = (if status_ok r then return_op () else error_op r)"

lemmas op_defs = return_op_def error_op_def bind_op_def catch_op_def try_op_def get_op_def
  modify_op_def status_op_def

lemma bind_op_Some:
  "bind_op m f s = Some (r, s') \<longleftrightarrow>
     (\<exists>e. m s = Some (Inl e, s') \<and> r = Inl e) \<or> (\<exists>a s1. m s = Some (Inr a, s1) \<and> f a s1 = Some (r, s'))"
  by (auto simp: bind_op_def split: option.splits sum.splits)

lemma bind_op_Inr:
  "bind_op m f s = Some (Inr b, s') \<longleftrightarrow> (\<exists>a s1. m s = Some (Inr a, s1) \<and> f a s1 = Some (Inr b, s'))"
  by (auto simp: bind_op_def split: option.splits sum.splits)

lemma op_simps [simp]:
  "return_op a s = Some (Inr a, s)" "error_op e s = Some (Inl e, s)" "get_op s = Some (Inr s, s)"
  "modify_op f s = Some (Inr (), f s)"
  by (simp_all add: op_defs)

section \<open>Media access and geometry\<close>

definition read_media :: "'s env \<Rightarrow> u64 \<Rightarrow> nat \<Rightarrow> ('s impl, bytes) op" where
  "read_media env offset n s =
     (case read_exact (env_storage env) offset (View (replicate n 0)) (media s) of
        None \<Rightarrow> None
      | Some (status, data, m) \<Rightarrow> Some (if status_ok status then Inr data else Inl status, s\<lparr>media := m\<rparr>))"

definition write_media :: "'s env \<Rightarrow> u64 \<Rightarrow> bytes \<Rightarrow> ('s impl, unit) op" where
  "write_media env offset data s =
     (case write_exact (env_storage env) offset (View data) (media s) of
        None \<Rightarrow> None
      | Some (status, m) \<Rightarrow> Some (if status_ok status then Inr () else Inl status, s\<lparr>media := m\<rparr>))"

text \<open>Reading the steady clock.\<close>

definition clock_now :: "'s env \<Rightarrow> ('s impl, u64) op" where
  "clock_now env s = Some (Inr (env_clock env (clock_reads s)), s\<lparr>clock_reads := clock_reads s + 1\<rparr>)"

definition partition_base :: "volume_header \<Rightarrow> u32 \<Rightarrow> u64" where
  "partition_base v slot = kVolumePrefixSize + ucast slot * vh_partition_size v"

definition index_begin :: "volume_header \<Rightarrow> u64" where
  "index_begin v = vh_partition_size v - kPartitionFooterRegionSize - ucast (vh_index_region_size v)"

definition footer_offset :: "volume_header \<Rightarrow> u64" where
  "footer_offset v = vh_partition_size v - kPartitionFooterRegionSize"

definition is_active :: "'s impl \<Rightarrow> partition_state \<Rightarrow> bool" where
  "is_active s p \<longleftrightarrow> ph_generation (ps_header p) = active_generation s \<and>
     ph_slot (ps_header p) = active_slot s"

text \<open>\<open>active()\<close>: the first matching partition, and its update through the pointer.\<close>

definition active :: "'s impl \<Rightarrow> partition_state option" where
  "active s = find (is_active s) (partitions s)"

fun update_first :: "('a \<Rightarrow> bool) \<Rightarrow> ('a \<Rightarrow> 'a) \<Rightarrow> 'a list \<Rightarrow> 'a list" where
  "update_first P f [] = []"
| "update_first P f (x # xs) = (if P x then f x # xs else x # update_first P f xs)"

definition update_active :: "(partition_state \<Rightarrow> partition_state) \<Rightarrow> 's impl \<Rightarrow> 's impl" where
  "update_active f s = s\<lparr>partitions := update_first (is_active s) f (partitions s)\<rparr>"

definition fail :: "status \<Rightarrow> ('s impl, 'a) op" where
  "fail status s =
     (if status_ok status then Some (Inl status, s)
      else Some (Inl status,
        s\<lparr>faulted := True, fault_status := status,
          health_atomics := (health_atomics s)\<lparr>hm_fault_code := code status, hm_faulted := True\<rparr>\<rparr>))"

text \<open>The first codec of the caller's list with this id and version; null entries are skipped.\<close>

fun candidate_codec :: "codec option list \<Rightarrow> compression_id \<Rightarrow> u16 \<Rightarrow> codec option" where
  "candidate_codec [] cid version = None"
| "candidate_codec (None # cs) cid version = candidate_codec cs cid version"
| "candidate_codec (Some c # cs) cid version =
     (if codec_id c = cid \<and> codec_version c = version then Some c
      else candidate_codec cs cid version)"

definition codec_for :: "open_options \<Rightarrow> compression_id \<Rightarrow> u16 \<Rightarrow> codec option" where
  "codec_for options cid version =
     (case built_in_codec cid of
        Some c \<Rightarrow> if codec_version c = version then Some c
          else candidate_codec (oo_compression_codecs options) cid version
      | None \<Rightarrow> candidate_codec (oo_compression_codecs options) cid version)"

definition validate_partition_options :: "open_options \<Rightarrow> partition_options \<Rightarrow> status" where
  "validate_partition_options oo options =
     (if Option.is_none (codec_for oo (po_compression options) (po_compression_version options))
      then Error Unsupported ''compression codec/version unavailable''
      else if po_time_domain_id options = 0
      then Error Invalid_argument ''time domain zero is reserved for physical scans''
      else if (po_record_format_id options = 0) \<noteq> (po_record_format_version options = 0)
      then Error Invalid_argument ''record profile ID and version must both be zero or nonzero''
      else Ok)"

end
