(* ===== verification/Ring_Read.thy ===== *)
theory Ring_Read
  imports Ring_Types
begin

text \<open>
  The reading side of \<open>RingStore::Impl\<close> (src/ring_store.cpp): partition headers and footers, the
  block scan that recovers a partition without a footer, the index of a sealed partition and the
  verified read of one block. The scan is a loop over a cursor; one round reads and judges one
  block. Everything below only reads the media.
\<close>

definition check_feature :: "volume_header \<Rightarrow> feature_descriptor \<Rightarrow> status" where
  "check_feature v feature =
     (if fd_region_offset feature > vh_partition_size v \<or>
         fd_region_length feature > vh_partition_size v - fd_region_offset feature
      then Error Corrupt ''feature region outside partition''
      else if fd_kind feature = kFeatureTimeIndex \<and>
        (fd_region_offset feature \<noteq> index_begin v \<or>
         fd_region_length feature \<noteq> ucast (vh_index_region_size v))
      then Error Corrupt ''time-index region mismatch''
      else if fd_kind feature \<noteq> kFeatureCompression \<and> fd_kind feature \<noteq> kFeatureTimeIndex \<and>
        fd_kind feature \<noteq> kFeatureRecordProfile \<and> fd_kind feature \<noteq> kFeatureIntegrity \<and>
        fd_region_length feature \<noteq> 0
      then Error Unsupported ''unknown feature reserves media space''
      else Ok)"

fun check_features :: "volume_header \<Rightarrow> feature_descriptor list \<Rightarrow> status" where
  "check_features v [] = Ok"
| "check_features v (f # fs) =
     (let status = check_feature v f in if \<not> status_ok status then status else check_features v fs)"

definition accept_partition_header ::
  "volume_header \<Rightarrow> open_options \<Rightarrow> u32 \<Rightarrow> partition_header \<Rightarrow> status" where
  "accept_partition_header v oo slot header =
     (if ph_volume_id_high header \<noteq> vh_volume_id_high v \<or>
         ph_volume_id_low header \<noteq> vh_volume_id_low v \<or> ph_slot header \<noteq> slot \<or>
         ph_max_block_payload header \<noteq> vh_max_block_payload v \<or>
         ph_persistence_quantum header \<noteq> vh_persistence_quantum v
      then Error Corrupt ''partition identity/geometry mismatch''
      else let options_status = validate_partition_options oo (ph_options header) in
        if \<not> status_ok options_status then options_status
        else check_features v (ph_features header))"

definition read_partition_header :: "'s env \<Rightarrow> u32 \<Rightarrow> ('s impl, partition_header) op" where
  "read_partition_header env slot = bind_op get_op (\<lambda>s.
     bind_op (read_media env (partition_base (volume s) slot) kPartitionHeaderEncodedSize) (\<lambda>data.
       case decode_partition_header data False of
         Inl status \<Rightarrow> error_op status
       | Inr header \<Rightarrow>
           bind_op (status_op (accept_partition_header (volume s) (open_options s) slot header))
             (\<lambda>_. return_op header)))"

definition accept_footer :: "volume_header \<Rightarrow> partition_header \<Rightarrow> partition_footer \<Rightarrow> bool" where
  "accept_footer v header footer \<longleftrightarrow>
     \<not> (pf_volume_id_high footer \<noteq> vh_volume_id_high v \<or>
        pf_volume_id_low footer \<noteq> vh_volume_id_low v \<or>
        pf_slot footer \<noteq> ph_slot header \<or> pf_generation footer \<noteq> ph_generation header \<or>
        pf_index_offset footer \<noteq> index_begin v \<or>
        pf_index_size footer > vh_index_region_size v \<or>
        pf_data_end footer < kPartitionHeaderRegionSize \<or>
        pf_data_end footer > index_begin v \<or>
        pf_data_end footer mod ucast (vh_persistence_quantum v) \<noteq> 0 \<or>
        ucast (pf_index_size footer) \<noteq>
          (ucast (pf_block_count footer) * kIndexEntryEncodedSize :: u64) \<or>
        (pf_block_count footer = 0 \<and> pf_data_end footer \<noteq> kPartitionHeaderRegionSize) \<or>
        (pf_block_count footer \<noteq> 0 \<and> pf_max_time_ns footer <s pf_min_time_ns footer))"

definition read_footer :: "'s env \<Rightarrow> partition_header \<Rightarrow> ('s impl, partition_footer) op" where
  "read_footer env header = bind_op get_op (\<lambda>s.
     bind_op (read_media env (partition_base (volume s) (ph_slot header) + footer_offset (volume s))
         kPartitionFooterEncodedSize) (\<lambda>data.
       case decode_partition_footer data False of
         Inl status \<Rightarrow> error_op status
       | Inr footer \<Rightarrow>
           if \<not> accept_footer (volume s) header footer
           then error_op (Error Corrupt ''footer identity/bounds mismatch'')
           else return_op footer))"

section \<open>Scanning\<close>

record scan_position =
  sp_cursor :: u64
  sp_sequence :: u32
  sp_writer_high :: u64
  sp_writer_low :: u64

definition scan_accepts ::
  "volume_header \<Rightarrow> partition_header \<Rightarrow> u64 \<Rightarrow> scan_position \<Rightarrow> block_header \<Rightarrow> bool" where
  "scan_accepts v header limit at block \<longleftrightarrow>
     \<not> (bh_generation block \<noteq> ph_generation header \<or> bh_slot block \<noteq> ph_slot header \<or>
        bh_volume_id_low block \<noteq> vh_volume_id_low v \<or>
        bh_volume_id_high block \<noteq> vh_volume_id_high v \<or>
        bh_previous_writer_id_high block \<noteq> sp_writer_high at \<or>
        bh_previous_writer_id_low block \<noteq> sp_writer_low at \<or>
        bh_sequence block \<noteq> sp_sequence at \<or>
        bh_record_count block = 0 \<or> bh_max_time_ns block <s bh_min_time_ns block \<or>
        bh_stored_size block > vh_max_block_payload v \<or>
        bh_raw_size block > vh_max_block_payload v \<or>
        (bh_compression block \<noteq> Compression_none \<and>
          (bh_compression block \<noteq> po_compression (ph_options header) \<or>
           bh_compression_version block \<noteq> po_compression_version (ph_options header))) \<or>
        (bh_compression block = Compression_none \<and>
          (bh_stored_size block \<noteq> bh_raw_size block \<or> bh_compression_version block \<noteq> 1)) \<or>
        bh_frame_span block mod vh_persistence_quantum v \<noteq> 0 \<or>
        sp_cursor at mod ucast (vh_persistence_quantum v) \<noteq> 0 \<or>
        ucast (bh_frame_span block) > limit - sp_cursor at) \<and>
     (let (expected_span, span_overflow) =
        align_up (kBlockHeaderEncodedSize + ucast (bh_stored_size block)) (vh_persistence_quantum v)
      in \<not> (span_overflow \<or> ucast (bh_frame_span block) \<noteq> expected_span))"

text \<open>One round of the scan: a media error, \<open>None\<close> when the data stops here, or the next block.\<close>

definition scan_block ::
  "'s env \<Rightarrow> partition_header \<Rightarrow> u64 \<Rightarrow> scan_position \<Rightarrow> ('s impl, block_header option) op" where
  "scan_block env header limit at = bind_op get_op (\<lambda>s.
     let base = partition_base (volume s) (ph_slot header) in
     bind_op (read_media env (base + sp_cursor at) kBlockHeaderEncodedSize) (\<lambda>header_bytes.
       case decode_block_header header_bytes False of
         Inl _ \<Rightarrow> return_op None
       | Inr block \<Rightarrow>
           if \<not> scan_accepts (volume s) header limit at block then return_op None
           else bind_op (read_media env (base + sp_cursor at + kBlockHeaderEncodedSize)
                   (unat (bh_stored_size block))) (\<lambda>payload.
             if crc32c payload \<noteq> bh_payload_crc block then return_op None
             else return_op (Some block))))"

definition scan_entry :: "u64 \<Rightarrow> block_header \<Rightarrow> index_entry" where
  "scan_entry cursor block =
     \<lparr>ie_offset = cursor, ie_frame_size = kBlockHeaderEncodedSize + bh_stored_size block,
      ie_frame_span = bh_frame_span block, ie_sequence = bh_sequence block,
      ie_record_count = bh_record_count block, ie_min_time_ns = bh_min_time_ns block,
      ie_max_time_ns = bh_max_time_ns block, ie_flags = bh_flags block,
      ie_raw_size = bh_raw_size block, ie_writer_id_high = bh_writer_id_high block,
      ie_writer_id_low = bh_writer_id_low block\<rparr>"

definition scan_next :: "scan_position \<Rightarrow> block_header \<Rightarrow> scan_position" where
  "scan_next at block =
     \<lparr>sp_cursor = sp_cursor at + ucast (bh_frame_span block), sp_sequence = sp_sequence at + 1,
      sp_writer_high = bh_writer_id_high block, sp_writer_low = bh_writer_id_low block\<rparr>"

lemma scan_accepts_span:
  assumes "scan_accepts v header limit at block"
  shows "ucast (bh_frame_span block) \<le> limit - sp_cursor at" "0 < (ucast (bh_frame_span block) :: u64)"
proof -
  show "ucast (bh_frame_span block) \<le> limit - sp_cursor at"
    using assms by (simp add: scan_accepts_def not_less)
  let ?x = "kBlockHeaderEncodedSize + ucast (bh_stored_size block) :: u64"
  have "unat ?x = 128 + unat (bh_stored_size block)"
    using unat_u32_less [of "bh_stored_size block"] by (simp add: unat_word_ariths)
  then have "0 < unat ?x" by simp
  moreover have "align_up ?x (vh_persistence_quantum v) = (ucast (bh_frame_span block), False)"
    using assms by (auto simp: scan_accepts_def Let_def split: prod.splits)
  then have "unat ?x \<le> unat (ucast (bh_frame_span block) :: u64)"
    using align_up_ok by blast
  ultimately show "0 < (ucast (bh_frame_span block) :: u64)" by (simp add: word_less_nat_alt)
qed

lemma scan_block_accepts:
  "scan_block env header limit at s = Some (Inr (Some block), s') \<Longrightarrow>
    scan_accepts (volume s) header limit at block"
  by (auto simp: scan_block_def bind_op_def Let_def split: option.splits sum.splits if_splits)

lemma span_advances:
  assumes "(span :: u64) \<le> limit - cursor" "0 < span"
  shows "unat (limit - (cursor + span)) < unat (limit - cursor)"
proof -
  have eq: "limit - (cursor + span) = (limit - cursor) - span" by simp
  have "unat ((limit - cursor) - span) = unat (limit - cursor) - unat span"
    using assms(1) by (simp add: unat_sub word_le_nat_alt)
  then show ?thesis unfolding eq using assms by (simp add: word_le_nat_alt word_less_nat_alt)
qed

function scan_loop ::
  "'s env \<Rightarrow> partition_header \<Rightarrow> u64 \<Rightarrow> scan_position \<Rightarrow> index_entry list \<Rightarrow>
   ('s impl, index_entry list \<times> u64 \<times> bool) op" where
  "scan_loop env header limit at entries s =
     (if sp_cursor at + kBlockHeaderEncodedSize \<le> limit then
        (case scan_block env header limit at s of
           None \<Rightarrow> None
         | Some (Inl status, s') \<Rightarrow> Some (Inl status, s')
         | Some (Inr None, s') \<Rightarrow> Some (Inr (entries, sp_cursor at, True), s')
         | Some (Inr (Some block), s') \<Rightarrow>
             scan_loop env header limit (scan_next at block)
               (entries @ [scan_entry (sp_cursor at) block]) s')
      else Some (Inr (entries, sp_cursor at, False), s))"
  by pat_completeness auto
termination
proof (relation "measure (\<lambda>(env, header, limit, at, entries, s). unat (limit - sp_cursor at))", goal_cases)
  case (2 env header limit at entries s r res s' o' block)
  then have "scan_block env header limit at s = Some (Inr (Some block), s')" by simp
  from scan_accepts_span [OF scan_block_accepts [OF this]] show ?case
    by (simp add: scan_next_def span_advances)
qed simp

declare scan_loop.simps [simp del]

definition scan_start :: scan_position where
  "scan_start = \<lparr>sp_cursor = kPartitionHeaderRegionSize, sp_sequence = 0, sp_writer_high = 0,
     sp_writer_low = 0\<rparr>"

definition scan_partition ::
  "'s env \<Rightarrow> partition_header \<Rightarrow> u64 \<Rightarrow> ('s impl, index_entry list \<times> u64 \<times> bool) op" where
  "scan_partition env header scan_limit = bind_op get_op (\<lambda>s.
     let limit = (if scan_limit = 0 then index_begin (volume s) else scan_limit) in
     if limit < kPartitionHeaderRegionSize \<or> limit > index_begin (volume s)
     then error_op (Error Corrupt ''partition scan limit outside data region'')
     else scan_loop env header limit scan_start [])"

section \<open>The index of a sealed partition\<close>

definition accept_index_entry :: "volume_header \<Rightarrow> nat \<Rightarrow> u64 \<Rightarrow> index_entry \<Rightarrow> status" where
  "accept_index_entry v i expected_offset entry =
     (if unat (ie_sequence entry) \<noteq> i \<or> ie_offset entry \<noteq> expected_offset \<or>
         ie_record_count entry = 0 \<or> ie_max_time_ns entry <s ie_min_time_ns entry \<or>
         ie_frame_size entry < kBlockHeaderEncodedSize \<or>
         ie_frame_size entry > kBlockHeaderEncodedSize + vh_max_block_payload v \<or>
         ie_raw_size entry > vh_max_block_payload v \<or>
         ie_frame_span entry mod vh_persistence_quantum v \<noteq> 0 \<or>
         ucast (ie_frame_span entry) > index_begin v - ie_offset entry
      then Error Corrupt ''partition index sequence/bounds mismatch''
      else let (expected_span, span_overflow) =
             align_up (ucast (ie_frame_size entry)) (vh_persistence_quantum v) in
        if span_overflow \<or> ucast (ie_frame_span entry) \<noteq> expected_span
        then Error Corrupt ''partition index frame span mismatch''
        else Ok)"

fun check_index :: "volume_header \<Rightarrow> nat \<Rightarrow> u64 \<Rightarrow> index_entry list \<Rightarrow> status + u64" where
  "check_index v i expected_offset [] = Inr expected_offset"
| "check_index v i expected_offset (entry # entries) =
     (let status = accept_index_entry v i expected_offset entry in
      if \<not> status_ok status then Inl status
      else check_index v (i + 1) (expected_offset + ucast (ie_frame_span entry)) entries)"

definition load_index :: "'s env \<Rightarrow> partition_state \<Rightarrow> ('s impl, index_entry list) op" where
  "load_index env state = bind_op get_op (\<lambda>s.
     if \<not> ps_sealed state then error_op (Error Invalid_argument ''partition is not sealed'')
     else if pf_index_size (ps_footer state) = 0 then return_op []
     else bind_op (read_media env
         (partition_base (volume s) (ph_slot (ps_header state)) + pf_index_offset (ps_footer state))
         (unat (pf_index_size (ps_footer state)))) (\<lambda>data.
       if crc32c data \<noteq> pf_index_crc (ps_footer state)
       then error_op (Error Corrupt ''partition index CRC mismatch'')
       else (case decode_index data False of
         Inl status \<Rightarrow> error_op status
       | Inr entries \<Rightarrow>
           if length entries \<noteq> unat (pf_block_count (ps_footer state))
           then error_op (Error Corrupt ''partition index count mismatch'')
           else (case check_index (volume s) 0 kPartitionHeaderRegionSize entries of
             Inl status \<Rightarrow> error_op status
           | Inr expected_offset \<Rightarrow>
               if expected_offset \<noteq> pf_data_end (ps_footer state)
               then error_op (Error Corrupt ''partition index data end mismatch'')
               else return_op entries))))"

definition add_time :: "index_entry \<Rightarrow> partition_state \<Rightarrow> partition_state" where
  "add_time entry state =
     (let state = state\<lparr>ps_aggregate_flags := or (ps_aggregate_flags state) (ie_flags entry)\<rparr> in
      if \<not> ps_has_time state
      then state\<lparr>ps_has_time := True, ps_min_time_ns := ie_min_time_ns entry,
             ps_max_time_ns := ie_max_time_ns entry\<rparr>
      else state\<lparr>ps_min_time_ns := smin (ps_min_time_ns state) (ie_min_time_ns entry),
             ps_max_time_ns := smax (ps_max_time_ns state) (ie_max_time_ns entry)\<rparr>)"

definition summarize :: "partition_state \<Rightarrow> partition_state" where
  "summarize state =
     fold add_time (ps_active_index state)
       (state\<lparr>ps_aggregate_flags := 0, ps_has_time := False,
          ps_block_count := of_nat (length (ps_active_index state))\<rparr>)"

section \<open>Reading a block\<close>

definition classify_snapshot_failure ::
  "'s env \<Rightarrow> partition_state \<Rightarrow> status \<Rightarrow> ('s impl, 'a) op" where
  "classify_snapshot_failure env part fallback =
     bind_op (try_op (read_partition_header env (ph_slot (ps_header part)))) (\<lambda>r.
       case r of
         Inr current_header \<Rightarrow>
           if ph_generation current_header \<noteq> ph_generation (ps_header part)
           then error_op (Error Overwritten ''partition changed while reading block'')
           else error_op fallback
       | Inl status \<Rightarrow>
           if code status = Io_error \<or> code status = Interrupted \<or> code status = Unsupported
           then error_op status else error_op fallback)"

definition block_identity :: "volume_header \<Rightarrow> partition_state \<Rightarrow> index_entry \<Rightarrow> block_header \<Rightarrow> bool" where
  "block_identity v part entry block \<longleftrightarrow>
     \<not> (bh_generation block \<noteq> ph_generation (ps_header part) \<or>
        bh_slot block \<noteq> ph_slot (ps_header part) \<or> bh_sequence block \<noteq> ie_sequence entry \<or>
        bh_volume_id_low block \<noteq> vh_volume_id_low v \<or>
        bh_volume_id_high block \<noteq> vh_volume_id_high v \<or>
        ((ie_writer_id_high entry \<noteq> 0 \<or> ie_writer_id_low entry \<noteq> 0) \<and>
         (bh_writer_id_high block \<noteq> ie_writer_id_high entry \<or>
          bh_writer_id_low block \<noteq> ie_writer_id_low entry)))"

definition block_agrees :: "volume_header \<Rightarrow> partition_state \<Rightarrow> index_entry \<Rightarrow> block_header \<Rightarrow> bool" where
  "block_agrees v part entry block \<longleftrightarrow>
     \<not> (bh_stored_size block + kBlockHeaderEncodedSize \<noteq> ie_frame_size entry \<or>
        bh_frame_span block \<noteq> ie_frame_span entry \<or> bh_raw_size block > vh_max_block_payload v \<or>
        bh_stored_size block > vh_max_block_payload v \<or>
        bh_record_count block = 0 \<or> bh_max_time_ns block <s bh_min_time_ns block \<or>
        bh_record_count block \<noteq> ie_record_count entry \<or> bh_raw_size block \<noteq> ie_raw_size entry \<or>
        bh_min_time_ns block \<noteq> ie_min_time_ns entry \<or> bh_max_time_ns block \<noteq> ie_max_time_ns entry \<or>
        bh_flags block \<noteq> ie_flags entry \<or>
        (bh_compression block \<noteq> Compression_none \<and>
          (bh_compression block \<noteq> po_compression (ph_options (ps_header part)) \<or>
           bh_compression_version block \<noteq>
             po_compression_version (ph_options (ps_header part)))) \<or>
        (bh_compression block = Compression_none \<and>
          (bh_stored_size block \<noteq> bh_raw_size block \<or> bh_compression_version block \<noteq> 1)))"

definition block_metadata_of ::
  "volume_header \<Rightarrow> partition_state \<Rightarrow> index_entry \<Rightarrow> block_header \<Rightarrow> block_metadata" where
  "block_metadata_of v part entry block =
     \<lparr>bm_partition_slot = ph_slot (ps_header part),
      bm_partition_generation = ph_generation (ps_header part),
      bm_block_sequence = bh_sequence block, bm_record_count = bh_record_count block,
      bm_min_time_ns = bh_min_time_ns block, bm_max_time_ns = bh_max_time_ns block,
      bm_flags = bh_flags block, bm_compression = bh_compression block,
      bm_stored_size = bh_stored_size block, bm_raw_size = bh_raw_size block,
      bm_physical_offset = partition_base v (ph_slot (ps_header part)) + ie_offset entry,
      bm_record_format_id = po_record_format_id (ph_options (ps_header part)),
      bm_record_format_version = po_record_format_version (ph_options (ps_header part)),
      bm_time_domain_id = po_time_domain_id (ph_options (ps_header part))\<rparr>"

text \<open>The checks after the payload is in memory.\<close>

definition decode_block ::
  "'s env \<Rightarrow> partition_state \<Rightarrow> index_entry \<Rightarrow> block_header \<Rightarrow> bytes \<Rightarrow>
   ('s impl, block_metadata \<times> bytes) op" where
  "decode_block env part entry block stored = bind_op get_op (\<lambda>s.
     if crc32c stored \<noteq> bh_payload_crc block
     then classify_snapshot_failure env part (Error Corrupt ''block payload CRC mismatch'')
     else case codec_for (open_options s) (bh_compression block) (bh_compression_version block) of
       None \<Rightarrow> error_op (Error Unsupported ''block compression unavailable'')
     | Some codec \<Rightarrow>
         (case decompress codec (View stored) (unat (bh_raw_size block)) False of
            Inl status \<Rightarrow> error_op status
          | Inr decoded \<Rightarrow>
              if length decoded \<noteq> unat (bh_raw_size block)
              then error_op (Error Corrupt ''compression codec returned wrong output size'')
              else return_op (block_metadata_of (volume s) part entry block, decoded)))"

definition read_block ::
  "'s env \<Rightarrow> partition_state \<Rightarrow> index_entry \<Rightarrow> ('s impl, block_metadata \<times> bytes) op" where
  "read_block env part entry = bind_op get_op (\<lambda>s.
     let slot = ph_slot (ps_header part);
         generation = ph_generation (ps_header part);
         base = partition_base (volume s) slot in
     bind_op (catch_op (read_partition_header env slot) (classify_snapshot_failure env part)) (\<lambda>current_header.
     if ph_generation current_header \<noteq> generation
     then error_op (Error Overwritten (slot_message ''partition was overwritten'' slot generation))
     else bind_op (read_media env (base + ie_offset entry) kBlockHeaderEncodedSize) (\<lambda>header_bytes.
     case decode_block_header header_bytes False of
       Inl status \<Rightarrow> classify_snapshot_failure env part status
     | Inr block \<Rightarrow>
         if \<not> block_identity (volume s) part entry block
         then classify_snapshot_failure env part
                (Error Corrupt ''block identity disagrees with snapshot'')
         else if \<not> block_agrees (volume s) part entry block
         then classify_snapshot_failure env part
                (Error Corrupt ''block metadata disagrees with partition/index'')
         else if (let (expected_span, span_overflow) =
                align_up (kBlockHeaderEncodedSize + ucast (bh_stored_size block)) (vh_persistence_quantum (volume s))
              in ucast (bh_frame_span block) \<noteq> expected_span \<or> span_overflow)
         then classify_snapshot_failure env part (Error Corrupt ''block frame span mismatch'')
         else bind_op (read_media env (base + ie_offset entry + kBlockHeaderEncodedSize)
                 (unat (bh_stored_size block))) (\<lambda>stored.
           bind_op (catch_op (read_partition_header env slot) (classify_snapshot_failure env part)) (\<lambda>after_read.
           if ph_generation after_read \<noteq> generation
           then error_op (Error Overwritten ''partition changed while reading block payload'')
           else decode_block env part entry block stored)))))"

end
