(* ===== verification/Ring_Write.thy ===== *)
theory Ring_Write
  imports Ring_Read
begin

text \<open>
  The writing side of the ring store (src/ring_store.cpp): flushing with its accounting, the
  partition life cycle (create, seal, rotate), the block builder, and the public operations of a
  writable store. Each operation is the whole method of the source, its guards and its early
  returns included; a failing media operation goes through \<open>fail\<close>, which faults the store.
\<close>

unbundle bit_operations_syntax

section \<open>Flushing\<close>

definition note_sync :: "u64 \<Rightarrow> 's impl \<Rightarrow> 's impl" where
  "note_sync elapsed s =
     (let m = (metrics s)\<lparr>sm_sync_calls := sm_sync_calls (metrics s) + 1,
                sm_last_sync_duration_ns := elapsed,
                sm_max_sync_duration_ns := max (sm_max_sync_duration_ns (metrics s)) elapsed\<rparr>
      in s\<lparr>metrics := m,
           health_atomics := (health_atomics s)\<lparr>hm_sync_calls := sm_sync_calls m,
             hm_last_sync_ns := elapsed, hm_max_sync_ns := sm_max_sync_duration_ns m\<rparr>\<rparr>)"

definition note_sync_error :: "'s impl \<Rightarrow> 's impl" where
  "note_sync_error s =
     (let m = (metrics s)\<lparr>sm_sync_errors := sm_sync_errors (metrics s) + 1\<rparr>
      in s\<lparr>metrics := m, health_atomics := (health_atomics s)\<lparr>hm_sync_errors := sm_sync_errors m\<rparr>\<rparr>)"

definition note_durable :: "'s env \<Rightarrow> 's impl \<Rightarrow> 's impl" where
  "note_durable env s =
     (let m = (metrics s)\<lparr>sm_checkpoints := sm_checkpoints (metrics s) + 1,
                sm_durable_records := sm_accepted_records (metrics s),
                sm_durable_blocks := sm_published_blocks (metrics s)\<rparr>;
          s = s\<lparr>dirty := False, metrics := m,
                health_atomics := (health_atomics s)\<lparr>hm_checkpoints := sm_checkpoints m\<rparr>\<rparr>
      in if have_undurable_records s
         then let age = env_clock env (clock_reads s) - oldest_undurable_record s
           in s\<lparr>clock_reads := clock_reads s + 1,
                metrics := (metrics s)\<lparr>sm_max_accepted_to_durable_ns :=
                  max (sm_max_accepted_to_durable_ns (metrics s)) age\<rparr>,
                have_undurable_records := False,
                health_atomics := (health_atomics s)\<lparr>hm_have_undurable := False\<rparr>\<rparr>
         else s)"

definition sync_media :: "'s env \<Rightarrow> bool \<Rightarrow> ('s impl, unit) op" where
  "sync_media env advances_durability s =
     (let started = env_clock env (clock_reads s);
          (status, m) = flush (env_storage env) (media s);
          elapsed = env_clock env (clock_reads s + 1) - started;
          s = note_sync elapsed (s\<lparr>media := m, clock_reads := clock_reads s + 2\<rparr>)
      in if \<not> status_ok status then fail status (note_sync_error s)
         else Some (Inr (), if advances_durability then note_durable env s else s))"

section \<open>Partition life cycle\<close>

definition new_partition_header ::
  "volume_header \<Rightarrow> u32 \<Rightarrow> u64 \<Rightarrow> partition_options \<Rightarrow> partition_header" where
  "new_partition_header v slot generation options =
     \<lparr>ph_volume_id_high = vh_volume_id_high v, ph_volume_id_low = vh_volume_id_low v,
      ph_generation = generation, ph_slot = slot, ph_created_time_ns = 0,
      ph_max_block_payload = vh_max_block_payload v,
      ph_persistence_quantum = vh_persistence_quantum v, ph_options = options, ph_features = []\<rparr>"

text \<open>The in-memory part of \<open>create_partition\<close>, after the header is on the media.\<close>

definition install_partition :: "partition_header \<Rightarrow> bool \<Rightarrow> 's impl \<Rightarrow> 's impl" where
  "install_partition header time_domain_changed s =
     (let slot = ph_slot header;
          kept = filter (\<lambda>p. ph_slot (ps_header p) \<noteq> slot) (partitions s)
      in s\<lparr>partitions := sort_key (\<lambda>p. ph_generation (ps_header p)) (kept @ [new_partition_state header]),
           corrupt_slots := filter (\<lambda>x. x \<noteq> slot) (corrupt_slots s),
           active_generation := ph_generation header,
           active_slot := slot,
           have_last_time := (if time_domain_changed then False else have_last_time s),
           dirty := False\<rparr>)"

definition create_partition ::
  "'s env \<Rightarrow> u32 \<Rightarrow> u64 \<Rightarrow> partition_options \<Rightarrow> ('s impl, unit) op" where
  "create_partition env slot generation options = bind_op get_op (\<lambda>s.
     if generation = 0
     then error_op (Error Generation_exhausted ''partition generation exhausted'')
     else let time_domain_changed = (case active s of None \<Rightarrow> False
                | Some previous \<Rightarrow>
                    po_time_domain_id (ph_options (ps_header previous)) \<noteq> po_time_domain_id options);
              header = new_partition_header (volume s) slot generation options
       in bind_op (status_op (validate_partition_options (open_options s) options)) (\<lambda>_.
          let data = encode_partition_header header (vh_partition_size (volume s))
                (vh_index_region_size (volume s)) in
          bind_op (catch_op (write_media env (partition_base (volume s) slot) data) fail) (\<lambda>_.
          bind_op (sync_media env False) (\<lambda>_.
          modify_op (install_partition header time_domain_changed)))))"

definition seal_footer :: "volume_header \<Rightarrow> partition_state \<Rightarrow> bytes \<Rightarrow> partition_footer" where
  "seal_footer v state index_bytes =
     \<lparr>pf_volume_id_high = vh_volume_id_high v, pf_volume_id_low = vh_volume_id_low v,
      pf_generation = ph_generation (ps_header state), pf_slot = ph_slot (ps_header state),
      pf_flags = ps_aggregate_flags state,
      pf_block_count = of_nat (length (ps_active_index state)),
      pf_index_offset = index_begin v, pf_index_size = of_nat (length index_bytes),
      pf_data_end = ps_data_end state,
      pf_min_time_ns = (if ps_has_time state then ps_min_time_ns state else 0),
      pf_max_time_ns = (if ps_has_time state then ps_max_time_ns state else 0),
      pf_index_crc = crc32c index_bytes\<rparr>"

definition seal_active_only :: "'s env \<Rightarrow> ('s impl, unit) op" where
  "seal_active_only env = bind_op get_op (\<lambda>s.
     case active s of
       None \<Rightarrow> error_op (Error Internal_error ''no active partition to seal'')
     | Some state \<Rightarrow>
         if ps_sealed state then error_op (Error Internal_error ''no active partition to seal'')
         else bind_op (if dirty s then sync_media env True else return_op ()) (\<lambda>_.
           let v = volume s;
               base = partition_base v (ph_slot (ps_header state));
               index_bytes = encode_index (ps_active_index state);
               footer = seal_footer v state index_bytes
           in if length index_bytes > unat (vh_index_region_size v)
              then fail (Error Internal_error ''active index exceeds reserve'')
              else bind_op (if index_bytes \<noteq> []
                  then catch_op (write_media env (base + index_begin v) index_bytes) fail
                  else return_op ()) (\<lambda>_.
                bind_op (catch_op (write_media env (base + footer_offset v)
                    (encode_partition_footer footer)) fail) (\<lambda>_.
                bind_op (sync_media env False) (\<lambda>_.
                modify_op (update_active
                  (\<lambda>p. p\<lparr>ps_sealed := True, ps_index_valid := True, ps_footer := footer\<rparr>)))))))"

definition rotate_internal :: "'s env \<Rightarrow> partition_options \<Rightarrow> ('s impl, unit) op" where
  "rotate_internal env options = bind_op get_op (\<lambda>s.
     case active s of
       None \<Rightarrow> error_op (Error Internal_error ''missing active partition'')
     | Some state \<Rightarrow>
         if ph_generation (ps_header state) = - 1
         then fail (Error Generation_exhausted ''partition generation exhausted'')
         else bind_op (seal_active_only env) (\<lambda>_.
           let next_slot = (ph_slot (ps_header state) + 1) mod vh_partition_count (volume s);
               next_generation = ph_generation (ps_header state) + 1
           in bind_op (create_partition env next_slot next_generation options) (\<lambda>_.
              modify_op (\<lambda>s. s\<lparr>metrics := (metrics s)\<lparr>sm_rotations := sm_rotations (metrics s) + 1\<rparr>\<rparr>))))"

section \<open>The block builder\<close>

definition ensure_empty_builder_capacity :: "'s env \<Rightarrow> ('s impl, unit) op" where
  "ensure_empty_builder_capacity env = bind_op get_op (\<lambda>s.
     if builder s \<noteq> [] then return_op ()
     else case active s of
       None \<Rightarrow> error_op (Error Internal_error ''missing active partition'')
     | Some state \<Rightarrow>
         let v = volume s;
             (worst_span, overflow) =
               align_up (kBlockHeaderEncodedSize + ucast (vh_max_block_payload v)) (vh_persistence_quantum v)
         in if overflow \<or> worst_span > index_begin v - kPartitionHeaderRegionSize
            then fail (Error No_space ''configured block cannot fit empty partition'')
            else let data_full = (ps_data_end state > index_begin v \<or>
                       worst_span > index_begin v - ps_data_end state);
                     index_full = (length (ps_active_index state) + 1 >
                       unat (vh_index_region_size v div kIndexEntryEncodedSize))
              in if data_full \<or> index_full then rotate_internal env (next_options s) else return_op ())"

text \<open>The stored form of a block: the codec's output when it is smaller, else the bytes as they are.\<close>

definition select_payload ::
  "codec \<Rightarrow> partition_options \<Rightarrow> bytes \<Rightarrow> status + (bytes \<times> compression_id \<times> u16)" where
  "select_payload configured options raw =
     (if po_compression options \<noteq> Compression_none
      then case compress configured (View raw) False of
          Inl status \<Rightarrow> Inl status
        | Inr compressed \<Rightarrow>
            if length compressed > max_compressed_size configured (length raw)
            then Inl (Error Internal_error ''compression codec exceeded declared bound'')
            else if compressed = []
            then Inl (Error Internal_error ''compression codec returned empty output'')
            else if length compressed < length raw
            then Inr (compressed, po_compression options, codec_version configured)
            else Inr (raw, Compression_none, 1)
      else Inr (raw, Compression_none, 1))"

definition new_block_header ::
  "'s impl \<Rightarrow> partition_state \<Rightarrow> bytes \<Rightarrow> compression_id \<Rightarrow> u16 \<Rightarrow> u64 \<Rightarrow> block_header" where
  "new_block_header s state payload selected selected_version span64 =
     \<lparr>bh_generation = ph_generation (ps_header state), bh_slot = ph_slot (ps_header state),
      bh_sequence = of_nat (length (ps_active_index state)), bh_flags = builder_flags s,
      bh_record_count = builder_records s, bh_stored_size = of_nat (length payload),
      bh_raw_size = of_nat (length (builder s)), bh_frame_span = ucast span64,
      bh_min_time_ns = builder_min_time s, bh_max_time_ns = builder_max_time s,
      bh_compression = selected, bh_compression_version = selected_version,
      bh_payload_crc = crc32c payload, bh_volume_id_low = vh_volume_id_low (volume s),
      bh_volume_id_high = vh_volume_id_high (volume s), bh_writer_id_high = writer_id_high s,
      bh_writer_id_low = writer_id_low s,
      bh_previous_writer_id_high = (if ps_active_index state \<noteq> []
        then ie_writer_id_high (last (ps_active_index state)) else 0),
      bh_previous_writer_id_low = (if ps_active_index state \<noteq> []
        then ie_writer_id_low (last (ps_active_index state)) else 0)\<rparr>"

definition new_index_entry :: "partition_state \<Rightarrow> block_header \<Rightarrow> u64 \<Rightarrow> u64 \<Rightarrow> index_entry" where
  "new_index_entry state block frame_size64 span64 =
     \<lparr>ie_offset = ps_data_end state, ie_frame_size = ucast frame_size64,
      ie_frame_span = ucast span64, ie_sequence = bh_sequence block,
      ie_record_count = bh_record_count block, ie_min_time_ns = bh_min_time_ns block,
      ie_max_time_ns = bh_max_time_ns block, ie_flags = bh_flags block,
      ie_raw_size = bh_raw_size block, ie_writer_id_high = bh_writer_id_high block,
      ie_writer_id_low = bh_writer_id_low block\<rparr>"

text \<open>What the partition and the store remember of a block that is on the media.\<close>

definition push_entry :: "index_entry \<Rightarrow> u64 \<Rightarrow> partition_state \<Rightarrow> partition_state" where
  "push_entry entry span64 state =
     add_time entry (state\<lparr>ps_active_index := ps_active_index state @ [entry],
       ps_block_count := of_nat (length (ps_active_index state) + 1),
       ps_data_end := ps_data_end state + span64\<rparr>)"

definition note_published :: "index_entry \<Rightarrow> u64 \<Rightarrow> nat \<Rightarrow> 's impl \<Rightarrow> 's impl" where
  "note_published entry span64 frame_size s =
     (let s = update_active (push_entry entry span64) s;
          m = metrics s
      in s\<lparr>metrics := m\<lparr>sm_published_blocks := sm_published_blocks m + 1,
             sm_stored_block_bytes := sm_stored_block_bytes m + of_nat frame_size,
             sm_raw_block_bytes := sm_raw_block_bytes m + of_nat (length (builder s))\<rparr>,
           dirty := True, builder := [], builder_records := 0, builder_flags := 0\<rparr>)"

definition emit_frame ::
  "'s env \<Rightarrow> partition_state \<Rightarrow> bytes \<Rightarrow> compression_id \<Rightarrow> u16 \<Rightarrow> ('s impl, unit) op" where
  "emit_frame env state payload selected selected_version = bind_op get_op (\<lambda>s.
     let v = volume s;
         frame_size64 = kBlockHeaderEncodedSize + of_nat (length payload) :: u64;
         (span64, overflow) = align_up frame_size64 (vh_persistence_quantum v)
     in if overflow \<or> frame_size64 > 0xffffffff \<or> span64 > 0xffffffff
        then fail (Error Out_of_range ''encoded block too large'')
        else let prospective_entries = length (ps_active_index state) + 1
          in if ps_data_end state > index_begin v \<or> span64 > index_begin v - ps_data_end state \<or>
                prospective_entries > unat (vh_index_region_size v div kIndexEntryEncodedSize)
             then fail (Error Internal_error
                    ''builder capacity was not reserved before accepting records'')
             else let block = new_block_header s state payload selected selected_version span64;
                      frame = encode_block_header block @ payload
               in bind_op (catch_op (write_media env
                      (partition_base v (ph_slot (ps_header state)) + ps_data_end state) frame) fail) (\<lambda>_.
                  modify_op (note_published (new_index_entry state block frame_size64 span64) span64
                    (length frame))))"

definition emit_builder :: "'s env \<Rightarrow> ('s impl, unit) op" where
  "emit_builder env = bind_op get_op (\<lambda>s.
     if builder s = [] then return_op ()
     else (case active s of
       None \<Rightarrow> fail (Error Internal_error ''missing active partition'')
     | Some state \<Rightarrow>
         let options = ph_options (ps_header state) in
         (case codec_for (open_options s) (po_compression options) (po_compression_version options) of
            None \<Rightarrow> fail (Error Unsupported ''compression codec unavailable'')
          | Some configured \<Rightarrow>
              (case select_payload configured options (builder s) of
                 Inl status \<Rightarrow> fail status
               | Inr (payload, selected, selected_version) \<Rightarrow>
                   emit_frame env state payload selected selected_version))))"

section \<open>Public operations\<close>

text \<open>The guards of every mutating operation.\<close>

definition check_writer :: "('s impl, unit) op" where
  "check_writer s =
     (if \<not> writable s then Some (Inl (Error Io_error ''store is read-only''), s)
      else if closed s then Some (Inl (Error Closed ''store is closed''), s)
      else if faulted s then Some (Inl (fault_status s), s)
      else Some (Inr (), s))"

definition contract_holds :: "append_contract option \<Rightarrow> partition_options \<Rightarrow> bool" where
  "contract_holds expected options =
     (case expected of
        None \<Rightarrow> True
      | Some c \<Rightarrow> \<not> (po_record_format_id options \<noteq> ac_record_format_id c \<or>
          po_record_format_version options \<noteq> ac_record_format_version c \<or>
          po_time_domain_id options \<noteq> ac_time_domain_id c))"

definition time_anomaly :: "'s impl \<Rightarrow> partition_options \<Rightarrow> i64 \<Rightarrow> bool" where
  "time_anomaly s options time \<longleftrightarrow>
     have_last_time s \<and>
     ((time <s last_time s \<and> delta_exceeds time (last_time s) (po_allowed_backward_skew_ns options)) \<or>
      (last_time s <s time \<and> delta_exceeds (last_time s) time (po_allowed_forward_step_ns options)))"

definition record_block_flags :: "u32 \<Rightarrow> bool \<Rightarrow> u32" where
  "record_block_flags record_flags anomaly =
     (let flags = record_flags AND 0xffff0000;
          flags = (if record_flags AND kRecordFlagUnsynchronizedTime \<noteq> 0
                   then flags OR kBlockFlagUnsynchronizedTime else flags)
      in if anomaly then flags OR kBlockFlagTimeAnomaly else flags)"

text \<open>The part of \<open>append_impl\<close> that cannot fail: the record enters the builder.\<close>

definition accept_record ::
  "'s env \<Rightarrow> partition_options \<Rightarrow> bytes \<Rightarrow> i64 \<Rightarrow> u32 \<Rightarrow> 's impl \<Rightarrow> 's impl" where
  "accept_record env options data time record_flags s =
     (let anomaly = time_anomaly s options time;
          flags = record_block_flags record_flags anomaly;
          s = (if anomaly
               then s\<lparr>metrics := (metrics s)\<lparr>sm_time_anomalies := sm_time_anomalies (metrics s) + 1\<rparr>\<rparr>
               else s);
          s = (if builder s = []
               then s\<lparr>builder_min_time := time, builder_max_time := time, builder_flags := flags\<rparr>
               else s\<lparr>builder_min_time := smin (builder_min_time s) time,
                      builder_max_time := smax (builder_max_time s) time,
                      builder_flags := builder_flags s OR flags\<rparr>);
          s = s\<lparr>builder := builder s @ data, builder_records := builder_records s + 1,
                last_time := time, have_last_time := True,
                metrics := (metrics s)\<lparr>sm_accepted_records := sm_accepted_records (metrics s) + 1,
                  sm_accepted_payload_bytes := sm_accepted_payload_bytes (metrics s) + of_nat (length data)\<rparr>\<rparr>
      in if \<not> have_undurable_records s
         then s\<lparr>have_undurable_records := True,
                oldest_undurable_record := env_clock env (clock_reads s),
                health_atomics := (health_atomics s)
                  \<lparr>hm_oldest_undurable_ns := env_clock env (clock_reads s + 1), hm_have_undurable := True\<rparr>,
                clock_reads := clock_reads s + 2\<rparr>
         else s)"

definition append_impl ::
  "'s env \<Rightarrow> byte_view \<Rightarrow> i64 \<Rightarrow> u32 \<Rightarrow> append_contract option \<Rightarrow> ('s impl, unit) op" where
  "append_impl env record time record_flags expected =
     bind_op check_writer (\<lambda>_. bind_op get_op (\<lambda>s.
     if view_empty record
     then error_op (Error Invalid_argument ''zero-length record is not allowed'')
     else if \<not> view_valid record
     then error_op (Error Invalid_argument ''null non-empty record'')
     else if view_size record > unat (vh_max_block_payload (volume s))
     then error_op (Error Out_of_range ''record exceeds block payload limit'')
     else bind_op (if (of_nat (view_size record) :: u64) >
           ucast (vh_max_block_payload (volume s)) - of_nat (length (builder s))
         then emit_builder env else return_op ()) (\<lambda>_.
       bind_op (ensure_empty_builder_capacity env) (\<lambda>_. bind_op get_op (\<lambda>s.
       case active s of
         None \<Rightarrow> error_op (Error Internal_error ''missing active partition'')
       | Some state \<Rightarrow>
           let options = ph_options (ps_header state) in
           if \<not> contract_holds expected options
           then error_op (Error Invalid_argument ''active partition contract changed before append'')
           else modify_op (accept_record env options (view_bytes record) time record_flags))))))"

definition append :: "'s env \<Rightarrow> byte_view \<Rightarrow> i64 \<Rightarrow> u32 \<Rightarrow> ('s impl, unit) op" where
  "append env record time record_flags = append_impl env record time record_flags None"

definition append_checked ::
  "'s env \<Rightarrow> byte_view \<Rightarrow> i64 \<Rightarrow> append_contract \<Rightarrow> u32 \<Rightarrow> ('s impl, unit) op" where
  "append_checked env record time expected record_flags =
     (if ac_record_format_id expected = 0 \<or> ac_record_format_version expected = 0 \<or>
         ac_time_domain_id expected = 0
      then error_op (Error Invalid_argument ''checked append requires a nonzero partition contract'')
      else append_impl env record time record_flags (Some expected))"

definition publish :: "'s env \<Rightarrow> ('s impl, unit) op" where
  "publish env = bind_op check_writer (\<lambda>_. emit_builder env)"

definition checkpoint :: "'s env \<Rightarrow> ('s impl, unit) op" where
  "checkpoint env = bind_op check_writer (\<lambda>_. bind_op (emit_builder env) (\<lambda>_.
     bind_op get_op (\<lambda>s. if \<not> dirty s then return_op () else sync_media env True)))"

definition mark_closed :: "'s impl \<Rightarrow> 's impl" where
  "mark_closed s = s\<lparr>closed := True, health_atomics := (health_atomics s)\<lparr>hm_closed := True\<rparr>\<rparr>"

definition close :: "'s env \<Rightarrow> ('s impl, unit) op" where
  "close env = bind_op get_op (\<lambda>s.
     if closed s then return_op ()
     else if \<not> writable s then modify_op mark_closed
     else if faulted s then error_op (fault_status s)
     else bind_op (emit_builder env) (\<lambda>_. bind_op get_op (\<lambda>s.
       bind_op (if dirty s then sync_media env True else return_op ()) (\<lambda>_. modify_op mark_closed))))"

definition rotate_store :: "'s env \<Rightarrow> partition_options \<Rightarrow> ('s impl, unit) op" where
  "rotate_store env next = bind_op check_writer (\<lambda>_. bind_op get_op (\<lambda>s.
     bind_op (status_op (validate_partition_options (open_options s) next)) (\<lambda>_.
     bind_op (emit_builder env) (\<lambda>_.
     bind_op (modify_op (\<lambda>s. s\<lparr>next_options := next\<rparr>)) (\<lambda>_.
     rotate_internal env next)))))"

definition set_next_partition_options :: "partition_options \<Rightarrow> ('s impl, unit) op" where
  "set_next_partition_options options = bind_op check_writer (\<lambda>_. bind_op get_op (\<lambda>s.
     bind_op (status_op (validate_partition_options (open_options s) options)) (\<lambda>_.
     modify_op (\<lambda>s. s\<lparr>next_options := options\<rparr>))))"

section \<open>Observers\<close>

definition info_of :: "partition_state \<Rightarrow> partition_info" where
  "info_of state =
     \<lparr>pi_slot = ph_slot (ps_header state), pi_generation = ph_generation (ps_header state),
      pi_sealed = ps_sealed state,
      pi_block_count = (if ps_sealed state then pf_block_count (ps_footer state) else ps_block_count state),
      pi_data_bytes = ps_data_end state - kPartitionHeaderRegionSize,
      pi_min_time_ns = (if ps_has_time state then ps_min_time_ns state else 0),
      pi_max_time_ns = (if ps_has_time state then ps_max_time_ns state else 0),
      pi_flags = ps_aggregate_flags state, pi_options = ph_options (ps_header state)\<rparr>"

definition inspect :: "bool \<Rightarrow> 's impl \<Rightarrow> status + volume_info" where
  "inspect null_output s =
     (if null_output then Inl (Error Invalid_argument ''null volume info'')
      else let v = volume s in
        Inr \<lparr>vi_volume_size = vh_volume_size v, vi_partition_size = vh_partition_size v,
          vi_partition_count = vh_partition_count v, vi_index_region_size = vh_index_region_size v,
          vi_max_block_payload = vh_max_block_payload v,
          vi_persistence_quantum = vh_persistence_quantum v,
          vi_volume_id_high = vh_volume_id_high v, vi_volume_id_low = vh_volume_id_low v,
          vi_partitions = map info_of (partitions s)\<rparr>)"

definition active_partition_info :: "bool \<Rightarrow> 's impl \<Rightarrow> status + partition_info" where
  "active_partition_info null_output s =
     (if null_output then Inl (Error Invalid_argument ''null active partition info'')
      else case active s of
          None \<Rightarrow> Inl (Error Closed ''store has no active partition'')
        | Some state \<Rightarrow> Inr (info_of state))"

definition store_metrics_of :: "'s env \<Rightarrow> ('s impl, store_metrics) op" where
  "store_metrics_of env s =
     (if have_undurable_records s
      then Some (Inr ((metrics s)\<lparr>sm_oldest_undurable_age_ns :=
             env_clock env (clock_reads s) - oldest_undurable_record s\<rparr>),
           s\<lparr>clock_reads := clock_reads s + 1\<rparr>)
      else Some (Inr (metrics s), s))"

definition health :: "'s env \<Rightarrow> ('s impl, writer_health) op" where
  "health env s =
     (let h = health_atomics s;
          result = \<lparr>wh_writable = writable s, wh_closed = hm_closed h, wh_faulted = hm_faulted h,
            wh_fault_code = hm_fault_code h, wh_oldest_undurable_age_ns = 0,
            wh_last_sync_duration_ns = hm_last_sync_ns h, wh_max_sync_duration_ns = hm_max_sync_ns h,
            wh_sync_calls = hm_sync_calls h, wh_sync_errors = hm_sync_errors h,
            wh_checkpoints = hm_checkpoints h\<rparr>
      in if hm_have_undurable h
         then let since = hm_oldest_undurable_ns h; now = env_clock env (clock_reads s) in
           Some (Inr (result\<lparr>wh_oldest_undurable_age_ns := (if now > since then now - since else 0)\<rparr>),
             s\<lparr>clock_reads := clock_reads s + 1\<rparr>)
         else Some (Inr result, s))"

definition writer_status :: "'s impl \<Rightarrow> status" where
  "writer_status s =
     (if \<not> writable s then Error Invalid_argument ''store is read-only''
      else if closed s then Error Closed ''store is closed''
      else if faulted s then fault_status s
      else Ok)"

end
