(* ===== verification/Ring_Query.thy ===== *)
theory Ring_Query
  imports Ring_Write
begin

text \<open>
  \<open>RingStore::Impl::query\<close> (src/ring_store.cpp), behind \<open>query_blocks\<close> and \<open>scan_blocks\<close>. The visitor
  is the caller's code: it runs without the lock, so it is a transformer of the store's state and
  of a state of its own, and may append to or rotate the store between two blocks. A round of a
  loop ends with \<open>True\<close> to go on or \<open>False\<close> when the visitor asked to stop.
\<close>

type_synonym ('s, 'v) visitor = "block_event \<Rightarrow> 's impl \<times> 'v \<Rightarrow> bool \<times> ('s impl \<times> 'v)"

definition on_store :: "('s impl, 'a) op \<Rightarrow> ('s impl \<times> 'v, 'a) op" where
  "on_store m = (\<lambda>(s, v). case m s of None \<Rightarrow> None | Some (r, s') \<Rightarrow> Some (r, (s', v)))"

definition visit :: "('s, 'v) visitor \<Rightarrow> block_event \<Rightarrow> ('s impl \<times> 'v, bool) op" where
  "visit visitor event x = (let (go_on, x') = visitor event x in Some (Inr go_on, x'))"

definition gap_event :: "block_event_kind \<Rightarrow> status \<Rightarrow> block_metadata \<Rightarrow> block_event" where
  "gap_event kind detail metadata =
     \<lparr>be_kind = kind, be_metadata = metadata, be_data = [], be_detail = detail\<rparr>"

definition count_gap :: "block_event_kind \<Rightarrow> 's impl \<Rightarrow> 's impl" where
  "count_gap kind s =
     (if kind = Event_overwritten_gap
      then s\<lparr>metrics := (metrics s)\<lparr>sm_overwritten_gaps := sm_overwritten_gaps (metrics s) + 1\<rparr>\<rparr>
      else s\<lparr>metrics := (metrics s)\<lparr>sm_corrupt_gaps := sm_corrupt_gaps (metrics s) + 1\<rparr>\<rparr>)"

text \<open>Report a gap: count it, show it to the visitor, and go on only if the options allow it.\<close>

definition report_gap ::
  "query_options \<Rightarrow> ('s, 'v) visitor \<Rightarrow> block_event \<Rightarrow> ('s impl \<times> 'v, bool) op" where
  "report_gap options visitor event =
     bind_op (modify_op (\<lambda>(s, v). (count_gap (be_kind event) s, v))) (\<lambda>_.
     bind_op (visit visitor event) (\<lambda>go_on.
       if \<not> go_on then return_op False
       else if \<not> qo_continue_on_gap options then error_op (be_detail event)
       else return_op True))"

fun report_corrupt_slots ::
  "query_options \<Rightarrow> ('s, 'v) visitor \<Rightarrow> u32 list \<Rightarrow> ('s impl \<times> 'v, bool) op" where
  "report_corrupt_slots options visitor [] = return_op True"
| "report_corrupt_slots options visitor (slot # slots) =
     bind_op (report_gap options visitor
       (gap_event Event_corrupt_gap (Error Corrupt ''partition header is damaged'')
         (zero_metadata\<lparr>bm_partition_slot := slot\<rparr>))) (\<lambda>go_on.
     if \<not> go_on then return_op False else report_corrupt_slots options visitor slots)"

record acquired =
  aq_entries :: "index_entry list"
  aq_corrupt_scan :: bool
  aq_invalid_sealed_index :: bool
  aq_rescanned_unsealed :: bool
  aq_scanned_end :: u64

text \<open>Where the entries come from: the sealed index, the resident one, or a bounded rescan.\<close>

definition first_index :: "'s env \<Rightarrow> partition_state \<Rightarrow> ('s impl, acquired) op" where
  "first_index env part =
     (if ps_sealed part
      then bind_op (load_index env part) (\<lambda>entries. return_op
        \<lparr>aq_entries = entries, aq_corrupt_scan = False, aq_invalid_sealed_index = False,
         aq_rescanned_unsealed = False, aq_scanned_end = 0\<rparr>)
      else if ps_active_index part \<noteq> [] \<or> ps_data_end part = kPartitionHeaderRegionSize
      then return_op
        \<lparr>aq_entries = ps_active_index part, aq_corrupt_scan = False, aq_invalid_sealed_index = False,
         aq_rescanned_unsealed = False, aq_scanned_end = 0\<rparr>
      else bind_op (scan_partition env (ps_header part) (ps_data_end part)) (\<lambda>(entries, scanned_end, corrupt_scan).
        return_op
        \<lparr>aq_entries = entries, aq_corrupt_scan = corrupt_scan, aq_invalid_sealed_index = False,
         aq_rescanned_unsealed = True, aq_scanned_end = scanned_end\<rparr>))"

definition acquire_index :: "'s env \<Rightarrow> partition_state \<Rightarrow> ('s impl, acquired) op" where
  "acquire_index env part =
     catch_op (first_index env part) (\<lambda>index_status.
       if code index_status \<noteq> Corrupt then error_op index_status
       else bind_op (scan_partition env (ps_header part)
              (if ps_sealed part then pf_data_end (ps_footer part) else 0)) (\<lambda>(entries, scanned_end, corrupt_scan).
         return_op
         \<lparr>aq_entries = entries, aq_corrupt_scan = corrupt_scan,
          aq_invalid_sealed_index = ps_sealed part,
          aq_rescanned_unsealed = (\<not> ps_sealed part), aq_scanned_end = scanned_end\<rparr>))"

definition invalid_prefix :: "partition_state \<Rightarrow> acquired \<Rightarrow> bool" where
  "invalid_prefix part a \<longleftrightarrow>
     (ps_sealed part \<and>
       (aq_invalid_sealed_index a \<or> aq_corrupt_scan a \<or>
        length (aq_entries a) \<noteq> unat (pf_block_count (ps_footer part)) \<or>
        (aq_scanned_end a \<noteq> 0 \<and> aq_scanned_end a \<noteq> pf_data_end (ps_footer part)))) \<or>
     (aq_rescanned_unsealed a \<and>
       (aq_corrupt_scan a \<or> aq_scanned_end a \<noteq> ps_data_end part \<or>
        length (aq_entries a) \<noteq> unat (ps_block_count part)))"

definition partition_metadata :: "partition_state \<Rightarrow> block_metadata" where
  "partition_metadata part =
     zero_metadata\<lparr>bm_partition_slot := ph_slot (ps_header part),
       bm_partition_generation := ph_generation (ps_header part)\<rparr>"

fun query_entries ::
  "'s env \<Rightarrow> bool \<Rightarrow> time_range \<Rightarrow> query_options \<Rightarrow> ('s, 'v) visitor \<Rightarrow> partition_state \<Rightarrow>
   index_entry list \<Rightarrow> ('s impl \<times> 'v, bool) op" where
  "query_entries env all_blocks rng options visitor part [] = return_op True"
| "query_entries env all_blocks rng options visitor part (entry # entries) =
     (if \<not> all_blocks \<and> \<not> ranges_intersect (ie_min_time_ns entry) (ie_max_time_ns entry) rng
      then query_entries env all_blocks rng options visitor part entries
      else bind_op (try_op (on_store (read_block env part entry))) (\<lambda>r.
        case r of
          Inl status \<Rightarrow>
            let kind = (if code status = Overwritten then Event_overwritten_gap else Event_corrupt_gap);
                event = gap_event kind status
                  ((partition_metadata part)\<lparr>bm_block_sequence := ie_sequence entry\<rparr>)
            in bind_op (report_gap options visitor event) (\<lambda>go_on.
                 if \<not> go_on then return_op False
                 else if kind = Event_overwritten_gap then return_op True
                 else query_entries env all_blocks rng options visitor part entries)
        | Inr (metadata, decoded) \<Rightarrow>
            bind_op (visit visitor \<lparr>be_kind = Event_data, be_metadata = metadata, be_data = decoded,
                be_detail = Ok\<rparr>) (\<lambda>go_on.
              if \<not> go_on then return_op False
              else query_entries env all_blocks rng options visitor part entries)))"

definition query_partition ::
  "'s env \<Rightarrow> bool \<Rightarrow> time_range \<Rightarrow> query_options \<Rightarrow> ('s, 'v) visitor \<Rightarrow> partition_state \<Rightarrow>
   ('s impl \<times> 'v, bool) op" where
  "query_partition env all_blocks rng options visitor part =
     (if \<not> all_blocks \<and> tr_time_domain_id rng \<noteq> 0 \<and>
         po_time_domain_id (ph_options (ps_header part)) \<noteq> tr_time_domain_id rng
      then return_op True
      else bind_op (on_store (acquire_index env part)) (\<lambda>a.
        bind_op (try_op (on_store (read_partition_header env (ph_slot (ps_header part))))) (\<lambda>r.
        case r of
          Inl generation_status \<Rightarrow>
            if code generation_status = Io_error \<or> code generation_status = Interrupted \<or>
               code generation_status = Unsupported
            then error_op generation_status
            else report_gap options visitor
              (gap_event Event_corrupt_gap generation_status (partition_metadata part))
        | Inr current_header \<Rightarrow>
            if ph_generation current_header \<noteq> ph_generation (ps_header part)
            then report_gap options visitor (gap_event Event_overwritten_gap
              (Error Overwritten ''partition changed while acquiring its index'') (partition_metadata part))
            else bind_op (if invalid_prefix part a
                then report_gap options visitor (gap_event Event_corrupt_gap
                  (Error Corrupt (if ps_sealed part then ''sealed partition has invalid data/index prefix''
                    else ''footerless partition changed after catalog snapshot''))
                  (partition_metadata part))
                else return_op True) (\<lambda>go_on.
              if \<not> go_on then return_op False
              else query_entries env all_blocks rng options visitor part (aq_entries a)))))"

fun query_partitions ::
  "'s env \<Rightarrow> bool \<Rightarrow> time_range \<Rightarrow> query_options \<Rightarrow> ('s, 'v) visitor \<Rightarrow> partition_state list \<Rightarrow>
   ('s impl \<times> 'v, bool) op" where
  "query_partitions env all_blocks rng options visitor [] = return_op True"
| "query_partitions env all_blocks rng options visitor (part # parts) =
     bind_op (query_partition env all_blocks rng options visitor part) (\<lambda>go_on.
       if \<not> go_on then return_op False
       else query_partitions env all_blocks rng options visitor parts)"

definition query ::
  "'s env \<Rightarrow> bool \<Rightarrow> time_range \<Rightarrow> query_options \<Rightarrow> ('s, 'v) visitor option \<Rightarrow> ('s impl \<times> 'v, unit) op" where
  "query env all_blocks rng options visitor_option =
     (case visitor_option of
        None \<Rightarrow> error_op (Error Invalid_argument ''empty block visitor'')
      | Some visitor \<Rightarrow>
          if \<not> all_blocks \<and> tr_end_ns rng \<le>s tr_begin_ns rng
          then error_op (Error Invalid_argument ''time range must be non-empty [begin,end)'')
          else if \<not> all_blocks \<and> tr_time_domain_id rng = 0
          then error_op (Error Invalid_argument ''time domain zero requires scan_blocks()'')
          else bind_op get_op (\<lambda>(s, v).
            let snapshot = sort_key (\<lambda>p. ph_generation (ps_header p)) (partitions s) in
            bind_op (report_corrupt_slots options visitor (corrupt_slots s)) (\<lambda>go_on.
              if \<not> go_on then return_op ()
              else bind_op (query_partitions env all_blocks rng options visitor snapshot)
                (\<lambda>_. return_op ()))))"

definition query_blocks ::
  "'s env \<Rightarrow> time_range \<Rightarrow> query_options \<Rightarrow> ('s, 'v) visitor option \<Rightarrow> ('s impl \<times> 'v, unit) op" where
  "query_blocks env rng options visitor = query env False rng options visitor"

definition scan_blocks ::
  "'s env \<Rightarrow> query_options \<Rightarrow> ('s, 'v) visitor option \<Rightarrow> ('s impl \<times> 'v, unit) op" where
  "scan_blocks env options visitor =
     query env True \<lparr>tr_begin_ns = 0, tr_end_ns = 0, tr_time_domain_id = 1\<rparr> options visitor"

end
