(* ===== verification/Ring_Open.thy ===== *)
theory Ring_Open
  imports Ring_Query
begin

text \<open>
  \<open>RingStore::format\<close> and \<open>RingStore::open\<close> (src/ring_store.cpp): laying out a volume, choosing
  between the two copies of its header, and rebuilding the catalog of partitions from the media.
  The random source is the operating system's \<open>getrandom\<close>, an argument: what its \<open>n\<close>th call returns
  for a requested length. Identifiers are read from the random bytes in little-endian order.
\<close>

section \<open>Random identifiers\<close>

datatype getrandom_result = Random_error bool string | Random_bytes bytes

type_synonym getrandom = "nat \<Rightarrow> nat \<Rightarrow> getrandom_result"

partial_function (option) random_fill ::
  "getrandom \<Rightarrow> nat \<Rightarrow> bytes \<Rightarrow> nat \<Rightarrow> (status + (bytes \<times> nat)) option" where
  "random_fill getrandom calls ids done =
     (if done \<noteq> 16 then
        (case getrandom calls (16 - done) of
           Random_error interrupted text \<Rightarrow>
             if interrupted then random_fill getrandom (calls + 1) ids done
             else Some (Inl (Error Io_error (''getrandom: '' @ text)))
         | Random_bytes data \<Rightarrow>
             if data = [] then Some (Inl (Error Io_error ''getrandom made no progress''))
             else random_fill getrandom (calls + 1) (blit ids done data) (done + length data))
      else Some (Inr (ids, calls)))"

partial_function (option) random_id_loop ::
  "getrandom \<Rightarrow> nat \<Rightarrow> bytes \<Rightarrow> (status + (u64 \<times> u64)) option" where
  "random_id_loop getrandom calls ids =
     (case random_fill getrandom calls ids 0 of
        None \<Rightarrow> None
      | Some (Inl status) \<Rightarrow> Some (Inl status)
      | Some (Inr (ids, calls)) \<Rightarrow>
          if get64 ids 0 = 0 \<and> get64 ids 8 = 0 then random_id_loop getrandom calls ids
          else Some (Inr (get64 ids 0, get64 ids 8)))"

definition random_nonzero_id :: "getrandom \<Rightarrow> bool \<Rightarrow> (status + (u64 \<times> u64)) option" where
  "random_nonzero_id getrandom null_output =
     (if null_output then Some (Inl (Error Invalid_argument ''null random ID output''))
      else random_id_loop getrandom 0 (replicate 16 0))"

section \<open>Formatting\<close>

definition check_volume_options :: "u64 \<Rightarrow> volume_options \<Rightarrow> status" where
  "check_volume_options sz options =
     (if sz < kVolumePrefixSize \<or> vo_partition_size options = 0 \<or>
         \<not> is_power_of_two (vo_persistence_quantum options) \<or>
         vo_persistence_quantum options > kPartitionHeaderRegionSize \<or>
         vo_max_block_payload options = 0 \<or>
         vo_index_region_size options < kIndexEntryEncodedSize \<or>
         (kVolumePrefixSize :: u64) mod ucast (vo_persistence_quantum options) \<noteq> 0 \<or>
         (kPartitionHeaderRegionSize :: u32) mod vo_persistence_quantum options \<noteq> 0 \<or>
         vo_partition_size options mod ucast (vo_persistence_quantum options) \<noteq> 0 \<or>
         vo_index_region_size options mod vo_persistence_quantum options \<noteq> 0 \<or>
         vo_partition_size options < kPartitionHeaderRegionSize + kPartitionFooterRegionSize +
           ucast (vo_index_region_size options) + ucast (vo_persistence_quantum options)
      then Error Invalid_argument ''invalid volume geometry''
      else let available = sz - kVolumePrefixSize;
               count64 = available div vo_partition_size options in
        if count64 < 2 \<or> count64 > 0xffffffff
        then Error Invalid_argument ''volume needs 2..UINT32_MAX partitions''
        else let (maximum_frame_span, frame_overflow) =
               align_up (kBlockHeaderEncodedSize + ucast (vo_max_block_payload options))
                 (vo_persistence_quantum options) in
          if frame_overflow \<or> maximum_frame_span >
             vo_partition_size options - kPartitionHeaderRegionSize -
             kPartitionFooterRegionSize - ucast (vo_index_region_size options)
          then Error Invalid_argument ''maximum block cannot fit partition''
          else Ok)"

definition new_volume_header :: "u64 \<Rightarrow> volume_options \<Rightarrow> u64 \<Rightarrow> u64 \<Rightarrow> volume_header" where
  "new_volume_header sz options id_high id_low =
     \<lparr>vh_volume_id_high = id_high, vh_volume_id_low = id_low, vh_volume_size = sz,
      vh_partition_size = vo_partition_size options,
      vh_partition_count = ucast ((sz - kVolumePrefixSize) div vo_partition_size options),
      vh_index_region_size = vo_index_region_size options,
      vh_max_block_payload = vo_max_block_payload options,
      vh_persistence_quantum = vo_persistence_quantum options,
      vh_created_time_ns = vo_created_time_ns options\<rparr>"

definition choose_volume_id :: "getrandom \<Rightarrow> volume_options \<Rightarrow> (status + (u64 \<times> u64)) option" where
  "choose_volume_id getrandom options =
     (if vo_volume_id_high options \<noteq> 0 \<or> vo_volume_id_low options \<noteq> 0
      then if \<not> vo_allow_explicit_volume_id_for_testing options
        then Some (Inl (Error Invalid_argument ''explicit volume ID is restricted to tests/golden vectors''))
        else Some (Inr (vo_volume_id_high options, vo_volume_id_low options))
      else random_nonzero_id getrandom False)"

definition format :: "'s storage \<Rightarrow> getrandom \<Rightarrow> volume_options \<Rightarrow> 's \<Rightarrow> (status \<times> 's) option" where
  "format storage getrandom options m =
     (if \<not> storage_writable storage m
      then Some (Error Invalid_argument ''format requires writable storage'', m)
      else let checked = check_volume_options (storage_size storage m) options in
        if \<not> status_ok checked then Some (checked, m)
        else case choose_volume_id getrandom options of
            None \<Rightarrow> None
          | Some (Inl status) \<Rightarrow> Some (status, m)
          | Some (Inr (id_high, id_low)) \<Rightarrow>
              let data = encode_volume_header
                (new_volume_header (storage_size storage m) options id_high id_low) in
              (case write_exact storage 0 (View data) m of
                 None \<Rightarrow> None
               | Some (status, m) \<Rightarrow>
                   if \<not> status_ok status then Some (status, m)
                   else (case write_exact storage kVolumeHeaderCopySize (View data) m of
                       None \<Rightarrow> None
                     | Some (status, m) \<Rightarrow>
                         if \<not> status_ok status then Some (status, m) else Some (flush storage m))))"

section \<open>The volume header\<close>

definition decode_copy :: "status \<Rightarrow> bytes \<Rightarrow> status + volume_header" where
  "decode_copy io data = (if status_ok io then decode_volume_header data False else Inl io)"

definition choose_volume :: "status + volume_header \<Rightarrow> status + volume_header \<Rightarrow> status + volume_header" where
  "choose_volume first second =
     (case (first, second) of
        (Inr first_header, Inr second_header) \<Rightarrow>
          if \<not> same_volume_header first_header second_header
          then Inl (Error Corrupt ''valid volume header copies disagree'')
          else Inr first_header
      | (Inr first_header, Inl _) \<Rightarrow> Inr first_header
      | (Inl _, Inr second_header) \<Rightarrow> Inr second_header
      | (Inl first_status, Inl second_status) \<Rightarrow>
          if code first_status = Unsupported then Inl first_status
          else if code second_status = Unsupported then Inl second_status
          else if code first_status = Io_error \<or> code first_status = Interrupted then Inl first_status
          else if code second_status = Io_error \<or> code second_status = Interrupted then Inl second_status
          else Inl (Error Corrupt ''both volume headers are invalid''))"

definition new_impl :: "'s \<Rightarrow> volume_header \<Rightarrow> open_options \<Rightarrow> u64 \<Rightarrow> u64 \<Rightarrow> 's impl" where
  "new_impl m v options id_high id_low =
     \<lparr>media = m, volume = v, open_options = options, writable = oo_writable options, closed = False,
      faulted = False, fault_status = Ok, partitions = [], active_generation = 0, active_slot = 0,
      writer_id_high = id_high, writer_id_low = id_low, next_options = oo_next_partition options,
      builder = [], builder_records = 0, builder_flags = 0, builder_min_time = 0,
      builder_max_time = 0, have_last_time = False, last_time = 0, dirty = False,
      have_undurable_records = False, oldest_undurable_record = 0, metrics = zero_metrics,
      corrupt_slots = [], health_atomics = new_health, clock_reads = 0\<rparr>"

definition choose_writer_id :: "getrandom \<Rightarrow> open_options \<Rightarrow> (status + (u64 \<times> u64)) option" where
  "choose_writer_id getrandom options =
     (if \<not> oo_writable options then Some (Inr (0, 0))
      else if oo_writer_id_high options \<noteq> 0 \<or> oo_writer_id_low options \<noteq> 0
      then if \<not> oo_allow_explicit_writer_id_for_testing options
        then Some (Inl (Error Invalid_argument ''explicit writer ID is restricted to tests''))
        else Some (Inr (oo_writer_id_high options, oo_writer_id_low options))
      else random_nonzero_id getrandom False)"

section \<open>Rebuilding the catalog\<close>

text \<open>A slot whose header is unreadable: is there evidence that it belongs to this volume?\<close>

definition damaged_slot :: "'s env \<Rightarrow> u32 \<Rightarrow> status \<Rightarrow> ('s impl, unit) op" where
  "damaged_slot env slot header_status = bind_op get_op (\<lambda>s.
     let v = volume s; base = partition_base v slot in
     if code header_status = Io_error \<or> code header_status = Interrupted then error_op header_status
     else bind_op (read_media env base kPartitionHeaderEncodedSize) (\<lambda>raw.
       let zero = list_all (\<lambda>b. b = 0) raw;
           same_magic = (take 8 raw = kPartitionMagic);
           same_id = (get64 raw 16 = vh_volume_id_high v \<and> get64 raw 24 = vh_volume_id_low v);
           evidence = (\<not> zero \<and> same_magic \<and> same_id)
       in bind_op (if \<not> zero \<and> \<not> evidence
           then bind_op (read_media env (base + footer_offset v) kPartitionFooterEncodedSize) (\<lambda>footer_bytes.
             bind_op (read_media env (base + kPartitionHeaderRegionSize) kBlockHeaderEncodedSize) (\<lambda>block_bytes.
             return_op
               ((case decode_partition_footer footer_bytes False of
                   Inl _ \<Rightarrow> False
                 | Inr footer \<Rightarrow> pf_slot footer = slot \<and>
                     pf_volume_id_high footer = vh_volume_id_high v \<and>
                     pf_volume_id_low footer = vh_volume_id_low v) \<or>
                (case decode_block_header block_bytes False of
                   Inl _ \<Rightarrow> False
                 | Inr block \<Rightarrow> bh_slot block = slot \<and>
                     bh_volume_id_high block = vh_volume_id_high v \<and>
                     bh_volume_id_low block = vh_volume_id_low v))))
           else return_op evidence) (\<lambda>current_volume_evidence.
         if current_volume_evidence
         then if code header_status = Unsupported then error_op header_status
           else if oo_verify_payloads_on_open (open_options s) then error_op header_status
           else modify_op (\<lambda>s. s\<lparr>corrupt_slots := corrupt_slots s @ [slot]\<rparr>)
         else return_op ())))"

fun verify_blocks :: "'s env \<Rightarrow> partition_state \<Rightarrow> index_entry list \<Rightarrow> ('s impl, unit) op" where
  "verify_blocks env state [] = return_op ()"
| "verify_blocks env state (entry # entries) =
     bind_op (read_block env state entry) (\<lambda>_. verify_blocks env state entries)"

text \<open>Flags and time bounds of a list of entries, as the footer must state them.\<close>

definition scan_summary :: "index_entry list \<Rightarrow> u32 \<times> i64 \<times> i64" where
  "scan_summary scanned =
     (case scanned of
        [] \<Rightarrow> (0, 0, 0)
      | front # _ \<Rightarrow>
          fold (\<lambda>entry (flags, mn, mx). (or flags (ie_flags entry), smin mn (ie_min_time_ns entry),
              smax mx (ie_max_time_ns entry)))
            scanned (0, ie_min_time_ns front, ie_max_time_ns front))"

definition verify_sealed :: "'s env \<Rightarrow> partition_state \<Rightarrow> ('s impl, unit) op" where
  "verify_sealed env state =
     bind_op (load_index env state) (\<lambda>indexed.
     bind_op (scan_partition env (ps_header state) (pf_data_end (ps_footer state))) (\<lambda>(scanned, scanned_end, corrupt_tail).
     if scanned_end \<noteq> pf_data_end (ps_footer state) \<or> length scanned \<noteq> length indexed
     then error_op (Error Corrupt ''strict sealed-partition verification failed'')
     else if \<not> list_all2 same_index_entry scanned indexed
     then error_op (Error Corrupt ''sealed index disagrees with block scan'')
     else if scan_summary scanned \<noteq>
       (pf_flags (ps_footer state), pf_min_time_ns (ps_footer state), pf_max_time_ns (ps_footer state))
     then error_op (Error Corrupt ''footer summary disagrees with block scan'')
     else verify_blocks env state indexed))"

definition sealed_state :: "partition_header \<Rightarrow> partition_footer \<Rightarrow> partition_state" where
  "sealed_state header footer =
     (new_partition_state header)\<lparr>ps_sealed := True, ps_footer := footer,
        ps_data_end := pf_data_end footer, ps_aggregate_flags := pf_flags footer,
        ps_block_count := pf_block_count footer, ps_has_time := (pf_block_count footer \<noteq> 0),
        ps_min_time_ns := pf_min_time_ns footer, ps_max_time_ns := pf_max_time_ns footer\<rparr>"

definition recover_partition :: "'s env \<Rightarrow> partition_header \<Rightarrow> ('s impl, partition_state) op" where
  "recover_partition env header = bind_op get_op (\<lambda>s.
     let strict = oo_verify_payloads_on_open (open_options s) in
     bind_op (try_op (read_footer env header)) (\<lambda>r.
       case r of
         Inr footer \<Rightarrow>
           let state = sealed_state header footer in
           bind_op (if strict then verify_sealed env state else return_op ()) (\<lambda>_. return_op state)
       | Inl footer_status \<Rightarrow>
           if code footer_status = Io_error \<or> code footer_status = Interrupted \<or>
              code footer_status = Unsupported
           then error_op footer_status
           else bind_op (scan_partition env header 0) (\<lambda>(entries, data_end, corrupt_tail).
             let state = summarize ((new_partition_state header)
                   \<lparr>ps_active_index := entries, ps_data_end := data_end\<rparr>) in
             bind_op (if strict then verify_blocks env state entries else return_op ()) (\<lambda>_.
               return_op state))))"

text \<open>Only the newest footerless partition keeps its index in memory.\<close>

definition drop_old_indexes :: "partition_state list \<Rightarrow> partition_state list" where
  "drop_old_indexes parts =
     (let newest_seen = fold (\<lambda>p n. max n (ph_generation (ps_header p))) parts 0 in
      map (\<lambda>p. if \<not> ps_sealed p \<and> ph_generation (ps_header p) \<noteq> newest_seen
               then p\<lparr>ps_active_index := []\<rparr> else p) parts)"

definition recover_slot :: "'s env \<Rightarrow> u32 \<Rightarrow> u64 set \<Rightarrow> ('s impl, u64 set) op" where
  "recover_slot env slot generations =
     bind_op (try_op (read_partition_header env slot)) (\<lambda>r.
       case r of
         Inl header_status \<Rightarrow>
           bind_op (damaged_slot env slot header_status) (\<lambda>_. return_op generations)
       | Inr header \<Rightarrow>
           if ph_generation header = 0
           then error_op (Error Corrupt ''partition generation zero is reserved'')
           else if ph_generation header \<in> generations
           then error_op (Error Corrupt ''duplicate partition generation'')
           else bind_op (recover_partition env header) (\<lambda>state.
             bind_op (modify_op (\<lambda>s. s\<lparr>partitions := drop_old_indexes (partitions s @ [state])\<rparr>)) (\<lambda>_.
             return_op (insert (ph_generation header) generations))))"

fun recover_slots :: "'s env \<Rightarrow> u32 list \<Rightarrow> u64 set \<Rightarrow> ('s impl, unit) op" where
  "recover_slots env [] generations = return_op ()"
| "recover_slots env (slot # slots) generations =
     bind_op (recover_slot env slot generations) (recover_slots env slots)"

definition slots_of :: "volume_header \<Rightarrow> u32 list" where
  "slots_of v = map of_nat [0..<unat (vh_partition_count v)]"

text \<open>After the loop: order by generation, forget the indexes of all but the newest, and point at it.\<close>

definition settle_catalog :: "'s impl \<Rightarrow> 's impl" where
  "settle_catalog s =
     (let parts = sort_key (\<lambda>p. ph_generation (ps_header p)) (partitions s);
          parts = map (\<lambda>p. if \<not> ps_sealed p then p\<lparr>ps_active_index := []\<rparr> else p) (butlast parts) @
                  (if parts = [] then [] else [last parts])
      in if parts = [] then s\<lparr>partitions := []\<rparr>
         else s\<lparr>partitions := parts,
                active_generation := ph_generation (ps_header (last parts)),
                active_slot := ph_slot (ps_header (last parts))\<rparr>)"

definition start_writing :: "'s env \<Rightarrow> ('s impl, unit) op" where
  "start_writing env = bind_op get_op (\<lambda>s.
     if corrupt_slots s \<noteq> []
     then error_op (Error Corrupt ''writable open refuses ambiguous damaged partition headers'')
     else if partitions s = [] then create_partition env 0 1 (oo_next_partition (open_options s))
     else let newest = last (partitions s) in
       if ps_sealed newest
       then if ph_generation (ps_header newest) = - 1
         then error_op (Error Generation_exhausted ''partition generation exhausted'')
         else create_partition env
           ((ph_slot (ps_header newest) + 1) mod vh_partition_count (volume s))
           (ph_generation (ps_header newest) + 1) (oo_next_partition (open_options s))
       else return_op ())"

definition recover_store :: "'s env \<Rightarrow> ('s impl, unit) op" where
  "recover_store env = bind_op get_op (\<lambda>s.
     bind_op (if writable s
         then status_op (validate_partition_options (open_options s) (oo_next_partition (open_options s)))
         else return_op ()) (\<lambda>_.
     bind_op (recover_slots env (slots_of (volume s)) {}) (\<lambda>_.
     bind_op (modify_op settle_catalog) (\<lambda>_.
     if writable s then start_writing env else return_op ()))))"

definition open_store ::
  "'s env \<Rightarrow> getrandom \<Rightarrow> open_options \<Rightarrow> bool \<Rightarrow> 's \<Rightarrow> ((status + 's impl) \<times> 's) option" where
  "open_store env getrandom options null_output m =
     (let storage = env_storage env in
      if null_output then Some (Inl (Error Invalid_argument ''null storage/output''), m)
      else if oo_writable options \<and> \<not> storage_writable storage m
      then Some (Inl (Error Invalid_argument ''writable open on read-only backend''), m)
      else case read_exact storage 0 (View (replicate kVolumeHeaderEncodedSize 0)) m of
          None \<Rightarrow> None
        | Some (first_io, first, m) \<Rightarrow>
            (case read_exact storage kVolumeHeaderCopySize (View (replicate kVolumeHeaderEncodedSize 0)) m of
               None \<Rightarrow> None
             | Some (second_io, second, m) \<Rightarrow>
                 if \<not> status_ok first_io \<and> \<not> status_ok second_io then Some (Inl first_io, m)
                 else (case choose_volume (decode_copy first_io first) (decode_copy second_io second) of
                     Inl status \<Rightarrow> Some (Inl status, m)
                   | Inr v \<Rightarrow>
                       let geometry = validate_volume_geometry v (storage_size storage m) in
                       if \<not> status_ok geometry then Some (Inl geometry, m)
                       else (case choose_writer_id getrandom options of
                           None \<Rightarrow> None
                         | Some (Inl status) \<Rightarrow> Some (Inl status, m)
                         | Some (Inr (id_high, id_low)) \<Rightarrow>
                             (case recover_store env (new_impl m v options id_high id_low) of
                                None \<Rightarrow> None
                              | Some (Inl status, s) \<Rightarrow> Some (Inl status, media s)
                              | Some (Inr _, s) \<Rightarrow> Some (Inr s, media s))))))"

end
