(* ===== verification/Ring_Geometry.thy ===== *)
theory Ring_Geometry
  imports Ring_Open
begin

text \<open>
  Pure facts about the ring store's helpers: time comparisons without overflow, and that a volume
  \<open>format\<close> lays out is one \<open>open\<close> accepts.
\<close>

section \<open>Times\<close>

lemma i64_bounds: "- (2 ^ 63) \<le> sint (t :: i64)" "sint (t :: i64) < 2 ^ 63"
  using sint_range_size [of t] by (simp_all add: word_size)

lemma uint_diff_signed:
  assumes "sint e \<le> sint (l :: i64)"
  shows "uint (l - e) = sint l - sint e"
proof -
  have "uint (l - e) = (sint l - sint e) mod 2 ^ 64"
    by (simp add: uint_word_ariths(2) sint_uint signed_take_bit_eq_take_bit_shift take_bit_eq_mod mod_simps)
  then show ?thesis using assms i64_bounds [of l] i64_bounds [of e] by simp
qed

lemma delta_exceeds_sint:
  "delta_exceeds earlier later allowed \<longleftrightarrow>
     0 \<le> sint allowed \<and> (sint later < sint earlier \<or> sint allowed < sint later - sint earlier)"
proof -
  have "uint allowed = sint allowed" if "0 \<le> sint allowed"
    using uint_diff_signed [of 0 allowed] that by simp
  then show ?thesis
    using uint_diff_signed [of earlier later] i64_bounds [of allowed]
    by (auto simp: delta_exceeds_def Let_def word_sless_alt word_less_def not_less)
qed

lemma ranges_intersect_sint:
  assumes "sint mn \<le> sint mx" "sint (tr_begin_ns r) < sint (tr_end_ns r)"
  shows "ranges_intersect mn mx r \<longleftrightarrow>
    (\<exists>t :: i64. sint mn \<le> sint t \<and> sint t \<le> sint mx \<and> sint (tr_begin_ns r) \<le> sint t \<and> sint t < sint (tr_end_ns r))"
proof
  assume "ranges_intersect mn mx r"
  then have "sint mn < sint (tr_end_ns r)" "sint (tr_begin_ns r) \<le> sint mx"
    by (simp_all add: ranges_intersect_def word_sless_alt word_sle_eq)
  then show "\<exists>t :: i64. sint mn \<le> sint t \<and> sint t \<le> sint mx \<and> sint (tr_begin_ns r) \<le> sint t \<and> sint t < sint (tr_end_ns r)"
    using assms by (cases "sint mn \<le> sint (tr_begin_ns r)") (fastforce intro: exI [of _ "tr_begin_ns r"] exI [of _ mn])+
qed (auto simp: ranges_intersect_def word_sless_alt word_sle_eq)

section \<open>Geometry\<close>

lemma ucast_div_u64:
  "(count :: u64) \<le> 0xffffffff \<Longrightarrow> (ucast (ucast count :: u32) :: u64) = count"
proof -
  assume "count \<le> 0xffffffff"
  then have "unat count \<le> 4294967295" by (simp add: word_le_nat_alt)
  then have "unat (ucast count :: u32) = unat count"
    by (simp add: unsigned_ucast_eq take_bit_nat_eq_self_iff)
  then show ?thesis by (simp only: word_unat_eq_iff unat_ucast_u32_u64)
qed

lemma fixed_size_no_wrap:
  "unat (4096 + 4096 + ucast (i :: u32) :: u64) = 8192 + unat i"
  "unat (4096 + 4096 + ucast (i :: u32) + ucast (q :: u32) :: u64) = 8192 + unat i + unat q"
  using unat_u32_less [of i] unat_u32_less [of q] by (simp_all add: unat_word_ariths)

lemma new_volume_header_simps [simp]:
  "vh_volume_id_high (new_volume_header sz options hi lo) = hi"
  "vh_volume_id_low (new_volume_header sz options hi lo) = lo"
  "vh_volume_size (new_volume_header sz options hi lo) = sz"
  "vh_partition_size (new_volume_header sz options hi lo) = vo_partition_size options"
  "vh_partition_count (new_volume_header sz options hi lo) = ucast ((sz - 8192) div vo_partition_size options)"
  "vh_index_region_size (new_volume_header sz options hi lo) = vo_index_region_size options"
  "vh_max_block_payload (new_volume_header sz options hi lo) = vo_max_block_payload options"
  "vh_persistence_quantum (new_volume_header sz options hi lo) = vo_persistence_quantum options"
  by (simp_all add: new_volume_header_def)

lemma format_geometry_valid:
  assumes "status_ok (check_volume_options sz options)" "hi \<noteq> 0 \<or> lo \<noteq> 0"
  shows "validate_volume_geometry (new_volume_header sz options hi lo) sz = Ok"
proof -
  let ?p = "vo_partition_size options" and ?i = "vo_index_region_size options"
    and ?q = "vo_persistence_quantum options"
  define count where "count = (sz - 8192) div ?p"
  define fixed where "fixed = (4096 + 4096 + ucast ?i :: u64)"
  obtain span where span: "align_up (128 + ucast (vo_max_block_payload options)) ?q = (span, False)"
    "span \<le> ?p - 4096 - 4096 - ucast ?i"
    using assms(1) by (auto simp: check_volume_options_def Let_def not_less split: if_splits prod.splits)
  have c: "\<not> sz < 8192" "?p \<noteq> 0" "is_power_of_two ?q" "\<not> ?q > 4096" "vo_max_block_payload options \<noteq> 0"
    "\<not> ?i < 48" "(8192 :: u64) mod ucast ?q = 0" "(4096 :: u32) mod ?q = 0" "?p mod ucast ?q = 0"
    "?i mod ?q = 0" "\<not> ?p < fixed + ucast ?q" "2 \<le> count" "count \<le> 0xffffffff"
    using assms(1) unfolding fixed_def count_def
    by (auto simp: check_volume_options_def Let_def not_less split: if_splits)
  have q: "0 < unat ?q" using c(3) by (simp add: is_power_of_two_def unat_gt_0)
  have room: "unat fixed + unat ?q \<le> unat ?p"
    using c(11) fixed_size_no_wrap(1) [of ?i] fixed_size_no_wrap(2) [of ?i ?q] by (simp add: fixed_def word_less_nat_alt)
  have sub: "unat (?p - fixed) = unat ?p - unat fixed"
    using room by (simp add: unat_sub word_le_nat_alt)
  have "?p - 4096 - 4096 - ucast ?i = ?p - fixed" by (simp add: fixed_def)
  with span(2) have span': "span \<le> ?p - fixed" by (simp only:)
  have g1: "\<not> fixed \<ge> ?p" "\<not> ?p - fixed < ucast ?q"
    using room q sub by (simp_all add: word_le_nat_alt word_less_nat_alt)
  have g2: "(ucast (ucast count :: u32) :: u64) = count" by (rule ucast_div_u64 [OF c(13)])
  have g3: "\<not> (ucast count :: u32) < 2"
    using c(12) arg_cong [OF g2, of unat] unat_ucast_u32_u64 [of "ucast count"]
    by (simp add: word_less_nat_alt word_le_nat_alt del: unat_ucast_u32_u64)
  show ?thesis
    unfolding validate_volume_geometry_def Let_def new_volume_header_simps fixed_def [symmetric]
      count_def [symmetric] span(1) prod.case g2
    using assms(2) c(1-10) span' g1 g3 by (auto simp: not_less)
qed

end
