(* ===== verification/Op_Wp.thy ===== *)
theory Op_Wp
  imports Ring_Types
begin

text \<open>
  Weakest preconditions for the monad of store operations. \<open>wp m Q E s\<close> says: if \<open>m\<close> returns from
  \<open>s\<close>, a value satisfies \<open>Q\<close> and an error \<open>E\<close>, together with the state after it. The rules below
  compute \<open>wp\<close> through the constructs of the monad; the facts about media access hold for every
  backend, however it fails.
\<close>

named_theorems wp_rules \<open>introduction rules for weakest preconditions\<close>

definition wp :: "('x, 'a) op \<Rightarrow> ('a \<Rightarrow> 'x \<Rightarrow> bool) \<Rightarrow> (status \<Rightarrow> 'x \<Rightarrow> bool) \<Rightarrow> 'x \<Rightarrow> bool" where
  "wp m Q E s =
     (case m s of
        None \<Rightarrow> True
      | Some (Inl e, s') \<Rightarrow> E e s'
      | Some (Inr a, s') \<Rightarrow> Q a s')"

lemma wp_return [simp]: "wp (return_op a) Q E s = Q a s"
  by (simp add: wp_def op_defs split: option.split sum.split)

lemma wp_error [simp]: "wp (error_op e) Q E s = E e s"
  by (simp add: wp_def op_defs split: option.split sum.split)

lemma wp_get [simp]: "wp get_op Q E s = Q s s"
  by (simp add: wp_def op_defs split: option.split sum.split)

lemma wp_modify [simp]: "wp (modify_op f) Q E s = Q () (f s)"
  by (simp add: wp_def op_defs split: option.split sum.split)

lemma wp_bind [simp]: "wp (bind_op m f) Q E s = wp m (\<lambda>a. wp (f a) Q E) E s"
  by (simp add: wp_def op_defs split: option.split sum.split)

lemma wp_catch [simp]: "wp (catch_op m h) Q E s = wp m Q (\<lambda>e. wp (h e) Q E) s"
  by (simp add: wp_def op_defs split: option.split sum.split)

lemma wp_try [simp]: "wp (try_op m) Q E s = wp m (\<lambda>a. Q (Inr a)) (\<lambda>e. Q (Inl e)) s"
  by (simp add: wp_def op_defs split: option.split sum.split)

lemma wp_status [simp]: "wp (status_op r) Q E s = (if status_ok r then Q () s else E r s)"
  by (simp add: wp_def op_defs split: option.split sum.split)

lemma wp_if [simp]: "wp (if b then m else n) Q E s = (if b then wp m Q E s else wp n Q E s)"
  by simp

lemma wp_let [simp]: "wp (Let x f) Q E s = wp (f x) Q E s"
  by (simp add: Let_def)

lemma wp_mono:
  assumes "wp m Q E s" "\<And>a s'. Q a s' \<Longrightarrow> Q' a s'" "\<And>e s'. E e s' \<Longrightarrow> E' e s'"
  shows "wp m Q' E' s"
  using assms by (auto simp: wp_def split: option.splits sum.splits)

lemma wp_conj:
  "wp m (\<lambda>a s'. Q a s' \<and> Q' a s') (\<lambda>e s'. E e s' \<and> E' e s') s \<longleftrightarrow> wp m Q E s \<and> wp m Q' E' s"
  by (auto simp: wp_def split: option.splits sum.splits)

lemma wpD:
  "wp m Q E s \<Longrightarrow> m s = Some (Inr a, s') \<Longrightarrow> Q a s'"
  "wp m Q E s \<Longrightarrow> m s = Some (Inl e, s') \<Longrightarrow> E e s'"
  by (simp_all add: wp_def)

lemma wpI:
  "(\<And>a s'. m s = Some (Inr a, s') \<Longrightarrow> Q a s') \<Longrightarrow> (\<And>e s'. m s = Some (Inl e, s') \<Longrightarrow> E e s') \<Longrightarrow> wp m Q E s"
  by (auto simp: wp_def split: option.splits sum.splits)


lemma wp_write_media [wp_rules]:
  "(\<And>m. Q () (s\<lparr>media := m\<rparr>)) \<Longrightarrow> (\<And>m e. \<not> status_ok e \<Longrightarrow> E e (s\<lparr>media := m\<rparr>)) \<Longrightarrow>
   wp (write_media env off data) Q E s"
  by (auto simp: wp_def write_media_def split: option.splits)

lemma wp_read_media [wp_rules]:
  "(\<And>m data. Q data (s\<lparr>media := m\<rparr>)) \<Longrightarrow> (\<And>m e. \<not> status_ok e \<Longrightarrow> E e (s\<lparr>media := m\<rparr>)) \<Longrightarrow>
   wp (read_media env off n) Q E s"
  by (auto simp: wp_def read_media_def split: option.splits)

definition fault :: "status \<Rightarrow> 's impl \<Rightarrow> 's impl" where
  "fault e s = s\<lparr>faulted := True, fault_status := e,
     health_atomics := (health_atomics s)\<lparr>hm_fault_code := code e, hm_faulted := True\<rparr>\<rparr>"

lemma wp_fail [simp]: "wp (fail e) Q E s = E e (if status_ok e then s else fault e s)"
  by (simp add: wp_def fail_def fault_def)

end
