(* ===== verification/Ring_Invariant.thy ===== *)
theory Ring_Invariant
  imports Ring_Geometry Op_Wp
begin

text \<open>
  The invariant of a store in memory (\<open>RingStore::Impl\<close> of src/ring_store.cpp), and that flushing,
  sealing, creating a partition and rotating keep it. It holds for every backend, however it fails:
  the facts here are about what the store believes, not about what the media holds.
\<close>

section \<open>The invariant\<close>

definition mirror_ok :: "'s impl \<Rightarrow> bool" where
  "mirror_ok s \<longleftrightarrow> (let h = health_atomics s; m = metrics s in
     hm_closed h = closed s \<and> hm_faulted h = faulted s \<and>
     (faulted s \<longrightarrow> hm_fault_code h = code (fault_status s) \<and> \<not> status_ok (fault_status s)) \<and>
     hm_have_undurable h = have_undurable_records s \<and>
     hm_last_sync_ns h = sm_last_sync_duration_ns m \<and> hm_max_sync_ns h = sm_max_sync_duration_ns m \<and>
     hm_sync_calls h = sm_sync_calls m \<and> hm_sync_errors h = sm_sync_errors m \<and>
     hm_checkpoints h = sm_checkpoints m)"

definition accounting_ok :: "'s impl \<Rightarrow> bool" where
  "accounting_ok s \<longleftrightarrow> (builder s = [] \<and> \<not> dirty s \<longrightarrow>
     sm_durable_records (metrics s) = sm_accepted_records (metrics s) \<and>
     sm_durable_blocks (metrics s) = sm_published_blocks (metrics s) \<and> \<not> have_undurable_records s)"

definition headers :: "'s impl \<Rightarrow> partition_header list" where
  "headers s = map ps_header (partitions s)"

text \<open>What identifies the contents of the catalog: the headers and how far their data reaches.\<close>

definition keys :: "'s impl \<Rightarrow> (partition_header \<times> u64) list" where
  "keys s = map (\<lambda>p. (ps_header p, ps_data_end p)) (partitions s)"

lemma headers_keys: "headers s = map fst (keys s)"
  by (simp add: headers_def keys_def)

text \<open>Generations are positive and increase strictly; slots are distinct and within the volume.\<close>

definition catalog_sorted :: "volume_header \<Rightarrow> partition_header list \<Rightarrow> bool" where
  "catalog_sorted v hs \<longleftrightarrow>
     sorted_wrt (\<lambda>h k. ph_generation h < ph_generation k) hs \<and>
     distinct (map ph_slot hs) \<and>
     (\<forall>h \<in> set hs. 0 < ph_generation h \<and> ph_slot h < vh_partition_count v)"

text \<open>The newest partition is the active one.\<close>

definition catalog_ok :: "'s impl \<Rightarrow> bool" where
  "catalog_ok s \<longleftrightarrow> catalog_sorted (volume s) (headers s) \<and> partitions s \<noteq> [] \<and> is_active s (last (partitions s))"

definition geometry_ok :: "volume_header \<Rightarrow> bool" where
  "geometry_ok v \<longleftrightarrow> (\<exists>sz. status_ok (validate_volume_geometry v sz))"

text \<open>A block of the maximal size still fits: its frame and its index entry.\<close>

definition room :: "volume_header \<Rightarrow> partition_state \<Rightarrow> bool" where
  "room v p \<longleftrightarrow>
     ps_data_end p \<le> index_begin v \<and>
     (let (span, overflow) = align_up (128 + ucast (vh_max_block_payload v)) (vh_persistence_quantum v) in
       \<not> overflow \<and> span \<le> index_begin v - ps_data_end p) \<and>
     length (ps_active_index p) + 1 \<le> unat (vh_index_region_size v div 48)"

definition options_ok :: "'s impl \<Rightarrow> partition_options \<Rightarrow> bool" where
  "options_ok s options \<longleftrightarrow> status_ok (validate_partition_options (open_options s) options)"

text \<open>The block under construction; every record has a byte, so the record count cannot wrap.\<close>

definition builder_ok :: "'s impl \<Rightarrow> bool" where
  "builder_ok s \<longleftrightarrow>
     length (builder s) \<le> unat (vh_max_block_payload (volume s)) \<and>
     unat (builder_records s) \<le> length (builder s) \<and>
     (builder s \<noteq> [] \<longrightarrow> builder_records s \<noteq> 0 \<and> builder_min_time s \<le>s builder_max_time s)"

text \<open>What holds of a store before it has an active partition, and of every store with one.\<close>

definition core_inv :: "'s impl \<Rightarrow> bool" where
  "core_inv s \<longleftrightarrow> mirror_ok s \<and> accounting_ok s \<and> catalog_sorted (volume s) (headers s) \<and>
     geometry_ok (volume s) \<and> builder_ok s \<and> options_ok s (next_options s)"

definition base_inv :: "'s impl \<Rightarrow> bool" where
  "base_inv s \<longleftrightarrow> core_inv s \<and> catalog_ok s \<and> options_ok s (ph_options (ps_header (last (partitions s))))"

text \<open>
  A writer that has not failed: the active partition is open, its index is one \<open>load_index\<close>
  accepts as far as the index region and 32-bit frame sizes allow, its summary is that of its index, and a builder that holds records has room reserved.
\<close>

definition index_ok :: "volume_header \<Rightarrow> partition_state \<Rightarrow> bool" where
  "index_ok v p \<longleftrightarrow>
     (unat (vh_max_block_payload v) + 128 < 2 ^ 32 \<and>
      length (ps_active_index p) \<le> unat (vh_index_region_size v div 48) \<longrightarrow>
        check_index v 0 4096 (ps_active_index p) = Inr (ps_data_end p)) \<and>
     4096 \<le> ps_data_end p \<and> ps_data_end p \<le> index_begin v \<and>
     ps_data_end p mod ucast (vh_persistence_quantum v) = 0 \<and>
     summarize p = p"

definition store_inv :: "'s impl \<Rightarrow> bool" where
  "store_inv s \<longleftrightarrow> base_inv s \<and> (\<not> faulted s \<longrightarrow>
     \<not> ps_sealed (last (partitions s)) \<and> index_ok (volume s) (last (partitions s)) \<and>
     (builder s \<noteq> [] \<longrightarrow> room (volume s) (last (partitions s))))"

section \<open>The active partition\<close>

lemma catalog_butlast:
  assumes "catalog_ok s" "x \<in> set (butlast (partitions s))"
  shows "ph_generation (ps_header x) < ph_generation (ps_header (last (partitions s)))"
proof -
  have "partitions s = butlast (partitions s) @ [last (partitions s)]"
    using assms(1) by (simp add: catalog_ok_def)
  then have "headers s = map ps_header (butlast (partitions s)) @ [ps_header (last (partitions s))]"
    by (metis headers_def list.simps(8,9) map_append)
  then show ?thesis using assms by (auto simp: catalog_ok_def catalog_sorted_def sorted_wrt_append)
qed

lemma catalog_not_active: "catalog_ok s \<Longrightarrow> x \<in> set (butlast (partitions s)) \<Longrightarrow> \<not> is_active s x"
  using catalog_butlast [of s x] by (auto simp: catalog_ok_def is_active_def)

lemma find_last: "xs \<noteq> [] \<Longrightarrow> P (last xs) \<Longrightarrow> \<forall>x \<in> set (butlast xs). \<not> P x \<Longrightarrow> find P xs = Some (last xs)"
  by (induction xs) auto

lemma catalog_active: "catalog_ok s \<Longrightarrow> active s = Some (last (partitions s))"
  unfolding active_def by (rule find_last) (auto simp: catalog_not_active, simp_all add: catalog_ok_def)

lemma update_first_last:
  assumes "xs \<noteq> []" "P (last xs)" "\<forall>x \<in> set (butlast xs). \<not> P x"
  shows "update_first P f xs = butlast xs @ [f (last xs)]"
  using assms by (induction xs) auto

lemma catalog_update_active:
  assumes "catalog_ok s"
  shows "partitions (update_active f s) = butlast (partitions s) @ [f (last (partitions s))]"
  using assms catalog_not_active [OF assms]
  by (simp add: update_active_def update_first_last catalog_ok_def)

lemma update_active_simps [simp]:
  "media (update_active f s) = media s" "volume (update_active f s) = volume s"
  "builder (update_active f s) = builder s" "metrics (update_active f s) = metrics s"
  "dirty (update_active f s) = dirty s" "open_options (update_active f s) = open_options s"
  "next_options (update_active f s) = next_options s" "faulted (update_active f s) = faulted s"
  "closed (update_active f s) = closed s" "fault_status (update_active f s) = fault_status s"
  "health_atomics (update_active f s) = health_atomics s"
  "have_undurable_records (update_active f s) = have_undurable_records s"
  "active_generation (update_active f s) = active_generation s"
  "active_slot (update_active f s) = active_slot s" "builder_records (update_active f s) = builder_records s"
  "builder_min_time (update_active f s) = builder_min_time s"
  "builder_max_time (update_active f s) = builder_max_time s"
  "writable (update_active f s) = writable s"
  by (simp_all add: update_active_def)

lemma headers_update_active:
  assumes "catalog_ok s" "\<And>p. ps_header (f p) = ps_header p"
  shows "headers (update_active f s) = headers s"
proof -
  have "partitions s = butlast (partitions s) @ [last (partitions s)]"
    using assms(1) by (simp add: catalog_ok_def)
  then have "headers s = map ps_header (butlast (partitions s)) @ [ps_header (last (partitions s))]"
    by (metis headers_def list.simps(8,9) map_append)
  then show ?thesis using assms by (simp add: headers_def catalog_update_active)
qed

lemma keys_update_active:
  assumes "catalog_ok s" "\<And>p. ps_header (f p) = ps_header p" "\<And>p. ps_data_end (f p) = ps_data_end p"
  shows "keys (update_active f s) = keys s"
proof -
  have "partitions s = butlast (partitions s) @ [last (partitions s)]"
    using assms(1) by (simp add: catalog_ok_def)
  then have "keys s = map (\<lambda>p. (ps_header p, ps_data_end p)) (butlast (partitions s)) @
      [(ps_header (last (partitions s)), ps_data_end (last (partitions s)))]"
    by (metis (no_types, lifting) keys_def list.simps(8,9) map_append)
  then show ?thesis using assms by (simp add: keys_def catalog_update_active)
qed

lemma catalog_ok_update_active:
  assumes "catalog_ok s" "\<And>p. ps_header (f p) = ps_header p"
  shows "catalog_ok (update_active f s)"
  using assms headers_update_active [OF assms]
  by (simp add: catalog_ok_def catalog_sorted_def catalog_update_active [OF assms(1)] is_active_def)

section \<open>Flushing keeps the invariant\<close>

text \<open>What flushing and media access leave alone.\<close>

definition same_catalog :: "'s impl \<Rightarrow> 's impl \<Rightarrow> bool" where
  "same_catalog s s' \<longleftrightarrow> partitions s' = partitions s \<and> active_generation s' = active_generation s \<and>
     active_slot s' = active_slot s \<and> builder s' = builder s \<and> volume s' = volume s \<and>
     open_options s' = open_options s \<and> next_options s' = next_options s \<and> writable s' = writable s \<and>
     closed s' = closed s \<and> writer_id_high s' = writer_id_high s \<and> writer_id_low s' = writer_id_low s \<and>
     builder_records s' = builder_records s \<and> builder_flags s' = builder_flags s \<and>
     builder_min_time s' = builder_min_time s \<and> builder_max_time s' = builder_max_time s"

lemma same_catalog_refl [simp]: "same_catalog s s"
  by (simp add: same_catalog_def)

lemma same_catalog_trans: "same_catalog s s' \<Longrightarrow> same_catalog s' s'' \<Longrightarrow> same_catalog s s''"
  by (simp add: same_catalog_def)

lemma same_catalog_media [simp]:
  "same_catalog s (s'\<lparr>media := m\<rparr>) = same_catalog s s'" "same_catalog (s\<lparr>media := m\<rparr>) s' = same_catalog s s'"
  by (simp_all add: same_catalog_def)

lemma mirror_media [simp]: "mirror_ok (s\<lparr>media := m\<rparr>) = mirror_ok s" "accounting_ok (s\<lparr>media := m\<rparr>) = accounting_ok s"
  by (simp_all add: mirror_ok_def accounting_ok_def)

lemma inv_same_catalog:
  assumes "same_catalog s s'" "mirror_ok s'" "accounting_ok s'"
  shows "core_inv s \<Longrightarrow> core_inv s'" "base_inv s \<Longrightarrow> base_inv s'"
  using assms by (simp_all add: core_inv_def base_inv_def same_catalog_def options_ok_def headers_def
      builder_ok_def catalog_ok_def is_active_def)

lemma inv_media [simp]: "core_inv (s\<lparr>media := m\<rparr>) = core_inv s" "base_inv (s\<lparr>media := m\<rparr>) = base_inv s"
  by (simp_all add: core_inv_def base_inv_def mirror_ok_def accounting_ok_def catalog_ok_def headers_def
      is_active_def options_ok_def builder_ok_def Let_def)

lemma same_catalog_fault [simp]: "same_catalog s (fault e s') = same_catalog s s'"
  by (simp add: same_catalog_def fault_def)

lemma mirror_fault [simp]:
  "\<not> status_ok e \<Longrightarrow> mirror_ok s \<Longrightarrow> mirror_ok (fault e s)" "accounting_ok (fault e s) = accounting_ok s"
  by (simp_all add: mirror_ok_def accounting_ok_def fault_def Let_def)

lemma faulted_fault [simp]: "faulted (fault e s)"
  by (simp add: fault_def)

lemma core_invD: "core_inv s \<Longrightarrow> mirror_ok s" "core_inv s \<Longrightarrow> accounting_ok s"
  "base_inv s \<Longrightarrow> core_inv s" "base_inv s \<Longrightarrow> catalog_ok s"
  by (simp_all add: core_inv_def base_inv_def)

lemma inv_fault [simp]:
  "\<not> status_ok e \<Longrightarrow> core_inv s \<Longrightarrow> core_inv (fault e s)" "\<not> status_ok e \<Longrightarrow> base_inv s \<Longrightarrow> base_inv (fault e s)"
  by (rule inv_same_catalog [of s]; simp add: core_invD)+

lemma wp_sync_media:
  assumes "mirror_ok s" "accounting_ok s" "\<not> faulted s"
  shows "wp (sync_media env adv)
    (\<lambda>_ s'. mirror_ok s' \<and> accounting_ok s' \<and> same_catalog s s' \<and> \<not> faulted s' \<and> dirty s' = (\<not> adv \<and> dirty s) \<and>
      (adv \<longrightarrow> sm_durable_records (metrics s') = sm_accepted_records (metrics s) \<and>
        sm_accepted_records (metrics s') = sm_accepted_records (metrics s) \<and>
        \<not> have_undurable_records s'))
    (\<lambda>e s'. mirror_ok s' \<and> accounting_ok s' \<and> same_catalog s s' \<and> faulted s') s"
proof -
  obtain status m where f: "flush (env_storage env) (media s) = (status, m)" by fastforce
  define t where "t = note_sync (env_clock env (clock_reads s + 1) - env_clock env (clock_reads s))
    (s\<lparr>media := m, clock_reads := clock_reads s + 2\<rparr>)"
  have t: "same_catalog s t" "mirror_ok t" "accounting_ok t" "\<not> faulted t" "dirty t = dirty s"
    "sm_accepted_records (metrics t) = sm_accepted_records (metrics s)"
    using assms by (auto simp: t_def note_sync_def same_catalog_def mirror_ok_def accounting_ok_def Let_def)
  have err: "same_catalog s (note_sync_error t)" "mirror_ok (note_sync_error t)" "accounting_ok (note_sync_error t)"
    using t by (auto simp: note_sync_error_def same_catalog_def mirror_ok_def accounting_ok_def Let_def)
  have dur: "same_catalog s (note_durable env t)" "mirror_ok (note_durable env t)"
    "accounting_ok (note_durable env t)" "\<not> faulted (note_durable env t)" "\<not> dirty (note_durable env t)"
    "sm_durable_records (metrics (note_durable env t)) = sm_accepted_records (metrics t)"
    "sm_accepted_records (metrics (note_durable env t)) = sm_accepted_records (metrics t)"
    "\<not> have_undurable_records (note_durable env t)"
    using t by (auto simp: note_durable_def same_catalog_def mirror_ok_def accounting_ok_def Let_def)
  show ?thesis
  proof (cases "status_ok status")
    case True
    then have "sync_media env adv s = Some (Inr (), if adv then note_durable env t else t)"
      by (simp add: sync_media_def f t_def)
    then show ?thesis using t dur by (simp add: wp_def)
  next
    case False
    then have "sync_media env adv s = fail status (note_sync_error t)"
      by (simp add: sync_media_def f t_def)
    then show ?thesis using False err by (simp add: wp_def fail_def fault_def [symmetric])
  qed
qed

text \<open>The consequence form of the flush rule, for both invariants.\<close>

lemma wp_sync_media_rule:
  assumes "core_inv s" "\<not> faulted s"
    and "\<And>s'. core_inv s' \<Longrightarrow> (base_inv s \<Longrightarrow> base_inv s') \<Longrightarrow> same_catalog s s' \<Longrightarrow> \<not> faulted s' \<Longrightarrow>
      dirty s' = (\<not> adv \<and> dirty s) \<Longrightarrow> Q () s'"
    and "\<And>e s'. core_inv s' \<Longrightarrow> (base_inv s \<Longrightarrow> base_inv s') \<Longrightarrow> faulted s' \<Longrightarrow> E e s'"
  shows "wp (sync_media env adv) Q E s"
proof -
  have mono: "mirror_ok s" "accounting_ok s" using assms(1) by (simp_all add: core_invD)
  show ?thesis
    by (rule wp_mono [OF wp_sync_media [OF mono assms(2)]])
      (auto intro!: assms(3,4) intro: inv_same_catalog assms(1))
qed

section \<open>Sealing\<close>

lemma inv_update_active:
  assumes "base_inv s" "\<And>p. ps_header (f p) = ps_header p"
  shows "base_inv (update_active f s)"
proof -
  have c: "catalog_ok s" using assms(1) by (simp add: base_inv_def)
  have l: "ps_header (last (partitions (update_active f s))) = ps_header (last (partitions s))"
    by (simp add: catalog_update_active [OF c] assms(2))
  show ?thesis
    using assms(1) catalog_ok_update_active [OF c assms(2)] headers_update_active [OF c assms(2)]
    by (simp add: base_inv_def core_inv_def mirror_ok_def accounting_ok_def options_ok_def builder_ok_def l)
qed

text \<open>What sealing leaves alone.\<close>

definition same_but_seal :: "'s impl \<Rightarrow> 's impl \<Rightarrow> bool" where
  "same_but_seal s s' \<longleftrightarrow> keys s' = keys s \<and> builder s' = builder s \<and> volume s' = volume s \<and>
     open_options s' = open_options s \<and> next_options s' = next_options s \<and>
     writable s' = writable s \<and> closed s' = closed s"

lemma same_but_seal_catalog: "same_catalog s s' \<Longrightarrow> same_but_seal s s'"
  by (simp add: same_catalog_def same_but_seal_def keys_def)

lemma same_but_seal_update:
  assumes "base_inv s'" "same_but_seal s s'" "\<And>p. ps_header (f p) = ps_header p" "\<And>p. ps_data_end (f p) = ps_data_end p"
  shows "same_but_seal s (update_active f s')"
  using assms keys_update_active [of s' f]
  by (simp add: same_but_seal_def base_inv_def update_active_def)

lemma wp_seal_active_only:
  assumes inv: "base_inv s" and nf: "\<not> faulted s" and sealed: "\<not> ps_sealed (last (partitions s))"
    and Q: "\<And>s'. base_inv s' \<Longrightarrow> \<not> faulted s' \<Longrightarrow> \<not> dirty s' \<Longrightarrow> same_but_seal s s' \<Longrightarrow> Q () s'"
    and E: "\<And>e s'. base_inv s' \<Longrightarrow> faulted s' \<Longrightarrow> E e s'"
  shows "wp (seal_active_only env) Q E s"
proof -
  have act: "active s = Some (last (partitions s))"
    using inv catalog_active by (auto simp: base_inv_def)
  have sync: "wp (if dirty s then sync_media env True else return_op ())
      (\<lambda>_ t. base_inv t \<and> same_catalog s t \<and> \<not> faulted t \<and> \<not> dirty t) E s"
    using inv nf E by (auto intro!: wp_sync_media_rule simp: core_invD)
  have done_ok: "Q () (update_active (\<lambda>p. p\<lparr>ps_sealed := True, ps_index_valid := True, ps_footer := f\<rparr>) t)"
    if "base_inv t" "same_catalog s t" "\<not> faulted t" "\<not> dirty t" for t f
    using that by (intro Q inv_update_active same_but_seal_update) (auto intro: same_but_seal_catalog)
  show ?thesis
    unfolding seal_active_only_def wp_bind wp_get
    apply (simp only: act option.case sealed if_False wp_bind)
    apply (rule wp_mono [OF sync])
     apply (auto intro!: wp_rules wp_sync_media_rule done_ok E simp: core_invD)
      apply (blast intro: same_catalog_trans)+
    done
qed

section \<open>Geometry\<close>

lemma mod_eq_0_sub:
  "(a :: u64) mod c = 0 \<Longrightarrow> b mod c = 0 \<Longrightarrow> b \<le> a \<Longrightarrow> (a - b) mod c = 0"
  by (simp add: word_unat_eq_iff unat_mod unat_sub word_le_nat_alt mod_eq_0_iff_dvd dvd_diff_nat)

lemma ucast_mod_eq_0: "(a :: u32) mod b = 0 \<Longrightarrow> (ucast a :: u64) mod ucast b = 0"
  by (simp add: word_unat_eq_iff unat_mod)

lemma geometry_okD:
  assumes "geometry_ok v"
  shows "2 \<le> vh_partition_count v" "0 < vh_persistence_quantum v" "48 \<le> vh_index_region_size v"
    "(4096 :: u64) mod ucast (vh_persistence_quantum v) = 0"
    "unat (index_begin v) + 4096 + unat (vh_index_region_size v) = unat (vh_partition_size v)"
    "4096 \<le> index_begin v"
    "\<exists>span. align_up (128 + ucast (vh_max_block_payload v)) (vh_persistence_quantum v) = (span, False) \<and>
       span \<le> index_begin v - 4096"
    "index_begin v mod ucast (vh_persistence_quantum v) = 0"
proof -
  let ?q = "vh_persistence_quantum v" and ?i = "vh_index_region_size v" and ?p = "vh_partition_size v"
  define fixed where "fixed = (4096 + 4096 + ucast ?i :: u64)"
  obtain sz where ok: "status_ok (validate_volume_geometry v sz)" using assms by (auto simp: geometry_ok_def)
  have c: "2 \<le> vh_partition_count v" "is_power_of_two ?q" "48 \<le> ?i" "(4096 :: u32) mod ?q = 0"
    "?p mod ucast ?q = 0" "?i mod ?q = 0" "\<not> fixed \<ge> ?p"
    using ok unfolding fixed_def by (auto simp: validate_volume_geometry_def Let_def not_less split: if_splits)
  obtain span where span: "align_up (128 + ucast (vh_max_block_payload v)) ?q = (span, False)" "span \<le> ?p - fixed"
    using ok unfolding fixed_def by (auto simp: validate_volume_geometry_def Let_def not_less split: if_splits prod.splits)
  show "2 \<le> vh_partition_count v" "48 \<le> ?i" by (fact c)+
  show "0 < ?q" using c(2) by (simp add: is_power_of_two_def word_gt_0)
  show q: "(4096 :: u64) mod ucast ?q = 0" using ucast_mod_eq_0 [OF c(4)] by simp
  have f: "unat fixed = 8192 + unat ?i" unfolding fixed_def by (rule fixed_size_no_wrap)
  have le: "fixed \<le> ?p" using c(7) by simp
  have ib: "index_begin v = ?p - fixed + 4096" by (simp add: index_begin_def fixed_def)
  have sub: "unat (?p - fixed) = unat ?p - unat fixed" using le by (simp add: unat_sub)
  have lt: "unat ?p - unat fixed + 4096 < 2 ^ 64" using unat_u64_less [of ?p] f by simp
  have u: "unat (index_begin v) = unat ?p - unat fixed + 4096"
    unfolding ib using sub lt by (simp add: unat_word_ariths)
  show "unat (index_begin v) + 4096 + unat ?i = unat ?p" using u f le by (simp add: word_le_nat_alt)
  show "4096 \<le> index_begin v" using u by (simp add: word_le_nat_alt)
  have "index_begin v - 4096 = ?p - fixed" by (simp add: ib)
  then show "\<exists>span. align_up (128 + ucast (vh_max_block_payload v)) ?q = (span, False) \<and> span \<le> index_begin v - 4096"
    using span by simp
  have le1: "4096 \<le> ?p" using le f by (simp add: word_le_nat_alt)
  have "(?p - 4096) mod ucast ?q = 0" by (rule mod_eq_0_sub [OF c(5) q le1])
  moreover have "ucast ?i \<le> ?p - 4096" using le f le1 by (simp add: word_le_nat_alt unat_sub)
  ultimately show "index_begin v mod ucast ?q = 0"
    using mod_eq_0_sub [OF _ ucast_mod_eq_0 [OF c(6)]] by (simp add: index_begin_def)
qed

lemma room_new_partition: "geometry_ok v \<Longrightarrow> room v (new_partition_state h)"
  using geometry_okD(3,6,7) [of v]
  by (auto simp: room_def new_partition_state_def word_le_nat_alt unat_div)

lemma index_ok_new_partition: "geometry_ok v \<Longrightarrow> index_ok v (new_partition_state h)"
  using geometry_okD(4,6) [of v] by (simp add: index_ok_def new_partition_state_def summarize_def)

section \<open>Creating partitions and rotating\<close>

lemma catalog_sorted_snoc:
  assumes "catalog_sorted v hs" "\<forall>h \<in> set hs. ph_generation h < ph_generation k"
    "0 < ph_generation k" "ph_slot k < vh_partition_count v"
  shows "catalog_sorted v (filter (\<lambda>h. ph_slot h \<noteq> ph_slot k) hs @ [k])"
  using assms by (auto simp: catalog_sorted_def sorted_wrt_append sorted_wrt_filter distinct_map_filter)

lemma install_partition_partitions:
  assumes "catalog_sorted v (headers s)" "\<forall>h \<in> set (headers s). ph_generation h < ph_generation k"
  shows "partitions (install_partition k c s) =
    filter (\<lambda>p. ph_slot (ps_header p) \<noteq> ph_slot k) (partitions s) @ [new_partition_state k]"
proof -
  have "sorted_wrt (\<lambda>p q. ph_generation (ps_header p) \<le> ph_generation (ps_header q)) (partitions s)"
    using assms(1) by (auto simp: catalog_sorted_def headers_def sorted_wrt_map elim: sorted_wrt_mono_rel [rotated])
  then have "sorted (map (\<lambda>p. ph_generation (ps_header p))
      (filter (\<lambda>p. ph_slot (ps_header p) \<noteq> ph_slot k) (partitions s) @ [new_partition_state k]))"
    using assms(2)
    by (auto simp: sorted_wrt_append sorted_wrt_filter sorted_wrt_map headers_def new_partition_state_def less_imp_le)
  then show ?thesis by (simp add: install_partition_def Let_def sort_key_id_if_sorted)
qed

lemma install_partition_simps [simp]:
  "volume (install_partition k c s) = volume s" "builder (install_partition k c s) = builder s"
  "metrics (install_partition k c s) = metrics s" "\<not> dirty (install_partition k c s)"
  "open_options (install_partition k c s) = open_options s" "next_options (install_partition k c s) = next_options s"
  "faulted (install_partition k c s) = faulted s" "closed (install_partition k c s) = closed s"
  "writable (install_partition k c s) = writable s" "media (install_partition k c s) = media s"
  "health_atomics (install_partition k c s) = health_atomics s"
  "fault_status (install_partition k c s) = fault_status s"
  "have_undurable_records (install_partition k c s) = have_undurable_records s"
  "builder_records (install_partition k c s) = builder_records s"
  "builder_min_time (install_partition k c s) = builder_min_time s"
  "builder_max_time (install_partition k c s) = builder_max_time s"
  "active_generation (install_partition k c s) = ph_generation k"
  "active_slot (install_partition k c s) = ph_slot k"
  by (simp_all add: install_partition_def Let_def)

lemma store_inv_install:
  assumes inv: "core_inv s" "\<not> dirty s" "builder s = []"
    and gens: "\<forall>h \<in> set (headers s). ph_generation h < ph_generation k" "0 < ph_generation k"
    and slot: "ph_slot k < vh_partition_count (volume s)" and opts: "options_ok s (ph_options k)"
  shows "store_inv (install_partition k c s)"
proof -
  let ?t = "install_partition k c s"
  have cs: "catalog_sorted (volume s) (headers s)" using inv(1) by (simp add: core_inv_def)
  note parts = install_partition_partitions [OF cs gens(1), of c]
  have hs: "headers ?t = filter (\<lambda>h. ph_slot h \<noteq> ph_slot k) (headers s) @ [k]"
    unfolding headers_def parts by (simp add: filter_map comp_def new_partition_state_def)
  have lst: "last (partitions ?t) = new_partition_state k" "partitions ?t \<noteq> []" by (simp_all add: parts)
  have g: "geometry_ok (volume s)" using inv(1) by (simp add: core_inv_def)
  have sorted: "catalog_sorted (volume ?t) (headers ?t)"
    unfolding hs using catalog_sorted_snoc [OF cs gens slot] by simp
  have ok: "mirror_ok ?t" "accounting_ok ?t" "builder_ok ?t" "options_ok ?t (next_options ?t)" "options_ok ?t (ph_options k)"
    using inv opts by (simp_all add: core_inv_def mirror_ok_def accounting_ok_def builder_ok_def options_ok_def Let_def)
  have k: "ps_header (new_partition_state k) = k" "\<not> ps_sealed (new_partition_state k)"
    by (simp_all add: new_partition_state_def)
  show ?thesis
    using sorted ok g lst room_new_partition [OF g] index_ok_new_partition [OF g]
    by (simp add: store_inv_def base_inv_def core_inv_def catalog_ok_def is_active_def k)
qed

text \<open>What creating a partition leaves alone.\<close>

definition same_config :: "'s impl \<Rightarrow> 's impl \<Rightarrow> bool" where
  "same_config s s' \<longleftrightarrow> builder s' = builder s \<and> volume s' = volume s \<and> open_options s' = open_options s \<and>
     next_options s' = next_options s \<and> writable s' = writable s \<and> closed s' = closed s"

lemma same_configI:
  "same_catalog s s' \<Longrightarrow> same_config s s'" "same_but_seal s s' \<Longrightarrow> same_config s s'"
  "same_config s t \<Longrightarrow> same_config t s' \<Longrightarrow> same_config s s'"
  by (simp_all add: same_catalog_def same_but_seal_def same_config_def)

lemma same_config_simps [simp]:
  "same_config s s" "same_config s (install_partition k c s') = same_config s s'"
  "same_config s (s'\<lparr>media := m\<rparr>) = same_config s s'" "same_config s (s'\<lparr>metrics := n\<rparr>) = same_config s s'"
  by (simp_all add: same_config_def)

lemma keys_install:
  assumes "catalog_sorted v (headers s)" "\<forall>h \<in> set (headers s). ph_generation h < ph_generation k"
  shows "keys (install_partition k c s) = filter (\<lambda>(h, d). ph_slot h \<noteq> ph_slot k) (keys s) @ [(k, 4096)]"
  unfolding keys_def install_partition_partitions [OF assms]
  by (simp add: filter_map comp_def new_partition_state_def)

lemma wp_create_partition:
  assumes inv: "core_inv s" "\<not> faulted s" "\<not> dirty s" "builder s = []"
    and gens: "\<forall>h \<in> set (headers s). ph_generation h < generation" "generation \<noteq> 0"
    and slot: "slot < vh_partition_count (volume s)" and opts: "options_ok s options"
    and Q: "\<And>s'. store_inv s' \<Longrightarrow> \<not> faulted s' \<Longrightarrow> \<not> dirty s' \<Longrightarrow> same_config s s' \<Longrightarrow>
      last (partitions s') = new_partition_state (new_partition_header (volume s) slot generation options) \<Longrightarrow>
      keys s' = filter (\<lambda>(h, d). ph_slot h \<noteq> slot) (keys s) @ [(new_partition_header (volume s) slot generation options, 4096)] \<Longrightarrow>
      Q () s'"
    and E: "\<And>e s'. core_inv s' \<Longrightarrow> (base_inv s \<Longrightarrow> base_inv s') \<Longrightarrow> faulted s' \<Longrightarrow> E e s'"
  shows "wp (create_partition env slot generation options) Q E s"
proof -
  let ?k = "new_partition_header (volume s) slot generation options"
  have k: "ph_generation ?k = generation" "ph_slot ?k = slot" "ph_options ?k = options"
    by (simp_all add: new_partition_header_def)
  have final: "Q () (install_partition ?k c s')"
    if "core_inv s'" "same_catalog s s'" "\<not> faulted s'" "\<not> dirty s'" for c s'
  proof (rule Q)
    have same: "headers s' = headers s" "builder s' = []" "volume s' = volume s" "options_ok s' options"
      using that(2) inv(4) opts by (simp_all add: same_catalog_def headers_def options_ok_def)
    show "store_inv (install_partition ?k c s')"
      using that same gens slot by (intro store_inv_install) (simp_all add: k word_gt_0)
    have "catalog_sorted (volume s) (headers s')" using that(1) same by (simp add: core_inv_def)
    then show "last (partitions (install_partition ?k c s')) = new_partition_state ?k"
      "keys (install_partition ?k c s') = filter (\<lambda>(h, d). ph_slot h \<noteq> slot) (keys s) @ [(?k, 4096)]"
      using install_partition_partitions [of "volume s" s' ?k c] keys_install [of "volume s" s' ?k c] gens same that(2)
      by (simp_all add: k same_catalog_def keys_def)
  qed (use that in \<open>auto intro: same_configI\<close>)
  have ok: "status_ok (validate_partition_options (open_options s) options)" using opts by (simp add: options_ok_def)
  show ?thesis
    unfolding create_partition_def wp_bind wp_get
    using inv gens(2) ok
    by (auto simp: Let_def intro!: wp_rules wp_sync_media_rule final E)
qed

lemma word_le_less_succ:
  assumes "(x :: u64) \<le> y" "y \<noteq> - 1"
  shows "x < y + 1"
proof -
  have "1 + y \<noteq> 0" using assms(2) by (metis add_eq_0_iff)
  from unatSuc [OF this] show ?thesis using assms(1) by (simp add: word_le_nat_alt word_less_nat_alt add.commute)
qed

lemma generation_bound:
  assumes "catalog_ok s" "h \<in> set (headers s)"
  shows "ph_generation h \<le> ph_generation (ps_header (last (partitions s)))"
proof -
  obtain p where p: "p \<in> set (partitions s)" "h = ps_header p" using assms(2) by (auto simp: headers_def)
  have "partitions s = butlast (partitions s) @ [last (partitions s)]"
    using assms(1) by (simp add: catalog_ok_def)
  then have "p \<in> set (butlast (partitions s)) \<or> p = last (partitions s)"
    using p(1) by (metis Un_iff empty_iff insert_iff list.set(1) list.set(2) set_append)
  then show ?thesis using catalog_butlast [OF assms(1), of p] p(2) by auto
qed

lemma inv_metrics_rotations:
  "store_inv s \<Longrightarrow> store_inv (s\<lparr>metrics := (metrics s)\<lparr>sm_rotations := n\<rparr>\<rparr>)"
  by (simp add: store_inv_def base_inv_def core_inv_def mirror_ok_def accounting_ok_def builder_ok_def headers_def
      catalog_ok_def is_active_def options_ok_def Let_def)

text \<open>The slot a rotation recycles.\<close>

definition next_slot :: "'s impl \<Rightarrow> u32" where
  "next_slot s = (ph_slot (ps_header (last (partitions s))) + 1) mod vh_partition_count (volume s)"

lemma wp_rotate_internal:
  assumes inv: "store_inv s" "\<not> faulted s" "builder s = []" and opts: "options_ok s options"
    and Q: "\<And>s'. store_inv s' \<Longrightarrow> \<not> faulted s' \<Longrightarrow> \<not> dirty s' \<Longrightarrow> same_config s s' \<Longrightarrow>
      room (volume s') (last (partitions s')) \<Longrightarrow>
      keys s' = filter (\<lambda>(h, d). ph_slot h \<noteq> next_slot s) (keys s) @
        [(new_partition_header (volume s) (next_slot s) (ph_generation (ps_header (last (partitions s))) + 1) options, 4096)] \<Longrightarrow>
      last (partitions s') = new_partition_state
        (new_partition_header (volume s) (next_slot s) (ph_generation (ps_header (last (partitions s))) + 1) options) \<Longrightarrow>
      Q () s'"
    and E: "\<And>e s'. base_inv s' \<Longrightarrow> faulted s' \<Longrightarrow> E e s'"
  shows "wp (rotate_internal env options) Q E s"
proof -
  let ?last = "last (partitions s)"
  have b: "base_inv s" "\<not> ps_sealed ?last" using inv by (simp_all add: store_inv_def)
  have c: "catalog_ok s" "geometry_ok (volume s)" using b by (simp_all add: base_inv_def core_inv_def)
  note act = catalog_active [OF c(1)]
  let ?slot = "(ph_slot (ps_header ?last) + 1) mod vh_partition_count (volume s)"
  have slot: "?slot < vh_partition_count (volume s)"
    using geometry_okD(1) [OF c(2)] by (intro word_mod_less_divisor) (auto simp: word_gt_0 word_le_nat_alt)
  show ?thesis
  proof (cases "ph_generation (ps_header ?last) = - 1")
    case True
    then show ?thesis using b E by (simp add: rotate_internal_def act)
  next
    case False
    let ?g = "ph_generation (ps_header ?last) + 1"
    have g: "?g \<noteq> 0" using False by (metis add.commute add_eq_0_iff)
    have gens: "ph_generation h < ?g" if "h \<in> set (headers s)" for h
      using generation_bound [OF c(1) that] False by (rule word_le_less_succ)
    show ?thesis
      unfolding rotate_internal_def wp_bind wp_get act option.case if_not_P [OF False] wp_let
    proof (rule wp_seal_active_only [OF b(1) inv(2) b(2)])
      fix t assume t: "base_inv t" "\<not> faulted t" "\<not> dirty t" "same_but_seal s t"
      have same: "builder t = []" "headers t = headers s" "volume t = volume s" "options_ok t options"
        using t(4) inv(3) opts by (simp_all add: same_but_seal_def options_ok_def headers_keys)
      show "wp (create_partition env ?slot ?g options) (\<lambda>a. wp (modify_op (\<lambda>s. s\<lparr>metrics := (metrics s)\<lparr>sm_rotations := sm_rotations (metrics s) + 1\<rparr>\<rparr>)) Q E) E t"
      proof (rule wp_create_partition)
        fix s' assume s': "store_inv s'" "\<not> faulted s'" "\<not> dirty s'" "same_config t s'"
          "last (partitions s') = new_partition_state (new_partition_header (volume t) ?slot ?g options)"
          "keys s' = filter (\<lambda>(h, d). ph_slot h \<noteq> ?slot) (keys t) @ [(new_partition_header (volume t) ?slot ?g options, 4096)]"
        have "same_config s s'" using t(4) s'(4) by (blast intro: same_configI)
        then show "wp (modify_op (\<lambda>s. s\<lparr>metrics := (metrics s)\<lparr>sm_rotations := sm_rotations (metrics s) + 1\<rparr>\<rparr>)) Q E s'"
          using s' room_new_partition [OF c(2)] t(4)
          by (auto intro!: Q inv_metrics_rotations simp: same_config_def same_but_seal_def next_slot_def keys_def)
      qed (use t same gens g slot E in \<open>auto simp: core_invD\<close>)
    qed (use E in auto)
  qed
qed

end
