(* ===== verification/Ring_Operations.thy ===== *)
theory Ring_Operations
  imports Ring_Invariant
begin

text \<open>The invariant of Ring_Invariant is kept by every operation of a writable store.\<close>

section \<open>Emitting a block\<close>

lemma align_up_mono:
  assumes "align_up y q = (w, False)" "x \<le> y"
  obtains u where "align_up x q = (u, False)" "u \<le> w"
proof -
  note y = align_up_ok [OF assms(1)]
  have pos: "0 < unat q" using y(4) by (simp add: unat_gt_0)
  define r where "r = unat x + (if unat x mod unat q = 0 then 0 else unat q - unat x mod unat q)"
  have lt: "r < unat x + unat q" using pos by (auto simp: r_def)
  have dvd: "unat q dvd r" unfolding r_def round_up_eq [OF pos, symmetric] by simp
  have rw: "r \<le> unat w"
  proof (rule ccontr)
    assume "\<not> r \<le> unat w"
    then have "0 < r - unat w" "unat q dvd r - unat w" using dvd y(2) by (auto intro: dvd_diff_nat)
    then have "unat q \<le> r - unat w" by (rule dvd_imp_le [rotated])
    then show False using lt y(1) assms(2) \<open>\<not> r \<le> unat w\<close> by (simp add: word_le_nat_alt)
  qed
  then have lt64: "r < 2 ^ 64" using unat_u64_less [of w] by linarith
  then have "align_up x q = (of_nat r, False)" using y(4) by (simp add: align_up_cases Let_def r_def)
  moreover have "of_nat r \<le> w" using rw lt64 by (simp add: word_le_nat_alt unat_of_nat_u64)
  ultimately show ?thesis using that by blast
qed

lemma select_payload_length:
  "select_payload c options raw = Inr (payload, selected, version) \<Longrightarrow> length payload \<le> length raw"
  by (auto simp: select_payload_def split: if_splits sum.splits)

lemma check_index_snoc:
  assumes "check_index v i off xs = Inr off'" "status_ok (accept_index_entry v (i + length xs) off' e)"
  shows "check_index v i off (xs @ [e]) = Inr (off' + ucast (ie_frame_span e))"
  using assms by (induction xs arbitrary: i off) (auto simp: Let_def split: if_splits)

text \<open>A frame of the builder's size fits wherever room for the largest one is reserved.\<close>

lemma room_frame:
  assumes "room v p" "n \<le> unat (vh_max_block_payload v)"
  obtains span where "align_up (128 + of_nat n) (vh_persistence_quantum v) = (span, False)"
    "span \<le> index_begin v - ps_data_end p" "ps_data_end p \<le> index_begin v"
    "unat (128 + of_nat n :: u64) = 128 + n"
proof -
  obtain w where w: "align_up (128 + ucast (vh_max_block_payload v)) (vh_persistence_quantum v) = (w, False)"
    "w \<le> index_begin v - ps_data_end p" "ps_data_end p \<le> index_begin v"
    using assms(1) by (auto simp: room_def)
  have n: "unat (128 + of_nat n :: u64) = 128 + n" "unat (128 + ucast (vh_max_block_payload v) :: u64) = 128 + unat (vh_max_block_payload v)"
    using assms(2) unat_u32_less [of "vh_max_block_payload v"] by (simp_all add: unat_word_ariths unat_of_nat)
  then have "(128 + of_nat n :: u64) \<le> 128 + ucast (vh_max_block_payload v)"
    using assms(2) by (simp add: word_le_nat_alt del: unat_of_nat)
  from align_up_mono [OF w(1) this] obtain u where "align_up (128 + of_nat n) (vh_persistence_quantum v) = (u, False)" "u \<le> w" .
  then show ?thesis using w(2,3) n(1) by (intro that [of u]) (auto intro: order_trans)
qed

lemma accept_new_entry:
  assumes span: "align_up frame (vh_persistence_quantum v) = (span, False)" "span \<le> 0xffffffff"
    "span \<le> index_begin v - ps_data_end p" and frame: "unat frame = 128 + n" "frame \<le> 0xffffffff"
    and n: "n \<le> unat (vh_max_block_payload v)" "unat (vh_max_block_payload v) + 128 < 2 ^ 32"
    and b: "bh_sequence block = of_nat (length (ps_active_index p))" "bh_record_count block \<noteq> 0"
      "bh_min_time_ns block \<le>s bh_max_time_ns block" "unat (bh_raw_size block) \<le> unat (vh_max_block_payload v)"
    and len: "length (ps_active_index p) < 2 ^ 32"
  shows "accept_index_entry v (length (ps_active_index p)) (ps_data_end p) (new_index_entry p block frame span) = Ok"
proof -
  let ?q = "vh_persistence_quantum v"
  have fs: "unat (ucast frame :: u32) = 128 + n" "unat (ucast span :: u32) = unat span"
    using frame span(2) n by (simp_all add: unsigned_ucast_eq take_bit_nat_eq_self_iff word_le_nat_alt)
  have wide: "(ucast (ucast frame :: u32) :: u64) = frame" "(ucast (ucast span :: u32) :: u64) = span"
    using ucast_div_u64 frame(2) span(2) by blast+
  have mp: "unat (128 + vh_max_block_payload v) = 128 + unat (vh_max_block_payload v)"
    using n(2) by (simp add: unat_word_ariths)
  have "unat ?q dvd unat span" using align_up_ok(2) [OF span(1)] .
  then have aligned: "(ucast span :: u32) mod ?q = 0"
    using fs(2) by (simp add: word_unat_eq_iff unat_mod)
  have time: "\<not> bh_max_time_ns block <s bh_min_time_ns block"
    using b(3) by (simp add: word_sle_eq word_sless_alt)
  show ?thesis
    using b aligned time fs mp n len span(3)
    by (simp add: accept_index_entry_def new_index_entry_def Let_def wide span(1) unat_of_nat word_less_nat_alt word_le_nat_alt not_less)
qed

lemma push_entry_simps [simp]:
  "ps_header (push_entry e span p) = ps_header p" "ps_sealed (push_entry e span p) = ps_sealed p"
  "ps_active_index (push_entry e span p) = ps_active_index p @ [e]"
  "ps_data_end (push_entry e span p) = ps_data_end p + span"
  by (simp_all add: push_entry_def add_time_def Let_def)

lemma add_time_commute:
  "add_time e (p\<lparr>ps_active_index := xs, ps_block_count := n, ps_data_end := d\<rparr>) =
    (add_time e p)\<lparr>ps_active_index := xs, ps_block_count := n, ps_data_end := d\<rparr>"
  by (simp add: add_time_def Let_def)

lemma fold_add_time_commute:
  "fold add_time es (p\<lparr>ps_active_index := xs, ps_block_count := n, ps_data_end := d\<rparr>) =
    (fold add_time es p)\<lparr>ps_active_index := xs, ps_block_count := n, ps_data_end := d\<rparr>"
  by (induction es arbitrary: p) (simp_all add: add_time_commute)

lemma fold_add_time_restart:
  "es \<noteq> [] \<Longrightarrow> fold add_time es (p\<lparr>ps_has_time := False, ps_min_time_ns := a, ps_max_time_ns := b\<rparr>) =
    fold add_time es (p\<lparr>ps_has_time := False\<rparr>)"
  by (cases es) (simp_all add: add_time_def Let_def)

lemma summarize_push:
  assumes "summarize p = p"
  shows "summarize (push_entry e span p) = push_entry e span p"
proof -
  let ?n = "of_nat (length (ps_active_index p) + 1)" and ?es = "ps_active_index p @ [e]"
  define p0 where "p0 = p\<lparr>ps_aggregate_flags := 0, ps_has_time := False, ps_block_count := of_nat (length (ps_active_index p))\<rparr>"
  have p: "fold add_time (ps_active_index p) p0 = p" using assms by (simp add: summarize_def p0_def)
  define r where "r = push_entry e span p"
  define q where "q = p0\<lparr>ps_active_index := ?es, ps_block_count := ?n, ps_data_end := ps_data_end p + span\<rparr>"
  have r: "r = (add_time e p)\<lparr>ps_active_index := ?es, ps_block_count := ?n, ps_data_end := ps_data_end p + span\<rparr>"
    by (simp add: r_def push_entry_def add_time_commute)
  have start: "r\<lparr>ps_aggregate_flags := 0, ps_has_time := False, ps_block_count := ?n\<rparr> =
    q\<lparr>ps_has_time := False, ps_min_time_ns := ps_min_time_ns r, ps_max_time_ns := ps_max_time_ns r\<rparr>"
    by (simp add: r q_def p0_def add_time_def Let_def)
  have "summarize r = fold add_time ?es (r\<lparr>ps_aggregate_flags := 0, ps_has_time := False, ps_block_count := ?n\<rparr>)"
    by (simp add: summarize_def r)
  also have "\<dots> = fold add_time ?es (q\<lparr>ps_has_time := False\<rparr>)"
    unfolding start by (rule fold_add_time_restart) simp
  also have "q\<lparr>ps_has_time := False\<rparr> = q" by (simp add: q_def p0_def)
  also have "fold add_time ?es q = r"
    unfolding q_def fold_add_time_commute by (simp add: p r)
  finally show ?thesis by (simp add: r_def)
qed

lemma index_ok_push:
  assumes ok: "index_ok v p" and len: "length (ps_active_index p) + 1 \<le> unat (vh_index_region_size v div 48)"
    and span: "span \<le> index_begin v - ps_data_end p" "unat (vh_persistence_quantum v) dvd unat span"
      "ucast (ie_frame_span e) = span"
    and acc: "unat (vh_max_block_payload v) + 128 < 2 ^ 32 \<Longrightarrow>
      accept_index_entry v (length (ps_active_index p)) (ps_data_end p) e = Ok"
  shows "index_ok v (push_entry e span p)"
proof -
  have le: "ps_data_end p \<le> index_begin v" "4096 \<le> ps_data_end p" using ok by (simp_all add: index_ok_def)
  have sum: "unat (ps_data_end p + span) = unat (ps_data_end p) + unat span"
    "unat (ps_data_end p) + unat span \<le> unat (index_begin v)"
    using span(1) le unat_u64_less [of "index_begin v"]
    by (simp_all add: unat_word_ariths word_le_nat_alt unat_sub)
  have "unat (vh_persistence_quantum v) dvd unat (ps_data_end p)"
    using ok by (simp add: index_ok_def word_unat_eq_iff unat_mod mod_eq_0_iff_dvd)
  then have al: "(ps_data_end p + span) mod ucast (vh_persistence_quantum v) = 0"
    using span(2) sum(1) by (simp add: word_unat_eq_iff unat_mod mod_eq_0_iff_dvd)
  have chk: "check_index v 0 4096 (ps_active_index p @ [e]) = Inr (ps_data_end p + span)"
    if small: "unat (vh_max_block_payload v) + 128 < 2 ^ 32"
    using ok len small acc [OF small] check_index_snoc [of v 0 4096 "ps_active_index p" "ps_data_end p" e] span(3)
    by (simp add: index_ok_def)
  have "summarize p = p" using ok by (simp add: index_ok_def)
  then show ?thesis using le sum al chk len summarize_push [of p e span] by (simp add: index_ok_def word_le_nat_alt)
qed

text \<open>The same partitions, with no less data.\<close>

definition keys_le :: "(partition_header \<times> u64) list \<Rightarrow> (partition_header \<times> u64) list \<Rightarrow> bool" where
  "keys_le = list_all2 (\<lambda>(h, d) (h', d'). h' = h \<and> d \<le> d')"

lemma keys_le_refl [simp]: "keys_le ks ks"
  by (auto simp: keys_le_def intro: list_all2_refl)

lemma keys_le_headers: "keys_le ks ks' \<Longrightarrow> map fst ks' = map fst ks"
  unfolding keys_le_def by (induction rule: list_all2_induct) auto

text \<open>What publishing leaves alone, and what it leaves behind.\<close>

definition after_emit :: "'s impl \<Rightarrow> 's impl \<Rightarrow> bool" where
  "after_emit s s' \<longleftrightarrow> keys_le (keys s) (keys s') \<and> volume s' = volume s \<and> open_options s' = open_options s \<and>
     next_options s' = next_options s \<and> writable s' = writable s \<and> closed s' = closed s \<and>
     builder s' = [] \<and> sm_accepted_records (metrics s') = sm_accepted_records (metrics s)"

lemma note_published_partitions:
  "catalog_ok s \<Longrightarrow> partitions (note_published e span n s) =
    butlast (partitions s) @ [push_entry e span (last (partitions s))]"
  by (simp add: note_published_def Let_def catalog_update_active)

lemma note_published_simps [simp]:
  "volume (note_published e span n s) = volume s" "builder (note_published e span n s) = []"
  "builder_records (note_published e span n s) = 0"
  "dirty (note_published e span n s)" "open_options (note_published e span n s) = open_options s"
  "next_options (note_published e span n s) = next_options s" "faulted (note_published e span n s) = faulted s"
  "closed (note_published e span n s) = closed s" "writable (note_published e span n s) = writable s"
  "media (note_published e span n s) = media s" "health_atomics (note_published e span n s) = health_atomics s"
  "fault_status (note_published e span n s) = fault_status s"
  "have_undurable_records (note_published e span n s) = have_undurable_records s"
  "active_generation (note_published e span n s) = active_generation s"
  "active_slot (note_published e span n s) = active_slot s"
  "sm_accepted_records (metrics (note_published e span n s)) = sm_accepted_records (metrics s)"
  by (simp_all add: note_published_def Let_def)

lemma mirror_published: "mirror_ok (note_published e span n s) = mirror_ok s"
  by (simp add: mirror_ok_def note_published_def Let_def)

lemma headers_published: "catalog_ok s \<Longrightarrow> headers (note_published e span n s) = headers s"
  by (simp add: headers_def note_published_partitions)
    (metis append_butlast_last_id catalog_ok_def list.simps(8,9) map_append)

lemma keys_published:
  assumes "catalog_ok s" "ps_data_end (last (partitions s)) \<le> ps_data_end (last (partitions s)) + span"
  shows "keys_le (keys s) (keys (note_published e span n s))"
proof -
  have "partitions s = butlast (partitions s) @ [last (partitions s)]"
    using assms(1) by (simp add: catalog_ok_def)
  then have "keys s = map (\<lambda>p. (ps_header p, ps_data_end p)) (butlast (partitions s)) @
      [(ps_header (last (partitions s)), ps_data_end (last (partitions s)))]"
    by (metis (no_types, lifting) keys_def list.simps(8,9) map_append)
  then show ?thesis
    using assms by (simp add: keys_le_def keys_def note_published_partitions list_all2_append list_all2_same)
qed

lemma store_inv_published:
  assumes "base_inv s" "\<not> faulted s" "\<not> ps_sealed (last (partitions s))"
    "index_ok (volume s) (push_entry e span (last (partitions s)))"
    "ps_data_end (last (partitions s)) \<le> ps_data_end (last (partitions s)) + span"
  shows "store_inv (note_published e span n s)" "after_emit s (note_published e span n s)"
proof -
  have c: "catalog_ok s" using assms(1) by (simp add: base_inv_def)
  show "after_emit s (note_published e span n s)" by (simp add: after_emit_def keys_published [OF c assms(5)])
  show "store_inv (note_published e span n s)"
    using assms c mirror_published [of e span n s] headers_published [OF c, of e span n]
    by (simp add: store_inv_def base_inv_def core_inv_def catalog_ok_def accounting_ok_def builder_ok_def
        options_ok_def note_published_partitions [OF c] is_active_def)
qed

lemma wp_emit_frame:
  assumes inv: "store_inv s" "\<not> faulted s" "builder s \<noteq> []" and len: "length payload \<le> length (builder s)"
    and Q: "\<And>s'. store_inv s' \<Longrightarrow> \<not> faulted s' \<Longrightarrow> dirty s' \<Longrightarrow> after_emit s s' \<Longrightarrow> Q () s'"
    and E: "\<And>e s'. base_inv s' \<Longrightarrow> faulted s' \<Longrightarrow> E e s'"
  shows "wp (emit_frame env (last (partitions s)) payload selected version) Q E s"
proof -
  let ?p = "last (partitions s)" and ?v = "volume s"
  let ?frame = "128 + of_nat (length payload) :: u64"
  have b: "base_inv s" "\<not> ps_sealed ?p" "index_ok ?v ?p" "room ?v ?p"
    using inv by (simp_all add: store_inv_def)
  have bld: "builder_ok s" using b(1) by (simp add: base_inv_def core_inv_def)
  then have max: "length payload \<le> unat (vh_max_block_payload ?v)" using len by (simp add: builder_ok_def)
  obtain span where span: "align_up ?frame (vh_persistence_quantum ?v) = (span, False)"
    "span \<le> index_begin ?v - ps_data_end ?p" "ps_data_end ?p \<le> index_begin ?v" "unat ?frame = 128 + length payload"
    using room_frame [OF b(4) max] by blast
  have grow: "ps_data_end ?p \<le> ps_data_end ?p + span"
    using span(2,3) unat_u64_less [of "index_begin ?v"] by (simp add: word_le_nat_alt unat_word_ariths unat_sub)
  have ents: "length (ps_active_index ?p) + 1 \<le> unat (vh_index_region_size ?v div 48)"
    using b(4) by (simp add: room_def)
  let ?block = "new_block_header s ?p payload selected version span"
  let ?e = "new_index_entry ?p ?block ?frame span"
  have idx: "index_ok ?v (push_entry ?e span ?p)" if small: "\<not> ?frame > 0xffffffff" "\<not> span > 0xffffffff"
  proof (rule index_ok_push [OF b(3) ents span(2)])
    show "unat (vh_persistence_quantum ?v) dvd unat span" by (rule align_up_ok(2) [OF span(1)])
    show "ucast (ie_frame_span ?e) = span" using small(2) ucast_div_u64 [of span] by (simp add: new_index_entry_def not_less)
    have "length (ps_active_index ?p) < 2 ^ 32"
      using ents unat_u32_less [of "vh_index_region_size ?v div 48"] by simp
    moreover have "length (builder s) < 2 ^ 32"
      using bld unat_u32_less [of "vh_max_block_payload ?v"] by (simp add: builder_ok_def)
    moreover have "builder_records s \<noteq> 0" "builder_min_time s \<le>s builder_max_time s"
      "length (builder s) \<le> unat (vh_max_block_payload ?v)"
      using bld inv(3) by (simp_all add: builder_ok_def)
    ultimately show "accept_index_entry ?v (length (ps_active_index ?p)) (ps_data_end ?p) ?e = Ok"
      if "unat (vh_max_block_payload ?v) + 128 < 2 ^ 32"
      using that small max span
      by (intro accept_new_entry [of _ _ _ _ "length payload"])
        (simp_all add: new_block_header_def unat_of_nat not_less)
  qed
  have final: "Q () (note_published ?e span n (s\<lparr>media := m\<rparr>))" if "\<not> ?frame > 0xffffffff" "\<not> span > 0xffffffff" for n m
    using store_inv_published [of "s\<lparr>media := m\<rparr>" ?e span n] idx [OF that] b inv(2) grow
    by (intro Q) (simp_all add: after_emit_def keys_def)
  show ?thesis
    unfolding emit_frame_def wp_bind wp_get Let_def span(1) prod.case
    using span(2,3) ents b(1) by (auto simp: not_less intro!: wp_rules final E)
qed

lemma store_inv_faulted: "base_inv s \<Longrightarrow> faulted s \<Longrightarrow> store_inv s"
  by (simp add: store_inv_def)

text \<open>An error faults the store or leaves it as it was.\<close>

lemma wp_emit_builder:
  assumes inv: "store_inv s" "\<not> faulted s"
    and Q: "\<And>s'. store_inv s' \<Longrightarrow> \<not> faulted s' \<Longrightarrow> after_emit s s' \<Longrightarrow> (builder s = [] \<Longrightarrow> s' = s) \<Longrightarrow>
      (builder s \<noteq> [] \<Longrightarrow> dirty s') \<Longrightarrow> Q () s'"
    and E: "\<And>e s'. store_inv s' \<Longrightarrow> faulted s' \<or> s' = s \<Longrightarrow> E e s'"
  shows "wp (emit_builder env) Q E s"
proof (cases "builder s = []")
  case True
  then show ?thesis using inv by (auto simp: emit_builder_def after_emit_def intro: Q)
next
  case False
  let ?o = "ph_options (ps_header (last (partitions s)))"
  have b: "base_inv s" using inv by (simp add: store_inv_def)
  then have act: "active s = Some (last (partitions s))" by (simp add: base_inv_def catalog_active)
  obtain c where c: "codec_for (open_options s) (po_compression ?o) (po_compression_version ?o) = Some c"
    using b by (auto simp: base_inv_def options_ok_def validate_partition_options_def Option.is_none_def
        split: if_splits option.splits)
  show ?thesis
  proof (cases "select_payload c ?o (builder s)")
    case (Inl e)
    then show ?thesis using False b act c E inv by (simp add: emit_builder_def store_inv_faulted)
  next
    case (Inr r)
    obtain payload selected version where r: "r = (payload, selected, version)" by (cases r)
    show ?thesis
      using False act c Inr r inv select_payload_length [of c ?o "builder s"] Q E
      by (auto simp: emit_builder_def store_inv_faulted intro!: wp_emit_frame)
  qed
qed

section \<open>Reserving room\<close>

text \<open>Without \<open>room\<close> in the active partition the store rotates; a new partition always has room.\<close>

lemma wp_ensure_capacity:
  assumes inv: "store_inv s" "\<not> faulted s"
    and Q: "\<And>s'. store_inv s' \<Longrightarrow> \<not> faulted s' \<Longrightarrow> same_config s s' \<Longrightarrow> room (volume s') (last (partitions s')) \<Longrightarrow>
      (builder s \<noteq> [] \<Longrightarrow> s' = s) \<Longrightarrow>
      keys s' = keys s \<or> (\<exists>k. ph_slot k = next_slot s \<and> ph_generation k = ph_generation (ps_header (last (partitions s))) + 1 \<and>
        keys s' = filter (\<lambda>(h, d). ph_slot h \<noteq> next_slot s) (keys s) @ [(k, 4096)]) \<Longrightarrow> Q () s'"
    and E: "\<And>e s'. store_inv s' \<Longrightarrow> faulted s' \<Longrightarrow> E e s'"
  shows "wp (ensure_empty_builder_capacity env) Q E s"
proof (cases "builder s = []")
  case False
  then show ?thesis using inv by (auto simp: ensure_empty_builder_capacity_def store_inv_def intro: Q)
next
  case True
  let ?p = "last (partitions s)" and ?v = "volume s"
  have b: "base_inv s" "index_ok ?v ?p" using inv by (simp_all add: store_inv_def)
  then have act: "active s = Some ?p" and g: "geometry_ok ?v" and opts: "options_ok s (next_options s)"
    by (simp_all add: base_inv_def core_inv_def catalog_active)
  obtain w where w: "align_up (128 + ucast (vh_max_block_payload ?v)) (vh_persistence_quantum ?v) = (w, False)"
    "w \<le> index_begin ?v - 4096" using geometry_okD(7) [OF g] by blast
  have rot: "wp (rotate_internal env (next_options s)) Q E s"
  proof (rule wp_rotate_internal [OF inv True opts])
    fix s' assume s': "store_inv s'" "\<not> faulted s'" "\<not> dirty s'" "same_config s s'" "room (volume s') (last (partitions s'))"
      "keys s' = filter (\<lambda>(h, d). ph_slot h \<noteq> next_slot s) (keys s) @
        [(new_partition_header (volume s) (next_slot s) (ph_generation (ps_header (last (partitions s))) + 1) (next_options s), 4096)]"
    show "Q () s'"
      by (rule Q [OF s'(1,2,4,5)]) (use True s'(6) in \<open>auto simp: new_partition_header_def\<close>)
  qed (auto intro: E store_inv_faulted)
  have stay: "room ?v ?p \<Longrightarrow> Q () s" using inv by (auto intro: Q)
  show ?thesis
    unfolding ensure_empty_builder_capacity_def wp_bind wp_get
    using True act w rot stay by (auto simp: room_def not_less)
qed

section \<open>Public operations\<close>

lemma wp_check_writer [simp]:
  "wp check_writer Q E s =
    (if \<not> writable s then E (Error Io_error ''store is read-only'') s
     else if closed s then E (Error Closed ''store is closed'') s
     else if faulted s then E (fault_status s) s else Q () s)"
  by (simp add: wp_def check_writer_def)

lemma accept_record_partitions [simp]:
  "partitions (accept_record env options data time flags s) = partitions s"
  "volume (accept_record env options data time flags s) = volume s"
  "builder (accept_record env options data time flags s) = builder s @ data"
  "faulted (accept_record env options data time flags s) = faulted s"
  "dirty (accept_record env options data time flags s) = dirty s"
  "media (accept_record env options data time flags s) = media s"
  "open_options (accept_record env options data time flags s) = open_options s"
  "next_options (accept_record env options data time flags s) = next_options s"
  "active_generation (accept_record env options data time flags s) = active_generation s"
  "active_slot (accept_record env options data time flags s) = active_slot s"
  "builder_records (accept_record env options data time flags s) = builder_records s + 1"
  "closed (accept_record env options data time flags s) = closed s"
  by (simp_all add: accept_record_def Let_def)

lemma accept_record_times:
  assumes "builder s \<noteq> [] \<Longrightarrow> builder_min_time s \<le>s builder_max_time s"
  shows "builder_min_time (accept_record env options data time flags s) \<le>s
    builder_max_time (accept_record env options data time flags s)"
  using assms by (auto simp: accept_record_def Let_def smin_def smax_def word_sle_eq word_sless_alt)

lemma accept_record_mirror:
  "mirror_ok s \<Longrightarrow> mirror_ok (accept_record env options data time flags s)"
  by (auto simp: accept_record_def mirror_ok_def Let_def)

lemma store_inv_accept:
  assumes inv: "store_inv s" "\<not> faulted s" and room: "room (volume s) (last (partitions s))"
    and data: "data \<noteq> []" "length (builder s) + length data \<le> unat (vh_max_block_payload (volume s))"
  shows "store_inv (accept_record env options data time flags s)"
proof -
  let ?t = "accept_record env options data time flags s"
  have b: "base_inv s" "\<not> ps_sealed (last (partitions s))" "index_ok (volume s) (last (partitions s))"
    using inv by (simp_all add: store_inv_def)
  have bld: "builder_ok s" and mir: "mirror_ok s" using b(1) by (simp_all add: base_inv_def core_inv_def)
  have lt: "length (builder s) + length data < 2 ^ 32" using data(2) unat_u32_less [of "vh_max_block_payload (volume s)"] by simp
  have pos: "1 \<le> length data" using data(1) by (cases data) auto
  then have cnt: "unat (builder_records s + 1) = unat (builder_records s) + 1"
    using bld lt by (simp add: builder_ok_def unat_word_ariths)
  then have "builder_records s + 1 \<noteq> 0" by (metis add_is_0 one_neq_zero unat_0)
  then have "builder_ok ?t"
    using bld data(2) cnt pos accept_record_times [of s] by (simp add: builder_ok_def)
  moreover have "accounting_ok ?t" using data(1) by (simp add: accounting_ok_def)
  ultimately show ?thesis
    using b room accept_record_mirror [OF mir]
    by (simp add: store_inv_def base_inv_def core_inv_def catalog_ok_def headers_def options_ok_def is_active_def)
qed

text \<open>The bytes fit behind the builder exactly when the code does not emit first.\<close>

lemma fits_builder:
  assumes "length (builder s) \<le> unat (vh_max_block_payload (volume s))" "n \<le> unat (vh_max_block_payload (volume s))"
  shows "(of_nat n :: u64) > ucast (vh_max_block_payload (volume s)) - of_nat (length (builder s)) \<longleftrightarrow>
    unat (vh_max_block_payload (volume s)) < length (builder s) + n"
proof -
  let ?m = "vh_max_block_payload (volume s)"
  have lt: "unat ?m < 2 ^ 32" by (rule unat_u32_less)
  have b: "unat (of_nat (length (builder s)) :: u64) = length (builder s)" "unat (of_nat n :: u64) = n"
    using assms lt by (simp_all add: unat_of_nat)
  have "unat (ucast ?m - of_nat (length (builder s)) :: u64) = unat ?m - length (builder s)"
    using b assms(1) by (simp add: unat_sub word_le_nat_alt)
  then show ?thesis using b assms by (auto simp: word_less_nat_alt)
qed

lemma wp_append_impl:
  assumes inv: "store_inv s"
  shows "wp (append_impl env item time flags expected) (\<lambda>_. store_inv) (\<lambda>_. store_inv) s"
proof (cases "writable s \<and> \<not> closed s \<and> \<not> faulted s \<and> \<not> view_empty item \<and> view_valid item \<and>
    view_size item \<le> unat (vh_max_block_payload (volume s))")
  case False
  then show ?thesis using inv by (auto simp: append_impl_def not_le)
next
  case True
  let ?max = "unat (vh_max_block_payload (volume s))"
  let ?n = "view_size item"
  have bld: "length (builder s) \<le> ?max" using inv by (simp add: store_inv_def base_inv_def core_inv_def builder_ok_def)
  have len: "length (view_bytes item) = ?n" "view_bytes item \<noteq> []"
    using True view_size_bytes [of item] by (auto simp: view_empty_def)
  have first: "wp (if (of_nat ?n :: u64) > ucast (vh_max_block_payload (volume s)) - of_nat (length (builder s))
        then emit_builder env else return_op ())
      (\<lambda>_ t. store_inv t \<and> \<not> faulted t \<and> volume t = volume s \<and> length (builder t) + ?n \<le> ?max) (\<lambda>_. store_inv) s"
    using inv True bld fits_builder [of s ?n]
    by (auto simp: after_emit_def not_less intro!: wp_emit_builder)
  have second: "wp (ensure_empty_builder_capacity env)
      (\<lambda>_ u. store_inv u \<and> \<not> faulted u \<and> room (volume u) (last (partitions u)) \<and>
        length (builder u) + ?n \<le> unat (vh_max_block_payload (volume u))) (\<lambda>_. store_inv) t"
    if "store_inv t" "\<not> faulted t" "volume t = volume s" "length (builder t) + ?n \<le> ?max" for t
    using that by (auto simp: same_config_def intro!: wp_ensure_capacity)
  have third: "active u = Some (last (partitions u))" if "store_inv u" for u :: "'a impl"
    using that by (simp add: store_inv_def base_inv_def catalog_active)
  have guards: "writable s" "\<not> closed s" "\<not> faulted s" "\<not> view_empty item" "view_valid item"
    "\<not> ?max < view_size item" using True by auto
  have last_step: "wp (case active u of None \<Rightarrow> error_op (Error Internal_error ''missing active partition'')
       | Some state \<Rightarrow> let options = ph_options (ps_header state) in
           if \<not> contract_holds expected options
           then error_op (Error Invalid_argument ''active partition contract changed before append'')
           else modify_op (accept_record env options (view_bytes item) time flags)) (\<lambda>_. store_inv) (\<lambda>_. store_inv) u"
    if "store_inv u" "\<not> faulted u" "room (volume u) (last (partitions u))"
      "length (builder u) + ?n \<le> unat (vh_max_block_payload (volume u))" for u
    using that len by (simp add: third store_inv_accept)
  show ?thesis
    unfolding append_impl_def
    apply (simp only: wp_bind wp_get wp_check_writer guards not_True_eq_False not_False_eq_True if_True if_False)
    apply (rule wp_mono [OF first])
     apply (auto intro!: wp_mono [OF second] last_step)
    done
qed

lemma wp_publish: "store_inv s \<Longrightarrow> wp (publish env) (\<lambda>_ s'. store_inv s' \<and> builder s' = []) (\<lambda>_. store_inv) s"
  by (auto simp: publish_def after_emit_def intro!: wp_emit_builder)

lemma store_inv_sync:
  assumes "store_inv s" "base_inv s'" "same_catalog s s'" "\<not> faulted s"
  shows "store_inv s'"
  using assms by (simp add: store_inv_def same_catalog_def)

lemma wp_sync_store:
  assumes "store_inv s" "\<not> faulted s"
    and "\<And>s'. store_inv s' \<Longrightarrow> same_catalog s s' \<Longrightarrow> \<not> faulted s' \<Longrightarrow> dirty s' = (\<not> adv \<and> dirty s) \<Longrightarrow> Q () s'"
    and "\<And>e s'. store_inv s' \<Longrightarrow> faulted s' \<Longrightarrow> E e s'"
  shows "wp (sync_media env adv) Q E s"
proof -
  have b: "base_inv s" using assms(1) by (simp add: store_inv_def)
  show ?thesis
    using b assms(2) by (auto intro!: wp_sync_media_rule assms(3,4) intro: store_inv_sync [OF assms(1)] store_inv_faulted simp: core_invD)
qed

lemma wp_checkpoint:
  "store_inv s \<Longrightarrow> wp (checkpoint env) (\<lambda>_ s'. store_inv s' \<and> builder s' = [] \<and> \<not> dirty s') (\<lambda>_. store_inv) s"
  by (auto simp: checkpoint_def after_emit_def same_catalog_def intro!: wp_emit_builder wp_sync_store split: if_split_asm)

lemma store_inv_mark_closed: "store_inv s \<Longrightarrow> store_inv (mark_closed s)"
  by (simp add: mark_closed_def store_inv_def base_inv_def core_inv_def mirror_ok_def accounting_ok_def builder_ok_def
      headers_def catalog_ok_def is_active_def options_ok_def Let_def)

lemma wp_close: "store_inv s \<Longrightarrow> wp (close env) (\<lambda>_. store_inv) (\<lambda>_. store_inv) s"
  by (auto simp: close_def intro!: wp_emit_builder wp_sync_store store_inv_mark_closed split: if_split_asm)

lemma store_inv_next_options:
  "store_inv s \<Longrightarrow> options_ok s options \<Longrightarrow> store_inv (s\<lparr>next_options := options\<rparr>)"
  by (simp add: store_inv_def base_inv_def core_inv_def mirror_ok_def accounting_ok_def builder_ok_def
      headers_def catalog_ok_def is_active_def options_ok_def)

lemma wp_rotate_store: "store_inv s \<Longrightarrow> wp (rotate_store env options) (\<lambda>_. store_inv) (\<lambda>_. store_inv) s"
  by (auto simp: rotate_store_def options_ok_def after_emit_def store_inv_faulted
      intro!: wp_emit_builder wp_rotate_internal store_inv_next_options)

lemma wp_set_next: "store_inv s \<Longrightarrow> wp (set_next_partition_options options) (\<lambda>_. store_inv) (\<lambda>_. store_inv) s"
  by (auto simp: set_next_partition_options_def options_ok_def intro!: store_inv_next_options)

end
