(* ===== verification/Ring_Recovery.thy ===== *)
theory Ring_Recovery
  imports Ring_Operations
begin

text \<open>
  Reading leaves the store as it is, apart from the media's own bookkeeping; and whatever is on the
  media, a store that \<open>open\<close> returns for writing satisfies the invariant.
\<close>

section \<open>Operations that only read\<close>

named_theorems only_media_intros \<open>operations that change nothing but the media\<close>

definition only_media :: "('s impl, 'a) op \<Rightarrow> bool" where
  "only_media m \<longleftrightarrow> (\<forall>s r s'. m s = Some (r, s') \<longrightarrow> (\<exists>x. s' = s\<lparr>media := x\<rparr>))"

lemma only_mediaD: "only_media m \<Longrightarrow> m s = Some (r, s') \<Longrightarrow> \<exists>x. s' = s\<lparr>media := x\<rparr>"
  by (auto simp: only_media_def)

lemma same_media: "\<exists>x. s = s\<lparr>media := x\<rparr>"
  by (rule exI [of _ "media s"]) simp

lemma only_media_basic [only_media_intros]:
  "only_media (return_op a)" "only_media (error_op e)" "only_media get_op" "only_media (status_op r)"
  by (auto simp: only_media_def op_defs same_media split: if_splits)

lemma only_media_bind [only_media_intros]:
  assumes "only_media m" "\<And>a. only_media (f a)"
  shows "only_media (bind_op m f)"
  unfolding only_media_def
proof (intro allI impI)
  fix s r s' assume "bind_op m f s = Some (r, s')"
  then consider e where "m s = Some (Inl e, s')" | a t where "m s = Some (Inr a, t)" "f a t = Some (r, s')"
    by (auto simp: bind_op_Some)
  then show "\<exists>x. s' = s\<lparr>media := x\<rparr>"
  proof cases
    case 1
    then show ?thesis using assms(1) by (rule only_mediaD [rotated])
  next
    case 2
    then obtain x y where "t = s\<lparr>media := x\<rparr>" "s' = t\<lparr>media := y\<rparr>"
      using only_mediaD [OF assms(1)] only_mediaD [OF assms(2)] by metis
    then have "s' = s\<lparr>media := y\<rparr>" by simp
    then show ?thesis by blast
  qed
qed

lemma only_media_try [only_media_intros]: "only_media m \<Longrightarrow> only_media (try_op m)"
  by (auto simp: only_media_def try_op_def split: option.splits)

lemma only_media_catch [only_media_intros]:
  assumes "only_media m" "\<And>e. only_media (h e)"
  shows "only_media (catch_op m h)"
proof -
  have "catch_op m h = bind_op (try_op m) (\<lambda>r. case r of Inl e \<Rightarrow> h e | Inr a \<Rightarrow> return_op a)"
    by (auto simp: op_defs fun_eq_iff split: option.splits sum.splits)
  then show ?thesis using assms
    by (auto intro!: only_media_bind only_media_try only_media_basic split: sum.split)
qed

lemma only_media_let [only_media_intros]: "only_media (f x) \<Longrightarrow> only_media (Let x f)"
  by simp

lemma only_media_if [only_media_intros]:
  "(b \<Longrightarrow> only_media m) \<Longrightarrow> (\<not> b \<Longrightarrow> only_media n) \<Longrightarrow> only_media (if b then m else n)"
  by simp

lemma only_media_cases [only_media_intros]:
  "(\<And>e. only_media (g e)) \<Longrightarrow> (\<And>a. only_media (h a)) \<Longrightarrow> only_media (case r of Inl e \<Rightarrow> g e | Inr a \<Rightarrow> h a)"
  "only_media n \<Longrightarrow> (\<And>a. only_media (k a)) \<Longrightarrow> only_media (case q of None \<Rightarrow> n | Some a \<Rightarrow> k a)"
  "(\<And>a b. only_media (l a b)) \<Longrightarrow> only_media (case z of (a, b) \<Rightarrow> l a b)"
  by (auto split: sum.split option.split prod.split)

lemma only_media_read [only_media_intros]: "only_media (read_media env off n)"
  by (auto simp: only_media_def read_media_def split: option.splits)

lemma only_media_read_partition_header [only_media_intros]: "only_media (read_partition_header env slot)"
  unfolding read_partition_header_def by (intro only_media_intros)

lemma only_media_read_footer [only_media_intros]: "only_media (read_footer env header)"
  unfolding read_footer_def by (intro only_media_intros)

lemma only_media_scan_block [only_media_intros]: "only_media (scan_block env header limit at)"
  unfolding scan_block_def by (intro only_media_intros)

lemma only_media_scan_loop [only_media_intros]: "only_media (scan_loop env header limit at entries)"
  unfolding only_media_def
proof (intro allI impI)
  fix s r s' assume "scan_loop env header limit at entries s = Some (r, s')"
  then show "\<exists>x. s' = s\<lparr>media := x\<rparr>"
  proof (induction env header limit at entries s rule: scan_loop.induct)
    case (1 env header limit at entries s)
    show ?case
    proof (cases "scan_block env header limit at s")
      case None
      then show ?thesis using 1(2) same_media [of s] by (auto simp: scan_loop.simps [of env header limit at entries s] split: if_splits)
    next
      case (Some t)
      obtain res u where t: "t = (res, u)" by (cases t)
      then obtain x where u: "u = s\<lparr>media := x\<rparr>"
        using only_mediaD [OF only_media_scan_block] Some by blast
      show ?thesis
        using 1(2) 1(1) [OF _ Some t [symmetric]] Some t u same_media [of s]
        by (fastforce simp: scan_loop.simps [of env header limit at entries s] split: if_splits sum.splits option.splits)
    qed
  qed
qed

lemma only_media_scan_partition [only_media_intros]: "only_media (scan_partition env header limit)"
  unfolding scan_partition_def by (intro only_media_intros)

lemma only_media_load_index [only_media_intros]: "only_media (load_index env state)"
  unfolding load_index_def by (intro only_media_intros)

lemma only_media_classify [only_media_intros]: "only_media (classify_snapshot_failure env part e)"
  unfolding classify_snapshot_failure_def by (intro only_media_intros)

lemma only_media_decode_block [only_media_intros]: "only_media (decode_block env part entry block stored)"
  unfolding decode_block_def by (intro only_media_intros)

lemma only_media_read_block [only_media_intros]: "only_media (read_block env part entry)"
  unfolding read_block_def by (intro only_media_intros)

lemma only_media_verify_blocks [only_media_intros]: "only_media (verify_blocks env state entries)"
  by (induction entries) (simp_all only: verify_blocks.simps only_media_intros)

lemma only_media_verify_sealed [only_media_intros]: "only_media (verify_sealed env state)"
  unfolding verify_sealed_def by (intro only_media_intros)

lemma only_media_recover_partition [only_media_intros]: "only_media (recover_partition env header)"
  unfolding recover_partition_def by (intro only_media_intros)

lemma only_media_acquire [only_media_intros]:
  "only_media (first_index env part)" "only_media (acquire_index env part)"
  unfolding acquire_index_def first_index_def by (intro only_media_intros)+

section \<open>What a scan returns\<close>

text \<open>
  The scan's own invariant: the cursor is aligned and inside the data region, and the entries so
  far are a contiguous index that ends at the cursor.
\<close>

definition scan_inv :: "volume_header \<Rightarrow> u64 \<Rightarrow> scan_position \<Rightarrow> index_entry list \<Rightarrow> bool" where
  "scan_inv v limit at entries \<longleftrightarrow>
     4096 \<le> sp_cursor at \<and> sp_cursor at \<le> limit \<and> limit \<le> index_begin v \<and>
     sp_cursor at mod ucast (vh_persistence_quantum v) = 0 \<and>
     sp_sequence at = of_nat (length entries) \<and>
     (unat (vh_max_block_payload v) + 128 < 2 ^ 32 \<and> length entries < 2 ^ 32 \<longrightarrow>
        check_index v 0 4096 entries = Inr (sp_cursor at))"

lemma scan_inv_step:
  assumes inv: "scan_inv v limit at entries" and acc: "scan_accepts v header limit at block"
  shows "scan_inv v limit (scan_next at block) (entries @ [scan_entry (sp_cursor at) block])"
proof -
  let ?span = "ucast (bh_frame_span block) :: u64" and ?q = "vh_persistence_quantum v"
  have le: "sp_cursor at \<le> limit" "4096 \<le> sp_cursor at" "limit \<le> index_begin v" and al: "sp_cursor at mod ucast ?q = 0"
    and seq: "sp_sequence at = of_nat (length entries)"
    using inv by (simp_all add: scan_inv_def)
  have span: "?span \<le> limit - sp_cursor at" by (rule scan_accepts_span(1) [OF acc])
  have sum: "unat (sp_cursor at + ?span) = unat (sp_cursor at) + unat ?span"
    "unat (sp_cursor at) + unat ?span \<le> unat limit"
    using span le unat_u64_less [of limit] by (simp_all add: unat_word_ariths word_le_nat_alt unat_sub)
  have spanq: "bh_frame_span block mod ?q = 0" using acc by (simp add: scan_accepts_def)
  have al': "(sp_cursor at + ?span) mod ucast ?q = 0"
    using al ucast_mod_eq_0 [OF spanq] sum(1) by (simp add: word_unat_eq_iff unat_mod mod_eq_0_iff_dvd)
  have chk: "check_index v 0 4096 (entries @ [scan_entry (sp_cursor at) block]) = Inr (sp_cursor at + ?span)"
    if small: "unat (vh_max_block_payload v) + 128 < 2 ^ 32" "length entries < 2 ^ 32"
  proof -
    have st: "bh_stored_size block \<le> vh_max_block_payload v" using acc by (simp add: scan_accepts_def not_less)
    have fs: "unat (128 + bh_stored_size block) = 128 + unat (bh_stored_size block)"
      "unat (128 + vh_max_block_payload v) = 128 + unat (vh_max_block_payload v)"
      using small(1) st by (simp_all add: unat_word_ariths word_le_nat_alt)
    then have wide: "(ucast (128 + bh_stored_size block) :: u64) = 128 + ucast (bh_stored_size block)"
      using unat_u32_less [of "bh_stored_size block"] by (simp add: word_unat_eq_iff unat_word_ariths)
    have al_up: "align_up (128 + ucast (bh_stored_size block)) ?q = (?span, False)"
      using acc by (auto simp: scan_accepts_def Let_def split: prod.splits)
    have "limit - sp_cursor at \<le> index_begin v - sp_cursor at"
      using le by (simp add: word_le_nat_alt unat_sub)
    then have "?span \<le> index_begin v - sp_cursor at" using span by simp
    then have "accept_index_entry v (length entries) (sp_cursor at) (scan_entry (sp_cursor at) block) = Ok"
      using acc st fs small(2)
      by (simp add: accept_index_entry_def scan_entry_def Let_def wide al_up scan_accepts_def seq unat_of_nat
          word_less_nat_alt word_le_nat_alt not_less)
    then show ?thesis
      using check_index_snoc [of v 0 4096 entries "sp_cursor at" "scan_entry (sp_cursor at) block"] inv small
      by (simp add: scan_inv_def scan_entry_def)
  qed
  show ?thesis using le al' sum chk seq
    by (simp add: scan_inv_def scan_next_def word_le_nat_alt del: of_nat_Suc) (simp add: add.commute)
qed

lemma scan_loop_inv:
  assumes "scan_loop env header limit at entries s = Some (Inr (es, data_end, corrupt), s')"
    "scan_inv (volume s) limit at entries"
  shows "\<exists>at'. scan_inv (volume s) limit at' es \<and> sp_cursor at' = data_end"
  using assms
proof (induction env header limit at entries s rule: scan_loop.induct)
  case (1 env header limit at entries s)
  show ?case
  proof (cases "sp_cursor at + 128 \<le> limit")
    case False
    then show ?thesis using 1(2,3) by (auto simp: scan_loop.simps [of env header limit at entries s])
  next
    case True
    then obtain res t where sb: "scan_block env header limit at s = Some (Inr res, t)"
      using 1(2) by (auto simp: scan_loop.simps [of env header limit at entries s] split: option.splits sum.splits prod.splits)
    show ?thesis
    proof (cases res)
      case None
      then show ?thesis using 1(2,3) True sb by (auto simp: scan_loop.simps [of env header limit at entries s])
    next
      case (Some block)
      obtain x where t: "t = s\<lparr>media := x\<rparr>" using only_mediaD [OF only_media_scan_block sb] by blast
      have "scan_inv (volume s) limit (scan_next at block) (entries @ [scan_entry (sp_cursor at) block])"
        using scan_inv_step [OF 1(3) scan_block_accepts] sb Some by blast
      then show ?thesis
        using 1(1) [OF True sb refl refl Some] 1(2) True sb Some t
        by (simp add: scan_loop.simps [of env header limit at entries s])
    qed
  qed
qed

lemma fold_add_time_simps [simp]:
  "ps_active_index (fold add_time es p) = ps_active_index p" "ps_data_end (fold add_time es p) = ps_data_end p"
  "ps_header (fold add_time es p) = ps_header p" "ps_sealed (fold add_time es p) = ps_sealed p"
  "ps_block_count (fold add_time es p) = ps_block_count p"
  by (induction es arbitrary: p; simp add: add_time_def Let_def)+

lemma summarize_simps [simp]:
  "ps_active_index (summarize p) = ps_active_index p" "ps_data_end (summarize p) = ps_data_end p"
  "ps_header (summarize p) = ps_header p" "ps_sealed (summarize p) = ps_sealed p"
  by (simp_all add: summarize_def)

lemma fold_add_time_other:
  "ps_index_valid (fold add_time es p) = ps_index_valid p" "ps_footer (fold add_time es p) = ps_footer p"
  by (induction es arbitrary: p; simp add: add_time_def Let_def)+

lemma summarize_idem: "summarize (summarize p) = summarize p"
proof (cases "ps_active_index p = []")
  case False
  let ?es = "ps_active_index p"
  define q where "q = p\<lparr>ps_aggregate_flags := 0, ps_has_time := False, ps_block_count := of_nat (length ?es)\<rparr>"
  define r where "r = fold add_time ?es q"
  have sum: "summarize p = r" by (simp add: summarize_def q_def r_def)
  have "summarize r = fold add_time ?es (r\<lparr>ps_aggregate_flags := 0, ps_has_time := False, ps_block_count := of_nat (length ?es)\<rparr>)"
    by (simp add: summarize_def r_def q_def)
  also have "r\<lparr>ps_aggregate_flags := 0, ps_has_time := False, ps_block_count := of_nat (length ?es)\<rparr> =
      q\<lparr>ps_has_time := False, ps_min_time_ns := ps_min_time_ns r, ps_max_time_ns := ps_max_time_ns r\<rparr>"
    by (rule partition_state.equality) (simp_all add: r_def q_def fold_add_time_other)
  also have "fold add_time ?es \<dots> = fold add_time ?es (q\<lparr>ps_has_time := False\<rparr>)"
    by (rule fold_add_time_restart [OF False])
  also have "q\<lparr>ps_has_time := False\<rparr> = q" by (simp add: q_def)
  finally show ?thesis by (simp add: sum r_def)
qed (simp add: summarize_def)

lemma scan_partition_index_ok:
  assumes "scan_partition env header 0 s = Some (Inr (es, data_end, corrupt), s')" "geometry_ok (volume s)"
  shows "index_ok (volume s) (summarize ((new_partition_state header)\<lparr>ps_active_index := es, ps_data_end := data_end\<rparr>))"
proof -
  let ?v = "volume s"
  note g = geometry_okD [OF assms(2)]
  have start: "scan_inv ?v (index_begin ?v) scan_start []"
    using g by (simp add: scan_inv_def scan_start_def)
  have "scan_loop env header (index_begin ?v) scan_start [] s = Some (Inr (es, data_end, corrupt), s')"
    using assms(1) g(6) by (simp add: scan_partition_def bind_op_def Let_def not_less split: if_splits)
  then obtain at where at: "scan_inv ?v (index_begin ?v) at es" "sp_cursor at = data_end"
    using scan_loop_inv [OF _ start] by blast
  have "length es < 2 ^ 32" if "length es \<le> unat (vh_index_region_size ?v div 48)"
    using that unat_u32_less [of "vh_index_region_size ?v div 48"] by linarith
  then show ?thesis using at by (simp add: index_ok_def scan_inv_def summarize_idem)
qed

section \<open>Rebuilding the catalog\<close>

lemma wp_only_media:
  assumes "only_media m"
    "\<And>a x. m s = Some (Inr a, s\<lparr>media := x\<rparr>) \<Longrightarrow> Q a (s\<lparr>media := x\<rparr>)"
    "\<And>e x. m s = Some (Inl e, s\<lparr>media := x\<rparr>) \<Longrightarrow> E e (s\<lparr>media := x\<rparr>)"
  shows "wp m Q E s"
proof (rule wpI)
  fix a s' assume m: "m s = Some (Inr a, s')"
  from only_mediaD [OF assms(1) m] obtain x where "s' = s\<lparr>media := x\<rparr>" by blast
  then show "Q a s'" using assms(2) m by simp
next
  fix e s' assume m: "m s = Some (Inl e, s')"
  from only_mediaD [OF assms(1) m] obtain x where "s' = s\<lparr>media := x\<rparr>" by blast
  then show "E e s'" using assms(3) m by simp
qed

lemma read_partition_header_accepts:
  "read_partition_header env slot s = Some (Inr header, s') \<Longrightarrow>
    status_ok (accept_partition_header (volume s) (open_options s) slot header)"
  by (auto simp: read_partition_header_def bind_op_def status_op_def split: option.splits sum.splits if_splits)

lemma accept_partition_headerD:
  "status_ok (accept_partition_header v oo slot header) \<Longrightarrow>
    ph_slot header = slot \<and> status_ok (validate_partition_options oo (ph_options header))"
  by (auto simp: accept_partition_header_def Let_def split: if_splits)

lemma recover_partition_state:
  assumes "recover_partition env header s = Some (Inr state, s')" "geometry_ok (volume s)"
  shows "ps_header state = header \<and> (\<not> ps_sealed state \<longrightarrow> index_ok (volume s) state)"
proof -
  obtain r t where r: "read_footer env header s = Some (r, t)"
    using assms(1) by (auto simp: recover_partition_def bind_op_def try_op_def Let_def split: option.splits sum.splits)
  then obtain x where t: "t = s\<lparr>media := x\<rparr>" using only_mediaD [OF only_media_read_footer] by blast
  show ?thesis
  proof (cases r)
    case (Inr footer)
    then have "state = sealed_state header footer"
      using assms(1) r by (auto simp: recover_partition_def bind_op_def try_op_def Let_def split: option.splits sum.splits if_splits)
    then show ?thesis by (simp add: sealed_state_def new_partition_state_def)
  next
    case (Inl e)
    then obtain es data_end corrupt u where scan: "scan_partition env header 0 t = Some (Inr (es, data_end, corrupt), u)"
      and st: "state = summarize ((new_partition_state header)\<lparr>ps_active_index := es, ps_data_end := data_end\<rparr>)"
      using assms(1) r by (auto simp: recover_partition_def bind_op_def try_op_def Let_def split: option.splits sum.splits if_splits)
    have "index_ok (volume s) state"
      unfolding st using scan_partition_index_ok [OF scan] assms(2) t by simp
    then show ?thesis by (simp add: st new_partition_state_def)
  qed
qed

text \<open>The partitions found so far: distinct slots and generations, and the newest has its index.\<close>

definition found_ok :: "'s impl \<Rightarrow> bool" where
  "found_ok s \<longleftrightarrow>
     distinct (map ph_slot (headers s)) \<and> distinct (map ph_generation (headers s)) \<and>
     (\<forall>h \<in> set (headers s). ph_generation h \<noteq> 0 \<and> ph_slot h < vh_partition_count (volume s) \<and>
        options_ok s (ph_options h)) \<and>
     (\<forall>p \<in> set (partitions s). \<not> ps_sealed p \<and> (\<forall>h \<in> set (headers s). ph_generation h \<le> ph_generation (ps_header p)) \<longrightarrow>
        index_ok (volume s) p)"

text \<open>What recovery leaves alone.\<close>

definition same_fresh :: "'s impl \<Rightarrow> 's impl \<Rightarrow> bool" where
  "same_fresh s s' \<longleftrightarrow> (\<exists>m p c. s' = s\<lparr>media := m, partitions := p, corrupt_slots := c\<rparr>)"

lemma same_fresh_media: "same_fresh s (s\<lparr>media := m\<rparr>)"
  unfolding same_fresh_def by (intro exI [of _ m] exI [of _ "partitions s"] exI [of _ "corrupt_slots s"]) simp

lemma same_fresh_trans: "same_fresh s t \<Longrightarrow> same_fresh t u \<Longrightarrow> same_fresh s u"
  by (auto simp: same_fresh_def) blast

lemma fold_max_ge:
  "(n :: u64) \<le> fold (\<lambda>p n. max n (f p)) ps n" "p \<in> set ps \<Longrightarrow> f p \<le> fold (\<lambda>p n. max n (f p)) ps n"
  by (induction ps arbitrary: n) (auto intro: order_trans [OF max.cobounded1] order_trans [OF max.cobounded2])

lemma fold_max_mem: "fold (\<lambda>p n. max n (f p)) ps (n :: u64) = n \<or> (\<exists>p \<in> set ps. fold (\<lambda>p n. max n (f p)) ps n = f p)"
proof (induction ps arbitrary: n)
  case (Cons a ps)
  from Cons [of "max n (f a)"] show ?case by (auto simp: max_def split: if_splits)
qed simp

lemma headers_drop_old: "map ps_header (drop_old_indexes ps) = map ps_header ps"
  by (simp add: drop_old_indexes_def Let_def)

lemma drop_old_newest:
  assumes "p \<in> set (drop_old_indexes ps)" "\<not> ps_sealed p" "\<forall>q \<in> set ps. ph_generation (ps_header q) \<le> ph_generation (ps_header p)"
  shows "p \<in> set ps"
proof -
  let ?m = "fold (\<lambda>p n. max n (ph_generation (ps_header p))) ps 0"
  obtain q where q: "q \<in> set ps" "p = (if \<not> ps_sealed q \<and> ph_generation (ps_header q) \<noteq> ?m then q\<lparr>ps_active_index := []\<rparr> else q)"
    using assms(1) by (auto simp: drop_old_indexes_def Let_def)
  have gen: "ph_generation (ps_header p) = ph_generation (ps_header q)" using q(2) by simp
  have "?m \<le> ph_generation (ps_header q)"
    using fold_max_mem [of "\<lambda>p. ph_generation (ps_header p)" ps 0] assms(3) gen by auto
  moreover have "ph_generation (ps_header q) \<le> ?m" using fold_max_ge(2) [of q ps "\<lambda>p. ph_generation (ps_header p)" 0] q(1) by simp
  ultimately have "ph_generation (ps_header q) = ?m" by simp
  then have "p = q" using q(2) by simp
  then show ?thesis using q(1) by simp
qed

lemma found_ok_add:
  assumes "found_ok s" "ph_slot (ps_header st) \<notin> set (map ph_slot (headers s))"
    "ph_generation (ps_header st) \<notin> set (map ph_generation (headers s))" "ph_generation (ps_header st) \<noteq> 0"
    "ph_slot (ps_header st) < vh_partition_count (volume s)" "options_ok s (ph_options (ps_header st))"
    "\<not> ps_sealed st \<longrightarrow> index_ok (volume s) st"
  shows "found_ok (s\<lparr>partitions := drop_old_indexes (partitions s @ [st])\<rparr>)"
proof -
  let ?t = "s\<lparr>partitions := drop_old_indexes (partitions s @ [st])\<rparr>"
  have hs: "headers ?t = headers s @ [ps_header st]" by (simp add: headers_def headers_drop_old)
  have idx: "index_ok (volume s) p"
    if "p \<in> set (partitions ?t)" "\<not> ps_sealed p" "\<forall>h \<in> set (headers ?t). ph_generation h \<le> ph_generation (ps_header p)" for p
  proof -
    have "\<forall>q \<in> set (partitions s @ [st]). ph_generation (ps_header q) \<le> ph_generation (ps_header p)"
      using that(3) unfolding hs by (auto simp: headers_def)
    then have "p \<in> set (partitions s @ [st])" using drop_old_newest [of p "partitions s @ [st]"] that by simp
    then show ?thesis using that assms(1,7) hs by (auto simp: found_ok_def)
  qed
  show ?thesis using assms idx by (auto simp: found_ok_def hs options_ok_def)
qed

lemma wp_damaged_slot:
  assumes "found_ok s"
  shows "wp (damaged_slot env slot e) (\<lambda>_ s'. partitions s' = partitions s \<and> same_fresh s s') (\<lambda>_ _. True) s"
proof -
  have m: "same_fresh s (s\<lparr>media := m\<rparr>)" "same_fresh s (s\<lparr>media := m, corrupt_slots := c\<rparr>)" for m c
    unfolding same_fresh_def
    by (intro exI [of _ m] exI [of _ "partitions s"] exI [of _ "corrupt_slots s"], simp)
      (intro exI [of _ m] exI [of _ "partitions s"] exI [of _ c], simp)
  show ?thesis
    unfolding damaged_slot_def by (auto simp: Let_def m intro!: wp_rules split: sum.split)
qed

lemma found_ok_same:
  "found_ok s \<Longrightarrow> same_fresh s s' \<Longrightarrow> partitions s' = partitions s \<Longrightarrow> found_ok s'"
  by (auto simp: same_fresh_def found_ok_def headers_def options_ok_def)

lemma same_freshD:
  "same_fresh s s' \<Longrightarrow> volume s' = volume s \<and> open_options s' = open_options s \<and> writable s' = writable s"
  by (auto simp: same_fresh_def)

lemma wp_recover_slot:
  assumes inv: "found_ok s" "geometry_ok (volume s)" and gens: "generations = set (map ph_generation (headers s))"
    and slot: "slot \<notin> set (map ph_slot (headers s))" "slot < vh_partition_count (volume s)"
  shows "wp (recover_slot env slot generations)
    (\<lambda>g s'. found_ok s' \<and> same_fresh s s' \<and> g = set (map ph_generation (headers s')) \<and>
       set (map ph_slot (headers s')) \<subseteq> insert slot (set (map ph_slot (headers s)))) (\<lambda>_ _. True) s"
proof -
  let ?Q = "\<lambda>g s'. found_ok s' \<and> same_fresh s s' \<and> g = set (map ph_generation (headers s')) \<and>
       set (map ph_slot (headers s')) \<subseteq> insert slot (set (map ph_slot (headers s)))"
  have damaged: "wp (damaged_slot env slot e) (\<lambda>_. wp (return_op generations) ?Q (\<lambda>_ _. True)) (\<lambda>_ _. True) (s\<lparr>media := x\<rparr>)" for e x
  proof (rule wp_mono [OF wp_damaged_slot])
    show f: "found_ok (s\<lparr>media := x\<rparr>)" using found_ok_same [OF inv(1) same_fresh_media] by simp
    fix a s' assume s': "partitions s' = partitions (s\<lparr>media := x\<rparr>) \<and> same_fresh (s\<lparr>media := x\<rparr>) s'"
    then have "found_ok s'" "same_fresh s s'" "headers s' = headers s"
      using found_ok_same [OF f] same_fresh_trans [OF same_fresh_media] by (auto simp: headers_def)
    then show "wp (return_op generations) ?Q (\<lambda>_ _. True) s'" using gens by auto
  qed simp
  have good: "wp (recover_partition env header) (\<lambda>state.
       wp (bind_op (modify_op (\<lambda>s. s\<lparr>partitions := drop_old_indexes (partitions s @ [state])\<rparr>)) (\<lambda>_.
             return_op (insert (ph_generation header) generations))) ?Q (\<lambda>_ _. True)) (\<lambda>_ _. True) (s\<lparr>media := x\<rparr>)"
    if h: "ph_slot header = slot" "options_ok s (ph_options header)" "ph_generation header \<noteq> 0"
      "ph_generation header \<notin> generations" for header x
  proof (rule wp_only_media [OF only_media_recover_partition], goal_cases)
    case (1 state y)
    let ?t = "s\<lparr>media := y\<rparr>"
    have st: "ps_header state = header" "\<not> ps_sealed state \<longrightarrow> index_ok (volume s) state"
      using recover_partition_state [OF 1] inv(2) by auto
    have f: "found_ok ?t" using found_ok_same [OF inv(1) same_fresh_media] by simp
    have ht: "headers ?t = headers s" by (simp add: headers_def)
    have "found_ok (?t\<lparr>partitions := drop_old_indexes (partitions ?t @ [state])\<rparr>)"
      using st h slot gens by (intro found_ok_add [OF f]) (auto simp: ht options_ok_def)
    moreover have "same_fresh s (?t\<lparr>partitions := drop_old_indexes (partitions s @ [state])\<rparr>)"
      unfolding same_fresh_def by (intro exI [of _ y] exI [of _ "drop_old_indexes (partitions s @ [state])"]
          exI [of _ "corrupt_slots s"]) simp
    moreover have "headers (?t\<lparr>partitions := drop_old_indexes (partitions s @ [state])\<rparr>) = headers s @ [header]"
      by (simp add: headers_def headers_drop_old st)
    ultimately show ?case using gens h by auto
  qed simp
  have acc: "ph_slot header = slot \<and> options_ok s (ph_options header)"
    if "read_partition_header env slot s = Some (Inr header, t)" for header t
    using accept_partition_headerD [OF read_partition_header_accepts [OF that]] by (simp add: options_ok_def)
  show ?thesis
    unfolding recover_slot_def wp_bind wp_try
    by (rule wp_only_media [OF only_media_read_partition_header]) (use acc good damaged in auto)
qed

lemma wp_recover_slots:
  assumes "found_ok s" "geometry_ok (volume s)" "generations = set (map ph_generation (headers s))"
    "distinct slots" "set slots \<inter> set (map ph_slot (headers s)) = {}" "\<forall>x \<in> set slots. x < vh_partition_count (volume s)"
  shows "wp (recover_slots env slots generations) (\<lambda>_ s'. found_ok s' \<and> same_fresh s s') (\<lambda>_ _. True) s"
  using assms
proof (induction slots arbitrary: s generations)
  case Nil
  then show ?case using same_fresh_media [of s "media s"] by (simp add: wp_def)
next
  case (Cons slot slots)
  show ?case
    unfolding recover_slots.simps wp_bind
  proof (rule wp_mono [OF wp_recover_slot])
    fix g s'
    assume s': "found_ok s' \<and> same_fresh s s' \<and> g = set (map ph_generation (headers s')) \<and>
       set (map ph_slot (headers s')) \<subseteq> insert slot (set (map ph_slot (headers s)))"
    have "set slots \<inter> insert slot (set (map ph_slot (headers s))) = {}" using Cons.prems(4,5) by auto
    then have disj: "set slots \<inter> set (map ph_slot (headers s')) = {}" using s' by blast
    have vol: "volume s' = volume s" using s' same_freshD [of s s'] by simp
    have "wp (recover_slots env slots g) (\<lambda>_ u. found_ok u \<and> same_fresh s' u) (\<lambda>_ _. True) s'"
      using s' Cons.prems(2,4,6) by (intro Cons.IH disj) (simp_all add: vol)
    then show "wp (recover_slots env slots g) (\<lambda>_ u. found_ok u \<and> same_fresh s u) (\<lambda>_ _. True) s'"
      by (rule wp_mono) (use s' same_fresh_trans in blast)+
  qed (use Cons.prems in auto)
qed

lemma slots_of_ok: "distinct (slots_of v)" "x \<in> set (slots_of v) \<Longrightarrow> x < vh_partition_count v"
proof -
  have lt: "unat (vh_partition_count v) < 2 ^ 32" by (rule unat_u32_less)
  have "inj_on (of_nat :: nat \<Rightarrow> u32) {0..<unat (vh_partition_count v)}"
    using lt by (auto simp: inj_on_def word_of_nat_eq_iff take_bit_nat_eq_self)
  then show "distinct (slots_of v)" by (simp add: slots_of_def distinct_map)
  show "x \<in> set (slots_of v) \<Longrightarrow> x < vh_partition_count v"
    using lt by (auto simp: slots_of_def word_less_nat_alt unat_of_nat)
qed

section \<open>Opening for writing\<close>

lemma settle_cases:
  obtains (none) "partitions s = []" "partitions (settle_catalog s) = []"
  | (some) ps p where "sort_key (\<lambda>p. ph_generation (ps_header p)) (partitions s) = ps @ [p]"
      "partitions (settle_catalog s) = map (\<lambda>p. if \<not> ps_sealed p then p\<lparr>ps_active_index := []\<rparr> else p) ps @ [p]"
      "active_generation (settle_catalog s) = ph_generation (ps_header p)"
      "active_slot (settle_catalog s) = ph_slot (ps_header p)"
proof (cases "sort_key (\<lambda>p. ph_generation (ps_header p)) (partitions s)" rule: rev_cases)
  case Nil
  then have "partitions s = []" by (metis length_0_conv length_sort)
  then show ?thesis using none by (simp add: settle_catalog_def)
next
  case (snoc ps p)
  then show ?thesis using some [of ps p] by (simp add: settle_catalog_def Let_def)
qed

lemma headers_settle:
  "headers (settle_catalog s) = map ps_header (sort_key (\<lambda>p. ph_generation (ps_header p)) (partitions s))"
  by (cases s rule: settle_cases) (auto simp: headers_def)

lemma settle_sorted:
  assumes "found_ok s"
  shows "catalog_sorted (volume s) (headers (settle_catalog s))"
proof -
  let ?ps = "sort_key (\<lambda>p. ph_generation (ps_header p)) (partitions s)"
  have "sorted (map (\<lambda>p. ph_generation (ps_header p)) ?ps)" by simp
  moreover have dg: "distinct (map (\<lambda>p. ph_generation (ps_header p)) ?ps)"
    using assms by (auto simp: found_ok_def headers_def distinct_map comp_def inj_on_def)
  ultimately have "sorted_wrt (<) (map (\<lambda>p. ph_generation (ps_header p)) ?ps)"
    by (simp only: strict_sorted_iff)
  then have "sorted_wrt (\<lambda>h k. ph_generation h < ph_generation k) (map ps_header ?ps)"
    by (simp add: sorted_wrt_map)
  moreover have "distinct (map ph_slot (map ps_header ?ps))"
    using assms by (auto simp: found_ok_def headers_def distinct_map comp_def inj_on_def)
  ultimately show ?thesis
    using assms unfolding headers_settle by (auto simp: catalog_sorted_def found_ok_def headers_def word_gt_0)
qed

lemma settle_last:
  assumes "partitions s \<noteq> []"
  shows "partitions (settle_catalog s) \<noteq> []" "last (partitions (settle_catalog s)) \<in> set (partitions s)"
    "is_active (settle_catalog s) (last (partitions (settle_catalog s)))"
    "\<forall>h \<in> set (headers s). ph_generation h \<le> ph_generation (ps_header (last (partitions (settle_catalog s))))"
proof -
  obtain ps p where s: "sort_key (\<lambda>p. ph_generation (ps_header p)) (partitions s) = ps @ [p]"
      "partitions (settle_catalog s) = map (\<lambda>p. if \<not> ps_sealed p then p\<lparr>ps_active_index := []\<rparr> else p) ps @ [p]"
      "active_generation (settle_catalog s) = ph_generation (ps_header p)"
      "active_slot (settle_catalog s) = ph_slot (ps_header p)"
    using assms by (cases s rule: settle_cases) auto
  have set: "set (partitions s) = set (ps @ [p])" using s(1) by (metis set_sort)
  have "sorted (map (\<lambda>p. ph_generation (ps_header p)) (ps @ [p]))" unfolding s(1) [symmetric] by simp
  then have "\<forall>q \<in> set (ps @ [p]). ph_generation (ps_header q) \<le> ph_generation (ps_header p)"
    by (auto simp: sorted_wrt_append)
  then show "\<forall>h \<in> set (headers s). ph_generation h \<le> ph_generation (ps_header (last (partitions (settle_catalog s))))"
    by (simp add: headers_def set s(2))
  show "partitions (settle_catalog s) \<noteq> []" "last (partitions (settle_catalog s)) \<in> set (partitions s)"
    "is_active (settle_catalog s) (last (partitions (settle_catalog s)))"
    by (simp_all add: s set is_active_def)
qed

text \<open>What is left of a new store's state after the catalog is settled.\<close>

lemma settled_core:
  assumes "geometry_ok v" "status_ok (validate_partition_options options (oo_next_partition options))"
    "same_fresh (new_impl m v options hi lo) s" "found_ok s"
  shows "core_inv (settle_catalog s)" "\<not> faulted (settle_catalog s)" "\<not> dirty (settle_catalog s)"
    "builder (settle_catalog s) = []" "volume (settle_catalog s) = v" "open_options (settle_catalog s) = options"
proof -
  obtain x p c where s: "s = (new_impl m v options hi lo)\<lparr>media := x, partitions := p, corrupt_slots := c\<rparr>"
    using assms(3) by (auto simp: same_fresh_def)
  have sorted: "catalog_sorted v (headers (settle_catalog s))"
    using settle_sorted [OF assms(4)] by (simp add: s new_impl_def)
  show "\<not> faulted (settle_catalog s)" "\<not> dirty (settle_catalog s)" "builder (settle_catalog s) = []"
    and v: "volume (settle_catalog s) = v" and o: "open_options (settle_catalog s) = options"
    by (simp_all add: s settle_catalog_def new_impl_def Let_def)
  have "mirror_ok (settle_catalog s)" "accounting_ok (settle_catalog s)" "builder_ok (settle_catalog s)"
    "next_options (settle_catalog s) = oo_next_partition options"
    by (simp_all add: s settle_catalog_def new_impl_def Let_def mirror_ok_def accounting_ok_def builder_ok_def
        new_health_def zero_metrics_def)
  then show "core_inv (settle_catalog s)"
    using sorted assms(1,2) by (simp add: core_inv_def v o options_ok_def)
qed

lemma store_inv_settled:
  assumes "core_inv (settle_catalog s)" "found_ok s" "partitions s \<noteq> []"
    "\<not> ps_sealed (last (partitions (settle_catalog s)))" "builder (settle_catalog s) = []"
  shows "store_inv (settle_catalog s)"
proof -
  let ?p = "last (partitions (settle_catalog s))"
  note l = settle_last [OF assms(3)]
  have same: "volume (settle_catalog s) = volume s" "open_options (settle_catalog s) = open_options s"
    by (simp_all add: settle_catalog_def Let_def)
  have "index_ok (volume s) ?p" using assms(2,4) l(2,4) by (auto simp: found_ok_def)
  moreover have "options_ok s (ph_options (ps_header ?p))"
    using assms(2) l(2) by (auto simp: found_ok_def headers_def)
  ultimately show ?thesis
    using assms l by (simp add: store_inv_def base_inv_def core_inv_def catalog_ok_def options_ok_def same)
qed

lemma wp_start_writing:
  assumes geo: "geometry_ok v" and opts: "status_ok (validate_partition_options options (oo_next_partition options))"
    and fresh: "same_fresh (new_impl m v options hi lo) s" and found: "found_ok s"
  shows "wp (start_writing env) (\<lambda>_ s'. store_inv s' \<and> \<not> faulted s') (\<lambda>_ _. True) (settle_catalog s)"
proof -
  let ?t = "settle_catalog s"
  note core = settled_core [OF geo opts fresh found]
  have hs: "set (headers ?t) = set (headers s)" unfolding headers_settle by (simp add: headers_def)
  have ok: "options_ok ?t (oo_next_partition options)" using opts by (simp add: options_ok_def core)
  have cnt: "0 < vh_partition_count v" using geometry_okD(1) [OF geo] by (auto simp: word_gt_0)
  show ?thesis
  proof (cases "partitions s = []")
    case True
    then have e: "partitions ?t = []" "headers ?t = []" by (simp_all add: settle_catalog_def headers_def)
    then show ?thesis
      using core ok cnt by (auto simp: start_writing_def intro!: wp_create_partition)
  next
    case False
    note l = settle_last [OF False]
    let ?p = "last (partitions ?t)"
    have gens: "\<forall>h \<in> set (headers ?t). ph_generation h < ph_generation (ps_header ?p) + 1"
      if "ph_generation (ps_header ?p) \<noteq> - 1"
      using l(4) that word_le_less_succ unfolding hs by blast
    have nz: "ph_generation (ps_header ?p) + 1 \<noteq> 0" if "ph_generation (ps_header ?p) \<noteq> - 1"
      using that by (metis add.commute add_eq_0_iff)
    have slot: "(ph_slot (ps_header ?p) + 1) mod vh_partition_count v < vh_partition_count v"
      using cnt by (rule word_mod_less_divisor)
    show ?thesis
      using core ok slot gens nz l(1) store_inv_settled [OF core(1) found False _ core(4)]
      by (auto simp: start_writing_def Let_def intro!: wp_create_partition)
  qed
qed

lemma wp_recover_store:
  assumes geo: "geometry_ok v" and wr: "oo_writable options"
  shows "wp (recover_store env) (\<lambda>_ s'. store_inv s' \<and> \<not> faulted s') (\<lambda>_ _. True) (new_impl m v options hi lo)"
proof (cases "status_ok (validate_partition_options options (oo_next_partition options))")
  case False
  then show ?thesis using wr by (simp add: recover_store_def new_impl_def)
next
  case True
  let ?s = "new_impl m v options hi lo"
  have f: "found_ok ?s" "headers ?s = []" by (simp_all add: found_ok_def new_impl_def headers_def)
  have sel: "volume ?s = v" "writable ?s" "open_options ?s = options" using wr by (simp_all add: new_impl_def)
  have "wp (recover_slots env (slots_of v) {}) (\<lambda>_ s'. found_ok s' \<and> same_fresh ?s s') (\<lambda>_ _. True) ?s"
    using f geo slots_of_ok by (intro wp_recover_slots) (auto simp: sel)
  then have "wp (recover_slots env (slots_of v) {})
      (\<lambda>_. wp (bind_op (modify_op settle_catalog) (\<lambda>_. start_writing env)) (\<lambda>_ s'. store_inv s' \<and> \<not> faulted s') (\<lambda>_ _. True))
      (\<lambda>_ _. True) ?s"
    by (rule wp_mono) (use wp_start_writing [OF geo True] in auto)
  then show ?thesis using True by (simp add: recover_store_def sel)
qed

lemma open_store_inv:
  assumes "open_store env getrandom options null m = Some (Inr s, m')" "oo_writable options"
  shows "store_inv s" "\<not> faulted s"
proof -
  obtain v x hi lo where r: "recover_store env (new_impl x v options hi lo) = Some (Inr (), s)"
    and g: "geometry_ok v"
    using assms(1)
    by (auto simp: open_store_def Let_def geometry_ok_def split: if_splits option.splits sum.splits prod.splits) blast+
  from wpD(1) [OF wp_recover_store [OF g assms(2)] r] show "store_inv s" "\<not> faulted s" by simp_all
qed

end
