(* ===== verification/Ring_Machine.thy ===== *)
theory Ring_Machine
  imports Ring_Recovery
begin

text \<open>
  A writable store as a state machine: \<open>open\<close> starts it and every public operation is a step,
  whatever it returns. A query's visitor runs between blocks without the lock, so it may itself run
  the store. The invariant holds in every state the machine reaches, on every backend.
\<close>

section \<open>Queries\<close>

definition keeps :: "('x \<Rightarrow> bool) \<Rightarrow> ('x, 'a) op \<Rightarrow> bool" where
  "keeps I m \<longleftrightarrow> (\<forall>x. I x \<longrightarrow> wp m (\<lambda>_. I) (\<lambda>_. I) x)"

named_theorems keeps_intros \<open>operations that keep an invariant\<close>

lemma keeps_basic [keeps_intros]:
  "keeps I (return_op a)" "keeps I (error_op e)" "keeps I get_op"
  "(\<And>x. I x \<Longrightarrow> I (f x)) \<Longrightarrow> keeps I (modify_op f)"
  by (simp_all add: keeps_def)

lemma keeps_bind [keeps_intros]: "keeps I m \<Longrightarrow> (\<And>a. keeps I (f a)) \<Longrightarrow> keeps I (bind_op m f)"
  by (auto simp: keeps_def intro: wp_mono)

lemma keeps_try [keeps_intros]: "keeps I m \<Longrightarrow> keeps I (try_op m)"
  by (simp add: keeps_def)

lemma keeps_split [keeps_intros]:
  "(b \<Longrightarrow> keeps I m) \<Longrightarrow> (\<not> b \<Longrightarrow> keeps I n) \<Longrightarrow> keeps I (if b then m else n)"
  "(\<And>e. keeps I (g e)) \<Longrightarrow> (\<And>a. keeps I (h a)) \<Longrightarrow> keeps I (case r of Inl e \<Rightarrow> g e | Inr a \<Rightarrow> h a)"
  "(\<And>a b. keeps I (l a b)) \<Longrightarrow> keeps I (case z of (a, b) \<Rightarrow> l a b)"
  "keeps I n \<Longrightarrow> (\<And>a. keeps I (k a)) \<Longrightarrow> keeps I (case q of None \<Rightarrow> n | Some a \<Rightarrow> k a)"
  "keeps I (f x) \<Longrightarrow> keeps I (Let x f)"
  by (auto split: sum.split prod.split option.split)

lemma keeps_catch [keeps_intros]: "keeps I m \<Longrightarrow> (\<And>e. keeps I (h e)) \<Longrightarrow> keeps I (catch_op m h)"
  by (auto simp: keeps_def intro: wp_mono)

lemma keeps_status [keeps_intros]: "keeps I (status_op r)"
  by (simp add: keeps_def)

lemma keeps_on_store: "keeps I m \<Longrightarrow> keeps (\<lambda>(s, v). I s) (on_store m)"
  by (auto simp: keeps_def wp_def on_store_def split: option.splits sum.splits)

definition visitor_keeps :: "('s impl \<Rightarrow> bool) \<Rightarrow> ('s, 'v) visitor \<Rightarrow> bool" where
  "visitor_keeps I visitor \<longleftrightarrow> (\<forall>event s v. I s \<longrightarrow> I (fst (snd (visitor event (s, v)))))"

lemma keeps_visit: "visitor_keeps I visitor \<Longrightarrow> keeps (\<lambda>(s, v). I s) (visit visitor event)"
  unfolding keeps_def visit_def wp_def visitor_keeps_def by (auto split: prod.splits) (metis fst_conv snd_conv)

text \<open>
  A query keeps what its reads, its gap counters and its visitor keep.
\<close>

lemma keeps_query:
  assumes reads: "\<And>slot. keeps I (read_partition_header env slot)" "\<And>part e. keeps I (read_block env part e)"
      "\<And>part. keeps I (acquire_index env part)"
    and gap: "\<And>kind s. I s \<Longrightarrow> I (count_gap kind s)" and visitor: "visitor_keeps I visitor"
  shows "keeps (\<lambda>(s, v). I s) (query env all_blocks rng options (Some visitor))"
proof -
  note reads = reads [THEN keeps_on_store]
  have report: "keeps (\<lambda>(s, v). I s) (report_gap options visitor event)" for event
    unfolding report_gap_def by (intro keeps_intros keeps_visit visitor) (auto intro: gap)
  have corrupt: "keeps (\<lambda>(s, v). I s) (report_corrupt_slots options visitor slots)" for slots
    by (induction slots) (simp_all only: report_corrupt_slots.simps keeps_intros report)
  have entries: "keeps (\<lambda>(s, v). I s) (query_entries env all_blocks rng options visitor part es)" for part es
  proof (induction es)
    case (Cons e es)
    then show ?case
      unfolding query_entries.simps by (intro keeps_intros reads report keeps_visit visitor) auto
  qed (simp only: query_entries.simps keeps_intros)
  have part: "keeps (\<lambda>(s, v). I s) (query_partition env all_blocks rng options visitor part)" for part
    unfolding query_partition_def by (intro keeps_intros reads report entries)
  have parts: "keeps (\<lambda>(s, v). I s) (query_partitions env all_blocks rng options visitor ps)" for ps
  proof (induction ps)
    case (Cons p ps)
    then show ?case unfolding query_partitions.simps by (intro keeps_intros part) auto
  qed (simp only: query_partitions.simps keeps_intros)
  show ?thesis unfolding query_def by (simp only: option.case) (intro keeps_intros corrupt parts)
qed

lemma store_inv_media [simp]: "store_inv (s\<lparr>media := m\<rparr>) = store_inv s"
  by (simp add: store_inv_def)

lemma keeps_store_inv_reads: "only_media m \<Longrightarrow> keeps store_inv m"
  by (auto simp: keeps_def intro: wp_only_media)

lemma store_inv_count_gap: "store_inv s \<Longrightarrow> store_inv (count_gap kind s)"
  by (simp add: count_gap_def store_inv_def base_inv_def core_inv_def mirror_ok_def accounting_ok_def builder_ok_def
      headers_def catalog_ok_def is_active_def options_ok_def Let_def)

section \<open>The machine\<close>

inductive store_run :: "'s env \<Rightarrow> 's impl \<Rightarrow> 's impl \<Rightarrow> bool" for env where
  start: "store_run env s s"
| append: "store_run env s0 s \<Longrightarrow> append env item time flags s = Some (r, s') \<Longrightarrow> store_run env s0 s'"
| append_checked: "store_run env s0 s \<Longrightarrow> append_checked env item time contract flags s = Some (r, s') \<Longrightarrow>
    store_run env s0 s'"
| publish: "store_run env s0 s \<Longrightarrow> publish env s = Some (r, s') \<Longrightarrow> store_run env s0 s'"
| checkpoint: "store_run env s0 s \<Longrightarrow> checkpoint env s = Some (r, s') \<Longrightarrow> store_run env s0 s'"
| rotate: "store_run env s0 s \<Longrightarrow> rotate_store env options s = Some (r, s') \<Longrightarrow> store_run env s0 s'"
| set_next: "store_run env s0 s \<Longrightarrow> set_next_partition_options options s = Some (r, s') \<Longrightarrow> store_run env s0 s'"
| close: "store_run env s0 s \<Longrightarrow> close env s = Some (r, s') \<Longrightarrow> store_run env s0 s'"
| observe_metrics: "store_run env s0 s \<Longrightarrow> store_metrics_of env s = Some (rm, s') \<Longrightarrow> store_run env s0 s'"
| observe_health: "store_run env s0 s \<Longrightarrow> health env s = Some (rh, s') \<Longrightarrow> store_run env s0 s'"
| query: "store_run env s0 s \<Longrightarrow> query env all_blocks rng qoptions (Some visitor) (s, v :: nat) = Some (r, s', v') \<Longrightarrow>
    (\<And>event t w. store_run env t (fst (snd (visitor event (t, w))))) \<Longrightarrow> store_run env s0 s'"

lemma wp_preserves: "wp m (\<lambda>_. I) (\<lambda>_. I) s \<Longrightarrow> m s = Some (r, s') \<Longrightarrow> I s'"
  by (cases r) (simp_all add: wp_def)

lemma keepsD: "keeps I m \<Longrightarrow> I s \<Longrightarrow> m s = Some (r, s') \<Longrightarrow> I s'"
  unfolding keeps_def by (blast intro: wp_preserves)

text \<open>What every operation keeps, the machine keeps.\<close>

locale kept_by_operations =
  fixes env :: "'s env" and I :: "'s impl \<Rightarrow> bool"
  assumes keeps_append: "keeps I (append env item time flags)"
    and keeps_append_checked: "keeps I (append_checked env item time contract flags)"
    and keeps_publish: "keeps I (publish env)" and keeps_checkpoint: "keeps I (checkpoint env)"
    and keeps_rotate: "keeps I (rotate_store env options)"
    and keeps_set_next: "keeps I (set_next_partition_options options)" and keeps_close: "keeps I (close env)"
    and keeps_metrics: "keeps I (store_metrics_of env)" and keeps_health: "keeps I (health env)"
    and keeps_header: "keeps I (read_partition_header env slot)" and keeps_block: "keeps I (read_block env part e)"
    and keeps_index: "keeps I (acquire_index env part)"
    and keeps_gap: "I s \<Longrightarrow> I (count_gap kind s)"
begin

lemma run_keeps: "store_run env s0 s \<Longrightarrow> I s0 \<Longrightarrow> I s"
proof (induction rule: store_run.induct)
  case (query s0 s all_blocks rng qoptions visitor v r s' v')
  then have visitor: "visitor_keeps I visitor" by (auto simp: visitor_keeps_def)
  have "keeps (\<lambda>(s, v). I s) (query env all_blocks rng qoptions (Some visitor))"
    by (intro keeps_query keeps_header keeps_block keeps_index keeps_gap visitor)
  from keepsD [OF this _ query.hyps(2)] show ?case using query by simp
qed (blast intro: keepsD keeps_append keeps_append_checked keeps_publish keeps_checkpoint keeps_rotate keeps_set_next
    keeps_close keeps_metrics keeps_health)+

end

lemma store_inv_clock [simp]: "store_inv (s\<lparr>clock_reads := n\<rparr>) = store_inv s"
  by (simp add: store_inv_def base_inv_def core_inv_def mirror_ok_def accounting_ok_def builder_ok_def
      headers_def catalog_ok_def is_active_def options_ok_def Let_def)

lemma keeps_wp: "(\<And>s. I s \<Longrightarrow> wp m (\<lambda>_. I) (\<lambda>_. I) s) \<Longrightarrow> keeps I m"
  by (simp add: keeps_def)

lemma wp_weaken: "wp m (\<lambda>a s'. I s' \<and> P a s') E s \<Longrightarrow> wp m (\<lambda>_. I) E s"
  by (erule wp_mono) auto

interpretation store: kept_by_operations env store_inv for env :: "'s env"
proof
  show "keeps store_inv (append env item time flags)" for item time flags
    by (simp add: append_def keeps_wp wp_append_impl)
  show "keeps store_inv (append_checked env item time contract flags)" for item time contract flags
    by (simp add: append_checked_def keeps_wp wp_append_impl keeps_basic)
  show "keeps store_inv (publish env)" by (rule keeps_wp, erule wp_weaken [OF wp_publish])
  show "keeps store_inv (checkpoint env)" by (rule keeps_wp, erule wp_weaken [OF wp_checkpoint])
  show "keeps store_inv (rotate_store env options)" "keeps store_inv (set_next_partition_options options)"
    "keeps store_inv (close env)" for options
    by (simp_all add: keeps_wp wp_rotate_store wp_set_next wp_close)
  show "keeps store_inv (store_metrics_of env)" "keeps store_inv (health env)"
    by (auto simp: keeps_def wp_def store_metrics_of_def health_def Let_def)
  show "keeps store_inv (read_partition_header env slot)" "keeps store_inv (read_block env part e)"
    "keeps store_inv (acquire_index env part)" for slot part e
    by (intro keeps_store_inv_reads only_media_intros)+
qed (rule store_inv_count_gap)

text \<open>The states of a store that was opened for writing.\<close>

definition reachable :: "'s env \<Rightarrow> 's impl \<Rightarrow> bool" where
  "reachable env s \<longleftrightarrow> (\<exists>getrandom options null m m' s0.
     open_store env getrandom options null m = Some (Inr s0, m') \<and> oo_writable options \<and> store_run env s0 s)"

lemma reachable_inv: "reachable env s \<Longrightarrow> store_inv s"
  unfolding reachable_def by (blast intro: open_store_inv store.run_keeps)

end
