(* ===== verification/Record_Profile.thy ===== *)
theory Record_Profile
  imports Ring_Machine
begin

text \<open>
  The framed record profile (src/record_profile.cpp, include/tfdb/record_profile.hpp): a 32-byte
  envelope with time, selector, flags and a CRC around every record of a block, \<open>decode_block\<close> over
  a block of such frames, \<open>append_framed_record\<close> on top of \<open>append_checked\<close>, and \<open>query_records\<close> on
  top of \<open>query_blocks\<close>. A record visitor is a transformer of a state with a verdict; the file's own
  field accessors are those of \<open>Le_Bytes\<close>.
\<close>

unbundle bit_operations_syntax

abbreviation (input) kFramedRecordV1ProfileId :: u64 where
  "kFramedRecordV1ProfileId \<equiv> 0x5446444252465631"

record record_view =
  rv_encoded :: byte_view
  rv_payload :: byte_view
  rv_index_time_ns :: i64
  rv_selector :: u64
  rv_flags :: u16

type_synonym 'v decode_visitor = "record_view \<Rightarrow> 'v \<Rightarrow> bool \<times> 'v"

record 'v record_profile =
  rp_id :: u64
  rp_version :: u16
  rp_decode_block :: "byte_view \<Rightarrow> 'v decode_visitor option \<Rightarrow> 'v \<Rightarrow> status \<times> 'v"

record record_query =
  rq_time :: time_range
  rq_selectors :: "u64 list"
  rq_block_options :: query_options

record record_event =
  re_kind :: block_event_kind
  re_block :: block_metadata
  re_record :: record_view
  re_detail :: status

definition empty_record_view :: record_view where
  "empty_record_view = \<lparr>rv_encoded = Null_view 0, rv_payload = Null_view 0, rv_index_time_ns = 0,
     rv_selector = 0, rv_flags = 0\<rparr>"

section \<open>Frames\<close>

definition framed_encode :: "i64 \<Rightarrow> u64 \<Rightarrow> u16 \<Rightarrow> byte_view \<Rightarrow> bool \<Rightarrow> status + bytes" where
  "framed_encode time selector flags payload null_output =
     (if null_output then Inl (Error Invalid_argument ''null framed record output'')
      else if \<not> view_valid payload
      then Inl (Error Invalid_argument ''null non-empty framed payload'')
      else if view_size payload > 0xffffffff - 32
      then Inl (Error Out_of_range ''framed payload too large'')
      else let encoded = replicate (32 + view_size payload) 0;
               encoded = put32 encoded 0 (of_nat (length encoded));
               encoded = put16 encoded 4 32;
               encoded = put16 encoded 6 flags;
               encoded = put64 encoded 8 time;
               encoded = put64 encoded 16 selector;
               encoded = put32 encoded 24 (of_nat (view_size payload));
               encoded = (if \<not> view_empty payload then blit encoded 32 (view_bytes payload) else encoded)
        in Inr (put32 encoded 28 (crc32c encoded)))"

text \<open>The sign of the stored time, without an implementation-defined cast.\<close>

definition decode_time :: "u64 \<Rightarrow> i64" where
  "decode_time encoded_time =
     (if encoded_time AND push_bit 63 1 = 0 then encoded_time
      else let magnitude = NOT encoded_time + 1 in
        if magnitude = push_bit 63 1 then push_bit 63 1 else - magnitude)"

text \<open>One frame at an offset of a block: the record it holds and its size.\<close>

definition decode_frame :: "bytes \<Rightarrow> nat \<Rightarrow> status + (record_view \<times> nat)" where
  "decode_frame block offset =
     (if length block - offset < 32 then Inl (Error Corrupt ''truncated FramedRecordV1 header'')
      else let frame_size = get32 block offset;
               header_size = get16 block (offset + 4);
               payload_size = get32 block (offset + 24)
        in if header_size \<noteq> 32 \<or> frame_size < ucast header_size \<or>
             frame_size \<noteq> ucast header_size + payload_size \<or> unat frame_size > length block - offset
           then Inl (Error Corrupt ''invalid FramedRecordV1 bounds'')
           else let payload = sub_bytes block (offset + unat header_size) (unat payload_size);
                    expected_crc = get32 block (offset + 28);
                    encoded = sub_bytes block offset (unat frame_size)
             in if crc32c_with_zeroed_field encoded 28 \<noteq> expected_crc
                then Inl (Error Corrupt ''FramedRecordV1 frame CRC mismatch'')
                else Inr (\<lparr>rv_encoded = View encoded, rv_payload = View payload,
                    rv_index_time_ns = decode_time (get64 block (offset + 8)),
                    rv_selector = get64 block (offset + 16), rv_flags = get16 block (offset + 6)\<rparr>,
                  unat frame_size))"

lemma decode_frame_size:
  assumes "decode_frame block offset = Inr (r, n)"
  shows "0 < n" "offset + n \<le> length block"
proof -
  have n: "n = unat (get32 block offset)" and h: "get16 block (offset + 4) = 32"
    "\<not> get32 block offset < ucast (get16 block (offset + 4))" "\<not> unat (get32 block offset) > length block - offset"
    and l: "\<not> length block - offset < 32"
    using assms by (auto simp: decode_frame_def Let_def split: if_splits)
  have "(32 :: u32) \<le> get32 block offset" using h(1,2) by simp
  then show "0 < n" by (simp add: n word_le_nat_alt)
  show "offset + n \<le> length block" using h(3) l by (simp add: n)
qed

function decode_frames :: "bytes \<Rightarrow> nat \<Rightarrow> 'v decode_visitor \<Rightarrow> 'v \<Rightarrow> status \<times> 'v" where
  "decode_frames block offset visitor v =
     (if offset < length block
      then case decode_frame block offset of
          Inl status \<Rightarrow> (status, v)
        | Inr (item, frame_size) \<Rightarrow>
            let (go_on, v') = visitor item v in
            if \<not> go_on then (Ok, v') else decode_frames block (offset + frame_size) visitor v'
      else (Ok, v))"
  by pat_completeness auto
termination
proof (relation "measure (\<lambda>(block, offset, visitor, v). length block - offset)", goal_cases)
  case (2 block offset visitor v b item frame_size)
  then show ?case using decode_frame_size [of block offset item frame_size] by auto
qed simp

declare decode_frames.simps [simp del]

definition framed_decode_block :: "byte_view \<Rightarrow> 'v decode_visitor option \<Rightarrow> 'v \<Rightarrow> status \<times> 'v" where
  "framed_decode_block block visitor_option v =
     (case visitor_option of
        None \<Rightarrow> (Error Invalid_argument ''empty record visitor'', v)
      | Some visitor \<Rightarrow>
          if \<not> view_valid block then (Error Invalid_argument ''null non-empty framed block'', v)
          else decode_frames (view_bytes block) 0 visitor v)"

definition framed_record_v1 :: "'v record_profile" where
  "framed_record_v1 = \<lparr>rp_id = kFramedRecordV1ProfileId, rp_version = 1, rp_decode_block = framed_decode_block\<rparr>"

section \<open>Records in a store\<close>

definition append_framed_record ::
  "'s env \<Rightarrow> i64 \<Rightarrow> u64 \<Rightarrow> u16 \<Rightarrow> byte_view \<Rightarrow> ('s impl, unit) op" where
  "append_framed_record env time selector flags payload s =
     (case active_partition_info False s of
        Inl status \<Rightarrow> Some (Inl status, s)
      | Inr info \<Rightarrow>
          if po_record_format_id (pi_options info) \<noteq> kFramedRecordV1ProfileId \<or>
             po_record_format_version (pi_options info) \<noteq> 1
          then Some (Inl (Error Invalid_argument ''active partition is not FramedRecordV1''), s)
          else (case framed_encode time selector flags payload False of
              Inl status \<Rightarrow> Some (Inl status, s)
            | Inr encoded \<Rightarrow>
                let storage_flags = (if (ucast flags :: u32) AND kRecordFlagUnsynchronizedTime \<noteq> 0
                      then 0 OR kRecordFlagUnsynchronizedTime else 0)
                in append_checked env (View encoded) time
                     \<lparr>ac_record_format_id = kFramedRecordV1ProfileId, ac_record_format_version = 1,
                      ac_time_domain_id = po_time_domain_id (pi_options info)\<rparr> storage_flags s))"

text \<open>
  The state the block visitor of \<open>query_records\<close> works on: the store and the caller's state,
  \<open>keep_going\<close> and \<open>decode_status\<close>; within a block also the count of decoded records.
\<close>

type_synonym ('s, 'v) record_visitor = "record_event \<Rightarrow> 's impl \<times> 'v \<Rightarrow> bool \<times> ('s impl \<times> 'v)"
type_synonym ('s, 'v) record_state = "('s impl \<times> 'v) \<times> bool \<times> u32"

definition record_wanted :: "record_query \<Rightarrow> record_view \<Rightarrow> bool" where
  "record_wanted q item \<longleftrightarrow>
     \<not> (rv_index_time_ns item <s tr_begin_ns (rq_time q) \<or> tr_end_ns (rq_time q) \<le>s rv_index_time_ns item) \<and>
     \<not> (set (rq_selectors q) \<noteq> {} \<and> rv_selector item \<notin> set (rq_selectors q))"

definition visit_record ::
  "record_query \<Rightarrow> ('s, 'v) record_visitor \<Rightarrow> block_metadata \<Rightarrow> ('s, 'v) record_state decode_visitor" where
  "visit_record q visitor block item =
     (\<lambda>(x, keep_going, decoded_records).
       let decoded_records = decoded_records + 1 in
       if \<not> record_wanted q item then (True, (x, keep_going, decoded_records))
       else let (keep_going, x) = visitor \<lparr>re_kind = Event_data, re_block = block, re_record = item, re_detail = Ok\<rparr> x
         in (keep_going, (x, keep_going, decoded_records)))"

definition visit_block ::
  "record_query \<Rightarrow> ('s, 'v) record_state record_profile \<Rightarrow> ('s, 'v) record_visitor \<Rightarrow>
   block_event \<Rightarrow> 's impl \<times> 'v \<times> bool \<times> status \<Rightarrow> bool \<times> ('s impl \<times> 'v \<times> bool \<times> status)" where
  "visit_block q profile visitor block_event = (\<lambda>(s, v, keep_going, decode_status).
     if be_kind block_event \<noteq> Event_data
     then let (keep_going, (s, v)) = visitor \<lparr>re_kind = be_kind block_event, re_block = be_metadata block_event,
                re_record = empty_record_view, re_detail = be_detail block_event\<rparr> (s, v)
       in (keep_going, (s, v, keep_going, decode_status))
     else if bm_record_format_id (be_metadata block_event) \<noteq> rp_id profile \<or>
       bm_record_format_version (be_metadata block_event) \<noteq> rp_version profile
     then (False, (s, v, keep_going, Error Unsupported ''record profile does not match partition''))
     else let (decode_status, ((s, v), keep_going, decoded_records)) =
            rp_decode_block profile (View (be_data block_event))
              (Some (visit_record q visitor (be_metadata block_event))) ((s, v), keep_going, 0);
              decode_status = (if status_ok decode_status \<and> keep_going \<and>
                  decoded_records \<noteq> bm_record_count (be_metadata block_event)
                then Error Corrupt ''block record count does not match profile decode'' else decode_status)
       in (keep_going \<and> status_ok decode_status, (s, v, keep_going, decode_status)))"

definition query_records ::
  "'s env \<Rightarrow> record_query \<Rightarrow> ('s, 'v) record_state record_profile \<Rightarrow> ('s, 'v) record_visitor option \<Rightarrow>
   ('s impl \<times> 'v, unit) op" where
  "query_records env q profile visitor_option = (\<lambda>(s, v).
     case visitor_option of
       None \<Rightarrow> Some (Inl (Error Invalid_argument ''empty record visitor''), (s, v))
     | Some visitor \<Rightarrow>
         if tr_end_ns (rq_time q) \<le>s tr_begin_ns (rq_time q)
         then Some (Inl (Error Invalid_argument ''record query needs non-empty [begin,end)''), (s, v))
         else (case query_blocks env (rq_time q) (rq_block_options q)
                 (Some (visit_block q profile visitor)) (s, v, True, Ok) of
             None \<Rightarrow> None
           | Some (Inl status, (s, v, keep_going, decode_status)) \<Rightarrow> Some (Inl status, (s, v))
           | Some (Inr _, (s, v, keep_going, decode_status)) \<Rightarrow>
               Some (if status_ok decode_status then Inr () else Inl decode_status, (s, v))))"

section \<open>Frames decode\<close>

lemma decode_time_eq [simp]: "decode_time t = t"
proof -
  have n: "NOT t + 1 = - t" by (simp add: not_eq_complement)
  have m: "- (9223372036854775808 :: u64) = 9223372036854775808" by simp
  have "t = 9223372036854775808" if "- t = 9223372036854775808" using that m by (metis minus_equation_iff)
  then show ?thesis by (simp add: decode_time_def n Let_def)
qed

text \<open>The frame before its CRC is filled in.\<close>

definition open_frame :: "i64 \<Rightarrow> u64 \<Rightarrow> u16 \<Rightarrow> bytes \<Rightarrow> bytes" where
  "open_frame time selector flags payload =
     blit (put32 (put64 (put64 (put16 (put16 (put32 (replicate (32 + length payload) 0) 0 (of_nat (32 + length payload))) 4 32)
       6 flags) 8 time) 16 selector) 24 (of_nat (length payload))) 32 payload"

lemma framed_encode_eq:
  assumes "framed_encode time selector flags payload False = Inr e"
  shows "e = put32 (open_frame time selector flags (view_bytes payload)) 28 (crc32c (open_frame time selector flags (view_bytes payload)))"
    "length (view_bytes payload) + 32 < 2 ^ 32"
proof -
  have v: "view_valid payload" "view_size payload \<le> 0xffffffff - 32"
    using assms by (auto simp: framed_encode_def split: if_splits)
  have b: "view_size payload = length (view_bytes payload)" using view_size_bytes [OF v(1)] by simp
  have "(if \<not> view_empty payload then blit x 32 (view_bytes payload) else x) = blit x 32 (view_bytes payload)"
    if "32 \<le> length x" for x
    using b that by (simp add: view_empty_def blit_Nil)
  then show "e = put32 (open_frame time selector flags (view_bytes payload)) 28 (crc32c (open_frame time selector flags (view_bytes payload)))"
    using assms v by (simp add: framed_encode_def Let_def open_frame_def b split: if_splits)
  show "length (view_bytes payload) + 32 < 2 ^ 32" using v(2) b by simp
qed

lemma open_frame_fields:
  "length (open_frame t sel fl p) = 32 + length p" "get32 (open_frame t sel fl p) 0 = of_nat (32 + length p)"
  "get16 (open_frame t sel fl p) 4 = 32" "get16 (open_frame t sel fl p) 6 = fl" "get64 (open_frame t sel fl p) 8 = t"
  "get64 (open_frame t sel fl p) 16 = sel" "get32 (open_frame t sel fl p) 24 = of_nat (length p)"
  "sub_bytes (open_frame t sel fl p) 32 (length p) = p"
  by (simp_all add: open_frame_def gets_blit_other le_simps blit_simps)

lemma open_frame_crc_zero: "put32 (open_frame t sel fl p) 28 0 = open_frame t sel fl p"
  by (rule nth_equalityI) (auto simp: open_frame_def put32_def put64_def put16_def nth_blit upt_4 upt_8 nth_Cons')

lemma put32_put32: "off + 4 \<le> length out \<Longrightarrow> put32 (put32 out off a) off b = put32 out off b"
  by (rule nth_equalityI) (auto simp: put32_def nth_blit)

lemma get_append:
  "off + 4 \<le> length e \<Longrightarrow> get32 (pre @ e @ post) (length pre + off) = get32 e off"
  "off + 2 \<le> length e \<Longrightarrow> get16 (pre @ e @ post) (length pre + off) = get16 e off"
  "off + 8 \<le> length e \<Longrightarrow> get64 (pre @ e @ post) (length pre + off) = get64 e off"
  by (auto intro!: get32_cong get16_cong get64_cong simp: nth_append)

definition framed_view :: "bytes \<Rightarrow> i64 \<Rightarrow> u64 \<Rightarrow> u16 \<Rightarrow> bytes \<Rightarrow> record_view" where
  "framed_view e time selector flags payload =
     \<lparr>rv_encoded = View e, rv_payload = View payload, rv_index_time_ns = time, rv_selector = selector, rv_flags = flags\<rparr>"

lemma decode_frame_encoded:
  assumes enc: "framed_encode time selector flags payload False = Inr e"
  shows "decode_frame (pre @ e @ post) (length pre) = Inr (framed_view e time selector flags (view_bytes payload), length e)"
proof -
  let ?p = "view_bytes payload" and ?o = "open_frame time selector flags (view_bytes payload)"
  note e = framed_encode_eq(1) [OF enc] and small = framed_encode_eq(2) [OF enc]
  have len: "length e = 32 + length ?p" by (simp add: e open_frame_fields)
  have f: "get32 e 0 = of_nat (32 + length ?p)" "get16 e 4 = 32" "get16 e 6 = flags" "get64 e 8 = time" "get64 e 16 = selector"
    "get32 e 24 = of_nat (length ?p)" "get32 e 28 = crc32c ?o"
    by (simp_all add: e open_frame_fields le_simps del: of_nat_add of_nat_Suc)
  have pay: "sub_bytes e 32 (length ?p) = ?p"
    by (simp add: e put32_def sub_bytes_blit_disjoint open_frame_fields)
  have "put32 e 28 0 = ?o"
    unfolding e by (simp add: put32_put32 open_frame_crc_zero open_frame_fields)
  then have crc: "crc32c_with_zeroed_field e 28 = crc32c ?o" using len by (simp add: crc32c_with_zeroed_field_eq)
  have u: "unat (of_nat (32 + length ?p) :: u32) = 32 + length ?p" "unat (of_nat (length ?p) :: u32) = length ?p"
    using small by (simp_all add: unat_of_nat del: of_nat_add of_nat_Suc)
  have g: "get32 (pre @ e @ post) (length pre) = of_nat (32 + length ?p)" "get16 (pre @ e @ post) (length pre + 4) = 32"
    "get16 (pre @ e @ post) (length pre + 6) = flags" "get64 (pre @ e @ post) (length pre + 8) = time"
    "get64 (pre @ e @ post) (length pre + 16) = selector" "get32 (pre @ e @ post) (length pre + 24) = of_nat (length ?p)"
    "get32 (pre @ e @ post) (length pre + 28) = crc32c ?o"
    using f get_append [where e = e and pre = pre and post = post] get_append(1) [where off = 0 and e = e and pre = pre and post = post] len
    by (simp_all del: of_nat_add of_nat_Suc)
  have s: "sub_bytes (pre @ e @ post) (length pre) (32 + length ?p) = e"
    "sub_bytes (pre @ e @ post) (length pre + 32) (length ?p) = ?p"
    using len pay by (simp_all add: sub_bytes_append_right sub_bytes_def)
  have "of_nat (32 + length ?p) = (32 + of_nat (length ?p) :: u32)" by simp
  then show ?thesis
    using len u by (simp add: decode_frame_def Let_def g s crc framed_view_def word_less_nat_alt del: of_nat_add of_nat_Suc)
qed

text \<open>What a visitor sees of a list of records: it is called until it says no.\<close>

fun feed :: "'v decode_visitor \<Rightarrow> record_view list \<Rightarrow> 'v \<Rightarrow> bool \<times> 'v" where
  "feed visitor [] v = (True, v)"
| "feed visitor (r # rs) v = (let (go_on, v') = visitor r v in if go_on then feed visitor rs v' else (False, v'))"

text \<open>A list of records, its frames and the views of them.\<close>

type_synonym framed_record = "i64 \<times> u64 \<times> u16 \<times> byte_view"

definition frames_of :: "framed_record list \<Rightarrow> bytes list \<Rightarrow> bool" where
  "frames_of = list_all2 (\<lambda>(time, selector, flags, payload) e. framed_encode time selector flags payload False = Inr e)"

definition views_of :: "framed_record list \<Rightarrow> bytes list \<Rightarrow> record_view list" where
  "views_of = map2 (\<lambda>(time, selector, flags, payload) e. framed_view e time selector flags (view_bytes payload))"

lemma decode_frames_concat:
  assumes "frames_of items es"
  shows "decode_frames (pre @ concat es) (length pre) visitor v = (Ok, snd (feed visitor (views_of items es) v))"
  using assms unfolding frames_of_def views_of_def
proof (induction arbitrary: pre v rule: list_all2_induct)
  case Nil
  then show ?case by (simp add: decode_frames.simps)
next
  case (Cons item items e es)
  obtain time selector flags payload where item: "item = (time, selector, flags, payload)" by (cases item)
  have enc: "framed_encode time selector flags payload False = Inr e" using Cons.hyps(1) item by simp
  have ne: "0 < length e" by (simp add: framed_encode_eq(1) [OF enc] open_frame_fields)
  show ?case
    using Cons.IH [of "pre @ e"] ne
    by (subst decode_frames.simps) (simp add: decode_frame_encoded [OF enc] item split: prod.split)
qed

text \<open>The records a query asks for.\<close>

definition in_query :: "record_query \<Rightarrow> record_view \<Rightarrow> bool" where
  "in_query q r \<longleftrightarrow> sint (tr_begin_ns (rq_time q)) \<le> sint (rv_index_time_ns r) \<and>
     sint (rv_index_time_ns r) < sint (tr_end_ns (rq_time q)) \<and> (rq_selectors q = [] \<or> rv_selector r \<in> set (rq_selectors q))"

lemma record_wanted_iff: "record_wanted q r = in_query q r"
  by (auto simp: record_wanted_def in_query_def word_sless_alt word_sle_eq)

definition record_event_of :: "block_metadata \<Rightarrow> record_view \<Rightarrow> record_event" where
  "record_event_of block r = \<lparr>re_kind = Event_data, re_block = block, re_record = r, re_detail = Ok\<rparr>"

lemma feed_visit_record:
  fixes visitor :: "('s, 'v) record_visitor" and q block
  defines "told rs x \<equiv> feed (\<lambda>r. visitor (record_event_of block r)) (filter (in_query q) rs) x"
  shows "\<exists>m. feed (visit_record q visitor block) rs (x, True, n) = (fst (told rs x), snd (told rs x), fst (told rs x), m) \<and>
    (fst (told rs x) \<longrightarrow> m = n + of_nat (length rs))"
proof (induction rs arbitrary: x n)
  case Nil
  then show ?case by (simp add: told_def)
next
  case (Cons r rs)
  obtain go x' where vis: "visitor (record_event_of block r) x = (go, x')" by (cases "visitor (record_event_of block r) x") blast
  show ?case
  proof (cases "in_query q r")
    case False
    have "told (r # rs) x = told rs x" using False by (simp add: told_def)
    then show ?thesis
      using Cons.IH [of x "n + 1"] False by (auto simp: visit_record_def record_wanted_iff algebra_simps)
  next
    case True
    have "told (r # rs) x = (if go then told rs x' else (False, x'))" using True vis by (simp add: told_def)
    then show ?thesis
      using Cons.IH [of x' "n + 1"] True vis
      by (auto simp: visit_record_def record_wanted_iff record_event_of_def algebra_simps)
  qed
qed

text \<open>A block of frames shown to a record visitor.\<close>

lemma visit_block_frames:
  assumes fr: "frames_of items es" and ev: "be_kind ev = Event_data" "be_data ev = concat es"
    "bm_record_format_id (be_metadata ev) = kFramedRecordV1ProfileId" "bm_record_format_version (be_metadata ev) = 1"
    "bm_record_count (be_metadata ev) = of_nat (length items)"
  shows "visit_block q framed_record_v1 visitor ev (s, v, True, Ok) =
    (let (go_on, s', v') = feed (\<lambda>r. visitor (record_event_of (be_metadata ev) r)) (filter (in_query q) (views_of items es)) (s, v)
     in (go_on, s', v', go_on, Ok))"
proof -
  have len: "length (views_of items es) = length items"
    using fr by (simp add: views_of_def frames_of_def list_all2_lengthD)
  obtain m go s' v' where f: "feed (visit_record q visitor (be_metadata ev)) (views_of items es) ((s, v), True, 0) = (go, (s', v'), go, m)"
    "feed (\<lambda>r. visitor (record_event_of (be_metadata ev) r)) (filter (in_query q) (views_of items es)) (s, v) = (go, s', v')"
    "go \<longrightarrow> m = of_nat (length items)"
    using feed_visit_record [of q visitor "be_metadata ev" "views_of items es" "(s, v)" 0] len
    by (metis add_0 prod.collapse)
  have "framed_decode_block (View (concat es)) (Some (visit_record q visitor (be_metadata ev))) ((s, v), True, 0) = (Ok, (s', v'), go, m)"
    using decode_frames_concat [OF fr, of "[]" "visit_record q visitor (be_metadata ev)"] f(1) by (simp add: framed_decode_block_def)
  then show ?thesis using ev f(2,3) by (auto simp: visit_block_def framed_record_v1_def Let_def)
qed

section \<open>Corruption\<close>

lemma decode_frame_update:
  assumes dec: "decode_frame e 0 = Inr (r, length e)" and i: "i < length e" "b \<noteq> e ! i"
  shows "\<exists>m. decode_frame (e[i := b]) 0 = Inl (Error Corrupt m)"
proof -
  let ?e = "e[i := b]"
  have n: "length e = unat (get32 e 0)" "32 \<le> length e" "get16 e 4 = 32" "get32 e 0 = 32 + get32 e 24"
    "crc32c_with_zeroed_field e 28 = get32 e 28"
    using dec by (auto simp: decode_frame_def Let_def split: if_splits)
  have crc: "crc32c_with_zeroed_field ?e 28 \<noteq> get32 ?e 28" using n i by (intro crc_field_update) auto
  show ?thesis
  proof (cases "get32 ?e 0 = get32 e 0")
    case True
    then show ?thesis using crc n by (auto simp: decode_frame_def Let_def)
  next
    case False
    have "i < 4"
    proof (rule ccontr)
      assume "\<not> i < 4"
      then have "get32 ?e 0 = get32 e 0" by (intro get32_cong) auto
      then show False using False by simp
    qed
    then have "get32 ?e 24 = get32 e 24" by (intro get32_cong) auto
    then show ?thesis using False n by (auto simp: decode_frame_def Let_def)
  qed
qed

section \<open>Appending\<close>

text \<open>Nothing but publishing and accepting touches the builder.\<close>

lemma keeps_builder_io [keeps_intros]:
  "keeps (\<lambda>s. builder s = b) (fail e)" "keeps (\<lambda>s. builder s = b) (write_media env off data)"
  "keeps (\<lambda>s. builder s = b) (sync_media env adv)"
  by (auto simp: keeps_def wp_def fail_def write_media_def sync_media_def note_sync_def note_sync_error_def note_durable_def Let_def
      split: option.splits prod.splits)

lemma keeps_builder [keeps_intros]:
  "keeps (\<lambda>s. builder s = b) (create_partition env slot generation options)"
  "keeps (\<lambda>s. builder s = b) (seal_active_only env)" "keeps (\<lambda>s. builder s = b) (rotate_internal env options)"
  "keeps (\<lambda>s. builder s = b) (ensure_empty_builder_capacity env)"
proof -
  show create: "keeps (\<lambda>s. builder s = b) (create_partition env slot generation options)" for slot generation options
    unfolding create_partition_def by (intro keeps_intros) (simp add: install_partition_def Let_def)
  show seal: "keeps (\<lambda>s. builder s = b) (seal_active_only env)"
    unfolding seal_active_only_def by (intro keeps_intros) simp
  show rot: "keeps (\<lambda>s. builder s = b) (rotate_internal env options)" for options
    unfolding rotate_internal_def by (intro keeps_intros create seal) simp
  show "keeps (\<lambda>s. builder s = b) (ensure_empty_builder_capacity env)"
    unfolding ensure_empty_builder_capacity_def by (intro keeps_intros rot)
qed

lemma wp_emit_empties: "wp (emit_builder env) (\<lambda>_ s'. builder s' = []) (\<lambda>_ _. True) s"
proof -
  have "wp (emit_frame env p payload selected version) (\<lambda>_ s'. builder s' = []) (\<lambda>_ _. True) s" for p payload selected version
    unfolding emit_frame_def by (auto simp: Let_def note_published_def intro!: wp_rules split: prod.split)
  then show ?thesis unfolding emit_builder_def by (auto simp: Let_def split: option.split sum.split)
qed

lemma wp_append_result:
  "wp (append_impl env item time flags expected)
    (\<lambda>_ s'. (builder s' = builder s @ view_bytes item \<or> builder s' = view_bytes item) \<and>
      (\<exists>p. active s' = Some p \<and> contract_holds expected (ph_options (ps_header p)))) (\<lambda>_ _. True) s"
proof -
  have acc: "active (accept_record env options data time flags t) = active t" for options data t
  proof -
    have "is_active (accept_record env options data time flags t) p = is_active t p" for p
      by (simp add: accept_record_def is_active_def Let_def)
    then have "is_active (accept_record env options data time flags t) = is_active t" by blast
    then show ?thesis by (simp add: active_def)
  qed
  have ens: "wp (ensure_empty_builder_capacity env) (\<lambda>_ u. builder u = b) (\<lambda>_ _. True) t" if "builder t = b" for t b
    using keeps_builder(4) [of b env] that by (auto simp: keeps_def intro: wp_mono)
  let ?Q = "\<lambda>_ s'. (builder s' = builder s @ view_bytes item \<or> builder s' = view_bytes item) \<and>
      (\<exists>p. active s' = Some p \<and> contract_holds expected (ph_options (ps_header p)))"
  have rest: "wp (bind_op (ensure_empty_builder_capacity env) (\<lambda>_. bind_op get_op (\<lambda>s.
       case active s of
         None \<Rightarrow> error_op (Error Internal_error ''missing active partition'')
       | Some state \<Rightarrow>
           let options = ph_options (ps_header state) in
           if \<not> contract_holds expected options
           then error_op (Error Invalid_argument ''active partition contract changed before append'')
           else modify_op (accept_record env options (view_bytes item) time flags)))) ?Q (\<lambda>_ _. True) t"
    if "builder t = builder s \<or> builder t = []" for t
    unfolding wp_bind [of "ensure_empty_builder_capacity env"]
    by (rule wp_mono [OF ens [OF refl]]) (use that in \<open>auto simp: acc Let_def split: option.split\<close>)
  show ?thesis
    unfolding append_impl_def
    by (auto simp del: wp_if intro!: rest rest [unfolded wp_bind [of "ensure_empty_builder_capacity env"]] wp_mono [OF wp_emit_empties] split: if_split)
qed

lemma framed_encode_View: "length p \<le> 0xffffffff - 32 \<Longrightarrow> \<exists>e. framed_encode time selector flags (View p) False = Inr e"
  by (simp add: framed_encode_def Let_def)

lemma frames_of_two:
  "length p \<le> 0xffffffff - 32 \<Longrightarrow> length p' \<le> 0xffffffff - 32 \<Longrightarrow>
    \<exists>a b. frames_of [(t, sel, fl, View p), (t', sel', fl', View p')] [a, b]"
  using framed_encode_View by (simp add: frames_of_def)

section \<open>Properties\<close>

text \<open>C34: A block made of frames decodes to the records it was made of, in order: whatever the
  payloads, times (negative ones included), selectors and flags, the visitor is called on exactly
  these records until it asks to stop, and decoding reports success.\<close>

theorem framed_block_roundtrip:
  assumes "frames_of items es"
  shows "framed_decode_block (View (concat es)) (Some visitor) v = (Ok, snd (feed visitor (views_of items es) v))"
  using decode_frames_concat [OF assms, of "[]" visitor] by (simp add: framed_decode_block_def)

theorem framed_block_roundtrip_witness:
  "\<exists>es. frames_of [(- 5, 1, 0, View [1, 2]), (7, 2, 1, View [])] es \<and>
    framed_decode_block (View (concat es)) (Some (\<lambda>r n. (True, n + rv_selector r))) 0 =
      (Ok, snd (feed (\<lambda>r n. (True, n + rv_selector r)) (views_of [(- 5, 1, 0, View [1, 2]), (7, 2, 1, View [])] es) 0))"
proof -
  obtain a b where "frames_of [(- 5, 1, 0, View [1, 2]), (7, 2, 1, View [])] [a, b]"
    using frames_of_two [of "[1, 2]" "[]" "- 5" 1 0 7 2 1] by auto
  then show ?thesis by (intro exI [of _ "[a, b]"] conjI framed_block_roundtrip)
qed

text \<open>C35: A corrupted frame is never delivered: after a change of any one byte of an encoded record,
  header, payload or checksum, decoding reports corruption and the visitor is not called.\<close>

theorem framed_corruption_detected:
  assumes "framed_encode time selector flags payload False = Inr e" and "i < length e" and "b \<noteq> e ! i"
  shows "\<exists>m. framed_decode_block (View (e[i := b])) (Some visitor) v = (Error Corrupt m, v)"
proof -
  obtain r where "decode_frame e 0 = Inr (r, length e)"
    using decode_frame_encoded [OF assms(1), of "[]" "[]"] by auto
  from decode_frame_update [OF this assms(2,3)] obtain m where "decode_frame (e[i := b]) 0 = Inl (Error Corrupt m)" ..
  then show ?thesis
    using assms(2) by (auto simp: framed_decode_block_def decode_frames.simps [of "e[i := b]" 0])
qed

theorem framed_corruption_detected_witness:
  "\<exists>e m. framed_encode 3 4 5 (View [6, 7]) False = Inr e \<and>
    framed_decode_block (View (e[33 := e ! 33 + 1])) (Some (\<lambda>r n. (True, n + 1))) (0 :: nat) = (Error Corrupt m, 0)"
proof -
  obtain e where e: "framed_encode 3 4 5 (View [6, 7]) False = Inr e" using framed_encode_View [of "[6, 7]" 3 4 5] by auto
  have "length e = 34" by (simp add: framed_encode_eq(1) [OF e] open_frame_fields)
  then show ?thesis using framed_corruption_detected [OF e, of 33 "e ! 33 + 1"] e by auto
qed

text \<open>C36: Within a block of framed records, a record query calls its visitor on exactly the records
  whose time lies in the half-open range and whose selector is asked for, in order, until the visitor
  stops; the block is then reported intact.\<close>

theorem record_query_selects:
  assumes "frames_of items es" and "be_kind ev = Event_data" and "be_data ev = concat es"
    and "bm_record_format_id (be_metadata ev) = kFramedRecordV1ProfileId"
    and "bm_record_format_version (be_metadata ev) = 1"
    and "bm_record_count (be_metadata ev) = of_nat (length items)"
  shows "visit_block q framed_record_v1 visitor ev (s, v, True, Ok) =
    (let (go_on, s', v') = feed (\<lambda>r. visitor (record_event_of (be_metadata ev) r)) (filter (in_query q) (views_of items es)) (s, v)
     in (go_on, s', v', go_on, Ok))"
  by (rule visit_block_frames [OF assms])

theorem record_query_selects_witness:
  "\<exists>es ev. frames_of [(5, 1, 0, View [1]), (50, 2, 0, View [])] es \<and> (\<forall>s :: nat impl.
    visit_block \<lparr>rq_time = \<lparr>tr_begin_ns = 0, tr_end_ns = 10, tr_time_domain_id = 1\<rparr>, rq_selectors = [],
        rq_block_options = \<lparr>qo_continue_on_gap = True, qo_verify_payload_crc = True\<rparr>\<rparr> framed_record_v1 (\<lambda>e (s, n). (True, (s, Suc n))) ev (s, 0, True, Ok) =
      (True, s, 1, True, Ok))"
proof -
  obtain a b where ab: "frames_of [(5, 1, 0, View [1]), (50, 2, 0, View [])] [a, b]"
    using frames_of_two [of "[1]" "[]" 5 1 0 50 2 0] by auto
  define es where "es = [a, b]"
  have es: "frames_of [(5, 1, 0, View [1]), (50, 2, 0, View [])] es" using ab by (simp add: es_def)
  define ev where "ev = \<lparr>be_kind = Event_data, be_metadata = zero_metadata\<lparr>bm_record_format_id := kFramedRecordV1ProfileId,
      bm_record_format_version := 1, bm_record_count := 2\<rparr>, be_data = concat es, be_detail = Ok\<rparr>"
  have "visit_block q framed_record_v1 visitor ev (s, v, True, Ok) =
    (let (go_on, s', v') = feed (\<lambda>r. visitor (record_event_of (be_metadata ev) r))
        (filter (in_query q) (views_of [(5, 1, 0, View [1]), (50, 2, 0, View [])] es)) (s, v) in (go_on, s', v', go_on, Ok))"
    for q visitor and s :: "nat impl" and v :: nat
    by (rule record_query_selects [OF es]) (simp_all add: ev_def)
  then show ?thesis
    using es by (intro exI [of _ es] exI [of _ ev]) (simp add: es_def views_of_def in_query_def framed_view_def)
qed

text \<open>C37: When \<open>append_framed_record\<close> succeeds, the block under construction ends with exactly one
  new frame, the encoding of the record, and the partition it belongs to has the framed profile and
  the time domain that were read before the record was encoded, even when the store rotated in
  between.\<close>

theorem append_framed_record_result:
  assumes "append_framed_record env time selector flags payload s = Some (Inr (), s')"
  shows "\<exists>e p p'. framed_encode time selector flags payload False = Inr e \<and>
    (builder s' = builder s @ e \<or> builder s' = e) \<and> active s = Some p \<and> active s' = Some p' \<and>
    po_record_format_id (ph_options (ps_header p')) = kFramedRecordV1ProfileId \<and>
    po_record_format_version (ph_options (ps_header p')) = 1 \<and>
    po_time_domain_id (ph_options (ps_header p')) = po_time_domain_id (ph_options (ps_header p))"
proof -
  obtain p e where p: "active s = Some p" and e: "framed_encode time selector flags payload False = Inr e"
    and a: "append_checked env (View e) time \<lparr>ac_record_format_id = kFramedRecordV1ProfileId, ac_record_format_version = 1,
        ac_time_domain_id = po_time_domain_id (ph_options (ps_header p))\<rparr>
      (if (ucast flags :: u32) AND 1 \<noteq> 0 then 0 OR 1 else 0) s = Some (Inr (), s')"
    using assms
    by (auto simp: append_framed_record_def active_partition_info_def info_of_def Let_def split: option.splits sum.splits if_split_asm)
  then have "append_impl env (View e) time (if (ucast flags :: u32) AND 1 \<noteq> 0 then 0 OR 1 else 0)
      (Some \<lparr>ac_record_format_id = kFramedRecordV1ProfileId, ac_record_format_version = 1,
        ac_time_domain_id = po_time_domain_id (ph_options (ps_header p))\<rparr>) s = Some (Inr (), s')"
    by (auto simp: append_checked_def split: if_split_asm)
  from wpD(1) [OF wp_append_result this] p e show ?thesis by (auto simp: contract_holds_def)
qed

theorem append_framed_record_result_witness:
  "\<exists>s s' :: nat impl. append_framed_record \<lparr>env_storage = undefined, env_clock = of_nat\<rparr> 9 8 0 (View [7]) s = Some (Inr (), s') \<and>
    (\<exists>e p p'. framed_encode 9 8 0 (View [7]) False = Inr e \<and>
      (builder s' = builder s @ e \<or> builder s' = e) \<and> active s = Some p \<and> active s' = Some p' \<and>
      po_record_format_id (ph_options (ps_header p')) = kFramedRecordV1ProfileId \<and>
      po_record_format_version (ph_options (ps_header p')) = 1 \<and>
      po_time_domain_id (ph_options (ps_header p')) = po_time_domain_id (ph_options (ps_header p)))"
proof -
  let ?env = "\<lparr>env_storage = undefined, env_clock = of_nat\<rparr> :: nat env"
  define v where "v = \<lparr>vh_volume_id_high = 1, vh_volume_id_low = 2, vh_volume_size = 25600, vh_partition_size = 8704,
    vh_partition_count = 2, vh_index_region_size = 256, vh_max_block_payload = 100, vh_persistence_quantum = 256,
    vh_created_time_ns = 0\<rparr>"
  define options where "options = default_partition_options\<lparr>po_record_format_id := kFramedRecordV1ProfileId,
    po_record_format_version := 1, po_time_domain_id := 1\<rparr>"
  define oo where "oo = \<lparr>oo_writable = True, oo_verify_payloads_on_open = False, oo_next_partition = options,
    oo_compression_codecs = [], oo_writer_id_high = 3, oo_writer_id_low = 4, oo_allow_explicit_writer_id_for_testing = True\<rparr>"
  define s :: "nat impl" where "s = (new_impl 0 v oo 3 4)\<lparr>partitions := [new_partition_state (new_partition_header v 0 1 options)],
    active_generation := 1, builder := [0], builder_records := 1\<rparr>"
  have act: "active s = Some (new_partition_state (new_partition_header v 0 1 options))"
    by (simp add: s_def active_def is_active_def new_impl_def new_partition_state_def new_partition_header_def)
  obtain e where e: "framed_encode 9 8 0 (View [7]) False = Inr e" using framed_encode_View [of "[7]" 9 8 0] by auto
  have len: "length e = 33" by (simp add: framed_encode_eq(1) [OF e] open_frame_fields)
  then have ne: "e \<noteq> []" by auto
  have "\<exists>s'. append_framed_record ?env 9 8 0 (View [7]) s = Some (Inr (), s')"
    using len ne
    by (simp add: append_framed_record_def active_partition_info_def act info_of_def new_partition_state_def new_partition_header_def
        options_def default_partition_options_def e Let_def append_checked_def append_impl_def bind_op_def check_writer_def
        ensure_empty_builder_capacity_def contract_holds_def)
      (simp add: s_def new_impl_def v_def oo_def act [unfolded s_def])
  then obtain s' where "append_framed_record ?env 9 8 0 (View [7]) s = Some (Inr (), s')" ..
  then show ?thesis using append_framed_record_result by blast
qed

end
