(* ===== verification/Async_Writer.thy ===== *)
theory Async_Writer
  imports Ring_Machine
begin

text \<open>
  The asynchronous writer (src/async_writer.cpp, include/tfdb/async_writer.hpp): a bounded queue
  between application threads and one background thread that appends to the store and checkpoints it.
  Every section of the code that runs under \<open>mutex_\<close> is one function here; what a thread does between
  two sections (the background thread's calls of the store, the waits) separates them. The instants
  read from the clock are arguments, so every clock is covered. The thread itself is the field
  \<open>aw_worker\<close>: where it is in \<open>run_loop\<close>, with its local variables.
\<close>

section \<open>Data\<close>

record async_writer_options =
  ao_queue_capacity_records :: nat
  ao_queue_capacity_bytes :: nat
  ao_checkpoint_interval :: i64
  ao_custom_clock :: bool

record async_writer_metrics =
  am_submitted_records :: u64
  am_processed_records :: u64
  am_durable_sequence :: u64
  am_checkpoint_calls :: u64
  am_background_errors :: u64
  am_backpressure_events :: u64
  am_maximum_queued_records :: u64
  am_maximum_queued_bytes :: u64
  am_maximum_queue_residence_ns :: u64
  am_maximum_accepted_to_durable_ns :: u64
  am_oldest_undurable_age_ns :: u64

definition zero_async_metrics :: async_writer_metrics where
  "zero_async_metrics = \<lparr>am_submitted_records = 0, am_processed_records = 0, am_durable_sequence = 0,
     am_checkpoint_calls = 0, am_background_errors = 0, am_backpressure_events = 0,
     am_maximum_queued_records = 0, am_maximum_queued_bytes = 0, am_maximum_queue_residence_ns = 0,
     am_maximum_accepted_to_durable_ns = 0, am_oldest_undurable_age_ns = 0\<rparr>"

record aw_item =
  it_bytes :: bytes
  it_time_ns :: i64
  it_flags :: u32
  it_sequence :: u64
  it_contract :: "append_contract option"
  it_submitted_at_ns :: u64

text \<open>What the background thread decided under the lock, and where it is.\<close>

record job =
  jb_item :: "aw_item option"
  jb_do_checkpoint :: bool
  jb_exit_after_checkpoint :: bool
  jb_dequeued_at_ns :: u64

datatype worker =
  No_thread
| Starting
| Waiting (checkpoint_started_ns: u64)
| Working u64 job
| Finishing u64 job status

record 's async_writer =
  aw_store :: "'s impl"
  aw_options :: async_writer_options
  aw_queue :: "aw_item list"
  aw_queued_bytes :: nat
  aw_worker :: worker
  aw_running :: bool
  aw_stopping :: bool
  aw_checkpoint_requested :: bool
  aw_submitted_sequence :: u64
  aw_processed_sequence :: u64
  aw_requested_barrier :: u64
  aw_completed_barrier :: u64
  aw_have_oldest_undurable :: bool
  aw_oldest_undurable_ns :: u64
  aw_metrics :: async_writer_metrics
  aw_background_status :: status

definition new_async_writer :: "'s impl \<Rightarrow> async_writer_options \<Rightarrow> 's async_writer" where
  "new_async_writer store options =
     \<lparr>aw_store = store, aw_options = options, aw_queue = [], aw_queued_bytes = 0, aw_worker = No_thread,
      aw_running = False, aw_stopping = False, aw_checkpoint_requested = False,
      aw_submitted_sequence = 0, aw_processed_sequence = 0, aw_requested_barrier = 0,
      aw_completed_barrier = 0, aw_have_oldest_undurable = False, aw_oldest_undurable_ns = 0,
      aw_metrics = zero_async_metrics, aw_background_status = Ok\<rparr>"

definition elapsed_ns :: "u64 \<Rightarrow> u64 \<Rightarrow> u64" where
  "elapsed_ns begin_ns end_ns = (if end_ns \<ge> begin_ns then end_ns - begin_ns else 0)"

definition interval_elapsed :: "u64 \<Rightarrow> u64 \<Rightarrow> u64 \<Rightarrow> bool" where
  "interval_elapsed started now interval \<longleftrightarrow> now \<ge> started \<and> now - started \<ge> interval"

abbreviation (input) kNanosecondsPerMillisecond :: u64 where "kNanosecondsPerMillisecond \<equiv> 1000000"

section \<open>The application's side\<close>

definition aw_start :: "'s async_writer \<Rightarrow> status \<times> 's async_writer" where
  "aw_start w =
     (if aw_running w then (Error Busy ''async writer already running'', w)
      else if \<not> status_ok (aw_background_status w) then (aw_background_status w, w)
      else if \<not> status_ok (writer_status (aw_store w)) then (writer_status (aw_store w), w)
      else if ao_queue_capacity_records (aw_options w) = 0 \<or> ao_queue_capacity_bytes (aw_options w) = 0 \<or>
        ao_checkpoint_interval (aw_options w) \<le>s 0 \<or>
        ao_checkpoint_interval (aw_options w) > (- 1) div kNanosecondsPerMillisecond
      then (Error Invalid_argument ''invalid async writer options'', w)
      else (Ok, w\<lparr>aw_stopping := False, aw_checkpoint_requested := False, aw_queue := [],
        aw_queued_bytes := 0, aw_submitted_sequence := 0, aw_processed_sequence := 0,
        aw_requested_barrier := 0, aw_completed_barrier := 0, aw_have_oldest_undurable := False,
        aw_metrics := zero_async_metrics, aw_background_status := Ok, aw_running := True,
        aw_worker := Starting\<rparr>))"

definition submit_impl ::
  "byte_view \<Rightarrow> i64 \<Rightarrow> u32 \<Rightarrow> append_contract option \<Rightarrow> u64 \<Rightarrow> 's async_writer \<Rightarrow> status \<times> 's async_writer" where
  "submit_impl item time flags expected now w =
     (if \<not> status_ok (aw_background_status w) then (aw_background_status w, w)
      else if \<not> aw_running w \<or> aw_stopping w then (Error Closed ''async writer is not accepting'', w)
      else if view_empty item then (Error Invalid_argument ''zero-length record'', w)
      else if \<not> view_valid item then (Error Invalid_argument ''null non-empty record'', w)
      else if length (aw_queue w) \<ge> ao_queue_capacity_records (aw_options w) \<or>
        view_size item > ao_queue_capacity_bytes (aw_options w) -
          min (aw_queued_bytes w) (ao_queue_capacity_bytes (aw_options w))
      then (Error Busy ''async writer queue is full'',
        w\<lparr>aw_metrics := (aw_metrics w)\<lparr>am_backpressure_events := am_backpressure_events (aw_metrics w) + 1\<rparr>\<rparr>)
      else let queued = \<lparr>it_bytes = view_bytes item, it_time_ns = time, it_flags = flags,
             it_sequence = aw_submitted_sequence w + 1, it_contract = expected, it_submitted_at_ns = now\<rparr>;
           w = w\<lparr>aw_submitted_sequence := aw_submitted_sequence w + 1,
             aw_queued_bytes := aw_queued_bytes w + length (it_bytes queued), aw_queue := aw_queue w @ [queued]\<rparr>;
           w = (if \<not> aw_have_oldest_undurable w
             then w\<lparr>aw_have_oldest_undurable := True, aw_oldest_undurable_ns := now\<rparr> else w);
           m = aw_metrics w
         in (Ok, w\<lparr>aw_metrics := m\<lparr>am_submitted_records := am_submitted_records m + 1,
             am_maximum_queued_records := max (am_maximum_queued_records m) (of_nat (length (aw_queue w))),
             am_maximum_queued_bytes := max (am_maximum_queued_bytes m) (of_nat (aw_queued_bytes w))\<rparr>\<rparr>))"

definition submit :: "byte_view \<Rightarrow> i64 \<Rightarrow> u32 \<Rightarrow> u64 \<Rightarrow> 's async_writer \<Rightarrow> status \<times> 's async_writer" where
  "submit item time flags now w = submit_impl item time flags None now w"

definition submit_checked ::
  "byte_view \<Rightarrow> i64 \<Rightarrow> append_contract \<Rightarrow> u32 \<Rightarrow> u64 \<Rightarrow> 's async_writer \<Rightarrow> status \<times> 's async_writer" where
  "submit_checked item time expected flags now w = submit_impl item time flags (Some expected) now w"

text \<open>\<open>checkpoint()\<close>: the request, the condition its wait ends with, and what it then returns.\<close>

definition checkpoint_request :: "'s async_writer \<Rightarrow> (status + u64) \<times> 's async_writer" where
  "checkpoint_request w =
     (if \<not> status_ok (aw_background_status w) then (Inl (aw_background_status w), w)
      else if \<not> aw_running w then (Inl (Error Closed ''async writer is not running''), w)
      else let target = aw_submitted_sequence w in
        (Inr target, w\<lparr>aw_requested_barrier := max (aw_requested_barrier w) target,
           aw_checkpoint_requested := True\<rparr>))"

definition checkpoint_wakes :: "u64 \<Rightarrow> 's async_writer \<Rightarrow> bool" where
  "checkpoint_wakes target w \<longleftrightarrow>
     aw_completed_barrier w \<ge> target \<or> \<not> status_ok (aw_background_status w) \<or> \<not> aw_running w"

definition checkpoint_result :: "u64 \<Rightarrow> 's async_writer \<Rightarrow> status" where
  "checkpoint_result target w =
     (if \<not> status_ok (aw_background_status w) then aw_background_status w
      else if aw_completed_barrier w < target then Error Closed ''async writer stopped before checkpoint''
      else Ok)"

text \<open>\<open>stop()\<close>: the request; it then joins the thread and returns the background status.\<close>

definition stop_request :: "'s async_writer \<Rightarrow> 's async_writer" where
  "stop_request w =
     (if aw_running w
      then w\<lparr>aw_stopping := True, aw_requested_barrier := aw_submitted_sequence w, aw_checkpoint_requested := True\<rparr>
      else w)"

definition stop_joined :: "'s async_writer \<Rightarrow> bool" where
  "stop_joined w \<longleftrightarrow> aw_worker w = No_thread"

definition stop_result :: "'s async_writer \<Rightarrow> status" where
  "stop_result w = aw_background_status w"

definition queued_records :: "'s async_writer \<Rightarrow> nat" where
  "queued_records w = length (aw_queue w)"

definition queued_bytes :: "'s async_writer \<Rightarrow> nat" where
  "queued_bytes w = aw_queued_bytes w"

definition background_status :: "'s async_writer \<Rightarrow> status" where
  "background_status w = aw_background_status w"

definition async_metrics :: "u64 \<Rightarrow> 's async_writer \<Rightarrow> async_writer_metrics" where
  "async_metrics now w =
     (if aw_have_oldest_undurable w
      then (aw_metrics w)\<lparr>am_oldest_undurable_age_ns := elapsed_ns (aw_oldest_undurable_ns w) now\<rparr>
      else aw_metrics w)"

section \<open>The background thread\<close>

definition fail_background :: "status \<Rightarrow> 's async_writer \<Rightarrow> 's async_writer" where
  "fail_background status w =
     w\<lparr>aw_metrics := (aw_metrics w)\<lparr>am_background_errors := am_background_errors (aw_metrics w) + 1\<rparr>,
       aw_background_status := status, aw_running := False, aw_stopping := True, aw_queue := [],
       aw_queued_bytes := 0\<rparr>"

text \<open>The interval in nanoseconds; \<open>start\<close> has refused the intervals for which this overflows.\<close>

definition interval_ns :: "'s async_writer \<Rightarrow> u64" where
  "interval_ns w = ao_checkpoint_interval (aw_options w) * kNanosecondsPerMillisecond"

definition worker_begin :: "u64 \<Rightarrow> 's async_writer \<Rightarrow> 's async_writer option" where
  "worker_begin now w = (if aw_worker w = Starting then Some (w\<lparr>aw_worker := Waiting now\<rparr>) else None)"

text \<open>
  The wait at the top of the loop. With a custom clock it ends when there is something to do; with the
  steady clock it may also end with its time-out, which can be at any time.
\<close>

definition worker_wakes :: "u64 \<Rightarrow> 's async_writer \<Rightarrow> bool" where
  "worker_wakes now w \<longleftrightarrow>
     (if ao_custom_clock (aw_options w)
      then aw_stopping w \<or> aw_checkpoint_requested w \<or> aw_queue w \<noteq> [] \<or>
        interval_elapsed (checkpoint_started_ns (aw_worker w)) now (interval_ns w)
      else True)"

text \<open>The rest of the first section: decide between a checkpoint and the next item.\<close>

definition worker_decide :: "u64 \<Rightarrow> u64 \<Rightarrow> u64 \<Rightarrow> 's async_writer \<Rightarrow> 's async_writer" where
  "worker_decide started now dequeued_at w =
     (let do_checkpoint = interval_elapsed started now (interval_ns w);
          do_checkpoint = (do_checkpoint \<or>
            (aw_checkpoint_requested w \<and> aw_processed_sequence w \<ge> aw_requested_barrier w));
          exit_after = (aw_stopping w \<and> aw_queue w = []);
          do_checkpoint = (do_checkpoint \<or> exit_after)
      in if \<not> do_checkpoint \<and> aw_queue w \<noteq> []
         then w\<lparr>aw_queue := tl (aw_queue w),
                aw_queued_bytes := aw_queued_bytes w - length (it_bytes (hd (aw_queue w))),
                aw_worker := Working started \<lparr>jb_item = Some (hd (aw_queue w)), jb_do_checkpoint = do_checkpoint,
                  jb_exit_after_checkpoint = exit_after, jb_dequeued_at_ns = dequeued_at\<rparr>\<rparr>
         else w\<lparr>aw_worker := Working started \<lparr>jb_item = None, jb_do_checkpoint = do_checkpoint,
                  jb_exit_after_checkpoint = exit_after, jb_dequeued_at_ns = 0\<rparr>\<rparr>)"

definition worker_take :: "u64 \<Rightarrow> u64 \<Rightarrow> u64 \<Rightarrow> 's async_writer \<Rightarrow> 's async_writer option" where
  "worker_take woken_at now dequeued_at w =
     (case aw_worker w of
        Waiting started \<Rightarrow>
          if worker_wakes woken_at w then Some (worker_decide started now dequeued_at w) else None
      | _ \<Rightarrow> None)"

text \<open>Outside the lock: the call of the store.\<close>

definition as_status :: "status + unit \<Rightarrow> status" where
  "as_status r = (case r of Inl e \<Rightarrow> e | Inr _ \<Rightarrow> Ok)"

definition store_call :: "'s env \<Rightarrow> job \<Rightarrow> ('s impl, unit) op" where
  "store_call env job =
     (if jb_do_checkpoint job then checkpoint env
      else case jb_item job of
          None \<Rightarrow> return_op ()
        | Some item \<Rightarrow>
            (case it_contract item of
               Some contract \<Rightarrow> append_checked env (View (it_bytes item)) (it_time_ns item) contract (it_flags item)
             | None \<Rightarrow> append env (View (it_bytes item)) (it_time_ns item) (it_flags item)))"

definition worker_store :: "'s env \<Rightarrow> 's async_writer \<Rightarrow> 's async_writer option" where
  "worker_store env w =
     (case aw_worker w of
        Working started job \<Rightarrow>
          (case store_call env job (aw_store w) of
             None \<Rightarrow> None
           | Some (r, s) \<Rightarrow> Some (w\<lparr>aw_store := s, aw_worker := Finishing started job (as_status r)\<rparr>))
      | _ \<Rightarrow> None)"

text \<open>The second section: account for the item and for the checkpoint.\<close>

definition finish_item :: "job \<Rightarrow> 's async_writer \<Rightarrow> 's async_writer" where
  "finish_item job w =
     (case jb_item job of
        None \<Rightarrow> w
      | Some item \<Rightarrow>
          let residence = elapsed_ns (it_submitted_at_ns item) (jb_dequeued_at_ns job); m = aw_metrics w in
          w\<lparr>aw_processed_sequence := it_sequence item,
            aw_metrics := m\<lparr>am_processed_records := am_processed_records m + 1,
              am_maximum_queue_residence_ns := max (am_maximum_queue_residence_ns m) residence\<rparr>\<rparr>)"

definition finish_checkpoint :: "u64 \<Rightarrow> 's async_writer \<Rightarrow> 's async_writer" where
  "finish_checkpoint durable_at w =
     (let m = aw_metrics w;
          advanced = (aw_processed_sequence w > am_durable_sequence m);
          w = w\<lparr>aw_metrics := m\<lparr>am_checkpoint_calls := am_checkpoint_calls m + 1\<rparr>,
                aw_completed_barrier := aw_processed_sequence w\<rparr>;
          w = (if advanced \<and> aw_have_oldest_undurable w
               then let age = elapsed_ns (aw_oldest_undurable_ns w) durable_at; m = aw_metrics w;
                      w = w\<lparr>aw_metrics := m\<lparr>am_maximum_accepted_to_durable_ns :=
                        max (am_maximum_accepted_to_durable_ns m) age\<rparr>\<rparr>
                 in if aw_queue w = [] then w\<lparr>aw_have_oldest_undurable := False\<rparr>
                    else w\<lparr>aw_oldest_undurable_ns := it_submitted_at_ns (hd (aw_queue w))\<rparr>
               else w);
          w = w\<lparr>aw_metrics := (aw_metrics w)\<lparr>am_durable_sequence := aw_completed_barrier w\<rparr>\<rparr>
      in if aw_completed_barrier w \<ge> aw_requested_barrier w
         then w\<lparr>aw_checkpoint_requested := False\<rparr> else w)"

definition worker_finish :: "u64 \<Rightarrow> 's async_writer \<Rightarrow> 's async_writer option" where
  "worker_finish durable_at w =
     (case aw_worker w of
        Finishing started job status \<Rightarrow>
          if \<not> status_ok status then Some ((fail_background status w)\<lparr>aw_worker := No_thread\<rparr>)
          else let w = finish_item job w;
                   w = (if jb_do_checkpoint job then finish_checkpoint durable_at w else w);
                   started = (if jb_do_checkpoint job then durable_at else started)
            in if jb_exit_after_checkpoint job
               then Some (w\<lparr>aw_running := False, aw_worker := No_thread\<rparr>)
               else Some (w\<lparr>aw_worker := Waiting started\<rparr>)
      | _ \<Rightarrow> None)"

text \<open>\<open>run()\<close>: an exception of the store's call ends the thread like a returned error. It may have
  struck anywhere in the call, so the store it leaves is an argument.\<close>

definition worker_throws :: "string option \<Rightarrow> 's impl \<Rightarrow> 's async_writer \<Rightarrow> 's async_writer option" where
  "worker_throws what left w =
     (case aw_worker w of
        Working started job \<Rightarrow>
          Some ((fail_background (Status Internal_error
              (case what of None \<Rightarrow> ''async exception'' | Some text \<Rightarrow> ''async writer thread exception: '' @ text))
              (w\<lparr>aw_store := left\<rparr>))
            \<lparr>aw_worker := No_thread\<rparr>)
      | _ \<Rightarrow> None)"

end
