(* ===== verification/Async_Machine.thy ===== *)
theory Async_Machine
  imports Async_Writer "HOL-Library.Sublist"
begin

text \<open>
  The asynchronous writer as a state machine: any interleaving of application calls, of the background
  thread's sections and of other users of the store. Beside the writer the state records its history:
  the records accepted by \<open>submit\<close>, what the background thread and the other users did to the store,
  and the \<open>checkpoint()\<close> calls that wait, each with its target and the number of records accepted
  before it. Sequence numbers start anew with every \<open>start()\<close>; \<open>base\<close> is where the current session
  starts in the history.
\<close>

section \<open>What happens to the store\<close>

text \<open>The calls of the store: a record it took or refused, a checkpoint that succeeded or not, a call
  that an exception ended, and any use by others.\<close>

datatype store_event =
  Took aw_item
| Refused aw_item
| Checkpointed
| Checkpoint_refused
| Threw
| Other_use

text \<open>The call that stores a queued record.\<close>

definition append_item :: "'s env \<Rightarrow> aw_item \<Rightarrow> ('s impl, unit) op" where
  "append_item env item =
     (case it_contract item of
        Some contract \<Rightarrow> append_checked env (View (it_bytes item)) (it_time_ns item) contract (it_flags item)
      | None \<Rightarrow> append env (View (it_bytes item)) (it_time_ns item) (it_flags item))"

text \<open>The store before and after an event; an exception may leave it in any state.\<close>

fun event_step :: "'s env \<Rightarrow> store_event \<Rightarrow> 's impl \<Rightarrow> 's impl \<Rightarrow> bool" where
  "event_step env (Took item) s s' \<longleftrightarrow> (\<exists>r. append_item env item s = Some (r, s') \<and> status_ok (as_status r))"
| "event_step env (Refused item) s s' \<longleftrightarrow> (\<exists>r. append_item env item s = Some (r, s') \<and> \<not> status_ok (as_status r))"
| "event_step env Checkpointed s s' \<longleftrightarrow> (\<exists>r. checkpoint env s = Some (r, s') \<and> status_ok (as_status r))"
| "event_step env Checkpoint_refused s s' \<longleftrightarrow> (\<exists>r. checkpoint env s = Some (r, s') \<and> \<not> status_ok (as_status r))"
| "event_step env Threw s s' \<longleftrightarrow> True"
| "event_step env Other_use s s' \<longleftrightarrow> store_run env s s'"

fun store_trace :: "'s env \<Rightarrow> 's impl \<Rightarrow> store_event list \<Rightarrow> 's impl \<Rightarrow> bool" where
  "store_trace env s [] s' \<longleftrightarrow> s' = s"
| "store_trace env s (e # es) s' \<longleftrightarrow> (\<exists>t. event_step env e s t \<and> store_trace env t es s')"

lemma store_trace_append:
  "store_trace env s (es @ fs) s' \<longleftrightarrow> (\<exists>t. store_trace env s es t \<and> store_trace env t fs s')"
  by (induction es arbitrary: s) auto

lemma store_run_trans: "store_run env s t \<Longrightarrow> store_run env r s \<Longrightarrow> store_run env r t"
  by (induction rule: store_run.induct) (blast intro: store_run.intros)+

lemma event_step_run: "event_step env e s s' \<Longrightarrow> e \<noteq> Threw \<Longrightarrow> store_run env s s'"
  using store_run.start [of env s]
  by (cases e) (auto simp: append_item_def split: option.splits
      intro: store_run.checkpoint store_run.append store_run.append_checked)

text \<open>Without exceptions the events are a run of the store.\<close>

lemma store_trace_run: "store_trace env s es s' \<Longrightarrow> Threw \<notin> set es \<Longrightarrow> store_run env s s'"
  by (induction es arbitrary: s) (auto intro: store_run.start event_step_run store_run_trans)

text \<open>The records that the store took, and how many of them the last successful checkpoint came after.\<close>

fun took :: "store_event list \<Rightarrow> aw_item list" where
  "took [] = []"
| "took (e # es) = (case e of Took item \<Rightarrow> [item] | _ \<Rightarrow> []) @ took es"

definition covered :: "store_event list \<Rightarrow> nat" where
  "covered es = length (took (rev (dropWhile (\<lambda>e. e \<noteq> Checkpointed) (rev es))))"

lemma took_append [simp]: "took (es @ fs) = took es @ took fs"
  by (induction es) simp_all

lemma covered_simps [simp]:
  "covered [] = 0" "covered (es @ [Checkpointed]) = length (took es)"
  "e \<noteq> Checkpointed \<Longrightarrow> covered (es @ [e]) = covered es"
  by (simp_all add: covered_def)

lemma covered_split:
  assumes "0 < covered es"
  obtains before after where "es = before @ Checkpointed # after" "covered es = length (took before)" "took before \<noteq> []"
proof -
  define d where "d = dropWhile (\<lambda>e. e \<noteq> Checkpointed) (rev es)"
  have "d \<noteq> []" using assms by (intro notI) (simp add: covered_def d_def [symmetric])
  then obtain r where d: "d = Checkpointed # r"
    using hd_dropWhile [of "\<lambda>e. e \<noteq> Checkpointed" "rev es"] by (cases d) (auto simp: d_def)
  have "rev es = takeWhile (\<lambda>e. e \<noteq> Checkpointed) (rev es) @ d" by (simp add: d_def)
  then have "es = rev r @ Checkpointed # rev (takeWhile (\<lambda>e. e \<noteq> Checkpointed) (rev es))"
    unfolding d by (metis append.assoc append_Cons append_Nil rev.simps(2) rev_append rev_rev_ident)
  moreover have "covered es = length (took (rev r))" using d by (simp add: covered_def d_def [symmetric])
  ultimately show ?thesis using assms by (intro that) auto
qed

section \<open>The machine\<close>

record 's aw_state =
  wr :: "'s async_writer"
  accepted :: "aw_item list"
  trace :: "store_event list"
  base :: nat
  waiters :: "(u64 \<times> nat) list"

abbreviation appended :: "'s aw_state \<Rightarrow> aw_item list" where
  "appended x \<equiv> took (trace x)"

abbreviation durable_count :: "'s aw_state \<Rightarrow> nat" where
  "durable_count x \<equiv> covered (trace x)"

definition aw_init :: "'s impl \<Rightarrow> async_writer_options \<Rightarrow> 's aw_state" where
  "aw_init store options = \<lparr>wr = new_async_writer store options, accepted = [], trace = [], base = 0, waiters = []\<rparr>"

text \<open>The record that a call of \<open>submit\<close> hands over.\<close>

definition submitted_item ::
  "byte_view \<Rightarrow> i64 \<Rightarrow> u32 \<Rightarrow> append_contract option \<Rightarrow> u64 \<Rightarrow> u64 \<Rightarrow> aw_item" where
  "submitted_item item time flags expected now sequence =
     \<lparr>it_bytes = view_bytes item, it_time_ns = time, it_flags = flags, it_sequence = sequence,
      it_contract = expected, it_submitted_at_ns = now\<rparr>"

text \<open>The event of the background thread's call; a turn with nothing to do makes none.\<close>

definition job_events :: "job \<Rightarrow> status \<Rightarrow> store_event list" where
  "job_events job status =
     (if jb_do_checkpoint job then [if status_ok status then Checkpointed else Checkpoint_refused]
      else case jb_item job of None \<Rightarrow> [] | Some item \<Rightarrow> [if status_ok status then Took item else Refused item])"

definition note_stored :: "'s async_writer \<Rightarrow> 's aw_state \<Rightarrow> 's aw_state" where
  "note_stored w x =
     (case aw_worker w of
        Finishing started job status \<Rightarrow> x\<lparr>trace := trace x @ job_events job status\<rparr>
      | _ \<Rightarrow> x)"

inductive aw_step :: "'s env \<Rightarrow> 's aw_state \<Rightarrow> 's aw_state \<Rightarrow> bool" for env where
  start: "aw_start (wr x) = (r, w) \<Longrightarrow>
    aw_step env x (x\<lparr>wr := w, base := if status_ok r then length (accepted x) else base x\<rparr>)"
| submit: "submit_impl item time flags expected now (wr x) = (r, w) \<Longrightarrow> aw_submitted_sequence (wr x) \<noteq> - 1 \<Longrightarrow>
    aw_step env x (x\<lparr>wr := w, accepted := if status_ok r
      then accepted x @ [submitted_item item time flags expected now (aw_submitted_sequence (wr x) + 1)] else accepted x\<rparr>)"
| request: "checkpoint_request (wr x) = (Inr target, w) \<Longrightarrow>
    aw_step env x (x\<lparr>wr := w, waiters := (target, length (accepted x)) # waiters x\<rparr>)"
| return: "(target, n) \<in> set (waiters x) \<Longrightarrow> checkpoint_wakes target (wr x) \<Longrightarrow>
    aw_step env x (x\<lparr>waiters := remove1 (target, n) (waiters x)\<rparr>)"
| stop: "aw_step env x (x\<lparr>wr := stop_request (wr x)\<rparr>)"
| begin_loop: "worker_begin now (wr x) = Some w \<Longrightarrow> aw_step env x (x\<lparr>wr := w\<rparr>)"
| take: "worker_take woken_at now dequeued_at (wr x) = Some w \<Longrightarrow> aw_step env x (x\<lparr>wr := w\<rparr>)"
| store: "worker_store env (wr x) = Some w \<Longrightarrow> aw_step env x (note_stored w (x\<lparr>wr := w\<rparr>))"
| finish: "worker_finish durable_at (wr x) = Some w \<Longrightarrow> aw_step env x (x\<lparr>wr := w\<rparr>)"
| throws: "worker_throws what left (wr x) = Some w \<Longrightarrow> aw_step env x (x\<lparr>wr := w, trace := trace x @ [Threw]\<rparr>)"
| other: "store_run env (aw_store (wr x)) s \<Longrightarrow>
    aw_step env x (x\<lparr>wr := (wr x)\<lparr>aw_store := s\<rparr>, trace := trace x @ [Other_use]\<rparr>)"

inductive_cases aw_stepE: "aw_step env x y"

section \<open>The invariant\<close>

text \<open>The record in the background thread's hands that the store has not taken.\<close>

definition in_flight :: "worker \<Rightarrow> aw_item list" where
  "in_flight wk =
     (case wk of
        Working started job \<Rightarrow> (case jb_item job of None \<Rightarrow> [] | Some item \<Rightarrow> [item])
      | Finishing started job status \<Rightarrow>
          (case jb_item job of None \<Rightarrow> [] | Some item \<Rightarrow> if status_ok status then [] else [item])
      | _ \<Rightarrow> [])"

text \<open>A record the store has taken and the writer has not accounted for yet.\<close>

definition unaccounted :: "worker \<Rightarrow> nat" where
  "unaccounted wk =
     (case wk of
        Finishing started job status \<Rightarrow> (case jb_item job of None \<Rightarrow> 0 | Some item \<Rightarrow> if status_ok status then 1 else 0)
      | _ \<Rightarrow> 0)"

definition job_ok :: "'s async_writer \<Rightarrow> job \<Rightarrow> bool" where
  "job_ok w job \<longleftrightarrow> (jb_item job \<noteq> None \<longrightarrow> \<not> jb_do_checkpoint job) \<and>
     (jb_exit_after_checkpoint job \<longrightarrow> jb_do_checkpoint job \<and> jb_item job = None \<and> aw_stopping w \<and> aw_queue w = [])"

definition worker_ok :: "'s aw_state \<Rightarrow> bool" where
  "worker_ok x \<longleftrightarrow> (case aw_worker (wr x) of
     Working started job \<Rightarrow> job_ok (wr x) job
   | Finishing started job status \<Rightarrow> job_ok (wr x) job \<and>
       (status_ok status \<and> jb_do_checkpoint job \<longrightarrow> durable_count x = length (appended x)) \<and>
       (\<forall>item. jb_item job = Some item \<and> status_ok status \<longrightarrow> last (appended x) = item \<and> appended x \<noteq> [])
   | _ \<Rightarrow> True)"

definition queue_ok :: "'s async_writer \<Rightarrow> bool" where
  "queue_ok w \<longleftrightarrow> length (aw_queue w) \<le> ao_queue_capacity_records (aw_options w) \<and>
     aw_queued_bytes w = sum_list (map (length \<circ> it_bytes) (aw_queue w)) \<and>
     aw_queued_bytes w \<le> ao_queue_capacity_bytes (aw_options w)"

text \<open>Sequence numbers count the records of a session; a waiting call knows how many there were.\<close>

definition sequences_ok :: "nat \<Rightarrow> aw_item list \<Rightarrow> bool" where
  "sequences_ok b items \<longleftrightarrow> (\<forall>j. b \<le> j \<and> j < length items \<longrightarrow> unat (it_sequence (items ! j)) = j - b + 1)"

definition waiters_ok :: "nat \<Rightarrow> u64 \<Rightarrow> (u64 \<times> nat) list \<Rightarrow> bool" where
  "waiters_ok b submitted ws \<longleftrightarrow> (\<forall>(t, n) \<in> set ws. t \<le> submitted \<and> n = b + unat t \<or> n \<le> b)"

text \<open>The history of a session that has not failed.\<close>

definition session_ok :: "'s aw_state \<Rightarrow> bool" where
  "session_ok x \<longleftrightarrow> (let w = wr x in
     accepted x = appended x @ in_flight (aw_worker w) @ aw_queue w \<and>
     base x + unat (aw_submitted_sequence w) = length (accepted x) \<and>
     base x + unat (aw_processed_sequence w) + unaccounted (aw_worker w) = length (appended x) \<and>
     sequences_ok (base x) (accepted x) \<and>
     base x + unat (aw_completed_barrier w) \<le> durable_count x \<and> Threw \<notin> set (trace x) \<and>
     aw_requested_barrier w \<le> aw_submitted_sequence w \<and>
     waiters_ok (base x) (aw_submitted_sequence w) (waiters x))"

definition aw_inv :: "'s aw_state \<Rightarrow> bool" where
  "aw_inv x \<longleftrightarrow> (let w = wr x in
     queue_ok w \<and> (aw_running w \<longleftrightarrow> aw_worker w \<noteq> No_thread) \<and> worker_ok x \<and>
     durable_count x \<le> length (appended x) \<and> base x \<le> durable_count x \<and>
     (if status_ok (aw_background_status w)
      then session_ok x \<and> (\<not> aw_running w \<longrightarrow> aw_queue w = [] \<and> durable_count x = length (accepted x))
      else \<not> aw_running w \<and> aw_queue w = [] \<and> prefix (appended x) (accepted x)))"

lemma aw_invD:
  assumes "aw_inv x"
  shows "queue_ok (wr x)" "aw_running (wr x) \<longleftrightarrow> aw_worker (wr x) \<noteq> No_thread" "worker_ok x"
    "durable_count x \<le> length (appended x)" "base x \<le> durable_count x"
    "status_ok (aw_background_status (wr x)) \<Longrightarrow> session_ok x"
    "status_ok (aw_background_status (wr x)) \<Longrightarrow> \<not> aw_running (wr x) \<Longrightarrow> aw_queue (wr x) = [] \<and> durable_count x = length (accepted x)"
    "\<not> status_ok (aw_background_status (wr x)) \<Longrightarrow> \<not> aw_running (wr x) \<and> aw_queue (wr x) = [] \<and> prefix (appended x) (accepted x)"
  using assms by (auto simp: aw_inv_def Let_def split: if_split_asm)

lemma aw_inv_init: "aw_inv (aw_init store options)"
  by (simp add: aw_inv_def aw_init_def new_async_writer_def queue_ok_def worker_ok_def session_ok_def in_flight_def
      unaccounted_def sequences_ok_def waiters_ok_def Let_def)

lemma aw_inv_start:
  assumes inv: "aw_inv x" and st: "aw_start (wr x) = (r, w)"
  shows "aw_inv (x\<lparr>wr := w, base := if status_ok r then length (accepted x) else base x\<rparr>)"
proof (cases "status_ok r")
  case False
  then have "w = wr x" using st by (auto simp: aw_start_def split: if_split_asm)
  then show ?thesis using inv False by simp
next
  case True
  have idle: "\<not> aw_running (wr x)" "status_ok (aw_background_status (wr x))"
    and w: "w = (wr x)\<lparr>aw_stopping := False, aw_checkpoint_requested := False, aw_queue := [],
        aw_queued_bytes := 0, aw_submitted_sequence := 0, aw_processed_sequence := 0,
        aw_requested_barrier := 0, aw_completed_barrier := 0, aw_have_oldest_undurable := False,
        aw_metrics := zero_async_metrics, aw_background_status := Ok, aw_running := True, aw_worker := Starting\<rparr>"
    using st True by (auto simp: aw_start_def split: if_split_asm)
  have d: "durable_count x = length (accepted x)" "aw_queue (wr x) = []" using aw_invD(7) [OF inv idle(2,1)] by auto
  have s: "session_ok x" "aw_worker (wr x) = No_thread" using aw_invD(2,6) [OF inv] idle by auto
  then have app: "appended x = accepted x" "Threw \<notin> set (trace x)" using d by (simp_all add: session_ok_def in_flight_def Let_def)
  have "n \<le> length (accepted x)" if "(t, n) \<in> set (waiters x)" for t n
    using s(1) that by (auto simp: session_ok_def waiters_ok_def Let_def word_le_nat_alt)
  then have "waiters_ok (length (accepted x)) 0 (waiters x)" by (auto simp: waiters_ok_def)
  then show ?thesis
    using True d app
    by (simp add: aw_inv_def w queue_ok_def worker_ok_def session_ok_def in_flight_def unaccounted_def sequences_ok_def Let_def)
qed

lemma submit_result:
  assumes "submit_impl item time flags expected now w = (r, w')" "status_ok r"
  obtains q where "aw_queue w' = aw_queue w @ [q]" "it_sequence q = aw_submitted_sequence w + 1"
    "aw_submitted_sequence w' = aw_submitted_sequence w + 1" "aw_queued_bytes w' = aw_queued_bytes w + length (it_bytes q)"
    "q = submitted_item item time flags expected now (aw_submitted_sequence w + 1)"
    "status_ok (aw_background_status w)" "aw_running w" "\<not> aw_stopping w"
    "length (aw_queue w) < ao_queue_capacity_records (aw_options w)"
    "aw_queued_bytes w + length (it_bytes q) \<le> max (aw_queued_bytes w) (ao_queue_capacity_bytes (aw_options w))"
    "aw_store w' = aw_store w" "aw_options w' = aw_options w" "aw_worker w' = aw_worker w" "aw_running w' = aw_running w"
    "aw_stopping w' = aw_stopping w" "aw_processed_sequence w' = aw_processed_sequence w"
    "aw_requested_barrier w' = aw_requested_barrier w" "aw_completed_barrier w' = aw_completed_barrier w"
    "aw_background_status w' = aw_background_status w"
proof -
  have v: "view_valid item \<Longrightarrow> view_size item = length (view_bytes item)" by (simp add: view_size_bytes)
  let ?q = "submitted_item item time flags expected now (aw_submitted_sequence w + 1)"
  show ?thesis
    using assms by (intro that [of ?q]) (auto simp: submit_impl_def submitted_item_def Let_def v not_less min_def split: if_split_asm)
qed

lemma submit_refused:
  assumes "submit_impl item time flags expected now w = (r, w')" "\<not> status_ok r"
  shows "w' = w \<or> (\<exists>m. w' = w\<lparr>aw_metrics := m\<rparr>)"
proof (cases "w' = w")
  case False
  then have "w' = w\<lparr>aw_metrics := (aw_metrics w)\<lparr>am_backpressure_events := am_backpressure_events (aw_metrics w) + 1\<rparr>\<rparr>"
    using assms unfolding submit_impl_def Let_def by (simp split: if_split_asm)
  then show ?thesis by blast
qed simp

lemma aw_inv_metrics: "aw_inv (x\<lparr>wr := (wr x)\<lparr>aw_metrics := m\<rparr>\<rparr>) = aw_inv x"
  by (simp add: aw_inv_def queue_ok_def worker_ok_def session_ok_def job_ok_def Let_def split: worker.split)

lemma aw_inv_other: "aw_inv (x\<lparr>wr := (wr x)\<lparr>aw_store := s\<rparr>, trace := trace x @ [Other_use]\<rparr>) = aw_inv x"
  by (simp add: aw_inv_def queue_ok_def worker_ok_def session_ok_def job_ok_def Let_def split: worker.split)

lemma unat_Suc_u64: "(a :: u64) \<noteq> - 1 \<Longrightarrow> unat (a + 1) = unat a + 1"
  by (metis Suc_eq_plus1 eq_neg_iff_add_eq_0 add.commute unatSuc)

lemma sequences_ok_snoc:
  "sequences_ok b items \<Longrightarrow> b \<le> length items \<Longrightarrow> unat (it_sequence q) = length items - b + 1 \<Longrightarrow> sequences_ok b (items @ [q])"
  by (auto simp: sequences_ok_def nth_append less_Suc_eq)

lemma aw_inv_submit:
  assumes inv: "aw_inv x" and sub: "submit_impl item time flags expected now (wr x) = (r, w)"
    and room: "aw_submitted_sequence (wr x) \<noteq> - 1"
  shows "aw_inv (x\<lparr>wr := w, accepted := if status_ok r
    then accepted x @ [submitted_item item time flags expected now (aw_submitted_sequence (wr x) + 1)] else accepted x\<rparr>)"
proof (cases "status_ok r")
  case False
  show ?thesis using submit_refused [OF sub False] False inv by (auto simp: aw_inv_metrics)
next
  case True
  obtain q where q: "aw_queue w = aw_queue (wr x) @ [q]" "it_sequence q = aw_submitted_sequence (wr x) + 1"
    "aw_submitted_sequence w = aw_submitted_sequence (wr x) + 1"
    "aw_queued_bytes w = aw_queued_bytes (wr x) + length (it_bytes q)"
    "submitted_item item time flags expected now (aw_submitted_sequence (wr x) + 1) = q"
    and g: "status_ok (aw_background_status (wr x))" "aw_running (wr x)" "\<not> aw_stopping (wr x)"
      "length (aw_queue (wr x)) < ao_queue_capacity_records (aw_options (wr x))"
      "aw_queued_bytes (wr x) + length (it_bytes q) \<le> max (aw_queued_bytes (wr x)) (ao_queue_capacity_bytes (aw_options (wr x)))"
    and same: "aw_options w = aw_options (wr x)" "aw_worker w = aw_worker (wr x)" "aw_running w = aw_running (wr x)"
      "aw_stopping w = aw_stopping (wr x)" "aw_processed_sequence w = aw_processed_sequence (wr x)"
      "aw_requested_barrier w = aw_requested_barrier (wr x)" "aw_completed_barrier w = aw_completed_barrier (wr x)"
      "aw_background_status w = aw_background_status (wr x)"
    using submit_result [OF sub True] by metis
  note u = unat_Suc_u64 [OF room]
  have s: "session_ok x" using aw_invD(6) [OF inv g(1)] .
  have f: "sequences_ok (base x) (accepted x)" "base x + unat (aw_submitted_sequence (wr x)) = length (accepted x)"
    using s unfolding session_ok_def Let_def by blast+
  have seq: "sequences_ok (base x) (accepted x @ [q])"
    using f q(2) u by (intro sequences_ok_snoc) simp_all
  have wait: "waiters_ok (base x) (aw_submitted_sequence (wr x) + 1) (waiters x)"
    using s u by (fastforce simp: waiters_ok_def session_ok_def Let_def word_le_nat_alt)
  have "aw_requested_barrier (wr x) \<le> aw_submitted_sequence (wr x) + 1"
    using s u by (simp add: session_ok_def Let_def word_le_nat_alt)
  then have "session_ok (x\<lparr>wr := w, accepted := accepted x @ [q]\<rparr>)"
    using s u seq wait by (simp add: session_ok_def Let_def q same)
  moreover have "queue_ok w" using aw_invD(1) [OF inv] g by (auto simp: queue_ok_def q same)
  moreover have "worker_ok (x\<lparr>wr := w, accepted := accepted x @ [q]\<rparr>)"
    using aw_invD(3) [OF inv] g(3) by (auto simp: worker_ok_def same job_ok_def split: worker.splits)
  ultimately show ?thesis
    using True aw_invD [OF inv] g by (simp add: aw_inv_def q(1,5) same Let_def)
qed

lemma aw_inv_request:
  assumes inv: "aw_inv x" and req: "checkpoint_request (wr x) = (Inr target, w)"
  shows "aw_inv (x\<lparr>wr := w, waiters := (target, length (accepted x)) # waiters x\<rparr>)"
proof -
  have g: "status_ok (aw_background_status (wr x))" "aw_running (wr x)" "target = aw_submitted_sequence (wr x)"
    and w: "w = (wr x)\<lparr>aw_requested_barrier := max (aw_requested_barrier (wr x)) target, aw_checkpoint_requested := True\<rparr>"
    using req by (auto simp: checkpoint_request_def Let_def split: if_split_asm)
  have "session_ok x" using aw_invD(6) [OF inv g(1)] .
  then have "session_ok (x\<lparr>wr := w, waiters := (target, length (accepted x)) # waiters x\<rparr>)"
    by (auto simp: session_ok_def waiters_ok_def Let_def w g(3))
  moreover have "worker_ok (x\<lparr>wr := w, waiters := (target, length (accepted x)) # waiters x\<rparr>)"
    using aw_invD(3) [OF inv] by (auto simp: worker_ok_def w job_ok_def split: worker.splits)
  ultimately show ?thesis using aw_invD [OF inv] g by (simp add: aw_inv_def w queue_ok_def Let_def)
qed

lemma aw_inv_return:
  assumes "aw_inv x"
  shows "aw_inv (x\<lparr>waiters := remove1 y (waiters x)\<rparr>)"
proof -
  have "waiters_ok b n (remove1 y ws)" if "waiters_ok b n ws" for b n ws
    using that set_remove1_subset [of y ws] by (auto simp: waiters_ok_def)
  then have "session_ok (x\<lparr>waiters := remove1 y (waiters x)\<rparr>)" if "session_ok x"
    using that by (auto simp: session_ok_def Let_def)
  moreover have "worker_ok (x\<lparr>waiters := remove1 y (waiters x)\<rparr>) = worker_ok x"
    by (simp add: worker_ok_def split: worker.split)
  ultimately show ?thesis using assms by (auto simp: aw_inv_def Let_def split: if_split_asm)
qed

lemma aw_inv_stop:
  assumes inv: "aw_inv x"
  shows "aw_inv (x\<lparr>wr := stop_request (wr x)\<rparr>)"
proof (cases "aw_running (wr x)")
  case True
  have g: "status_ok (aw_background_status (wr x))" using aw_invD(8) [OF inv] True by blast
  have "session_ok (x\<lparr>wr := stop_request (wr x)\<rparr>)"
    using aw_invD(6) [OF inv g] True by (auto simp: session_ok_def Let_def stop_request_def)
  moreover have "worker_ok (x\<lparr>wr := stop_request (wr x)\<rparr>)"
    using aw_invD(3) [OF inv] True by (auto simp: worker_ok_def stop_request_def job_ok_def split: worker.splits)
  ultimately show ?thesis using aw_invD [OF inv] g True by (simp add: aw_inv_def queue_ok_def Let_def stop_request_def)
qed (simp add: stop_request_def inv)

lemma aw_inv_begin:
  assumes inv: "aw_inv x" and "worker_begin now (wr x) = Some w"
  shows "aw_inv (x\<lparr>wr := w\<rparr>)"
proof -
  have w: "w = (wr x)\<lparr>aw_worker := Waiting now\<rparr>" "aw_worker (wr x) = Starting"
    using assms(2) by (auto simp: worker_begin_def split: if_split_asm)
  then have r: "aw_running (wr x)" "status_ok (aw_background_status (wr x))"
    using aw_invD(2,8) [OF inv] by auto
  then show ?thesis
    using aw_invD [OF inv] w(2) by (auto simp: aw_inv_def w queue_ok_def worker_ok_def session_ok_def in_flight_def unaccounted_def Let_def)
qed

lemma aw_inv_take:
  assumes inv: "aw_inv x" and tk: "worker_take woken_at now dequeued_at (wr x) = Some w"
  shows "aw_inv (x\<lparr>wr := w\<rparr>)"
proof -
  obtain started where wk: "aw_worker (wr x) = Waiting started" and w: "w = worker_decide started now dequeued_at (wr x)"
    using tk by (auto simp: worker_take_def split: worker.splits if_split_asm)
  have r: "aw_running (wr x)" "status_ok (aw_background_status (wr x))" using aw_invD(2,8) [OF inv] wk by auto
  have s: "session_ok x" "queue_ok (wr x)" using aw_invD(1,6) [OF inv] r by auto
  show ?thesis
  proof (cases "aw_queue (wr x)")
    case Nil
    then show ?thesis
      using aw_invD [OF inv] r wk s
      by (auto simp: aw_inv_def w worker_decide_def queue_ok_def worker_ok_def job_ok_def session_ok_def in_flight_def unaccounted_def Let_def)
  next
    case (Cons item rest)
    then show ?thesis
      using aw_invD [OF inv] r wk s
      by (auto simp: aw_inv_def w worker_decide_def queue_ok_def worker_ok_def job_ok_def session_ok_def in_flight_def unaccounted_def Let_def)
  qed
qed

lemma aw_inv_fail:
  assumes inv: "aw_inv x" and r: "aw_running (wr x)" and bad: "\<not> status_ok e"
  shows "aw_inv (x\<lparr>wr := (fail_background e (wr x))\<lparr>aw_worker := No_thread\<rparr>\<rparr>)"
    "aw_inv (x\<lparr>wr := (fail_background e ((wr x)\<lparr>aw_store := s\<rparr>))\<lparr>aw_worker := No_thread\<rparr>, trace := trace x @ [Threw]\<rparr>)"
proof -
  have g: "status_ok (aw_background_status (wr x))" using aw_invD(8) [OF inv] r by blast
  have "prefix (appended x) (accepted x)" using aw_invD(6) [OF inv g] by (auto simp: session_ok_def Let_def)
  then show "aw_inv (x\<lparr>wr := (fail_background e (wr x))\<lparr>aw_worker := No_thread\<rparr>\<rparr>)"
    "aw_inv (x\<lparr>wr := (fail_background e ((wr x)\<lparr>aw_store := s\<rparr>))\<lparr>aw_worker := No_thread\<rparr>, trace := trace x @ [Threw]\<rparr>)"
    using aw_invD [OF inv] bad by (simp_all add: aw_inv_def fail_background_def queue_ok_def worker_ok_def Let_def)
qed

lemma aw_inv_throws:
  assumes inv: "aw_inv x" and "worker_throws what left (wr x) = Some w"
  shows "aw_inv (x\<lparr>wr := w, trace := trace x @ [Threw]\<rparr>)"
proof -
  obtain started job where "aw_worker (wr x) = Working started job"
    using assms(2) by (auto simp: worker_throws_def split: worker.splits)
  then have r: "aw_running (wr x)" using aw_invD(2) [OF inv] by simp
  show ?thesis
    using assms(2) aw_inv_fail(2) [OF inv r, of _ left] by (auto simp: worker_throws_def split: worker.splits)
qed

lemma aw_inv_store:
  assumes inv: "aw_inv x" and st: "worker_store env (wr x) = Some w"
  shows "aw_inv (note_stored w (x\<lparr>wr := w\<rparr>))"
proof -
  obtain started job r s where wk: "aw_worker (wr x) = Working started job"
    and w: "w = (wr x)\<lparr>aw_store := s, aw_worker := Finishing started job (as_status r)\<rparr>"
    using st by (auto simp: worker_store_def split: worker.splits option.splits)
  have run: "aw_running (wr x)" "status_ok (aw_background_status (wr x))" using aw_invD(2,8) [OF inv] wk by auto
  have s: "session_ok x" "queue_ok (wr x)" "job_ok (wr x) job" using aw_invD(1,3,6) [OF inv] run wk by (auto simp: worker_ok_def)
  show ?thesis
  proof (cases "status_ok (as_status r)")
    case False
    then show ?thesis
      using aw_invD(4,5) [OF inv] run wk s
      by (auto simp: aw_inv_def note_stored_def job_events_def w queue_ok_def worker_ok_def job_ok_def session_ok_def in_flight_def unaccounted_def Let_def
          split: option.splits)
  next
    case True
    then show ?thesis
      using aw_invD(4,5) [OF inv] run wk s
      by (auto simp: aw_inv_def note_stored_def job_events_def w queue_ok_def worker_ok_def job_ok_def session_ok_def in_flight_def unaccounted_def Let_def
          split: option.splits)
  qed
qed

lemma finish_item_simps [simp]:
  "aw_queue (finish_item job w) = aw_queue w" "aw_queued_bytes (finish_item job w) = aw_queued_bytes w"
  "aw_options (finish_item job w) = aw_options w" "aw_running (finish_item job w) = aw_running w"
  "aw_stopping (finish_item job w) = aw_stopping w" "aw_store (finish_item job w) = aw_store w"
  "aw_submitted_sequence (finish_item job w) = aw_submitted_sequence w"
  "aw_processed_sequence (finish_item job w) =
    (case jb_item job of None \<Rightarrow> aw_processed_sequence w | Some item \<Rightarrow> it_sequence item)"
  "aw_requested_barrier (finish_item job w) = aw_requested_barrier w"
  "aw_completed_barrier (finish_item job w) = aw_completed_barrier w"
  "aw_checkpoint_requested (finish_item job w) = aw_checkpoint_requested w"
  "aw_background_status (finish_item job w) = aw_background_status w"
  by (simp_all add: finish_item_def Let_def split: option.split)

lemma finish_checkpoint_simps [simp]:
  "aw_queue (finish_checkpoint at w) = aw_queue w" "aw_queued_bytes (finish_checkpoint at w) = aw_queued_bytes w"
  "aw_options (finish_checkpoint at w) = aw_options w" "aw_running (finish_checkpoint at w) = aw_running w"
  "aw_stopping (finish_checkpoint at w) = aw_stopping w" "aw_store (finish_checkpoint at w) = aw_store w"
  "aw_submitted_sequence (finish_checkpoint at w) = aw_submitted_sequence w"
  "aw_processed_sequence (finish_checkpoint at w) = aw_processed_sequence w"
  "aw_requested_barrier (finish_checkpoint at w) = aw_requested_barrier w"
  "aw_completed_barrier (finish_checkpoint at w) = aw_processed_sequence w"
  "aw_background_status (finish_checkpoint at w) = aw_background_status w"
  by (simp_all add: finish_checkpoint_def Let_def)

lemma aw_inv_finish:
  assumes inv: "aw_inv x" and fin: "worker_finish durable_at (wr x) = Some w"
  shows "aw_inv (x\<lparr>wr := w\<rparr>)"
proof -
  obtain started job status where wk: "aw_worker (wr x) = Finishing started job status"
    using fin by (auto simp: worker_finish_def split: worker.splits)
  have run: "aw_running (wr x)" "status_ok (aw_background_status (wr x))" using aw_invD(2,8) [OF inv] wk by auto
  have s: "session_ok x" "queue_ok (wr x)" "job_ok (wr x) job" using aw_invD(1,3,6) [OF inv] run wk by (auto simp: worker_ok_def)
  show ?thesis
  proof (cases "status_ok status")
    case False
    then show ?thesis using fin aw_inv_fail(1) [OF inv run(1) False] by (simp add: worker_finish_def wk)
  next
    case True
    define v where "v = (if jb_do_checkpoint job then finish_checkpoint durable_at (finish_item job (wr x)) else finish_item job (wr x))"
    have w: "w = (if jb_exit_after_checkpoint job then v\<lparr>aw_running := False, aw_worker := No_thread\<rparr>
        else v\<lparr>aw_worker := Waiting (if jb_do_checkpoint job then durable_at else started)\<rparr>)"
      using fin True by (simp add: worker_finish_def wk Let_def v_def split: if_split_asm)
    have same: "aw_queue v = aw_queue (wr x)" "aw_queued_bytes v = aw_queued_bytes (wr x)" "aw_options v = aw_options (wr x)"
      "aw_running v = aw_running (wr x)" "aw_submitted_sequence v = aw_submitted_sequence (wr x)"
      "aw_requested_barrier v = aw_requested_barrier (wr x)" "aw_background_status v = aw_background_status (wr x)"
      by (simp_all add: v_def)
    have acc: "accepted x = appended x @ aw_queue (wr x)"
      using s(1) True wk by (auto simp: session_ok_def Let_def in_flight_def split: option.splits)
    have proc: "base x + unat (aw_processed_sequence v) = length (appended x)"
    proof (cases "jb_item job")
      case None
      then show ?thesis using s(1) wk by (simp add: session_ok_def Let_def unaccounted_def v_def)
    next
      case (Some item)
      have l: "last (appended x) = item" "appended x \<noteq> []" using aw_invD(3) [OF inv] wk Some True by (auto simp: worker_ok_def)
      have n: "base x + unat (aw_processed_sequence (wr x)) + 1 = length (appended x)" "sequences_ok (base x) (accepted x)"
        using s(1) wk Some True by (auto simp: session_ok_def Let_def unaccounted_def)
      have "accepted x ! (length (appended x) - 1) = item"
        using l acc by (simp add: nth_append last_conv_nth)
      then have "unat (it_sequence item) = length (appended x) - 1 - base x + 1"
        using n acc unfolding sequences_ok_def by (metis Suc_eq_plus1 add_diff_cancel_right' le_add1 length_append lessI less_le_trans trans_less_add1)
      then show ?thesis using n(1) Some by (simp add: v_def)
    qed
    have ck: "durable_count x = length (appended x)" if "jb_do_checkpoint job"
      using aw_invD(3) [OF inv] wk True that by (simp add: worker_ok_def)
    have comp: "base x + unat (aw_completed_barrier v) \<le> durable_count x"
      using s(1) ck proc by (auto simp: v_def session_ok_def Let_def)
    have ex: "jb_do_checkpoint job" "aw_queue (wr x) = []" if "jb_exit_after_checkpoint job"
      using s(3) that by (simp_all add: job_ok_def)
    have "session_ok (x\<lparr>wr := w\<rparr>)"
      using s(1) acc proc comp by (simp add: session_ok_def Let_def w same in_flight_def unaccounted_def)
    moreover have "queue_ok w" using s(2) by (simp add: queue_ok_def w same)
    moreover have "worker_ok (x\<lparr>wr := w\<rparr>)" by (simp add: worker_ok_def w)
    ultimately show ?thesis
      using aw_invD(4,5) [OF inv] run ck ex acc by (auto simp: aw_inv_def Let_def w same)
  qed
qed

lemma store_call_events:
  assumes "store_call env job s = Some (r, s')" "jb_item job \<noteq> None \<longrightarrow> \<not> jb_do_checkpoint job"
  shows "store_trace env s (job_events job (as_status r)) s'"
  using assms by (auto simp: store_call_def job_events_def append_item_def return_op_def split: if_split_asm option.splits)

lemma aw_inv_step: "aw_step env x y \<Longrightarrow> aw_inv x \<Longrightarrow> aw_inv y"
  by (induction rule: aw_step.induct)
    (simp_all add: aw_inv_start aw_inv_submit aw_inv_request aw_inv_return aw_inv_stop aw_inv_begin aw_inv_take aw_inv_store
      aw_inv_finish aw_inv_throws aw_inv_other)

lemma aw_inv_reachable: "(aw_step env)\<^sup>*\<^sup>* (aw_init store options) x \<Longrightarrow> aw_inv x"
  by (induction rule: rtranclp_induct) (auto intro: aw_inv_init aw_inv_step)

section \<open>The store behind the writer\<close>

text \<open>The recorded events are what has happened to the store.\<close>

lemma aw_step_trace:
  assumes "aw_step env x y" "aw_inv x"
  shows "\<exists>es. trace y = trace x @ es \<and> store_trace env (aw_store (wr x)) es (aw_store (wr y))"
  using assms
proof (induction rule: aw_step.induct)
  case (start x r w)
  then show ?case by (auto simp: aw_start_def split: if_split_asm)
next
  case (submit item time flags expected now x r w)
  then have "aw_store w = aw_store (wr x)" by (auto simp: submit_impl_def Let_def split: if_split_asm)
  then show ?case by simp
next
  case (store x w)
  then obtain started job r s where wk: "aw_worker (wr x) = Working started job"
    and call: "store_call env job (aw_store (wr x)) = Some (r, s)"
    and w: "w = (wr x)\<lparr>aw_store := s, aw_worker := Finishing started job (as_status r)\<rparr>"
    by (auto simp: worker_store_def split: worker.splits option.splits)
  have "job_ok (wr x) job" using aw_invD(3) [OF store.prems] wk by (simp add: worker_ok_def)
  then have "store_trace env (aw_store (wr x)) (job_events job (as_status r)) s"
    by (intro store_call_events [OF call]) (simp add: job_ok_def)
  then show ?case by (simp add: note_stored_def w)
next
  case (finish durable_at x w)
  then have "aw_store w = aw_store (wr x)"
    by (auto simp: worker_finish_def fail_background_def Let_def split: worker.splits if_split_asm)
  then show ?case by simp
qed (auto simp: checkpoint_request_def stop_request_def worker_begin_def worker_take_def worker_decide_def Let_def
    split: if_split_asm worker.splits)

lemma aw_reachable_trace:
  assumes "(aw_step env)\<^sup>*\<^sup>* (aw_init store options) x"
  shows "store_trace env store (trace x) (aw_store (wr x))"
  using assms
proof (induction rule: rtranclp_induct)
  case (step y z)
  then show ?case
    using aw_step_trace [OF step.hyps(2) aw_inv_reachable [OF step.hyps(1)]] by (auto simp: store_trace_append)
qed (simp add: aw_init_def new_async_writer_def)

text \<open>As long as the writer has not failed, this is a run of the store.\<close>

lemma aw_reachable_run:
  assumes "(aw_step env)\<^sup>*\<^sup>* (aw_init store options) x" "status_ok (aw_background_status (wr x))"
  shows "store_run env store (aw_store (wr x))"
proof -
  have "Threw \<notin> set (trace x)"
    using aw_invD(6) [OF aw_inv_reachable [OF assms(1)] assms(2)] by (simp add: session_ok_def Let_def)
  then show ?thesis by (rule store_trace_run [OF aw_reachable_trace [OF assms(1)]])
qed

end
