(* ===== verification/Reliable_Storage.thy ===== *)
theory Reliable_Storage
  imports Memory_Storage
begin

text \<open>
  A backend that does not fail: calls inside the medium succeed and make progress. Exact transfers
  over it succeed. The memory backend is such a backend when it is writable and has no fault rules.
\<close>

locale reliable_storage = storage_contract +
  fixes reliable :: "'a \<Rightarrow> bool"
  assumes reliable_good: "reliable s \<Longrightarrow> good s"
    and reliable_writable: "reliable s \<Longrightarrow> storage_writable st s"
    and reliable_read: "reliable s \<Longrightarrow> read_at st off (View buf) s = (r, part, s') \<Longrightarrow>
      reliable s' \<and> (buf \<noteq> [] \<and> unat off + length buf \<le> length (image s) \<longrightarrow>
        status_ok (io_status r) \<and> 0 < transferred r)"
    and reliable_write: "reliable s \<Longrightarrow> write_at st off (View buf) s = (r, s') \<Longrightarrow>
      reliable s' \<and> (buf \<noteq> [] \<and> unat off + length buf \<le> length (image s) \<longrightarrow>
        status_ok (io_status r) \<and> 0 < transferred r)"
    and reliable_flush: "reliable s \<Longrightarrow> flush st s = (fs, s') \<Longrightarrow> reliable s' \<and> status_ok fs"
begin

lemma read_exact_loop_reliable:
  assumes "reliable s" "d \<le> length buf" "unat off + length buf \<le> length (image s)"
  shows "\<exists>out s'. read_exact_loop st off d buf s = Some (Ok, out, s') \<and> reliable s'"
  using assms
proof (induction "length buf - d" arbitrary: d buf s rule: less_induct)
  case less
  note good = reliable_good [OF less.prems(1)]
  show ?case
  proof (cases "d < length buf")
    case False
    then show ?thesis using less.prems read_exact_loop.simps [of st off d buf s] by simp
  next
    case True
    obtain r part s1 where rd: "read_at st (off + of_nat d) (View (drop d buf)) s = (r, part, s1)"
      by (cases "read_at st (off + of_nat d) (View (drop d buf)) s") auto
    have "unat off + d < 2 ^ 64" using True less.prems(3) image_less [OF good] by simp
    note off = unat_offset [OF this]
    have ok: "reliable s1" "status_ok (io_status r)" "0 < transferred r"
      using reliable_read [OF less.prems(1) rd] True less.prems(3) off by auto
    have img: "image s1 = image s" "transferred r \<le> length buf - d"
      using read_ok [OF good rd] by auto
    have "read_exact_loop st off d buf s = read_exact_loop st off (d + transferred r) (blit buf d part) s1"
      using read_exact_loop.simps [of st off d buf s] True rd ok img by simp
    then show ?thesis
      using less.hyps [of "blit buf d part" "d + transferred r" s1] True less.prems ok img by simp
  qed
qed

lemma write_exact_loop_reliable:
  assumes "reliable s" "d \<le> length buf" "unat off + length buf \<le> length (image s)"
  shows "\<exists>s'. write_exact_loop st off d buf s = Some (Ok, s') \<and> reliable s'"
  using assms
proof (induction "length buf - d" arbitrary: d s rule: less_induct)
  case less
  note good = reliable_good [OF less.prems(1)]
  show ?case
  proof (cases "d < length buf")
    case False
    then show ?thesis using less.prems write_exact_loop.simps [of st off d buf s] by simp
  next
    case True
    obtain r s1 where wr: "write_at st (off + of_nat d) (View (drop d buf)) s = (r, s1)"
      by (cases "write_at st (off + of_nat d) (View (drop d buf)) s") auto
    have "unat off + d < 2 ^ 64" using True less.prems(3) image_less [OF good] by simp
    note off = unat_offset [OF this]
    have ok: "reliable s1" "status_ok (io_status r)" "0 < transferred r"
      using reliable_write [OF less.prems(1) wr] True less.prems(3) off by auto
    have img: "length (image s1) = length (image s)" "transferred r \<le> length buf - d"
      using write_ok [OF good wr] by auto
    have "write_exact_loop st off d buf s = write_exact_loop st off (d + transferred r) buf s1"
      using write_exact_loop.simps [of st off d buf s] True wr ok img by simp
    then show ?thesis
      using less.hyps [of "d + transferred r" s1] True less.prems ok img by simp
  qed
qed

lemma read_exact_reliable:
  assumes "reliable s" "unat off + length buf \<le> length (image s)"
  obtains s' where "read_exact st off (View buf) s = Some (Ok, sub_bytes (image s) (unat off) (length buf), s')"
    "reliable s'" "image s' = image s" "durable s' = durable s"
proof -
  obtain out s' where r: "read_exact st off (View buf) s = Some (Ok, out, s')" "reliable s'"
    using read_exact_loop_reliable [of s 0 buf off] assms by (auto simp: read_exact_def)
  moreover have "out = sub_bytes (image s) (unat off) (length buf) \<and> image s' = image s \<and> durable s' = durable s"
    by (rule read_exact_correct [OF reliable_good [OF assms(1)], of off buf]) (use r(1) in auto)
  ultimately show ?thesis using that by blast
qed

lemma write_exact_reliable:
  assumes "reliable s" "unat off + length buf \<le> length (image s)"
  obtains s' where "write_exact st off (View buf) s = Some (Ok, s')"
    "reliable s'" "image s' = blit (image s) (unat off) buf" "durable s' = durable s"
proof -
  obtain s' where r: "write_exact st off (View buf) s = Some (Ok, s')" "reliable s'"
    using write_exact_loop_reliable [of s 0 buf off] assms by (auto simp: write_exact_def)
  moreover have "image s' = blit (image s) (unat off) buf \<and> durable s' = durable s"
    by (rule write_exact_correct [OF reliable_good [OF assms(1)], of off buf]) (use r(1) in auto)
  ultimately show ?thesis using that by blast
qed

lemma flush_reliable:
  assumes "reliable s"
  obtains fs s' where "flush st s = (fs, s')" "status_ok fs" "reliable s'" "image s' = image s" "durable s' = image s"
proof -
  obtain fs s' where f: "flush st s = (fs, s')" by fastforce
  then show ?thesis
    using that reliable_flush [OF assms f] flush_ok [OF reliable_good [OF assms] f] by auto
qed

end

definition mem_reliable :: "memory_storage \<Rightarrow> bool" where
  "mem_reliable s \<longleftrightarrow> mem_good s \<and> mem_writable s \<and> mem_faults s = []"

interpretation mem_rel: reliable_storage "memory_backend None" mem_volatile mem_durable mem_good
  mem_read_stall mem_write_stall mem_reliable
proof unfold_locales
  fix s off buf r part s' fs
  assume rel: "mem_reliable s"
  show "mem_good s" "storage_writable (memory_backend None) s"
    using rel by (simp_all add: mem_reliable_def memory_backend_def)
  show "mem_reliable s' \<and> (buf \<noteq> [] \<and> unat off + length buf \<le> length (mem_volatile s) \<longrightarrow>
      status_ok (io_status r) \<and> 0 < transferred r)"
    if "read_at (memory_backend None) off (View buf) s = (r, part, s')"
    using that rel by (auto simp: mem_reliable_def mem_good_def memory_backend_def mem_read_at_def fault_outcome_def
        Let_def split: if_splits)
  show "mem_reliable s' \<and> (buf \<noteq> [] \<and> unat off + length buf \<le> length (mem_volatile s) \<longrightarrow>
      status_ok (io_status r) \<and> 0 < transferred r)"
    if "write_at (memory_backend None) off (View buf) s = (r, s')"
    using that rel by (auto simp: mem_reliable_def mem_good_def memory_backend_def mem_write_at_def fault_outcome_def
        Let_def split: if_splits)
  show "mem_reliable s' \<and> status_ok fs" if "flush (memory_backend None) s = (fs, s')"
    using that rel by (auto simp: mem_reliable_def mem_good_def memory_backend_def mem_flush_def Let_def split: if_splits)
qed

end
