(* ===== verification/Ring_Format.thy ===== *)
theory Ring_Format
  imports Ring_Machine Reliable_Storage
begin

text \<open>
  A blank medium on a backend that does not fail: \<open>format\<close> lays out a volume and \<open>open\<close> returns a
  writable store with one empty partition.
\<close>

section \<open>Where partitions lie\<close>

lemma partition_extent:
  assumes "geometry_ok v" "slot < vh_partition_count v"
  shows "unat (partition_base v slot) = 8192 + unat slot * unat (vh_partition_size v)"
    "8192 + unat slot * unat (vh_partition_size v) + unat (vh_partition_size v) \<le> unat (vh_volume_size v)"
proof -
  obtain sz where ok: "status_ok (validate_volume_geometry v sz)" using assms(1) by (auto simp: geometry_ok_def)
  let ?p = "vh_partition_size v"
  have c: "8192 \<le> vh_volume_size v" "?p \<noteq> 0"
    "ucast (vh_partition_count v) \<le> (vh_volume_size v - 8192) div ?p"
    using ok by (auto simp: validate_volume_geometry_def Let_def not_less split: if_splits)
  have "unat (vh_partition_count v) \<le> (unat (vh_volume_size v) - 8192) div unat ?p"
    using c(1,3) by (simp add: word_le_nat_alt unat_div unat_sub)
  then have "unat (vh_partition_count v) * unat ?p \<le> unat (vh_volume_size v) - 8192"
    by (meson div_times_less_eq_dividend le_trans mult_le_mono1)
  moreover have "unat slot * unat ?p + unat ?p \<le> unat (vh_partition_count v) * unat ?p"
    using assms(2) by (metis Suc_leI add.commute mult_Suc mult_le_mono1 word_less_nat_alt)
  ultimately show fit: "8192 + unat slot * unat ?p + unat ?p \<le> unat (vh_volume_size v)"
    using c(1) by (simp add: word_le_nat_alt)
  have "unat (ucast slot * ?p) = unat slot * unat ?p"
    using fit unat_u64_less [of "vh_volume_size v"] by (simp add: unat_word_ariths)
  then show "unat (partition_base v slot) = 8192 + unat slot * unat ?p"
    using fit unat_u64_less [of "vh_volume_size v"] by (simp add: partition_base_def unat_word_ariths)
qed

lemma partition_size_ge:
  assumes "geometry_ok v" shows "8192 < unat (vh_partition_size v)"
  using geometry_okD(3,5,6) [OF assms] by (simp add: word_le_nat_alt)

lemma geometry_wf: "geometry_ok v \<Longrightarrow> volume_header_wf v"
  by (auto simp: geometry_ok_def volume_header_wf_def validate_volume_geometry_def is_power_of_two_def Let_def not_less
      split: if_splits)

section \<open>Identifiers\<close>

text \<open>An identifier that is delivered is not zero, whatever the random source returns.\<close>

lemma random_id_loop_nonzero:
  assumes "random_id_loop getrandom calls ids = Some r"
  shows "\<forall>hi lo. r = Inr (hi, lo) \<longrightarrow> hi \<noteq> 0 \<or> lo \<noteq> 0"
  by (rule random_id_loop.raw_induct [OF _ assms]) (auto split: option.splits sum.splits prod.splits if_splits)

lemma chosen_id_nonzero:
  "choose_volume_id getrandom voptions = Some (Inr (hi, lo)) \<Longrightarrow> hi \<noteq> 0 \<or> lo \<noteq> 0"
  "choose_writer_id getrandom options = Some (Inr (hi, lo)) \<Longrightarrow> oo_writable options \<Longrightarrow> hi \<noteq> 0 \<or> lo \<noteq> 0"
  using random_id_loop_nonzero
  by (fastforce simp: choose_volume_id_def choose_writer_id_def random_nonzero_id_def split: if_splits)+

section \<open>Blank slots\<close>

lemma decode_blank_partition_header:
  "decode_partition_header (replicate 1024 0) False = Inl (Error Corrupt ''structure magic mismatch'')"
proof -
  have "replicate 8 (0 :: u8) \<noteq> kPartitionMagic" proof
    assume "replicate 8 (0 :: u8) = kPartitionMagic"
    then have "replicate 8 (0 :: u8) ! 0 = kPartitionMagic ! 0" by simp
    then show False by (simp add: kPartitionMagic_def)
  qed
  then have "common_check (replicate 1024 0) kPartitionMagic kPartitionHeaderEncodedSize 104 =
      Error Corrupt ''structure magic mismatch''"
    by (simp add: common_check_def magic_is_def)
  then show ?thesis by (simp add: decode_partition_header_def)
qed

definition blank_slot :: "bytes \<Rightarrow> volume_header \<Rightarrow> u32 \<Rightarrow> bool" where
  "blank_slot img v slot \<longleftrightarrow> unat (partition_base v slot) + 1024 \<le> length img \<and>
     sub_bytes img (unat (partition_base v slot)) 1024 = replicate 1024 0"

context reliable_storage
begin

lemma read_media_reliable:
  assumes "env_storage env = st" "reliable (media s)" "unat off + n \<le> length (image (media s))"
  obtains m where "read_media env off n s = Some (Inr (sub_bytes (image (media s)) (unat off) n), s\<lparr>media := m\<rparr>)"
    "reliable m" "image m = image (media s)"
proof -
  obtain m where "read_exact st off (View (replicate n 0)) (media s) =
      Some (Ok, sub_bytes (image (media s)) (unat off) n, m)" "reliable m" "image m = image (media s)"
    using read_exact_reliable [of "media s" off "replicate n 0"] assms by auto
  then show ?thesis using that by (simp add: read_media_def assms(1))
qed

lemma write_media_reliable:
  assumes "env_storage env = st" "reliable (media s)" "unat off + length data \<le> length (image (media s))"
  obtains m where "write_media env off data s = Some (Inr (), s\<lparr>media := m\<rparr>)"
    "reliable m" "image m = blit (image (media s)) (unat off) data"
proof -
  obtain m where "write_exact st off (View data) (media s) = Some (Ok, m)" "reliable m"
    "image m = blit (image (media s)) (unat off) data"
    using write_exact_reliable [of "media s" off data] assms by auto
  then show ?thesis using that by (simp add: write_media_def assms(1))
qed

lemma recover_blank_slot:
  assumes env: "env_storage env = st" and rel: "reliable (media s)"
    and blank: "blank_slot (image (media s)) (volume s) slot"
  obtains m where "recover_slot env slot g s = Some (Inr g, s\<lparr>media := m\<rparr>)" "reliable m" "image m = image (media s)"
proof -
  let ?b = "partition_base (volume s) slot"
  have b: "unat ?b + 1024 \<le> length (image (media s))" "sub_bytes (image (media s)) (unat ?b) 1024 = replicate 1024 0"
    using blank by (simp_all add: blank_slot_def)
  obtain m where m: "read_media env ?b 1024 s = Some (Inr (replicate 1024 0), s\<lparr>media := m\<rparr>)"
    "reliable m" "image m = image (media s)"
    using read_media_reliable [OF env rel b(1)] b(2) by auto
  obtain m' where m': "read_media env ?b 1024 (s\<lparr>media := m\<rparr>) = Some (Inr (replicate 1024 0), s\<lparr>media := m'\<rparr>)"
    "reliable m'" "image m' = image (media s)"
    using read_media_reliable [OF env, of "s\<lparr>media := m\<rparr>" ?b 1024] m b by auto
  have hdr: "read_partition_header env slot s = Some (Inl (Error Corrupt ''structure magic mismatch''), s\<lparr>media := m\<rparr>)"
    by (simp add: read_partition_header_def bind_op_def m(1) decode_blank_partition_header)
  have zero: "list_all (\<lambda>b. b = 0) (replicate n (0 :: u8))" for n by (induction n) simp_all
  have "recover_slot env slot g s = Some (Inr g, s\<lparr>media := m'\<rparr>)"
    by (simp add: recover_slot_def bind_op_def try_op_def hdr damaged_slot_def m'(1) Let_def zero)
  then show ?thesis using that m' by blast
qed

lemma recover_blank_slots:
  assumes "env_storage env = st" "reliable (media s)" "\<forall>slot \<in> set slots. blank_slot (image (media s)) (volume s) slot"
  shows "\<exists>m. recover_slots env slots g s = Some (Inr (), s\<lparr>media := m\<rparr>) \<and> reliable m \<and> image m = image (media s)"
  using assms(2,3)
proof (induction slots arbitrary: s)
  case Nil
  then show ?case by (intro exI [of _ "media s"]) simp
next
  case (Cons slot slots)
  obtain m where m: "recover_slot env slot g s = Some (Inr g, s\<lparr>media := m\<rparr>)" "reliable m" "image m = image (media s)"
    using recover_blank_slot [OF assms(1) Cons.prems(1)] Cons.prems(2) by auto
  show ?case using Cons.IH [of "s\<lparr>media := m\<rparr>"] Cons.prems m by (simp add: bind_op_def)
qed

lemma sync_media_reliable:
  assumes "env_storage env = st" "reliable (media s)"
  obtains s' where "sync_media env False s = Some (Inr (), s')" "reliable (media s')" "image (media s') = image (media s)"
    "volume s' = volume s"
proof -
  obtain fs m where f: "flush st (media s) = (fs, m)" "status_ok fs" "reliable m" "image m = image (media s)"
    using flush_reliable [OF assms(2)] by metis
  have m: "media (note_sync n t) = media t" "volume (note_sync n t) = volume t" for n and t :: "'a impl"
    by (simp_all add: note_sync_def Let_def)
  have "sync_media env False s = Some (Inr (), note_sync (env_clock env (clock_reads s + 1) - env_clock env (clock_reads s))
      (s\<lparr>media := m, clock_reads := clock_reads s + 2\<rparr>))"
    using f(1,2) by (simp add: sync_media_def assms(1))
  then show ?thesis by (rule that) (simp_all add: m f)
qed

lemma create_partition_reliable:
  assumes env: "env_storage env = st" and rel: "reliable (media s)" and g: "generation \<noteq> 0"
    and ok: "options_ok s options" and fit: "unat (partition_base (volume s) slot) + 1024 \<le> length (image (media s))"
  obtains s' where "create_partition env slot generation options s = Some (Inr (), s')" "reliable (media s')"
    "image (media s') = blit (image (media s)) (unat (partition_base (volume s) slot))
      (encode_partition_header (new_partition_header (volume s) slot generation options)
        (vh_partition_size (volume s)) (vh_index_region_size (volume s)))"
proof -
  let ?data = "encode_partition_header (new_partition_header (volume s) slot generation options)
    (vh_partition_size (volume s)) (vh_index_region_size (volume s))"
  obtain m where m: "write_media env (partition_base (volume s) slot) ?data s = Some (Inr (), s\<lparr>media := m\<rparr>)"
    "reliable m" "image m = blit (image (media s)) (unat (partition_base (volume s) slot)) ?data"
    using write_media_reliable [OF env rel, of "partition_base (volume s) slot" ?data] fit by auto
  obtain t where t: "sync_media env False (s\<lparr>media := m\<rparr>) = Some (Inr (), t)" "reliable (media t)" "image (media t) = image m"
    using sync_media_reliable [OF env, of "s\<lparr>media := m\<rparr>"] m(2) by auto
  have "create_partition env slot generation options s = Some (Inr (),
      install_partition (new_partition_header (volume s) slot generation options)
        (case active s of None \<Rightarrow> False | Some previous \<Rightarrow>
           po_time_domain_id (ph_options (ps_header previous)) \<noteq> po_time_domain_id options) t)"
    using g ok t by (simp add: create_partition_def bind_op_def catch_op_def status_op_def Let_def m(1) options_ok_def)
  then show ?thesis by (rule that) (simp_all add: t m)
qed

lemma open_blank:
  assumes env: "env_storage env = st" and rel: "reliable m" and wr: "oo_writable options"
    and hdr: "volume_header_wf v" "sub_bytes (image m) 0 256 = encode_volume_header v" "sub_bytes (image m) 4096 256 = encode_volume_header v"
    and geo: "validate_volume_geometry v (storage_size st m) = Ok"
    and blank: "\<forall>slot. slot < vh_partition_count v \<longrightarrow> blank_slot (image m) v slot"
    and wid: "choose_writer_id getrandom options = Some (Inr (hi, lo))"
    and opts: "status_ok (validate_partition_options options (oo_next_partition options))"
  obtains s m2 m3 where "open_store env getrandom options False m = Some (Inr s, media s)" "reliable (media s)"
    "image (media s) = blit (image m) (unat (partition_base v 0))
      (encode_partition_header (new_partition_header v 0 1 (oo_next_partition options))
        (vh_partition_size v) (vh_index_region_size v))"
    "create_partition env 0 1 (oo_next_partition options)
      (settle_catalog ((new_impl m2 v options hi lo)\<lparr>media := m3\<rparr>)) = Some (Inr (), s)"
proof -
  have sz: "unat (storage_size st m) = length (image m)" by (rule size_image [OF reliable_good [OF rel]])
  have g: "geometry_ok v" unfolding geometry_ok_def by (rule exI [of _ "storage_size st m"]) (simp add: geo)
  have "vh_volume_size v \<le> storage_size st m" "8192 \<le> vh_volume_size v"
    using arg_cong [OF geo, of status_ok] by (auto simp: validate_volume_geometry_def Let_def not_less split: if_splits)
  then have len: "8192 \<le> length (image m)" using sz by (simp add: word_le_nat_alt)
  obtain m1 where m1: "read_exact st 0 (View (replicate 256 0)) m = Some (Ok, encode_volume_header v, m1)" "reliable m1" "image m1 = image m"
    using read_exact_reliable [OF rel, of 0 "replicate 256 0"] len hdr(2) by auto
  obtain m2 where m2: "read_exact st 4096 (View (replicate 256 0)) m1 = Some (Ok, encode_volume_header v, m2)" "reliable m2" "image m2 = image m"
    using read_exact_reliable [OF m1(2), of 4096 "replicate 256 0"] m1(3) len hdr(3) by auto
  have sz2: "storage_size st m2 = storage_size st m"
    using size_image [OF reliable_good [OF m2(2)]] sz m2(3) by (simp add: word_unat_eq_iff)
  have choose: "choose_volume (decode_copy Ok (encode_volume_header v)) (decode_copy Ok (encode_volume_header v)) = Inr v"
    by (simp add: decode_copy_def choose_volume_def decode_encode_volume_header [OF hdr(1)] same_volume_header_def)
  let ?s = "new_impl m2 v options hi lo"
  have sel: "media ?s = m2" "volume ?s = v" "partitions ?s = []" "corrupt_slots ?s = []" "open_options ?s = options" "writable ?s"
    using wr by (simp_all add: new_impl_def)
  obtain m3 where m3: "recover_slots env (slots_of v) {} ?s = Some (Inr (), ?s\<lparr>media := m3\<rparr>)" "reliable m3" "image m3 = image m"
    using recover_blank_slots [OF env, of ?s "slots_of v" "{}"] slots_of_ok(2) blank m2 by (auto simp: sel)
  let ?t = "settle_catalog (?s\<lparr>media := m3\<rparr>)"
  have t: "media ?t = m3" "volume ?t = v" "partitions ?t = []" "corrupt_slots ?t = []" "open_options ?t = options"
    by (simp_all add: settle_catalog_def sel)
  have "0 < vh_partition_count v" using geometry_okD(1) [OF g] by (auto simp: word_gt_0)
  then have fit: "unat (partition_base v 0) + 1024 \<le> length (image m)" using blank by (simp add: blank_slot_def)
  obtain s where s: "create_partition env 0 1 (oo_next_partition options) ?t = Some (Inr (), s)" "reliable (media s)"
    "image (media s) = blit (image m) (unat (partition_base v 0))
      (encode_partition_header (new_partition_header v 0 1 (oo_next_partition options))
        (vh_partition_size v) (vh_index_region_size v))"
    using create_partition_reliable [OF env, of ?t 1 "oo_next_partition options" 0] opts fit m3
    by (auto simp: t options_ok_def)
  have "recover_store env ?s = Some (Inr (), s)"
    using opts m3(1) s(1) by (simp add: recover_store_def bind_op_def status_op_def sel start_writing_def t)
  then have "open_store env getrandom options False m = Some (Inr s, media s)"
    using reliable_writable [OF rel] geo
    by (simp add: open_store_def env m1(1) m2(1) choose sz2 wid Let_def)
  then show ?thesis using s by (intro that [of s m3 m2]) simp_all
qed

lemma format_reliable:
  assumes rel: "reliable m" and chk: "status_ok (check_volume_options (storage_size st m) options)"
    and vid: "choose_volume_id getrandom options = Some (Inr (hi, lo))"
  obtains fs m' where "format st getrandom options m = Some (fs, m')" "status_ok fs" "reliable m'"
    "image m' = blit (blit (image m) 0 (encode_volume_header (new_volume_header (storage_size st m) options hi lo)))
       4096 (encode_volume_header (new_volume_header (storage_size st m) options hi lo))"
    "durable m' = image m'"
proof -
  let ?data = "encode_volume_header (new_volume_header (storage_size st m) options hi lo)"
  have sz: "unat (storage_size st m) = length (image m)" by (rule size_image [OF reliable_good [OF rel]])
  have "\<not> storage_size st m < 8192" using chk by (auto simp: check_volume_options_def)
  then have len: "8192 \<le> length (image m)" using sz by (simp add: word_less_nat_alt)
  obtain m1 where m1: "write_exact st 0 (View ?data) m = Some (Ok, m1)" "reliable m1" "image m1 = blit (image m) 0 ?data"
    using write_exact_reliable [OF rel, of 0 ?data] len by auto
  obtain m2 where m2: "write_exact st 4096 (View ?data) m1 = Some (Ok, m2)" "reliable m2" "image m2 = blit (image m1) 4096 ?data"
    using write_exact_reliable [OF m1(2), of 4096 ?data] len m1(3) by auto
  obtain fs m3 where m3: "flush st m2 = (fs, m3)" "status_ok fs" "reliable m3" "image m3 = image m2" "durable m3 = image m2"
    using flush_reliable [OF m2(2)] by metis
  have "format st getrandom options m = Some (fs, m3)"
    using chk m3 reliable_writable [OF rel] by (simp add: format_def Let_def vid m1(1) m2(1))
  then show ?thesis using m3 m1(3) m2(3) by (intro that [of fs m3]) simp_all
qed

lemma sub_bytes_zero: "(\<And>i. off \<le> i \<Longrightarrow> i < off + n \<Longrightarrow> img ! i = 0) \<Longrightarrow> off + n \<le> length img \<Longrightarrow>
    sub_bytes img off n = replicate n 0"
  by (rule nth_equalityI) auto

lemma format_then_open:
  assumes rel: "reliable m" and chk: "status_ok (check_volume_options (storage_size st m) voptions)"
    and vid: "choose_volume_id getrandom voptions = Some (Inr (hi, lo))"
    and blank: "\<forall>i < length (image m). 8192 \<le> i \<longrightarrow> image m ! i = 0"
    and env: "env_storage env = st" and wr: "oo_writable options"
    and wid: "choose_writer_id getrandom' options = Some (Inr (whi, wlo))"
    and opts: "status_ok (validate_partition_options options (oo_next_partition options))"
  obtains fs m' s m2 m3 where "format st getrandom voptions m = Some (fs, m')" "status_ok fs" "reliable m'" "durable m' = image m'"
    "open_store env getrandom' options False m' = Some (Inr s, media s)" "reliable (media s)"
    "length (image (media s)) = length (image m)"
    "sub_bytes (image (media s)) 8192 1024 =
      encode_partition_header (new_partition_header (new_volume_header (storage_size st m) voptions hi lo) 0 1
        (oo_next_partition options)) (vo_partition_size voptions) (vo_index_region_size voptions)"
    "create_partition env 0 1 (oo_next_partition options) (settle_catalog
      ((new_impl m2 (new_volume_header (storage_size st m) voptions hi lo) options whi wlo)\<lparr>media := m3\<rparr>)) = Some (Inr (), s)"
proof -
  let ?v = "new_volume_header (storage_size st m) voptions hi lo"
  let ?data = "encode_volume_header ?v"
  obtain fs m' where f: "format st getrandom voptions m = Some (fs, m')" "status_ok fs" "reliable m'" "durable m' = image m'"
    and img: "image m' = blit (blit (image m) 0 ?data) 4096 ?data"
    using format_reliable [OF rel chk vid] by metis
  have sz: "unat (storage_size st m) = length (image m)" by (rule size_image [OF reliable_good [OF rel]])
  have "\<not> storage_size st m < 8192" using chk by (auto simp: check_volume_options_def)
  then have len: "8192 \<le> length (image m)" using sz by (simp add: word_less_nat_alt)
  have sz': "storage_size st m' = storage_size st m"
    using size_image [OF reliable_good [OF f(3)]] sz by (simp add: img word_unat_eq_iff)
  have geo: "validate_volume_geometry ?v (storage_size st m') = Ok"
    unfolding sz' by (rule format_geometry_valid [OF chk chosen_id_nonzero(1) [OF vid]])
  have g: "geometry_ok ?v" unfolding geometry_ok_def by (rule exI [of _ "storage_size st m'"]) (simp add: geo)
  have wf: "volume_header_wf ?v" by (rule geometry_wf [OF g])
  have copies: "sub_bytes (image m') 0 256 = ?data" "sub_bytes (image m') 4096 256 = ?data"
    using len by (simp_all add: img blit_simps)
  have zero: "image m' ! i = 0" if "8192 \<le> i" "i < length (image m)" for i
    using that blank by (simp add: img nth_blit_outside)
  have blank': "blank_slot (image m') ?v slot" if "slot < vh_partition_count ?v" for slot
  proof -
    have "unat (partition_base ?v slot) + 1024 \<le> length (image m)" "8192 \<le> unat (partition_base ?v slot)"
      using partition_extent [OF g that] partition_size_ge [OF g] sz by (simp_all add: img)
    then show ?thesis using zero by (auto simp: blank_slot_def img intro!: sub_bytes_zero)
  qed
  let ?data0 = "encode_partition_header (new_partition_header ?v 0 1 (oo_next_partition options)) (vh_partition_size ?v) (vh_index_region_size ?v)"
  obtain s m2 m3 where s: "open_store env getrandom' options False m' = Some (Inr s, media s)" "reliable (media s)"
    and imgs: "image (media s) = blit (image m') (unat (partition_base ?v 0)) ?data0"
    and create: "create_partition env 0 1 (oo_next_partition options)
      (settle_catalog ((new_impl m2 ?v options whi wlo)\<lparr>media := m3\<rparr>)) = Some (Inr (), s)"
    using open_blank [OF env f(3) wr wf copies geo _ wid opts] blank' by metis
  have z: "0 < vh_partition_count ?v" using geometry_okD(1) [OF g] by (auto simp: word_gt_0)
  have "unat (partition_base ?v 0) + 1024 \<le> length (image m')" using blank' [OF z] by (simp add: blank_slot_def)
  then have "sub_bytes (image (media s)) 8192 1024 = ?data0"
    unfolding imgs using partition_extent(1) [OF g z] by (simp add: blit_simps)
  then show ?thesis using that [OF f s _ _ create] by (simp add: imgs img)
qed

end

section \<open>A new memory device\<close>

definition test_volume_options :: volume_options where
  "test_volume_options = \<lparr>vo_partition_size = 8704, vo_index_region_size = 256, vo_max_block_payload = 100,
     vo_persistence_quantum = 256, vo_volume_id_high = 1, vo_volume_id_low = 2,
     vo_allow_explicit_volume_id_for_testing = True, vo_created_time_ns = 0\<rparr>"

definition test_open_options :: open_options where
  "test_open_options = \<lparr>oo_writable = True, oo_verify_payloads_on_open = False,
     oo_next_partition = default_partition_options, oo_compression_codecs = [], oo_writer_id_high = 3,
     oo_writer_id_low = 4, oo_allow_explicit_writer_id_for_testing = True\<rparr>"

lemma test_options_ok:
  "status_ok (check_volume_options 25600 test_volume_options)"
  "choose_volume_id getrandom test_volume_options = Some (Inr (1, 2))"
  "choose_writer_id getrandom test_open_options = Some (Inr (3, 4))"
  "status_ok (validate_partition_options test_open_options (oo_next_partition test_open_options))"
  by code_simp+

end
