(* ===== verification/Ring_Media.thy ===== *)
theory Ring_Media
  imports Ring_Format
begin

text \<open>
  What the operations of a store write to the medium, on any backend that keeps the storage
  contract: only behind the data of the active partition, and over the header of the slot that a
  rotation recycles; and whenever the store is not dirty, everything it wrote is durable.
\<close>

definition agree_outside :: "nat set \<Rightarrow> bytes \<Rightarrow> bytes \<Rightarrow> bool" where
  "agree_outside A img img' \<longleftrightarrow> length img' = length img \<and> (\<forall>i < length img. i \<notin> A \<longrightarrow> img' ! i = img ! i)"

lemma agree_outside_refl [simp]: "agree_outside A img img"
  by (simp add: agree_outside_def)

lemma agree_outside_trans:
  "agree_outside A x y \<Longrightarrow> agree_outside B y z \<Longrightarrow> A \<subseteq> C \<Longrightarrow> B \<subseteq> C \<Longrightarrow> agree_outside C x z"
  unfolding agree_outside_def by (metis subsetD)

lemma agree_outside_blit:
  "{off..<off + length data} \<subseteq> A \<Longrightarrow> agree_outside A img (blit img off (take n data))"
  by (auto simp: agree_outside_def nth_blit subset_iff)

lemma agree_outside_sub_bytes:
  "agree_outside A img img' \<Longrightarrow> {off..<off + n} \<inter> A = {} \<Longrightarrow> sub_bytes img' off n = sub_bytes img off n"
  by (rule nth_equalityI) (auto simp: agree_outside_def disjoint_iff)

section \<open>Regions\<close>

definition slot_base :: "volume_header \<Rightarrow> partition_state \<Rightarrow> nat" where
  "slot_base v p = unat (partition_base v (ph_slot (ps_header p)))"

text \<open>The header and the published frames of a partition, and what follows them.\<close>

definition data_region :: "volume_header \<Rightarrow> partition_state \<Rightarrow> nat set" where
  "data_region v p = {slot_base v p..<slot_base v p + unat (ps_data_end p)}"

definition tail_region :: "volume_header \<Rightarrow> partition_state \<Rightarrow> nat set" where
  "tail_region v p = {slot_base v p + unat (ps_data_end p)..<slot_base v p + unat (vh_partition_size v)}"

definition header_region :: "volume_header \<Rightarrow> u32 \<Rightarrow> nat set" where
  "header_region v slot = {unat (partition_base v slot)..<unat (partition_base v slot) + 1024}"

lemma unat_in_partition:
  assumes "geometry_ok v" "slot < vh_partition_count v" "unat off \<le> unat (vh_partition_size v)"
  shows "unat (partition_base v slot + off) = unat (partition_base v slot) + unat off"
  using partition_extent [OF assms(1,2)] assms(3) unat_u64_less [of "vh_volume_size v"]
  by (simp add: unat_word_ariths)

lemma slot_regions_disjoint:
  assumes "geometry_ok v" "a < vh_partition_count v" "b < vh_partition_count v" "a \<noteq> b"
  shows "{unat (partition_base v a)..<unat (partition_base v a) + unat (vh_partition_size v)} \<inter>
    {unat (partition_base v b)..<unat (partition_base v b) + unat (vh_partition_size v)} = {}"
proof -
  let ?p = "unat (vh_partition_size v)"
  have "unat a < unat b \<or> unat b < unat a" using assms(4) by (metis nat_neq_iff word_unat_eq_iff)
  then have "unat a * ?p + ?p \<le> unat b * ?p \<or> unat b * ?p + ?p \<le> unat a * ?p"
    by (metis Suc_leI add.commute mult_Suc mult_le_mono1)
  then show ?thesis using partition_extent(1) [OF assms(1,2)] partition_extent(1) [OF assms(1,3)] by auto
qed

context storage_contract
begin

text \<open>\<open>media_in A img s\<close>: the medium differs from \<open>img\<close> only in \<open>A\<close>.\<close>

definition media_in :: "nat set \<Rightarrow> bytes \<Rightarrow> 's impl \<Rightarrow> bool" where
  "media_in A img s \<longleftrightarrow> good (media s) \<and> agree_outside A img (image (media s))"

text \<open>\<open>synced s\<close>: a store that is neither dirty nor faulted has everything on durable media.\<close>

definition synced :: "'s impl \<Rightarrow> bool" where
  "synced s \<longleftrightarrow> good (media s) \<and> (\<not> faulted s \<and> \<not> dirty s \<longrightarrow> durable (media s) = image (media s))"

lemma media_in_read:
  assumes "env_storage env = st" "good (media s)"
    "\<And>m. good m \<Longrightarrow> image m = image (media s) \<Longrightarrow> durable m = durable (media s) \<Longrightarrow>
      (n \<noteq> 0 \<Longrightarrow> unat off + n \<le> length (image (media s))) \<Longrightarrow> Q (sub_bytes (image (media s)) (unat off) n) (s\<lparr>media := m\<rparr>)"
    "\<And>e m. good m \<Longrightarrow> image m = image (media s) \<Longrightarrow> durable m = durable (media s) \<Longrightarrow> \<not> status_ok e \<Longrightarrow> E e (s\<lparr>media := m\<rparr>)"
  shows "wp (read_media env off n) Q E s"
proof -
  obtain r out m where r: "read_exact st off (View (replicate n 0)) (media s) = Some (r, out, m)"
    "good m" "image m = image (media s)" "durable m = durable (media s)"
    "status_ok r \<Longrightarrow> replicate n (0 :: u8) \<noteq> [] \<Longrightarrow> unat off + length (replicate n (0 :: u8)) \<le> length (image (media s))"
    "status_ok r \<Longrightarrow> out = sub_bytes (image (media s)) (unat off) (length (replicate n (0 :: u8)))"
    using read_exact_correct [OF assms(2), of off "replicate n 0"] by metis
  show ?thesis using r assms(3,4) by (auto simp: wp_def read_media_def assms(1))
qed

lemma media_in_write:
  assumes "env_storage env = st" "good (media s)"
    "\<And>m. good m \<Longrightarrow> image m = blit (image (media s)) (unat off) data \<Longrightarrow> durable m = durable (media s) \<Longrightarrow>
      (data \<noteq> [] \<Longrightarrow> unat off + length data \<le> length (image (media s))) \<Longrightarrow> Q () (s\<lparr>media := m\<rparr>)"
    "\<And>e m n. good m \<Longrightarrow> image m = blit (image (media s)) (unat off) (take n data) \<Longrightarrow> durable m = durable (media s) \<Longrightarrow>
      \<not> status_ok e \<Longrightarrow> E e (s\<lparr>media := m\<rparr>)"
  shows "wp (write_media env off data) Q E s"
proof -
  obtain r m n where r: "write_exact st off (View data) (media s) = Some (r, m)"
    "good m" "durable m = durable (media s)" "n \<le> length data"
    "image m = blit (image (media s)) (unat off) (take n data)"
    "0 < n \<Longrightarrow> unat off + length data \<le> length (image (media s))" "status_ok r \<Longrightarrow> n = length data"
    using write_exact_correct [OF assms(2), of off data] by metis
  show ?thesis using r assms(3,4) by (auto simp: wp_def write_media_def assms(1))
qed

lemma media_in_sync:
  assumes "env_storage env = st" "good (media s)"
    "\<And>s'. good (media s') \<Longrightarrow> image (media s') = image (media s) \<Longrightarrow> durable (media s') = image (media s) \<Longrightarrow> Q () s'"
    "\<And>e s'. good (media s') \<Longrightarrow> image (media s') = image (media s) \<Longrightarrow> faulted s' \<Longrightarrow> E e s'"
  shows "wp (sync_media env adv) Q E s"
proof -
  obtain fs m where f: "flush st (media s) = (fs, m)" by fastforce
  note ok = flush_ok [OF assms(2) f]
  define t where "t = note_sync (env_clock env (clock_reads s + 1) - env_clock env (clock_reads s))
    (s\<lparr>media := m, clock_reads := clock_reads s + 2\<rparr>)"
  have t: "media t = m" "media (note_durable env t) = m" "media (fault fs (note_sync_error t)) = m"
    by (simp_all add: t_def note_sync_def note_durable_def note_sync_error_def fault_def Let_def)
  have "sync_media env adv s = (if \<not> status_ok fs then fail fs (note_sync_error t)
      else Some (Inr (), if adv then note_durable env t else t))"
    by (simp add: sync_media_def assms(1) f t_def)
  then show ?thesis
    using ok t assms(3) [of t] assms(3) [of "note_durable env t"] assms(4) [of "fault fs (note_sync_error t)"]
    by (auto simp: wp_def fail_def fault_def [symmetric])
qed

section \<open>Durability\<close>

lemma synced_fault [simp]: "synced (fault e s) = good (media s)"
  by (simp add: synced_def fault_def)

lemma keeps_synced_fail [keeps_intros]: "keeps synced (fail e)"
  by (auto simp: keeps_def) (simp add: synced_def)

lemma keeps_check_writer [keeps_intros]: "keeps I check_writer"
  by (simp add: keeps_def)

lemma keeps_synced_sync [keeps_intros]: "env_storage env = st \<Longrightarrow> keeps synced (sync_media env adv)"
  unfolding keeps_def by (auto intro!: media_in_sync simp: synced_def)

lemma keeps_synced_create [keeps_intros]:
  assumes "env_storage env = st"
  shows "keeps synced (create_partition env slot generation options)"
proof -
  have install: "synced (install_partition k c t)" if "good (media t)" "durable (media t) = image (media t)" for k c and t :: "'s impl"
    using that by (simp add: synced_def)
  have "wp (create_partition env slot generation options) (\<lambda>_. synced) (\<lambda>_. synced) s" if s: "synced s" for s
  proof -
    have g: "good (media s)" using s by (simp add: synced_def)
    show ?thesis
      unfolding create_partition_def wp_bind wp_get
      using s assms g by (auto simp: Let_def intro!: media_in_write media_in_sync install) (simp_all add: synced_def)
  qed
  then show ?thesis by (simp add: keeps_def)
qed

text \<open>Writes that are followed by a flush, and a block that makes the store dirty.\<close>

lemma keeps_synced_tail:
  assumes "env_storage env = st"
  shows "keeps synced (bind_op (if x \<noteq> [] then catch_op (write_media env a x) fail else return_op ()) (\<lambda>_.
      bind_op (catch_op (write_media env b y) fail) (\<lambda>_. bind_op (sync_media env False) (\<lambda>_. modify_op (update_active f)))))"
  unfolding keeps_def using assms by (auto intro!: media_in_write media_in_sync simp: synced_def fault_def)

lemma keeps_synced_seal [keeps_intros]:
  assumes env: "env_storage env = st"
  shows "keeps synced (seal_active_only env)"
  unfolding seal_active_only_def Let_def
  apply (rule keeps_bind [OF keeps_basic(3)])
  apply (rule keeps_split(4) [OF keeps_basic(2)])
  apply (rule keeps_split(1) [OF keeps_basic(2)])
  apply (rule keeps_bind)
   apply (intro keeps_intros env)
  apply (rule keeps_split(1) [OF keeps_synced_fail])
  apply (rule keeps_synced_tail [OF env])
  done

lemma keeps_synced_rotate [keeps_intros]: "env_storage env = st \<Longrightarrow> keeps synced (rotate_internal env options)"
  unfolding rotate_internal_def by (intro keeps_intros) (auto simp: synced_def)

lemma keeps_synced_ensure [keeps_intros]: "env_storage env = st \<Longrightarrow> keeps synced (ensure_empty_builder_capacity env)"
  unfolding ensure_empty_builder_capacity_def by (intro keeps_intros)

lemma keeps_synced_emit_frame [keeps_intros]:
  assumes "env_storage env = st"
  shows "keeps synced (emit_frame env p payload selected version)"
  unfolding keeps_def emit_frame_def
  using assms by (auto simp: Let_def synced_def fault_def intro!: media_in_write split: prod.split)

lemma keeps_synced_emit [keeps_intros]: "env_storage env = st \<Longrightarrow> keeps synced (emit_builder env)"
  unfolding emit_builder_def by (intro keeps_intros)

lemma accept_record_synced: "synced (accept_record env options data time flags s) = synced s"
  by (simp add: synced_def)

lemma keeps_synced_append [keeps_intros]: "env_storage env = st \<Longrightarrow> keeps synced (append_impl env item time flags expected)"
  unfolding append_impl_def by (intro keeps_intros) (auto simp: accept_record_synced)

lemma keeps_synced_public:
  assumes "env_storage env = st"
  shows "keeps synced (append env item time flags)" "keeps synced (append_checked env item time contract flags)"
    "keeps synced (publish env)" "keeps synced (checkpoint env)" "keeps synced (rotate_store env options)"
    "keeps synced (set_next_partition_options options)" "keeps synced (close env)"
    "keeps synced (store_metrics_of env)" "keeps synced (health env)"
  using assms unfolding append_def append_checked_def publish_def checkpoint_def rotate_store_def
    set_next_partition_options_def close_def
  by (intro keeps_intros; auto simp: synced_def mark_closed_def)+
    (auto simp: keeps_def wp_def synced_def store_metrics_of_def health_def Let_def)

section \<open>Reading\<close>

text \<open>Properties that a read cannot change: they depend on the medium's bytes only.\<close>

definition read_closed :: "('s impl \<Rightarrow> bool) \<Rightarrow> bool" where
  "read_closed I \<longleftrightarrow> (\<forall>s m. I s \<longrightarrow> good (media s) \<and> (good m \<and> image m = image (media s) \<and>
     durable m = durable (media s) \<longrightarrow> I (s\<lparr>media := m\<rparr>)))"

lemma read_closed_synced: "read_closed synced"
  by (auto simp: read_closed_def synced_def)

lemma read_closed_media_in: "read_closed (media_in A img)"
  by (auto simp: read_closed_def media_in_def)

lemma wp_scan_loop:
  assumes "\<forall>at. keeps I (scan_block env header limit at)" "I s"
  shows "wp (scan_loop env header limit at entries) (\<lambda>_. I) (\<lambda>_. I) s"
  using assms
proof (induction env header limit at entries s rule: scan_loop.induct)
  case (1 env header limit at entries s)
  have b: "wp (scan_block env header limit at) (\<lambda>_. I) (\<lambda>_. I) s" using 1(2,3) by (simp add: keeps_def)
  note step = scan_loop.simps [of env header limit at entries s]
  show ?case
  proof (cases "sp_cursor at + 128 \<le> limit")
    case False
    then show ?thesis using 1(3) by (simp add: wp_def step)
  next
    case True
    show ?thesis
    proof (cases "scan_block env header limit at s")
      case None
      then show ?thesis using True by (simp add: wp_def step)
    next
      case (Some x)
      obtain res t where x: "x = (res, t)" by (cases x)
      have I: "I t" using wp_preserves [OF b] Some x by blast
      show ?thesis
      proof (cases res)
        case (Inl e)
        then show ?thesis using True Some x I by (simp add: wp_def step)
      next
        case (Inr found)
        show ?thesis
        proof (cases found)
          case None
          then show ?thesis using True Some x I Inr by (simp add: wp_def step)
        next
          case (Some block)
          have "wp (scan_loop env header limit (scan_next at block) (entries @ [scan_entry (sp_cursor at) block])) (\<lambda>_. I) (\<lambda>_. I) t"
            using 1(1) [OF True _ x [symmetric] Inr Some] \<open>scan_block env header limit at s = Some x\<close> 1(2) I by blast
          then show ?thesis using True \<open>scan_block env header limit at s = Some x\<close> x Inr Some by (simp add: wp_def step)
        qed
      qed
    qed
  qed
qed

text \<open>Everything that reads keeps such a property.\<close>

lemma keeps_read:
  assumes I: "read_closed I" and env: "env_storage env = st"
  shows "keeps I (read_media env off n)"
  unfolding keeps_def
proof (intro allI impI)
  fix s assume s: "I s"
  then show "wp (read_media env off n) (\<lambda>_. I) (\<lambda>_. I) s"
    using I by (intro media_in_read [OF env]) (auto simp: read_closed_def)
qed

lemma keeps_read_header:
  assumes I: "read_closed I" and env: "env_storage env = st"
  shows "keeps I (read_partition_header env slot)" "keeps I (classify_snapshot_failure env part e)"
proof -
  show hdr: "keeps I (read_partition_header env slot)" for slot
    unfolding read_partition_header_def by (intro keeps_intros keeps_read [OF assms])
  show "keeps I (classify_snapshot_failure env part e)"
    unfolding classify_snapshot_failure_def by (intro keeps_intros hdr)
qed

lemma keeps_reads:
  assumes I: "read_closed I" and env: "env_storage env = st"
  shows "keeps I (read_partition_header env slot)" "keeps I (scan_partition env header scan_limit)"
    "keeps I (load_index env part)" "keeps I (read_block env part entry)" "keeps I (acquire_index env part)"
proof -
  note read = keeps_read [OF assms]
  show hdr: "keeps I (read_partition_header env slot)" for slot
    by (rule keeps_read_header [OF assms])
  have block: "keeps I (scan_block env header limit at)" for header limit at
    unfolding scan_block_def by (intro keeps_intros read)
  have loop: "keeps I (scan_loop env header limit at entries)" for header limit at entries
    using wp_scan_loop [of I env header limit] block by (simp add: keeps_def)
  show scan: "keeps I (scan_partition env header scan_limit)" for header scan_limit
    unfolding scan_partition_def by (intro keeps_intros loop)
  show index: "keeps I (load_index env part)" for part
    unfolding load_index_def by (intro keeps_intros read)
  note classify = keeps_read_header(2) [OF assms]
  have decode: "keeps I (decode_block env part entry block stored)" for part entry block stored
    unfolding decode_block_def by (intro keeps_intros classify)
  show "keeps I (read_block env part entry)"
    unfolding read_block_def by (intro keeps_intros hdr read classify decode)
  show "keeps I (acquire_index env part)"
    unfolding acquire_index_def first_index_def by (intro keeps_intros scan index)
qed

section \<open>Where the operations write\<close>

lemma media_in_fault [simp]: "media_in A img (fault e s) = media_in A img s"
  by (simp add: media_in_def fault_def)

lemma media_in_media: "good m \<Longrightarrow> agree_outside A img (image m) \<Longrightarrow> media_in A img (s\<lparr>media := m\<rparr>)"
  by (simp add: media_in_def)

lemma keeps_media_in_write:
  assumes "env_storage env = st" "{unat off..<unat off + length data} \<subseteq> A"
  shows "keeps (media_in A img) (write_media env off data)"
  unfolding keeps_def
proof (intro allI impI)
  fix s assume s: "media_in A img s"
  have "agree_outside A img (blit (image (media s)) (unat off) (take n data))" for n
    using s agree_outside_blit [OF assms(2), of "image (media s)" n] agree_outside_trans [of A img "image (media s)" A _ A]
    by (auto simp: media_in_def)
  from this [of "length data"] this show "wp (write_media env off data) (\<lambda>_. media_in A img) (\<lambda>_. media_in A img) s"
    using s assms(1) by (intro media_in_write) (auto simp: media_in_def)
qed

lemma keeps_media_in_sync [keeps_intros]: "env_storage env = st \<Longrightarrow> keeps (media_in A img) (sync_media env adv)"
  unfolding keeps_def by (auto intro!: media_in_sync simp: media_in_def)

lemma keeps_media_in_fail [keeps_intros]: "keeps (media_in A img) (fail e)"
  by (simp add: keeps_def)

lemma wp_keeps: "keeps I m \<Longrightarrow> I s \<Longrightarrow> wp m (\<lambda>_. I) (\<lambda>_. I) s"
  by (simp add: keeps_def)

lemma media_in_create:
  assumes "env_storage env = st" "media_in A img s" "header_region (volume s) slot \<subseteq> A"
  shows "wp (create_partition env slot generation options) (\<lambda>_. media_in A img) (\<lambda>_. media_in A img) s"
proof -
  have "keeps (media_in A img) (write_media env (partition_base (volume s) slot) (encode_partition_header h a b))" for h a b
    using assms by (intro keeps_media_in_write) (simp_all add: header_region_def)
  moreover have "keeps (media_in A img) (modify_op (install_partition k c))" for k c
    by (rule keeps_basic) (simp add: media_in_def)
  ultimately show ?thesis
    unfolding create_partition_def wp_bind [of get_op] wp_get
    using assms by (intro wp_keeps keeps_intros) (auto simp: media_in_def)
qed

lemma media_in_seal:
  assumes env: "env_storage env = st" and m: "media_in A img s" and b: "base_inv s" "index_ok (volume s) (last (partitions s))"
    and A: "tail_region (volume s) (last (partitions s)) \<subseteq> A"
  shows "wp (seal_active_only env) (\<lambda>_. media_in A img) (\<lambda>_. media_in A img) s"
proof -
  let ?v = "volume s" and ?p = "last (partitions s)"
  let ?base = "partition_base ?v (ph_slot (ps_header ?p))"
  have c: "catalog_ok s" "geometry_ok ?v" using b(1) by (simp_all add: base_inv_def core_inv_def)
  have slot: "ph_slot (ps_header ?p) < vh_partition_count ?v"
    using c(1) by (auto simp: catalog_ok_def catalog_sorted_def headers_def)
  note g = geometry_okD [OF c(2)]
  have le: "unat (ps_data_end ?p) \<le> unat (index_begin ?v)" using b(2) by (simp add: index_ok_def word_le_nat_alt)
  have "unat (footer_offset ?v) = unat (vh_partition_size ?v) - 4096"
    using g(5) by (simp add: footer_offset_def unat_sub word_le_nat_alt)
  then have off: "unat (?base + index_begin ?v) = unat ?base + unat (index_begin ?v)"
    "unat (?base + footer_offset ?v) = unat ?base + (unat (vh_partition_size ?v) - 4096)"
    using unat_in_partition [OF c(2) slot] g(5) by simp_all
  have w1: "keeps (media_in A img) (write_media env (?base + index_begin ?v) (encode_index (ps_active_index ?p)))"
    if "\<not> length (encode_index (ps_active_index ?p)) > unat (vh_index_region_size ?v)"
    using that le g(5)
    by (intro keeps_media_in_write [OF env] subset_trans [OF _ A]) (auto simp: off tail_region_def slot_base_def)
  have w2: "keeps (media_in A img) (write_media env (?base + footer_offset ?v) (encode_partition_footer f))" for f
    using le g(5)
    by (intro keeps_media_in_write [OF env] subset_trans [OF _ A]) (auto simp: off tail_region_def slot_base_def)
  have upd: "keeps (media_in A img) (modify_op (update_active f))" for f
    by (rule keeps_basic) (simp add: media_in_def)
  show ?thesis
    unfolding seal_active_only_def wp_bind [of get_op] wp_get catalog_active [OF c(1)] option.case Let_def
    by (rule wp_keeps [where I = "media_in A img", OF _ m]) (intro keeps_intros env w1 w2 upd)
qed

lemma media_in_emit:
  assumes env: "env_storage env = st" and m: "media_in A img s" and inv: "store_inv s" "\<not> faulted s"
    and A: "tail_region (volume s) (last (partitions s)) \<subseteq> A"
  shows "wp (emit_builder env) (\<lambda>_. media_in A img) (\<lambda>_. media_in A img) s"
proof -
  let ?v = "volume s" and ?p = "last (partitions s)"
  let ?base = "partition_base ?v (ph_slot (ps_header ?p))"
  have b: "base_inv s" "index_ok ?v ?p" using inv by (simp_all add: store_inv_def)
  have c: "catalog_ok s" "geometry_ok ?v" "builder_ok s" using b(1) by (simp_all add: base_inv_def core_inv_def)
  have slot: "ph_slot (ps_header ?p) < vh_partition_count ?v"
    using c(1) by (auto simp: catalog_ok_def catalog_sorted_def headers_def)
  note g = geometry_okD [OF c(2)]
  have le: "unat (ps_data_end ?p) \<le> unat (index_begin ?v)" using b(2) by (simp add: index_ok_def word_le_nat_alt)
  have off: "unat (?base + ps_data_end ?p) = unat ?base + unat (ps_data_end ?p)"
    using unat_in_partition [OF c(2) slot] g(5) le by simp
  have wr_ok: "keeps (media_in A img) (write_media env (?base + ps_data_end ?p) (encode_block_header h @ payload))"
    if "length payload \<le> length (builder s)"
      "align_up (128 + of_nat (length payload)) (vh_persistence_quantum ?v) = (span, False)"
      "\<not> span > index_begin ?v - ps_data_end ?p" for h payload span
  proof -
    have "length payload < 2 ^ 32"
      using that(1) c(3) unat_u32_less [of "vh_max_block_payload ?v"] by (simp add: builder_ok_def)
    then have "unat (128 + of_nat (length payload) :: u64) = 128 + length payload"
      by (simp add: unat_word_ariths unat_of_nat)
    then have "128 + length payload \<le> unat span" using align_up_ok(1) [OF that(2)] by simp
    moreover have "unat span \<le> unat (index_begin ?v) - unat (ps_data_end ?p)"
      using that(3) b(2) by (simp add: not_less word_le_nat_alt unat_sub index_ok_def)
    ultimately have fit: "unat (ps_data_end ?p) + (128 + length payload) \<le> unat (index_begin ?v)" using le by linarith
    show ?thesis
      using fit g(5) by (intro keeps_media_in_write [OF env] subset_trans [OF _ A])
        (auto simp: off tail_region_def slot_base_def)
  qed
  have pub: "media_in A img (note_published e span n t) = media_in A img t" for e span n t
    by (simp add: media_in_def)
  have frame: "wp (emit_frame env ?p payload selected version) (\<lambda>_. media_in A img) (\<lambda>_. media_in A img) s"
    if len: "length payload \<le> length (builder s)" for payload selected version
    unfolding emit_frame_def wp_bind [of get_op] wp_get Let_def
  proof (cases "align_up (128 + of_nat (length payload) :: u64) (vh_persistence_quantum ?v)", simp only: prod.case)
    fix span overflow
    assume "align_up (128 + of_nat (length payload)) (vh_persistence_quantum ?v) = (span, overflow)"
    then show "wp (if overflow \<or> 128 + of_nat (length payload) > (0xffffffff :: u64) \<or> span > 0xffffffff
        then fail (Error Out_of_range ''encoded block too large'')
        else if index_begin ?v < ps_data_end ?p \<or> index_begin ?v - ps_data_end ?p < span \<or>
             unat (vh_index_region_size ?v div 48) < length (ps_active_index ?p) + 1
        then fail (Error Internal_error ''builder capacity was not reserved before accepting records'')
        else bind_op (catch_op (write_media env (?base + ps_data_end ?p)
               (encode_block_header (new_block_header s ?p payload selected version span) @ payload)) fail)
            (\<lambda>_. modify_op (note_published (new_index_entry ?p (new_block_header s ?p payload selected version span)
               (128 + of_nat (length payload)) span) span
               (length (encode_block_header (new_block_header s ?p payload selected version span) @ payload)))))
        (\<lambda>_. media_in A img) (\<lambda>_. media_in A img) s"
      using wr_ok [OF len] by (intro wp_keeps [where I = "media_in A img", OF _ m] keeps_intros) (auto simp: pub)
  qed
  show ?thesis
    unfolding emit_builder_def wp_bind [of get_op] wp_get catalog_active [OF c(1)] option.case Let_def
    using m frame select_payload_length by (auto split: option.split sum.split)
qed

end

section \<open>A store on a storage\<close>

locale ring_on_storage = storage_contract +
  fixes env :: "'a env"
  assumes env_storage [simp]: "env_storage env = st"

sublocale ring_on_storage \<subseteq> synced: kept_by_operations env synced
proof
  show "synced s \<Longrightarrow> synced (count_gap kind s)" for s kind
    by (simp add: synced_def count_gap_def)
qed (rule keeps_synced_public [OF env_storage] keeps_reads [OF read_closed_synced env_storage])+

end
