(* ===== verification/Ring_Evolution.thy ===== *)
theory Ring_Evolution
  imports Ring_Media
begin

text \<open>
  How the catalog of a store evolves. A step keeps the partitions and lets their data grow, or it
  rotates once: the partition in the next slot is dropped and a new generation takes its place.
\<close>

definition rotated :: "'s impl \<Rightarrow> (partition_header \<times> u64) list \<Rightarrow> bool" where
  "rotated s ks' \<longleftrightarrow> (\<exists>ks k d. ks' = ks @ [(k, d)] \<and> ph_slot k = next_slot s \<and>
     ph_generation k = ph_generation (ps_header (last (partitions s))) + 1 \<and>
     keys_le (filter (\<lambda>(h, d). ph_slot h \<noteq> next_slot s) (keys s)) ks)"

definition evolves :: "'s impl \<Rightarrow> 's impl \<Rightarrow> bool" where
  "evolves s s' \<longleftrightarrow> volume s' = volume s \<and> (keys_le (keys s) (keys s') \<or> rotated s (keys s'))"

lemma keys_le_trans: "keys_le a b \<Longrightarrow> keys_le b c \<Longrightarrow> keys_le a c"
  unfolding keys_le_def by (rule list_all2_trans [rotated], assumption, assumption) auto

lemma keys_le_filter:
  "keys_le a b \<Longrightarrow> keys_le (filter (\<lambda>(h, d). P h) a) (filter (\<lambda>(h, d). P h) b)"
  unfolding keys_le_def by (induction rule: list_all2_induct) auto

lemma keys_le_last:
  assumes "keys_le (keys s) (keys s')"
  shows "ps_header (last (partitions s')) = ps_header (last (partitions s)) \<or> partitions s = []"
proof -
  have "headers s' = headers s" using keys_le_headers [OF assms] by (simp add: headers_keys)
  then show ?thesis by (metis headers_def last_map list.map_disc_iff)
qed

lemma evolves_refl [simp]: "evolves s s"
  by (simp add: evolves_def)

text \<open>A step that keeps the partitions can be put in front.\<close>

lemma evolves_after_le:
  assumes "keys_le (keys s) (keys t)" "volume t = volume s" "partitions s \<noteq> []" "evolves t u"
  shows "evolves s u"
proof -
  have h: "ps_header (last (partitions t)) = ps_header (last (partitions s))"
    using keys_le_last [OF assms(1)] assms(3) by blast
  then have slot: "next_slot t = next_slot s" by (simp add: next_slot_def assms(2))
  have "rotated s (keys u)" if r: "rotated t (keys u)"
  proof -
    obtain ks k d where k: "keys u = ks @ [(k, d)]" "ph_slot k = next_slot s"
      "ph_generation k = ph_generation (ps_header (last (partitions s))) + 1"
      "keys_le (filter (\<lambda>(h, d). ph_slot h \<noteq> next_slot s) (keys t)) ks"
      using r by (auto simp: rotated_def h slot)
    then show ?thesis
      using keys_le_trans [OF keys_le_filter [OF assms(1), of "\<lambda>h. ph_slot h \<noteq> next_slot s"]] by (auto simp: rotated_def)
  qed
  then show ?thesis using assms keys_le_trans by (auto simp: evolves_def)
qed

lemma store_inv_nonempty: "store_inv s \<Longrightarrow> partitions s \<noteq> []"
  by (simp add: store_inv_def base_inv_def catalog_ok_def)

lemma emitD:
  assumes "store_inv s" "after_emit s t"
  shows "volume t = volume s" "keys_le (keys s) (keys t)" "next_slot t = next_slot s"
    "slot_base (volume t) (last (partitions t)) = slot_base (volume s) (last (partitions s))"
    "tail_region (volume t) (last (partitions t)) \<subseteq> tail_region (volume s) (last (partitions s))"
proof -
  show v: "volume t = volume s" and k: "keys_le (keys s) (keys t)" using assms(2) by (simp_all add: after_emit_def)
  note ne = store_inv_nonempty [OF assms(1)]
  have h: "ps_header (last (partitions t)) = ps_header (last (partitions s))" using keys_le_last [OF k] ne by blast
  then show "next_slot t = next_slot s" by (simp add: next_slot_def v)
  show b: "slot_base (volume t) (last (partitions t)) = slot_base (volume s) (last (partitions s))"
    by (simp add: slot_base_def h v)
  have len: "length (keys t) = length (keys s)" using k by (simp add: keys_le_def list_all2_lengthD)
  then have "(\<lambda>(h, d) (h', d'). h' = h \<and> d \<le> d') (last (keys s)) (last (keys t))"
    using k ne unfolding keys_le_def
    by (metis (no_types, lifting) keys_def last_conv_nth length_0_conv length_map list_all2_nthD diff_less length_greater_0_conv zero_less_one)
  then have "ps_data_end (last (partitions s)) \<le> ps_data_end (last (partitions t))"
    using ne len by (cases "partitions t = []") (auto simp: keys_def last_map)
  then show "tail_region (volume t) (last (partitions t)) \<subseteq> tail_region (volume s) (last (partitions s))"
    by (auto simp: tail_region_def b word_le_nat_alt) (simp add: v)
qed

text \<open>The bytes a step may change.\<close>

definition touched :: "'s impl \<Rightarrow> 's impl \<Rightarrow> nat set" where
  "touched s s' = tail_region (volume s) (last (partitions s)) \<union>
     (if keys_le (keys s) (keys s') then {} else header_region (volume s) (next_slot s))"

context storage_contract
begin

definition stepped :: "'s impl \<Rightarrow> 's impl \<Rightarrow> bool" where
  "stepped s s' \<longleftrightarrow> store_inv s' \<and> good (media s') \<and>
     (faulted s' \<or> evolves s s' \<and> agree_outside (touched s s') (image (media s)) (image (media s')))"

lemma stepped_same: "store_inv s \<Longrightarrow> good (media s) \<Longrightarrow> stepped s s"
  by (simp add: stepped_def)

lemma stepped_faulted: "store_inv s' \<Longrightarrow> media_in A img s' \<Longrightarrow> faulted s' \<Longrightarrow> stepped s s'"
  by (simp add: stepped_def media_in_def)

lemma wp_both:
  assumes "wp m Q E s" "wp m (\<lambda>_. M) (\<lambda>_. M) s"
  shows "wp m (\<lambda>a t. Q a t \<and> M t) (\<lambda>e t. E e t \<and> M t) s"
  using assms by (simp add: wp_conj)

lemma stepped_emit:
  assumes env: "env_storage env = st" and inv: "store_inv s" "\<not> faulted s" "good (media s)"
    and Q: "\<And>t. store_inv t \<Longrightarrow> \<not> faulted t \<Longrightarrow> after_emit s t \<Longrightarrow> (builder s = [] \<Longrightarrow> t = s) \<Longrightarrow>
      media_in (tail_region (volume s) (last (partitions s))) (image (media s)) t \<Longrightarrow> Q () t"
    and E: "\<And>e t. stepped s t \<Longrightarrow> E e t"
  shows "wp (emit_builder env) Q E s"
proof -
  let ?M = "media_in (tail_region (volume s) (last (partitions s))) (image (media s))"
  have m: "?M s" using inv(3) by (simp add: media_in_def)
  have "wp (emit_builder env) (\<lambda>_ t. store_inv t \<and> \<not> faulted t \<and> after_emit s t \<and> (builder s = [] \<longrightarrow> t = s))
      (\<lambda>_ t. store_inv t \<and> (faulted t \<or> t = s)) s"
    by (rule wp_emit_builder [OF inv(1,2)]) auto
  then have "wp (emit_builder env) (\<lambda>_ t. (store_inv t \<and> \<not> faulted t \<and> after_emit s t \<and> (builder s = [] \<longrightarrow> t = s)) \<and> ?M t)
      (\<lambda>_ t. (store_inv t \<and> (faulted t \<or> t = s)) \<and> ?M t) s"
    by (rule wp_both [OF _ media_in_emit [OF env m inv(1,2)]]) simp
  then show ?thesis
    by (rule wp_mono) (auto intro!: Q E intro: stepped_faulted stepped_same [OF inv(1,3)])
qed

lemma media_in_rotate:
  assumes env: "env_storage env = st" and m: "media_in A img s" and inv: "store_inv s" "\<not> faulted s"
    and A: "tail_region (volume s) (last (partitions s)) \<subseteq> A" "header_region (volume s) (next_slot s) \<subseteq> A"
  shows "wp (rotate_internal env options) (\<lambda>_. media_in A img) (\<lambda>_. media_in A img) s"
proof -
  have b: "base_inv s" "\<not> ps_sealed (last (partitions s))" "index_ok (volume s) (last (partitions s))"
    using inv by (simp_all add: store_inv_def)
  have act: "active s = Some (last (partitions s))" using b(1) by (simp add: base_inv_def catalog_active)
  have "wp (seal_active_only env) (\<lambda>_ t. volume t = volume s) (\<lambda>_ _. True) s"
    by (rule wp_seal_active_only [OF b(1) inv(2) b(2)]) (simp_all add: same_but_seal_def)
  then have seal: "wp (seal_active_only env) (\<lambda>_ t. volume t = volume s \<and> media_in A img t) (\<lambda>_ t. True \<and> media_in A img t) s"
    by (rule wp_both [OF _ media_in_seal [OF env m b(1,3) A(1)]])
  have modify: "media_in A img (t\<lparr>metrics := n\<rparr>) = media_in A img t" for t n by (simp add: media_in_def)
  have create: "wp (create_partition env (next_slot s) g options)
      (\<lambda>_. wp (modify_op (\<lambda>t. t\<lparr>metrics := f t\<rparr>)) (\<lambda>_. media_in A img) (\<lambda>_. media_in A img)) (\<lambda>_. media_in A img) t"
    if "volume t = volume s" "media_in A img t" for t g f
  proof (rule wp_mono [OF media_in_create [OF env that(2)]])
    show "header_region (volume t) (next_slot s) \<subseteq> A" using A(2) that(1) by simp
  qed (simp_all add: modify)
  show ?thesis
    unfolding rotate_internal_def wp_bind [of get_op] wp_get act option.case
    using m by (auto simp: next_slot_def [symmetric] intro!: wp_mono [OF seal] create)
qed

lemma stepped_rotate:
  assumes env: "env_storage env = st" and inv: "store_inv s" "\<not> faulted s" "good (media s)" "builder s = []" "options_ok s options"
    and Q: "\<And>u. store_inv u \<Longrightarrow> \<not> faulted u \<Longrightarrow> same_config s u \<Longrightarrow> room (volume u) (last (partitions u)) \<Longrightarrow>
      keys u = filter (\<lambda>(h, d). ph_slot h \<noteq> next_slot s) (keys s) @
        [(new_partition_header (volume s) (next_slot s) (ph_generation (ps_header (last (partitions s))) + 1) options, 4096)] \<Longrightarrow>
      media_in (tail_region (volume s) (last (partitions s)) \<union> header_region (volume s) (next_slot s)) (image (media s)) u \<Longrightarrow> Q () u"
    and E: "\<And>e u. store_inv u \<Longrightarrow> faulted u \<Longrightarrow> good (media u) \<Longrightarrow> E e u"
  shows "wp (rotate_internal env options) Q E s"
proof -
  let ?M = "media_in (tail_region (volume s) (last (partitions s)) \<union> header_region (volume s) (next_slot s)) (image (media s))"
  let ?P = "\<lambda>u. store_inv u \<and> \<not> faulted u \<and> same_config s u \<and> room (volume u) (last (partitions u)) \<and>
      keys u = filter (\<lambda>(h, d). ph_slot h \<noteq> next_slot s) (keys s) @
        [(new_partition_header (volume s) (next_slot s) (ph_generation (ps_header (last (partitions s))) + 1) options, 4096)]"
  have m: "?M s" using inv(3) by (simp add: media_in_def)
  have "wp (rotate_internal env options) (\<lambda>_. ?P) (\<lambda>_ u. store_inv u \<and> faulted u) s"
    by (rule wp_rotate_internal [OF inv(1,2,4,5)]) (auto simp: store_inv_faulted)
  then have "wp (rotate_internal env options) (\<lambda>_ u. ?P u \<and> ?M u) (\<lambda>_ u. (store_inv u \<and> faulted u) \<and> ?M u) s"
    by (rule wp_both [OF _ media_in_rotate [OF env m inv(1,2)]]) auto
  then show ?thesis by (rule wp_mono) (auto intro!: Q E simp: media_in_def)
qed

text \<open>A rotation after a publication, as one step.\<close>

lemma stepped_emit_rotate:
  assumes inv: "store_inv s" "after_emit s t"
    "media_in (tail_region (volume s) (last (partitions s))) (image (media s)) t"
    and u: "store_inv u" "volume u = volume t"
    and keys: "keys u = filter (\<lambda>(h, d). ph_slot h \<noteq> next_slot t) (keys t) @ [(k, 4096)]" "ph_slot k = next_slot t"
      "ph_generation k = ph_generation (ps_header (last (partitions t))) + 1"
    and m: "media_in (tail_region (volume t) (last (partitions t)) \<union> header_region (volume t) (next_slot t)) (image (media t)) u"
  shows "stepped s u"
proof -
  note e = emitD [OF inv(1,2)]
  have ne: "partitions s \<noteq> []" by (rule store_inv_nonempty [OF inv(1)])
  have "rotated t (keys u)" unfolding rotated_def using keys by (intro exI conjI) auto
  then have "evolves t u" using u(2) by (simp add: evolves_def)
  then have ev: "evolves s u" by (rule evolves_after_le [OF e(2,1) ne])
  have h: "ps_header (last (partitions t)) = ps_header (last (partitions s))" using keys_le_last [OF e(2)] ne by blast
  have pt: "partitions t \<noteq> []" using e(2) ne by (auto simp: keys_le_def keys_def)
  have "\<not> keys_le (keys s) (keys u)"
  proof
    assume "keys_le (keys s) (keys u)"
    then have "map fst (keys u) = map fst (keys t)" using keys_le_headers e(2) by metis
    moreover have "keys_le (keys t) (keys t)" by simp
    ultimately have "k = fst (last (keys t))"
      using keys(1) pt by (metis (no_types, lifting) fst_conv keys_def last_map last_snoc list.map_disc_iff snoc_eq_iff_butlast)
    then show False using keys(3) pt by (simp add: keys_def last_map)
  qed
  then have "agree_outside (touched s u) (image (media s)) (image (media u))"
    using inv(3) m e unfolding touched_def media_in_def
    by (auto intro!: agree_outside_trans [of "tail_region (volume s) (last (partitions s))" "image (media s)" "image (media t)"])
  then show ?thesis using u(1) m ev by (simp add: stepped_def media_in_def)
qed

lemma emit_nothing: "builder s = [] \<Longrightarrow> after_emit s s"
  by (simp add: after_emit_def)

lemma stepped_emitted:
  assumes "store_inv s" "store_inv t" "after_emit s t"
    "media_in (tail_region (volume s) (last (partitions s))) (image (media s)) t"
  shows "stepped s t"
  using assms emitD [OF assms(1,3)] by (auto simp: stepped_def media_in_def touched_def evolves_def)

text \<open>A flush changes neither the catalog nor the bytes.\<close>

lemma stepped_flush:
  assumes env: "env_storage env = st" and t: "store_inv t" "\<not> faulted t" and s: "stepped s t"
    and Q: "\<And>u. store_inv u \<Longrightarrow> \<not> faulted u \<Longrightarrow> stepped s u \<Longrightarrow> Q () u"
    and E: "\<And>e u. stepped s u \<Longrightarrow> E e u"
  shows "wp (sync_media env adv) Q E t"
proof -
  have g: "good (media t)" using s by (simp add: stepped_def)
  have "wp (sync_media env adv) (\<lambda>_ u. store_inv u \<and> \<not> faulted u \<and> same_catalog t u) (\<lambda>_ u. store_inv u \<and> faulted u) t"
    by (rule wp_sync_store [OF t]) auto
  moreover have "wp (sync_media env adv) (\<lambda>_. media_in {} (image (media t))) (\<lambda>_. media_in {} (image (media t))) t"
    using wp_keeps [OF keeps_media_in_sync [OF env]] g by (simp add: media_in_def)
  ultimately have "wp (sync_media env adv) (\<lambda>_ u. (store_inv u \<and> \<not> faulted u \<and> same_catalog t u) \<and> media_in {} (image (media t)) u)
      (\<lambda>_ u. (store_inv u \<and> faulted u) \<and> media_in {} (image (media t)) u) t"
    by (rule wp_both)
  then show ?thesis
  proof (rule wp_mono)
    fix a u assume u: "(store_inv u \<and> \<not> faulted u \<and> same_catalog t u) \<and> media_in {} (image (media t)) u"
    then have same: "keys u = keys t" "volume u = volume t" by (simp_all add: same_catalog_def keys_def)
    have "evolves s u" using s t(2) same by (auto simp: stepped_def evolves_def)
    moreover have "agree_outside (touched s u) (image (media s)) (image (media u))"
      using s t(2) u same by (auto simp: stepped_def media_in_def touched_def intro: agree_outside_trans [OF _ _ subset_refl empty_subsetI])
    ultimately show "Q a u" using u Q by (simp add: stepped_def media_in_def)
  qed (auto intro!: E simp: stepped_def media_in_def)
qed

lemma stepped_ensure:
  assumes env: "env_storage env = st" and inv: "store_inv t" "\<not> faulted t" "good (media t)"
    and s: "store_inv s" "after_emit s t \<or> t = s" "media_in (tail_region (volume s) (last (partitions s))) (image (media s)) t"
    and Q: "\<And>u. store_inv u \<Longrightarrow> \<not> faulted u \<Longrightarrow> same_config t u \<Longrightarrow> room (volume u) (last (partitions u)) \<Longrightarrow> stepped s u \<Longrightarrow> Q () u"
    and E: "\<And>e u. stepped s u \<Longrightarrow> E e u"
  shows "wp (ensure_empty_builder_capacity env) Q E t"
proof -
  have st: "stepped s t" using s inv stepped_emitted stepped_same by auto
  show ?thesis
  proof (cases "builder t = []")
    case False
    then show ?thesis using inv st by (auto simp: ensure_empty_builder_capacity_def store_inv_def intro!: Q)
  next
    case True
    then have em: "after_emit s t" using s(2) emit_nothing by auto
    let ?p = "last (partitions t)" and ?v = "volume t"
    have b: "base_inv t" "index_ok ?v ?p" using inv by (simp_all add: store_inv_def)
    then have act: "active t = Some ?p" and g: "geometry_ok ?v" and opts: "options_ok t (next_options t)"
      by (simp_all add: base_inv_def core_inv_def catalog_active)
    obtain w where w: "align_up (128 + ucast (vh_max_block_payload ?v)) (vh_persistence_quantum ?v) = (w, False)"
      "w \<le> index_begin ?v - 4096" using geometry_okD(7) [OF g] by blast
    have rot: "wp (rotate_internal env (next_options t)) Q E t"
    proof (rule stepped_rotate [OF env inv True opts])
      fix u assume u: "store_inv u" "\<not> faulted u" "same_config t u" "room (volume u) (last (partitions u))"
        "keys u = filter (\<lambda>(h, d). ph_slot h \<noteq> next_slot t) (keys t) @
          [(new_partition_header (volume t) (next_slot t) (ph_generation (ps_header (last (partitions t))) + 1) (next_options t), 4096)]"
        "media_in (tail_region (volume t) (last (partitions t)) \<union> header_region (volume t) (next_slot t)) (image (media t)) u"
      have "stepped s u"
        using u by (intro stepped_emit_rotate [OF s(1) em s(3) u(1) _ u(5) _ _ u(6)])
          (simp_all add: same_config_def new_partition_header_def)
      then show "Q () u" using u by (intro Q) auto
    qed (auto intro!: E simp: stepped_def)
    have stay: "room ?v ?p \<Longrightarrow> Q () t" using inv st by (auto intro: Q)
    show ?thesis
      unfolding ensure_empty_builder_capacity_def wp_bind wp_get
      using True act w rot stay by (auto simp: room_def not_less)
  qed
qed

section \<open>Public operations\<close>

lemma stepped_modify:
  assumes "stepped s t" "store_inv (f t)" "media (f t) = media t" "keys (f t) = keys t" "volume (f t) = volume t" "faulted (f t) = faulted t"
  shows "stepped s (f t)"
  using assms by (auto simp: stepped_def evolves_def touched_def)

lemma stepped_append_impl:
  assumes env: "env_storage env = st" and inv: "store_inv s" and good: "good (media s)"
  shows "wp (append_impl env item time flags expected) (\<lambda>_. stepped s) (\<lambda>_. stepped s) s"
proof (cases "writable s \<and> \<not> closed s \<and> \<not> faulted s \<and> \<not> view_empty item \<and> view_valid item \<and>
    view_size item \<le> unat (vh_max_block_payload (volume s))")
  case False
  then show ?thesis using stepped_same [OF inv good] by (auto simp: append_impl_def not_le)
next
  case True
  let ?max = "unat (vh_max_block_payload (volume s))" and ?n = "view_size item"
  let ?tail = "media_in (tail_region (volume s) (last (partitions s))) (image (media s))"
  have bld: "length (builder s) \<le> ?max" using inv by (simp add: store_inv_def base_inv_def core_inv_def builder_ok_def)
  have len: "length (view_bytes item) = ?n" "view_bytes item \<noteq> []"
    using True view_size_bytes [of item] by (auto simp: view_empty_def)
  have first: "wp (if (of_nat ?n :: u64) > ucast (vh_max_block_payload (volume s)) - of_nat (length (builder s))
        then emit_builder env else return_op ())
      (\<lambda>_ t. store_inv t \<and> \<not> faulted t \<and> (after_emit s t \<or> t = s) \<and> ?tail t \<and> volume t = volume s \<and>
        length (builder t) + ?n \<le> ?max) (\<lambda>_. stepped s) s"
    using inv True bld fits_builder [of s ?n] good
    by (auto simp: after_emit_def not_less media_in_def intro!: stepped_emit [OF env])
  have second: "wp (ensure_empty_builder_capacity env)
      (\<lambda>_ u. store_inv u \<and> \<not> faulted u \<and> room (volume u) (last (partitions u)) \<and> stepped s u \<and>
        length (builder u) + ?n \<le> unat (vh_max_block_payload (volume u))) (\<lambda>_. stepped s) t"
    if "store_inv t" "\<not> faulted t" "after_emit s t \<or> t = s" "?tail t" "volume t = volume s" "length (builder t) + ?n \<le> ?max" for t
    by (rule stepped_ensure [OF env that(1,2) _ inv that(3,4)]) (use that in \<open>auto simp: same_config_def media_in_def\<close>)
  have act: "active u = Some (last (partitions u))" if "store_inv u" for u :: "'s impl"
    using that by (simp add: store_inv_def base_inv_def catalog_active)
  have third: "wp (case active u of None \<Rightarrow> error_op (Error Internal_error ''missing active partition'')
       | Some state \<Rightarrow> let options = ph_options (ps_header state) in
           if \<not> contract_holds expected options
           then error_op (Error Invalid_argument ''active partition contract changed before append'')
           else modify_op (accept_record env options (view_bytes item) time flags)) (\<lambda>_. stepped s) (\<lambda>_. stepped s) u"
    if "store_inv u" "\<not> faulted u" "room (volume u) (last (partitions u))" "stepped s u"
      "length (builder u) + ?n \<le> unat (vh_max_block_payload (volume u))" for u
  proof -
    have "stepped s (accept_record env options (view_bytes item) time flags u)" for options
      using that len
      by (intro stepped_modify [where f = "accept_record env options (view_bytes item) time flags"] store_inv_accept)
        (simp_all add: keys_def)
    then show ?thesis using that by (simp add: act)
  qed
  have guards: "writable s" "\<not> closed s" "\<not> faulted s" "\<not> view_empty item" "view_valid item"
    "\<not> ?max < view_size item" using True by auto
  show ?thesis
    unfolding append_impl_def
    apply (simp only: wp_bind wp_get wp_check_writer guards not_True_eq_False not_False_eq_True if_True if_False)
    apply (rule wp_mono [OF first])
     apply (auto intro!: wp_mono [OF second] third)
    done
qed

lemma stepped_flush_if:
  assumes "env_storage env = st" "store_inv t" "\<not> faulted t" "stepped s t"
  shows "wp (if b then sync_media env True else return_op ()) (\<lambda>_ u. store_inv u \<and> stepped s u) (\<lambda>_. stepped s) t"
  using assms by (auto intro!: stepped_flush)

lemma stepped_mark_closed: "store_inv t \<Longrightarrow> stepped s t \<Longrightarrow> stepped s (mark_closed t)"
  by (rule stepped_modify [where f = mark_closed, OF _ store_inv_mark_closed]) (simp_all add: mark_closed_def keys_def)

lemma stepped_close:
  assumes env: "env_storage env = st" and inv: "store_inv s" and good: "good (media s)"
  shows "wp (close env) (\<lambda>_. stepped s) (\<lambda>_. stepped s) s"
proof (cases "closed s \<or> \<not> writable s \<or> faulted s")
  case True
  then show ?thesis
    using stepped_same [OF inv good] stepped_mark_closed [OF inv] by (auto simp: close_def)
next
  case False
  have flush: "wp (if dirty t then sync_media env True else return_op ()) (\<lambda>_. wp (modify_op mark_closed) (\<lambda>_. stepped s) (\<lambda>_. stepped s))
      (\<lambda>_. stepped s) t" if "store_inv t" "\<not> faulted t" "stepped s t" for t
    by (rule wp_mono [OF stepped_flush_if [OF env that]]) (auto intro: stepped_mark_closed)
  have "wp (emit_builder env) (\<lambda>_. wp (bind_op get_op (\<lambda>s. bind_op (if dirty s then sync_media env True else return_op ())
      (\<lambda>_. modify_op mark_closed))) (\<lambda>_. stepped s) (\<lambda>_. stepped s)) (\<lambda>_. stepped s) s"
    unfolding wp_bind wp_get
  proof (rule stepped_emit [OF env inv _ good])
    show "\<not> faulted s" using False by simp
  qed (rule flush, assumption+, rule stepped_emitted [OF inv], assumption+)
  then show ?thesis using False by (simp add: close_def del: wp_if)
qed

lemma stepped_checkpoint:
  assumes env: "env_storage env = st" and inv: "store_inv s" and good: "good (media s)"
  shows "wp (checkpoint env) (\<lambda>_. stepped s) (\<lambda>_. stepped s) s"
proof -
  have flush: "wp (if \<not> dirty t then return_op () else sync_media env True) (\<lambda>_. stepped s) (\<lambda>_. stepped s) t"
    if "store_inv t" "\<not> faulted t" "stepped s t" for t
    using that by (auto intro!: stepped_flush [OF env])
  have "wp (emit_builder env) (\<lambda>_. wp (bind_op get_op (\<lambda>s. if \<not> dirty s then return_op () else sync_media env True))
      (\<lambda>_. stepped s) (\<lambda>_. stepped s)) (\<lambda>_. stepped s) s" if "\<not> faulted s"
    unfolding wp_bind wp_get
    by (rule stepped_emit [OF env inv that good]) (rule flush, assumption+, rule stepped_emitted [OF inv], assumption+)
  then show ?thesis using stepped_same [OF inv good] by (simp add: checkpoint_def del: wp_if)
qed

lemma stepped_rotate_store:
  assumes env: "env_storage env = st" and inv: "store_inv s" and good: "good (media s)"
  shows "wp (rotate_store env options) (\<lambda>_. stepped s) (\<lambda>_. stepped s) s"
proof -
  note same = stepped_same [OF inv good]
  have rot: "wp (rotate_internal env options) (\<lambda>_. stepped s) (\<lambda>_. stepped s) (t\<lparr>next_options := options\<rparr>)"
    if t: "store_inv t" "\<not> faulted t" "after_emit s t"
      "media_in (tail_region (volume s) (last (partitions s))) (image (media s)) t" and ok: "options_ok s options" for t
  proof -
    let ?t = "t\<lparr>next_options := options\<rparr>"
    have ok': "options_ok t options" using ok t(3) by (simp add: options_ok_def after_emit_def)
    have inv': "store_inv ?t" by (rule store_inv_next_options [OF t(1) ok'])
    have m: "media_in (tail_region (volume s) (last (partitions s))) (image (media s)) ?t" "good (media ?t)"
      using t(4) by (simp_all add: media_in_def)
    have k: "keys ?t = keys t" "next_slot ?t = next_slot t" by (simp_all add: keys_def next_slot_def)
    show ?thesis
    proof (rule stepped_rotate [OF env inv' _ m(2)])
      fix u assume u: "store_inv u" "\<not> faulted u" "same_config ?t u" "room (volume u) (last (partitions u))"
        "keys u = filter (\<lambda>(h, d). ph_slot h \<noteq> next_slot ?t) (keys ?t) @
          [(new_partition_header (volume ?t) (next_slot ?t) (ph_generation (ps_header (last (partitions ?t))) + 1) options, 4096)]"
        "media_in (tail_region (volume ?t) (last (partitions ?t)) \<union> header_region (volume ?t) (next_slot ?t)) (image (media ?t)) u"
      show "stepped s u"
        by (rule stepped_emit_rotate [OF inv t(3,4) u(1) _ u(5) [unfolded k]])
          (use u k in \<open>simp_all add: same_config_def new_partition_header_def\<close>)
    qed (use t ok' in \<open>auto simp: after_emit_def options_ok_def stepped_def\<close>)
  qed
  have "wp (emit_builder env) (\<lambda>_. wp (bind_op (modify_op (\<lambda>s. s\<lparr>next_options := options\<rparr>)) (\<lambda>_. rotate_internal env options))
      (\<lambda>_. stepped s) (\<lambda>_. stepped s)) (\<lambda>_. stepped s) s" if "\<not> faulted s" "options_ok s options"
    unfolding wp_bind wp_modify
    by (rule stepped_emit [OF env inv that(1) good]) (auto intro!: rot that)
  then show ?thesis using same by (simp add: rotate_store_def options_ok_def)
qed

lemma stepped_public:
  assumes env: "env_storage env = st" and inv: "store_inv s" and good: "good (media s)"
  shows "wp (append env item time flags) (\<lambda>_. stepped s) (\<lambda>_. stepped s) s"
    "wp (append_checked env item time contract flags) (\<lambda>_. stepped s) (\<lambda>_. stepped s) s"
    "wp (publish env) (\<lambda>_. stepped s) (\<lambda>_. stepped s) s"
    "wp (checkpoint env) (\<lambda>_. stepped s) (\<lambda>_. stepped s) s"
    "wp (set_next_partition_options options) (\<lambda>_. stepped s) (\<lambda>_. stepped s) s"
    "wp (close env) (\<lambda>_. stepped s) (\<lambda>_. stepped s) s" "wp (rotate_store env options) (\<lambda>_. stepped s) (\<lambda>_. stepped s) s"
    "wp (store_metrics_of env) (\<lambda>_. stepped s) (\<lambda>_. stepped s) s"
    "wp (health env) (\<lambda>_. stepped s) (\<lambda>_. stepped s) s"
proof -
  note same = stepped_same [OF inv good]
  show "wp (append env item time flags) (\<lambda>_. stepped s) (\<lambda>_. stepped s) s"
    "wp (append_checked env item time contract flags) (\<lambda>_. stepped s) (\<lambda>_. stepped s) s"
    using stepped_append_impl [OF assms] same by (simp_all add: append_def append_checked_def)
  show "wp (publish env) (\<lambda>_. stepped s) (\<lambda>_. stepped s) s"
    using same inv good by (auto simp: publish_def intro!: stepped_emit [OF env] intro: stepped_emitted)
  show "wp (checkpoint env) (\<lambda>_. stepped s) (\<lambda>_. stepped s) s" "wp (close env) (\<lambda>_. stepped s) (\<lambda>_. stepped s) s"
    "wp (rotate_store env options) (\<lambda>_. stepped s) (\<lambda>_. stepped s) s"
    by (rule stepped_checkpoint stepped_close stepped_rotate_store; fact)+
  show "wp (set_next_partition_options options) (\<lambda>_. stepped s) (\<lambda>_. stepped s) s"
  proof -
    have "stepped s (s\<lparr>next_options := options\<rparr>)" if "options_ok s options"
      using that same store_inv_next_options [OF inv that]
      by (intro stepped_modify [where f = "\<lambda>s. s\<lparr>next_options := options\<rparr>"]) (simp_all add: keys_def)
    then show ?thesis using same by (simp add: set_next_partition_options_def options_ok_def)
  qed
  have clock: "stepped s (s\<lparr>clock_reads := n\<rparr>)" for n
    using same inv by (intro stepped_modify [where f = "\<lambda>s. s\<lparr>clock_reads := n\<rparr>"]) (simp_all add: keys_def)
  show "wp (store_metrics_of env) (\<lambda>_. stepped s) (\<lambda>_. stepped s) s" "wp (health env) (\<lambda>_. stepped s) (\<lambda>_. stepped s) s"
    using same clock by (auto simp: wp_def store_metrics_of_def health_def Let_def)
qed

end

end
