(* ===== verification/Ring_Immutable.thy ===== *)
theory Ring_Immutable
  imports Ring_Evolution
begin

text \<open>
  Published data does not change until its slot is recycled: as long as a store has not faulted, the
  bytes of every partition that is still in its catalog are those they were, the part of the active
  partition behind its data excepted.
\<close>

section \<open>A fault stays\<close>

lemma keeps_faulted_fail [keeps_intros]: "keeps faulted (fail e)"
  by (simp add: keeps_def)

lemma keeps_faulted_media [keeps_intros]:
  "keeps faulted (read_media env off n)" "keeps faulted (write_media env off data)"
  unfolding keeps_def by (auto intro!: wp_rules)

lemma keeps_faulted_sync [keeps_intros]: "keeps faulted (sync_media env adv)"
  by (auto simp: keeps_def wp_def sync_media_def fail_def note_sync_def note_sync_error_def note_durable_def Let_def
      split: prod.splits)

lemma keeps_check [keeps_intros]: "keeps I check_writer"
  by (simp add: keeps_def)

lemma keeps_faulted_internal [keeps_intros]:
  "keeps faulted (create_partition env slot generation options)" "keeps faulted (seal_active_only env)"
  "keeps faulted (rotate_internal env options)" "keeps faulted (ensure_empty_builder_capacity env)"
  "keeps faulted (emit_frame env p payload selected version)" "keeps faulted (emit_builder env)"
proof -
  show create: "keeps faulted (create_partition env slot generation options)" for slot generation options
    unfolding create_partition_def by (intro keeps_intros) auto
  show seal: "keeps faulted (seal_active_only env)"
    unfolding seal_active_only_def by (intro keeps_intros) auto
  show rot: "keeps faulted (rotate_internal env options)" for options
    unfolding rotate_internal_def by (intro keeps_intros create seal) auto
  show "keeps faulted (ensure_empty_builder_capacity env)"
    unfolding ensure_empty_builder_capacity_def by (intro keeps_intros rot)
  show frame: "keeps faulted (emit_frame env p payload selected version)" for p payload selected version
    unfolding emit_frame_def by (intro keeps_intros) auto
  show "keeps faulted (emit_builder env)"
    unfolding emit_builder_def by (intro keeps_intros frame)
qed

lemma keeps_faulted_reads: "only_media m \<Longrightarrow> keeps faulted m"
  by (auto simp: keeps_def intro: wp_only_media)

interpretation sticky: kept_by_operations env faulted for env :: "'s env"
proof
  have impl: "keeps faulted (append_impl env item time flags expected)" for item time flags expected
    unfolding append_impl_def by (intro keeps_intros) auto
  show "keeps faulted (append env item time flags)" for item time flags by (simp add: append_def impl)
  show "keeps faulted (append_checked env item time contract flags)" for item time contract flags
    by (simp add: append_checked_def impl keeps_basic)
  show "keeps faulted (publish env)" unfolding publish_def by (intro keeps_intros)
  show "keeps faulted (checkpoint env)" unfolding checkpoint_def by (intro keeps_intros)
  show "keeps faulted (rotate_store env options)" for options unfolding rotate_store_def by (intro keeps_intros) auto
  show "keeps faulted (set_next_partition_options options)" for options
    unfolding set_next_partition_options_def by (intro keeps_intros) auto
  show "keeps faulted (close env)" unfolding close_def by (intro keeps_intros) (auto simp: mark_closed_def)
  show "keeps faulted (store_metrics_of env)" "keeps faulted (health env)"
    by (auto simp: keeps_def wp_def store_metrics_of_def health_def Let_def)
  show "keeps faulted (read_partition_header env slot)" "keeps faulted (read_block env part e)"
    "keeps faulted (acquire_index env part)" for slot part e
    by (intro keeps_faulted_reads only_media_intros)+
  show "faulted s \<Longrightarrow> faulted (count_gap kind s)" for s :: "'s impl" and kind by (simp add: count_gap_def)
qed

section \<open>Protected bytes\<close>

definition protected :: "'s impl \<Rightarrow> partition_state \<Rightarrow> nat set" where
  "protected s p = (if ps_header p = ps_header (last (partitions s)) then data_region (volume s) p
     else {slot_base (volume s) p..<slot_base (volume s) p + unat (vh_partition_size (volume s))})"

lemma next_slot_differs:
  assumes "store_inv s"
  shows "next_slot s \<noteq> ph_slot (ps_header (last (partitions s)))" "next_slot s < vh_partition_count (volume s)"
proof -
  let ?x = "ph_slot (ps_header (last (partitions s)))" and ?n = "vh_partition_count (volume s)"
  have c: "catalog_ok s" and g: "geometry_ok (volume s)" using assms by (simp_all add: store_inv_def base_inv_def core_inv_def)
  have x: "unat ?x < unat ?n" using c by (auto simp: catalog_ok_def catalog_sorted_def headers_def word_less_nat_alt)
  have n: "2 \<le> unat ?n" using geometry_okD(1) [OF g] by (simp add: word_le_nat_alt)
  have "unat (?x + 1) = unat ?x + 1" using x unat_u32_less [of ?n] by (simp add: unat_word_ariths)
  then have u: "unat (next_slot s) = (unat ?x + 1) mod unat ?n" by (simp add: next_slot_def unat_mod)
  then have "unat (next_slot s) \<noteq> unat ?x" using x n by (cases "unat ?x + 1 = unat ?n") auto
  then show "next_slot s \<noteq> ?x" by auto
  show "next_slot s < ?n" using u n by (simp add: word_less_nat_alt)
qed

lemma slot_unique:
  assumes "store_inv s" "h \<in> set (headers s)" "k \<in> set (headers s)" "ph_slot h = ph_slot k"
  shows "h = k"
  using assms by (auto simp: store_inv_def base_inv_def core_inv_def catalog_sorted_def distinct_map inj_on_def)

lemma last_header_in: "store_inv s \<Longrightarrow> ps_header (last (partitions s)) \<in> set (headers s)"
  using store_inv_nonempty [of s] by (simp add: headers_def)

lemma slot_lt: "store_inv s \<Longrightarrow> h \<in> set (headers s) \<Longrightarrow> ph_slot h < vh_partition_count (volume s)"
  by (auto simp: store_inv_def base_inv_def core_inv_def catalog_sorted_def)

lemma newest_header:
  assumes "store_inv s" "h \<in> set (headers s)" "\<forall>k \<in> set (headers s). ph_generation k \<le> ph_generation h"
  shows "h = ps_header (last (partitions s))"
proof -
  have c: "catalog_ok s" using assms(1) by (simp add: store_inv_def base_inv_def)
  obtain p where p: "p \<in> set (partitions s)" "h = ps_header p" using assms(2) by (auto simp: headers_def)
  have "partitions s = butlast (partitions s) @ [last (partitions s)]" using c by (simp add: catalog_ok_def)
  then have "p \<in> set (butlast (partitions s)) \<or> p = last (partitions s)"
    using p(1) by (metis Un_iff empty_iff insert_iff list.set(1) list.set(2) set_append)
  moreover have "ph_generation (ps_header (last (partitions s))) \<le> ph_generation h"
    using assms(3) last_header_in [OF assms(1)] by blast
  ultimately show ?thesis using catalog_butlast [OF c, of p] p(2) by auto
qed

lemma slots_apart:
  assumes "store_inv s" "a < vh_partition_count (volume s)" "b < vh_partition_count (volume s)" "a \<noteq> b"
  shows "{unat (partition_base (volume s) a)..<unat (partition_base (volume s) a) + unat (vh_partition_size (volume s))} \<inter>
    {unat (partition_base (volume s) b)..<unat (partition_base (volume s) b) + unat (vh_partition_size (volume s))} = {}"
  using assms by (intro slot_regions_disjoint) (auto simp: store_inv_def base_inv_def core_inv_def)

lemma regions_in_slot:
  assumes "store_inv s"
  shows "header_region (volume s) a \<subseteq>
      {unat (partition_base (volume s) a)..<unat (partition_base (volume s) a) + unat (vh_partition_size (volume s))}"
    "tail_region (volume s) p \<subseteq> {slot_base (volume s) p..<slot_base (volume s) p + unat (vh_partition_size (volume s))}"
  using assms partition_size_ge [of "volume s"]
  by (auto simp: header_region_def tail_region_def store_inv_def base_inv_def core_inv_def)

lemma active_unique:
  assumes "store_inv s" "p \<in> set (partitions s)" "ps_header p = ps_header (last (partitions s))"
  shows "p = last (partitions s)"
proof -
  have c: "catalog_ok s" using assms(1) by (simp add: store_inv_def base_inv_def)
  have "partitions s = butlast (partitions s) @ [last (partitions s)]" using c by (simp add: catalog_ok_def)
  then have "p \<in> set (butlast (partitions s)) \<or> p = last (partitions s)"
    using assms(2) by (metis Un_iff empty_iff insert_iff list.set(1) list.set(2) set_append)
  then show ?thesis using catalog_butlast [OF c, of p] assms(3) by auto
qed

lemma protected_in_slot:
  assumes "store_inv s" "\<not> faulted s" "p \<in> set (partitions s)"
  shows "protected s p \<subseteq> {slot_base (volume s) p..<slot_base (volume s) p + unat (vh_partition_size (volume s))}"
proof -
  have inv: "index_ok (volume s) (last (partitions s))" "geometry_ok (volume s)"
    using assms(1,2) by (simp_all add: store_inv_def base_inv_def core_inv_def)
  have "unat (ps_data_end (last (partitions s))) \<le> unat (vh_partition_size (volume s))"
    using inv(1) geometry_okD(5) [OF inv(2)] by (simp add: index_ok_def word_le_nat_alt)
  then show ?thesis
    using active_unique [OF assms(1,3)] by (auto simp: protected_def data_region_def)
qed

text \<open>What a later state has kept of an earlier one.\<close>

definition kept_since :: "('s \<Rightarrow> bytes) \<Rightarrow> 's impl \<Rightarrow> 's impl \<Rightarrow> bool" where
  "kept_since img s0 s \<longleftrightarrow> volume s = volume s0 \<and> length (img (media s)) = length (img (media s0)) \<and>
     (\<forall>h \<in> set (headers s0). ph_generation h \<le> ph_generation (ps_header (last (partitions s)))) \<and>
     (ps_header (last (partitions s)) = ps_header (last (partitions s0)) \<longrightarrow>
        ps_data_end (last (partitions s0)) \<le> ps_data_end (last (partitions s))) \<and>
     (\<forall>p \<in> set (partitions s0). ps_header p \<in> set (headers s) \<longrightarrow>
        (\<forall>i \<in> protected s0 p. i < length (img (media s0)) \<longrightarrow> img (media s) ! i = img (media s0) ! i))"

lemma keys_le_step:
  assumes "keys_le (keys s) (keys t)" "partitions s \<noteq> []"
  shows "headers t = headers s" "ps_header (last (partitions t)) = ps_header (last (partitions s))"
    "ps_data_end (last (partitions s)) \<le> ps_data_end (last (partitions t))"
proof -
  show h: "headers t = headers s" using keys_le_headers [OF assms(1)] by (simp add: headers_keys)
  show "ps_header (last (partitions t)) = ps_header (last (partitions s))" using keys_le_last [OF assms(1)] assms(2) by blast
  have len: "length (keys t) = length (keys s)" using assms(1) by (simp add: keys_le_def list_all2_lengthD)
  then have "(\<lambda>(h, d) (h', d'). h' = h \<and> d \<le> d') (last (keys s)) (last (keys t))"
    using assms unfolding keys_le_def
    by (metis (no_types, lifting) keys_def last_conv_nth length_0_conv length_map list_all2_nthD diff_less length_greater_0_conv zero_less_one)
  then show "ps_data_end (last (partitions s)) \<le> ps_data_end (last (partitions t))"
    using assms(2) len by (cases "partitions t = []") (auto simp: keys_def last_map)
qed

lemma rotated_step:
  assumes "rotated s (keys t)" "store_inv s" "store_inv t"
  obtains k where "ps_header (last (partitions t)) = k" "ph_slot k = next_slot s"
    "ph_generation (ps_header (last (partitions s))) < ph_generation k"
    "\<And>h. h \<in> set (headers t) \<Longrightarrow> h = k \<or> h \<in> set (headers s) \<and> ph_slot h \<noteq> next_slot s"
proof -
  obtain ks k d where k: "keys t = ks @ [(k, d)]" "ph_slot k = next_slot s"
    "keys_le (filter (\<lambda>(h, d). ph_slot h \<noteq> next_slot s) (keys s)) ks"
    using assms(1) by (auto simp: rotated_def)
  have hs: "headers t = map fst ks @ [k]" using k(1) by (simp add: headers_keys)
  have "map fst ks = map fst (filter (\<lambda>(h, d). ph_slot h \<noteq> next_slot s) (keys s))" by (rule keys_le_headers [OF k(3)])
  then have set: "set (map fst ks) = {h \<in> set (headers s). ph_slot h \<noteq> next_slot s}" by (force simp: headers_keys)
  have lst: "ps_header (last (partitions t)) = k"
    using hs store_inv_nonempty [OF assms(3)] by (metis headers_def last_map last_snoc)
  have "ps_header (last (partitions s)) \<in> set (map fst ks)"
    unfolding set using last_header_in [OF assms(2)] next_slot_differs(1) [OF assms(2)] by simp
  moreover have "catalog_sorted (volume t) (headers t)" using assms(3) by (simp add: store_inv_def base_inv_def core_inv_def)
  ultimately have "ph_generation (ps_header (last (partitions s))) < ph_generation k"
    unfolding hs by (auto simp: catalog_sorted_def sorted_wrt_append)
  then show ?thesis using that lst k(2) hs set by auto
qed

lemma kept_since_step:
  assumes s0: "store_inv s0" "\<not> faulted s0" and s: "store_inv s" "kept_since img s0 s" and t: "store_inv t" "evolves s t"
    and bytes: "agree_outside (touched s t) (img (media s)) (img (media t))"
  shows "kept_since img s0 t"
proof -
  let ?v = "volume s0" and ?last = "ps_header (last (partitions s))"
  have vol: "volume s = ?v" "volume t = ?v" using s(2) t(2) by (simp_all add: kept_since_def evolves_def)
  have len: "length (img (media s)) = length (img (media s0))" "length (img (media t)) = length (img (media s0))"
    using s(2) bytes by (simp_all add: kept_since_def agree_outside_def)
  note ne = store_inv_nonempty [OF s(1)]
  have newest: "ph_generation h \<le> ph_generation ?last" if "h \<in> set (headers s0)" for h
    using s(2) that by (simp add: kept_since_def)
  have same: "img (media t) ! i = img (media s0) ! i"
    if p: "p \<in> set (partitions s0)" "ps_header p \<in> set (headers s)"
      "keys_le (keys s) (keys t) \<or> ph_slot (ps_header p) \<noteq> next_slot s" and i: "i \<in> protected s0 p" "i < length (img (media s0))" for p i
  proof -
    let ?R = "{slot_base ?v p..<slot_base ?v p + unat (vh_partition_size ?v)}"
    have R: "i \<in> ?R" using protected_in_slot [OF s0 p(1)] i(1) by blast
    have tail: "i \<notin> tail_region ?v (last (partitions s))"
    proof (cases "ph_slot (ps_header p) = ph_slot ?last")
      case True
      then have hp: "ps_header p = ?last" by (rule slot_unique [OF s(1) p(2) last_header_in [OF s(1)]])
      have h0: "ps_header p = ps_header (last (partitions s0))"
      proof (rule newest_header [OF s0(1)])
        show "ps_header p \<in> set (headers s0)" using p(1) by (simp add: headers_def)
        show "\<forall>k \<in> set (headers s0). ph_generation k \<le> ph_generation (ps_header p)" using newest hp by simp
      qed
      then have "p = last (partitions s0)" by (rule active_unique [OF s0(1) p(1)])
      moreover have "ps_data_end (last (partitions s0)) \<le> ps_data_end (last (partitions s))"
        using s(2) hp h0 by (simp add: kept_since_def)
      ultimately show ?thesis using i(1) hp
        by (auto simp: tail_region_def protected_def data_region_def slot_base_def word_le_nat_alt)
    next
      case False
      then show ?thesis
        using slots_apart [OF s(1) slot_lt [OF s(1) p(2)] slot_lt [OF s(1) last_header_in [OF s(1)]]] R
          regions_in_slot(2) [OF s(1), of "last (partitions s)"] by (auto simp: slot_base_def vol)
    qed
    have "i \<notin> header_region ?v (next_slot s)" if "\<not> keys_le (keys s) (keys t)"
      using slots_apart [OF s(1) slot_lt [OF s(1) p(2)] next_slot_differs(2) [OF s(1)]] p(3) that R
        regions_in_slot(1) [OF s(1), of "next_slot s"] by (auto simp: slot_base_def vol)
    then have "i \<notin> touched s t" using tail by (auto simp: touched_def vol)
    then have "img (media t) ! i = img (media s) ! i" using bytes i(2) len by (simp add: agree_outside_def)
    also have "\<dots> = img (media s0) ! i" using s(2) p(1,2) i by (simp add: kept_since_def)
    finally show ?thesis .
  qed
  from t(2) consider "keys_le (keys s) (keys t)" | "rotated s (keys t)" by (auto simp: evolves_def)
  then show ?thesis
  proof cases
    case 1
    note k = keys_le_step [OF 1 ne]
    show ?thesis
      using s(2) k same 1 len vol(2) unfolding kept_since_def by (auto intro: order_trans)
  next
    case 2
    then obtain k where k: "ps_header (last (partitions t)) = k" "ph_slot k = next_slot s"
      "ph_generation ?last < ph_generation k"
      "\<And>h. h \<in> set (headers t) \<Longrightarrow> h = k \<or> h \<in> set (headers s) \<and> ph_slot h \<noteq> next_slot s"
      using rotated_step [OF 2 s(1) t(1)] by blast
    have less: "ph_generation h < ph_generation k" if "h \<in> set (headers s0)" for h
      using newest [OF that] k(3) by simp
    have "ps_header p \<in> set (headers s) \<and> ph_slot (ps_header p) \<noteq> next_slot s"
      if "p \<in> set (partitions s0)" "ps_header p \<in> set (headers t)" for p
      using k(4) [OF that(2)] less [of "ps_header p"] that(1) by (auto simp: headers_def)
    moreover have "k \<noteq> ps_header (last (partitions s0))" using less [OF last_header_in [OF s0(1)]] by auto
    ultimately show ?thesis
      using same less len vol(2) k(1) unfolding kept_since_def by (auto simp: less_imp_le)
  qed
qed

lemma kept_since_start: "store_inv s \<Longrightarrow> kept_since img s s"
  using generation_bound [of s] by (auto simp: kept_since_def store_inv_def base_inv_def)

section \<open>Along a run\<close>

context ring_on_storage
begin

text \<open>What holds along every run from a state \<open>s0\<close> that has not faulted.\<close>

definition keeps_data :: "'a impl \<Rightarrow> 'a impl \<Rightarrow> bool" where
  "keeps_data s0 s \<longleftrightarrow> store_inv s \<and> good (media s) \<and> (faulted s \<or> kept_since image s0 s)"

lemma keeps_data_op:
  assumes s0: "store_inv s0" "\<not> faulted s0" and sticky: "keeps faulted m"
    and step: "\<And>s. store_inv s \<Longrightarrow> good (media s) \<Longrightarrow> wp m (\<lambda>_. stepped s) (\<lambda>_. stepped s) s"
  shows "keeps (keeps_data s0) m"
  unfolding keeps_def
proof (intro allI impI)
  fix s assume s: "keeps_data s0 s"
  then have inv: "store_inv s" "good (media s)" by (simp_all add: keeps_data_def)
  have next_state: "keeps_data s0 t" if "stepped s t" "faulted s \<longrightarrow> faulted t" for t
    using that s kept_since_step [OF s0 inv(1)] by (auto simp: keeps_data_def stepped_def)
  have "wp m (\<lambda>_ t. faulted s \<longrightarrow> faulted t) (\<lambda>_ t. faulted s \<longrightarrow> faulted t) s"
    using sticky by (cases "faulted s") (auto simp: keeps_def wp_def split: option.split sum.split)
  then have "wp m (\<lambda>_ t. (faulted s \<longrightarrow> faulted t) \<and> stepped s t) (\<lambda>_ t. (faulted s \<longrightarrow> faulted t) \<and> stepped s t) s"
    by (rule wp_both [OF _ step [OF inv]])
  then show "wp m (\<lambda>_. keeps_data s0) (\<lambda>_. keeps_data s0) s"
    by (rule wp_mono) (auto intro: next_state)
qed

lemma read_closed_keeps_data: "read_closed (keeps_data s0)"
  by (auto simp: read_closed_def keeps_data_def kept_since_def headers_def)

lemma kept_by_operations_keeps_data:
  assumes s0: "store_inv s0" "\<not> faulted s0"
  shows "kept_by_operations env (keeps_data s0)"
proof
  note op = keeps_data_op [OF s0] and pub = stepped_public [OF env_storage]
  show "keeps (keeps_data s0) (append env item time flags)" for item time flags by (rule op [OF sticky.keeps_append pub(1)])
  show "keeps (keeps_data s0) (append_checked env item time contract flags)" for item time contract flags
    by (rule op [OF sticky.keeps_append_checked pub(2)])
  show "keeps (keeps_data s0) (publish env)" by (rule op [OF sticky.keeps_publish pub(3)])
  show "keeps (keeps_data s0) (checkpoint env)" by (rule op [OF sticky.keeps_checkpoint pub(4)])
  show "keeps (keeps_data s0) (set_next_partition_options options)" for options by (rule op [OF sticky.keeps_set_next pub(5)])
  show "keeps (keeps_data s0) (close env)" by (rule op [OF sticky.keeps_close pub(6)])
  show "keeps (keeps_data s0) (rotate_store env options)" for options by (rule op [OF sticky.keeps_rotate pub(7)])
  show "keeps (keeps_data s0) (store_metrics_of env)" by (rule op [OF sticky.keeps_metrics pub(8)])
  show "keeps (keeps_data s0) (health env)" by (rule op [OF sticky.keeps_health pub(9)])
  show "keeps_data s0 s \<Longrightarrow> keeps_data s0 (count_gap kind s)" for s kind
    using store_inv_count_gap [of s kind] by (auto simp: keeps_data_def kept_since_def headers_def count_gap_def)
qed (rule keeps_reads [OF read_closed_keeps_data env_storage])+

lemma run_keeps_data:
  assumes "store_run env s0 s" "store_inv s0" "\<not> faulted s0" "good (media s0)" "\<not> faulted s"
  shows "kept_since image s0 s"
proof -
  have "keeps_data s0 s0" using assms by (simp add: keeps_data_def kept_since_start)
  from kept_by_operations.run_keeps [OF kept_by_operations_keeps_data [OF assms(2,3)] assms(1) this]
  show ?thesis using assms(5) by (simp add: keeps_data_def)
qed

end

interpretation mem_ring: ring_on_storage "memory_backend None" mem_volatile mem_durable mem_good
  mem_read_stall mem_write_stall "\<lparr>env_storage = memory_backend None, env_clock = clock\<rparr>" for clock
  by unfold_locales simp

end
