(* ===== verification/Ring_Readback.thy ===== *)
theory Ring_Readback
  imports Ring_Immutable
begin

text \<open>
  A published block reads back: the frame \<open>emit_builder\<close> writes is the one \<open>read_block\<close> finds, the
  codec inverts itself, and no later operation touches the frame while the partition is in the
  catalog.
\<close>

section \<open>What is stored\<close>

lemma candidate_codec_version:
  "candidate_codec cs cid version = Some c \<Longrightarrow> codec_version c = version"
  by (induction cs cid version rule: candidate_codec.induct) (auto split: if_splits)

lemma codec_for_version: "codec_for oo cid version = Some c \<Longrightarrow> codec_version c = version"
  by (auto simp: codec_for_def candidate_codec_version split: option.splits if_splits)

lemma codec_for_none: "codec_for oo Compression_none 1 = Some none_codec"
  by (simp add: codec_for_def built_in_codec_def)

lemma select_payload_decodes:
  assumes sel: "select_payload c options raw = Inr (payload, selected, version)"
    and c: "codec_for oo (po_compression options) (po_compression_version options) = Some c" "compression_codec c"
    and raw: "raw \<noteq> []" "length raw \<le> vector_max"
  obtains d where "codec_for oo selected version = Some d" "decompress d (View payload) (length raw) False = Inr raw"
    "payload \<noteq> []"
proof (cases "selected = Compression_none \<and> version = 1 \<and> payload = raw")
  case True
  then show ?thesis using that codec_for_none raw by (auto simp: none_decompress_eq)
next
  case False
  then have s: "selected = po_compression options" "version = codec_version c" "compress c (View raw) False = Inr payload" "payload \<noteq> []"
    using sel by (auto simp: select_payload_def split: if_splits sum.splits)
  have "decompress c (View payload) (length raw) False = Inr raw"
    using compression_codec.decompress_compress [OF c(2), of "View raw" payload] s raw by simp
  then show ?thesis using that c(1) s codec_for_version [OF c(1)] by simp
qed

text \<open>The block a reader decodes from an image.\<close>

definition frame_in :: "bytes \<Rightarrow> nat \<Rightarrow> block_header \<Rightarrow> bytes \<Rightarrow> bool" where
  "frame_in img off block payload \<longleftrightarrow> off + 128 + length payload \<le> length img \<and>
     sub_bytes img off (128 + length payload) = encode_block_header block @ payload"

lemma frame_inD:
  assumes "frame_in img off block payload"
  shows "sub_bytes img off 128 = encode_block_header block" "sub_bytes img (off + 128) (length payload) = payload"
proof -
  have "sub_bytes img off (128 + length payload) = sub_bytes img off 128 @ sub_bytes img (off + 128) (length payload)"
    by (rule sub_bytes_split)
  moreover have "off + 128 + length payload \<le> length img" using assms by (simp add: frame_in_def)
  then have "length (sub_bytes img off 128) = 128" by simp
  ultimately show "sub_bytes img off 128 = encode_block_header block" "sub_bytes img (off + 128) (length payload) = payload"
    using assms by (auto simp: frame_in_def append_eq_append_conv)
qed

lemma frame_in_agree:
  assumes "frame_in img off block payload" "length img' = length img" "\<forall>i. off \<le> i \<and> i < off + 128 + length payload \<longrightarrow> img' ! i = img ! i"
  shows "frame_in img' off block payload"
proof -
  have "sub_bytes img' off (128 + length payload) = sub_bytes img off (128 + length payload)"
  proof (rule nth_equalityI)
    fix i assume "i < length (sub_bytes img' off (128 + length payload))"
    then have i: "i < 128 + length payload" "off + i < length img" using assms(2) by auto
    then show "sub_bytes img' off (128 + length payload) ! i = sub_bytes img off (128 + length payload) ! i"
      using assms(2,3) by simp
  qed (simp add: assms(2))
  then show ?thesis using assms by (simp add: frame_in_def)
qed

lemma classify_error: "classify_snapshot_failure env part e s \<noteq> Some (Inr a, s')"
  by (auto simp: classify_snapshot_failure_def bind_op_def try_op_def split: option.splits sum.splits if_splits)

lemma wp_classify: "(\<And>e s'. E e s') \<Longrightarrow> wp (classify_snapshot_failure env part e) Q E s"
  by (rule wpI) (simp_all add: classify_error)

context storage_contract
begin

lemma read_media_result:
  assumes "env_storage env = st" "good (media s)" "read_media env off n s = Some (Inr data, s')"
  shows "data = sub_bytes (image (media s)) (unat off) n"
proof -
  have "wp (read_media env off n) (\<lambda>data _. data = sub_bytes (image (media s)) (unat off) n) (\<lambda>_ _. True) s"
    by (rule media_in_read [OF assms(1,2)]) simp_all
  from wpD(1) [OF this assms(3)] show ?thesis .
qed

lemma read_block_result:
  assumes env: "env_storage env = st" and good: "good (media s)"
    and r: "read_block env part entry s = Some (Inr (meta, data), s')"
  obtains block c where
    "decode_block_header (sub_bytes (image (media s)) (unat (partition_base (volume s) (ph_slot (ps_header part)) + ie_offset entry)) 128) False = Inr block"
    "codec_for (open_options s) (bh_compression block) (bh_compression_version block) = Some c"
    "decompress c (View (sub_bytes (image (media s))
        (unat (partition_base (volume s) (ph_slot (ps_header part)) + ie_offset entry + 128)) (unat (bh_stored_size block))))
      (unat (bh_raw_size block)) False = Inr data"
    "meta = block_metadata_of (volume s) part entry block"
proof -
  let ?off = "partition_base (volume s) (ph_slot (ps_header part)) + ie_offset entry"
  let ?hdr = "catch_op (read_partition_header env (ph_slot (ps_header part))) (classify_snapshot_failure env part)"
  let ?I = "\<lambda>t. good (media t) \<and> image (media t) = image (media s) \<and> volume t = volume s \<and> open_options t = open_options s"
  have closed: "read_closed ?I" by (auto simp: read_closed_def)
  have hdr: "keeps ?I ?hdr" by (intro keeps_catch keeps_read_header [OF closed env])
  have start: "?I s" using good by simp
  let ?cont = "\<lambda>bytes. case decode_block_header bytes False of
       Inl status \<Rightarrow> classify_snapshot_failure env part status
     | Inr block \<Rightarrow>
         if \<not> block_identity (volume s) part entry block
         then classify_snapshot_failure env part (Error Corrupt ''block identity disagrees with snapshot'')
         else if \<not> block_agrees (volume s) part entry block
         then classify_snapshot_failure env part (Error Corrupt ''block metadata disagrees with partition/index'')
         else if (let (expected_span, span_overflow) =
                align_up (128 + ucast (bh_stored_size block)) (vh_persistence_quantum (volume s))
              in ucast (bh_frame_span block) \<noteq> expected_span \<or> span_overflow)
         then classify_snapshot_failure env part (Error Corrupt ''block frame span mismatch'')
         else bind_op (read_media env (?off + 128) (unat (bh_stored_size block))) (\<lambda>stored.
           bind_op ?hdr (\<lambda>after_read.
           if ph_generation after_read \<noteq> ph_generation (ps_header part)
           then error_op (Error Overwritten ''partition changed while reading block payload'')
           else decode_block env part entry block stored))"
  obtain h1 t1 bytes t2 where
    h1: "?hdr s = Some (Inr h1, t1)" and bytes: "read_media env ?off 128 t1 = Some (Inr bytes, t2)"
    and rest: "?cont bytes t2 = Some (Inr (meta, data), s')"
    using r unfolding read_block_def Let_def bind_op_Inr [of get_op] by (auto simp only: op_simps bind_op_Inr split: if_splits)
  from rest obtain block where block: "decode_block_header bytes False = Inr block"
    by (auto simp: classify_error split: sum.splits)
  obtain stored t3 h2 t4 where stored: "read_media env (?off + 128) (unat (bh_stored_size block)) t2 = Some (Inr stored, t3)"
    and h2: "?hdr t3 = Some (Inr h2, t4)" and dec: "decode_block env part entry block stored t4 = Some (Inr (meta, data), s')"
    using rest by (auto simp: block bind_op_Inr classify_error split: if_splits)
  have t1: "?I t1" by (rule keepsD [OF hdr start h1])
  have t2: "?I t2" by (rule keepsD [OF keeps_read [OF closed env] t1 bytes])
  have t3: "?I t3" by (rule keepsD [OF keeps_read [OF closed env] t2 stored])
  have t4: "?I t4" by (rule keepsD [OF hdr t3 h2])
  have bytes_eq: "bytes = sub_bytes (image (media s)) (unat ?off) 128"
    using read_media_result [OF env _ bytes] t1 by simp
  have stored_eq: "stored = sub_bytes (image (media s)) (unat (?off + 128)) (unat (bh_stored_size block))"
    using read_media_result [OF env _ stored] t2 by simp
  have d: "\<exists>c. codec_for (open_options s) (bh_compression block) (bh_compression_version block) = Some c \<and>
      decompress c (View stored) (unat (bh_raw_size block)) False = Inr data \<and> meta = block_metadata_of (volume s) part entry block"
    using dec t4 by (auto simp: decode_block_def bind_op_Inr classify_error split: if_splits option.splits sum.splits)
  show ?thesis using that block d by (auto simp: bytes_eq stored_eq)
qed

lemma write_media_result:
  assumes "env_storage env = st" "good (media s)" "write_media env off data s = Some (Inr (), s')" "data \<noteq> []"
  obtains m where "s' = s\<lparr>media := m\<rparr>" "good m" "image m = blit (image (media s)) (unat off) data"
    "unat off + length data \<le> length (image (media s))"
proof -
  have "wp (write_media env off data) (\<lambda>_ s'. \<exists>m. s' = s\<lparr>media := m\<rparr> \<and> good m \<and>
      image m = blit (image (media s)) (unat off) data \<and> unat off + length data \<le> length (image (media s))) (\<lambda>_ _. True) s"
    using assms(4) by (intro media_in_write [OF assms(1,2)]) auto
  from wpD(1) [OF this assms(3)] show ?thesis using that by blast
qed

lemma emit_result:
  assumes env: "env_storage env = st" and inv: "store_inv s" and good: "good (media s)"
    and b: "builder s \<noteq> []" and e: "emit_builder env s = Some (Inr (), s1)"
  obtains c payload selected version span m where
    "codec_for (open_options s) (po_compression (ph_options (ps_header (last (partitions s)))))
       (po_compression_version (ph_options (ps_header (last (partitions s))))) = Some c"
    "select_payload c (ph_options (ps_header (last (partitions s)))) (builder s) = Inr (payload, selected, version)"
    "align_up (128 + of_nat (length payload)) (vh_persistence_quantum (volume s)) = (span, False)"
    "\<not> 128 + of_nat (length payload) > (0xffffffff :: u64)" "\<not> span > 0xffffffff"
    "\<not> ps_data_end (last (partitions s)) > index_begin (volume s)"
    "\<not> span > index_begin (volume s) - ps_data_end (last (partitions s))"
    "s1 = note_published (new_index_entry (last (partitions s)) (new_block_header s (last (partitions s)) payload selected version span)
        (128 + of_nat (length payload)) span) span (128 + length payload) (s\<lparr>media := m\<rparr>)"
    "good m" "image m = blit (image (media s))
        (unat (partition_base (volume s) (ph_slot (ps_header (last (partitions s)))) + ps_data_end (last (partitions s))))
        (encode_block_header (new_block_header s (last (partitions s)) payload selected version span) @ payload)"
    "unat (partition_base (volume s) (ph_slot (ps_header (last (partitions s)))) + ps_data_end (last (partitions s))) +
        (128 + length payload) \<le> length (image (media s))"
proof -
  let ?p = "last (partitions s)"
  have act: "active s = Some ?p" using inv by (simp add: store_inv_def base_inv_def catalog_active)
  have fail_Inr: "fail st' t \<noteq> Some (Inr x, u)" for st' t u and x :: unit by (simp add: fail_def)
  obtain c where c: "codec_for (open_options s) (po_compression (ph_options (ps_header ?p))) (po_compression_version (ph_options (ps_header ?p))) = Some c"
    using e b act by (auto simp: emit_builder_def bind_op_def fail_Inr Let_def split: option.splits)
  obtain payload selected version where sel: "select_payload c (ph_options (ps_header ?p)) (builder s) = Inr (payload, selected, version)"
    and fr: "emit_frame env ?p payload selected version s = Some (Inr (), s1)"
    using e b act c by (auto simp: emit_builder_def bind_op_def fail_Inr Let_def split: sum.splits)
  obtain span overflow where al: "align_up (128 + of_nat (length payload) :: u64) (vh_persistence_quantum (volume s)) = (span, overflow)"
    by fastforce
  let ?block = "new_block_header s ?p payload selected version span"
  let ?off = "partition_base (volume s) (ph_slot (ps_header ?p)) + ps_data_end ?p"
  have g: "\<not> overflow" "\<not> 128 + of_nat (length payload) > (0xffffffff :: u64)" "\<not> span > 0xffffffff"
    "\<not> ps_data_end ?p > index_begin (volume s)" "\<not> span > index_begin (volume s) - ps_data_end ?p"
    using fr by (auto simp: emit_frame_def bind_op_def al Let_def fail_Inr split: if_splits)
  obtain t where w: "catch_op (write_media env ?off (encode_block_header ?block @ payload)) fail s = Some (Inr (), t)"
    and s1: "s1 = note_published (new_index_entry ?p ?block (128 + of_nat (length payload)) span) span (128 + length payload) t"
    using fr g by (auto simp: emit_frame_def bind_op_Inr al Let_def fail_Inr split: if_splits)
  have w': "write_media env ?off (encode_block_header ?block @ payload) s = Some (Inr (), t)"
    using w by (auto simp: catch_op_def fail_Inr split: option.splits sum.splits)
  have ne: "encode_block_header ?block @ payload \<noteq> []" by (metis append_is_Nil_conv length_encoded_headers(2) list.size(3) zero_neq_numeral)
  obtain m where "t = s\<lparr>media := m\<rparr>" "good m" "image m = blit (image (media s)) (unat ?off) (encode_block_header ?block @ payload)"
    "unat ?off + length (encode_block_header ?block @ payload) \<le> length (image (media s))"
    using write_media_result [OF env good w' ne] by blast
  then show ?thesis using that [OF c sel] al g s1 by simp
qed

end

text \<open>The header of a block that is emitted is one its decoder accepts.\<close>

lemma new_block_header_wf:
  assumes bld: "builder_ok s" "builder s \<noteq> []" and writer: "writer_id_high s \<noteq> 0 \<or> writer_id_low s \<noteq> 0"
    and payload: "payload \<noteq> []" "length payload \<le> length (builder s)"
    and span: "align_up (128 + of_nat (length payload)) q = (span, False)"
      "\<not> 128 + of_nat (length payload) > (0xffffffff :: u64)" "\<not> span > 0xffffffff"
  shows "block_header_wf (new_block_header s p payload selected version span)"
    "unat (bh_stored_size (new_block_header s p payload selected version span)) = length payload"
    "unat (bh_raw_size (new_block_header s p payload selected version span)) = length (builder s)"
proof -
  let ?b = "new_block_header s p payload selected version span"
  have lt: "length (builder s) < 2 ^ 32" using bld(1) unat_u32_less [of "vh_max_block_payload (volume s)"] by (simp add: builder_ok_def)
  show st: "unat (bh_stored_size ?b) = length payload" and raw: "unat (bh_raw_size ?b) = length (builder s)"
    using lt payload(2) by (simp_all add: new_block_header_def unat_of_nat)
  have f: "unat (128 + of_nat (length payload) :: u64) = 128 + length payload"
    using lt payload(2) by (simp add: unat_word_ariths unat_of_nat)
  then have small: "128 + length payload < 2 ^ 32" using span(2) by (simp add: word_less_nat_alt)
  have sp: "unat (ucast span :: u32) = unat span"
    using span(3) by (simp add: unsigned_ucast_eq take_bit_nat_eq_self_iff word_less_nat_alt)
  have "128 + length payload \<le> unat span" using align_up_ok(1) [OF span(1)] f by simp
  moreover have "unat (128 + bh_stored_size ?b) = 128 + length payload"
    using st small by (simp add: unat_word_ariths)
  ultimately have "128 + bh_stored_size ?b \<le> bh_frame_span ?b"
    using sp by (simp add: word_le_nat_alt new_block_header_def)
  moreover have "bh_stored_size ?b \<noteq> 0" "bh_raw_size ?b \<noteq> 0"
    using st raw payload(1) bld(2) by (metis length_0_conv unat_0)+
  ultimately show "block_header_wf ?b"
    using bld writer by (simp add: block_header_wf_def builder_ok_def new_block_header_def)
qed

section \<open>The configuration of a store is fixed\<close>

definition configured :: "'s impl \<Rightarrow> 's impl \<Rightarrow> bool" where
  "configured s0 s \<longleftrightarrow> open_options s = open_options s0 \<and> volume s = volume s0 \<and> writable s = writable s0 \<and>
     writer_id_high s = writer_id_high s0 \<and> writer_id_low s = writer_id_low s0"

lemma configured_refl [simp]: "configured s s"
  by (simp add: configured_def)

lemma keeps_configured_fail [keeps_intros]: "keeps (configured s0) (fail e)"
  by (auto simp: keeps_def configured_def fault_def)

lemma keeps_configured_media [keeps_intros]:
  "keeps (configured s0) (read_media env off n)" "keeps (configured s0) (write_media env off data)"
  unfolding keeps_def by (auto intro!: wp_rules simp: configured_def)

lemma keeps_configured_sync [keeps_intros]: "keeps (configured s0) (sync_media env adv)"
  by (auto simp: keeps_def wp_def sync_media_def fail_def note_sync_def note_sync_error_def note_durable_def Let_def
      configured_def split: prod.splits)

lemma keeps_configured_internal [keeps_intros]:
  "keeps (configured s0) (create_partition env slot generation options)" "keeps (configured s0) (seal_active_only env)"
  "keeps (configured s0) (rotate_internal env options)" "keeps (configured s0) (ensure_empty_builder_capacity env)"
  "keeps (configured s0) (emit_frame env p payload selected version)" "keeps (configured s0) (emit_builder env)"
proof -
  show create: "keeps (configured s0) (create_partition env slot generation options)" for slot generation options
    unfolding create_partition_def by (intro keeps_intros) (auto simp: configured_def install_partition_def Let_def)
  show seal: "keeps (configured s0) (seal_active_only env)"
    unfolding seal_active_only_def by (intro keeps_intros) (auto simp: configured_def update_active_def)
  show rot: "keeps (configured s0) (rotate_internal env options)" for options
    unfolding rotate_internal_def by (intro keeps_intros create seal) (auto simp: configured_def)
  show "keeps (configured s0) (ensure_empty_builder_capacity env)"
    unfolding ensure_empty_builder_capacity_def by (intro keeps_intros rot)
  show frame: "keeps (configured s0) (emit_frame env p payload selected version)" for p payload selected version
    unfolding emit_frame_def by (intro keeps_intros) (auto simp: configured_def note_published_def update_active_def Let_def)
  show "keeps (configured s0) (emit_builder env)"
    unfolding emit_builder_def by (intro keeps_intros frame)
qed

lemma keeps_configured_reads: "only_media m \<Longrightarrow> keeps (configured s0) m"
  by (auto simp: keeps_def configured_def intro: wp_only_media)

interpretation config: kept_by_operations env "configured s0" for env :: "'s env" and s0
proof
  have impl: "keeps (configured s0) (append_impl env item time flags expected)" for item time flags expected
    unfolding append_impl_def by (intro keeps_intros) (auto simp: configured_def accept_record_def Let_def)
  show "keeps (configured s0) (append env item time flags)" for item time flags by (simp add: append_def impl)
  show "keeps (configured s0) (append_checked env item time contract flags)" for item time contract flags
    by (simp add: append_checked_def impl keeps_basic)
  show "keeps (configured s0) (publish env)" unfolding publish_def by (intro keeps_intros)
  show "keeps (configured s0) (checkpoint env)" unfolding checkpoint_def by (intro keeps_intros)
  show "keeps (configured s0) (rotate_store env options)" for options
    unfolding rotate_store_def by (intro keeps_intros) (auto simp: configured_def)
  show "keeps (configured s0) (set_next_partition_options options)" for options
    unfolding set_next_partition_options_def by (intro keeps_intros) (auto simp: configured_def)
  show "keeps (configured s0) (close env)"
    unfolding close_def by (intro keeps_intros) (auto simp: mark_closed_def configured_def)
  show "keeps (configured s0) (store_metrics_of env)" "keeps (configured s0) (health env)"
    by (auto simp: keeps_def wp_def store_metrics_of_def health_def Let_def configured_def)
  show "keeps (configured s0) (read_partition_header env slot)" "keeps (configured s0) (read_block env part e)"
    "keeps (configured s0) (acquire_index env part)" for slot part e
    by (intro keeps_configured_reads only_media_intros)+
  show "configured s0 s \<Longrightarrow> configured s0 (count_gap kind s)" for s :: "'s impl" and kind
    by (simp add: count_gap_def configured_def)
qed

section \<open>Reading back\<close>

context ring_on_storage
begin

lemma run_good:
  assumes "store_run env s0 s" "store_inv s0" "\<not> faulted s0" "good (media s0)"
  shows "good (media s)"
proof -
  have "keeps_data s0 s0" using assms by (simp add: keeps_data_def kept_since_start)
  from kept_by_operations.run_keeps [OF kept_by_operations_keeps_data [OF assms(2,3)] assms(1) this]
  show ?thesis by (simp add: keeps_data_def)
qed

text \<open>The frame of a block that was emitted stays on the medium as long as its partition is in the catalog.\<close>

lemma emitted_frame_kept:
  assumes inv: "store_inv s" "\<not> faulted s" "good (media s)" "builder s \<noteq> []"
    and codec: "\<And>c. codec_for (open_options s) (po_compression (ph_options (ps_header (last (partitions s)))))
       (po_compression_version (ph_options (ps_header (last (partitions s))))) = Some c \<Longrightarrow> compression_codec c"
    and e: "emit_builder env s = Some (Inr (), s1)"
    and run: "store_run env s1 s2" "\<not> faulted s2" "ps_header (last (partitions s1)) \<in> set (headers s2)"
  obtains c d payload selected version span where
    "codec_for (open_options s) (po_compression (ph_options (ps_header (last (partitions s)))))
       (po_compression_version (ph_options (ps_header (last (partitions s))))) = Some c"
    "select_payload c (ph_options (ps_header (last (partitions s)))) (builder s) = Inr (payload, selected, version)"
    "align_up (128 + of_nat (length payload)) (vh_persistence_quantum (volume s)) = (span, False)"
    "\<not> 128 + of_nat (length payload) > (0xffffffff :: u64)" "\<not> span > 0xffffffff"
    "\<not> ps_data_end (last (partitions s)) > index_begin (volume s)"
    "\<not> span > index_begin (volume s) - ps_data_end (last (partitions s))"
    "codec_for (open_options s) selected version = Some d" "payload \<noteq> []"
    "decompress d (View payload) (length (builder s)) False = Inr (builder s)"
    "last (partitions s1) = push_entry (new_index_entry (last (partitions s))
       (new_block_header s (last (partitions s)) payload selected version span) (128 + of_nat (length payload)) span) span (last (partitions s))"
    "frame_in (image (media s2))
       (unat (partition_base (volume s) (ph_slot (ps_header (last (partitions s)))) + ps_data_end (last (partitions s))))
       (new_block_header s (last (partitions s)) payload selected version span) payload"
    "configured s s2" "good (media s2)"
proof -
  let ?p = "last (partitions s)" and ?v = "volume s"
  let ?base = "partition_base ?v (ph_slot (ps_header ?p))"
  obtain c payload selected version span m where
    c: "codec_for (open_options s) (po_compression (ph_options (ps_header ?p))) (po_compression_version (ph_options (ps_header ?p))) = Some c"
    and sel: "select_payload c (ph_options (ps_header ?p)) (builder s) = Inr (payload, selected, version)"
    and al: "align_up (128 + of_nat (length payload)) (vh_persistence_quantum ?v) = (span, False)"
    and small: "\<not> 128 + of_nat (length payload) > (0xffffffff :: u64)" "\<not> span > 0xffffffff"
    and fit: "\<not> ps_data_end ?p > index_begin ?v" "\<not> span > index_begin ?v - ps_data_end ?p"
    and s1: "s1 = note_published (new_index_entry ?p (new_block_header s ?p payload selected version span)
        (128 + of_nat (length payload)) span) span (128 + length payload) (s\<lparr>media := m\<rparr>)"
    and m: "good m" "image m = blit (image (media s)) (unat (?base + ps_data_end ?p))
        (encode_block_header (new_block_header s ?p payload selected version span) @ payload)"
      "unat (?base + ps_data_end ?p) + (128 + length payload) \<le> length (image (media s))"
    using emit_result [OF env_storage inv(1,3,4) e] by metis
  let ?b = "new_block_header s ?p payload selected version span"
  have cat: "catalog_ok s" "builder_ok s" "geometry_ok ?v" using inv(1) by (simp_all add: store_inv_def base_inv_def core_inv_def)
  have len: "length payload \<le> length (builder s)" by (rule select_payload_length [OF sel])
  have "length (builder s) \<le> vector_max"
    using cat(2) unat_u32_less [of "vh_max_block_payload ?v"] by (simp add: builder_ok_def vector_max_def)
  then obtain d where d: "codec_for (open_options s) selected version = Some d" "payload \<noteq> []"
    "decompress d (View payload) (length (builder s)) False = Inr (builder s)"
    using select_payload_decodes [OF sel c codec [OF c] inv(4)] by blast
  have p1: "last (partitions s1) = push_entry (new_index_entry ?p ?b (128 + of_nat (length payload)) span) span ?p"
    using note_published_partitions [of "s\<lparr>media := m\<rparr>"] cat(1) by (simp add: s1 catalog_ok_def is_active_def headers_def)
  have "wp (emit_builder env) (\<lambda>_ t. store_inv t \<and> \<not> faulted t) (\<lambda>_ _. True) s"
    by (rule wp_emit_builder [OF inv(1,2)]) auto
  from wpD(1) [OF this e] have inv1: "store_inv s1" "\<not> faulted s1" by simp_all
  have media1: "media s1 = m" by (simp add: s1)
  have frame1: "frame_in (image m) (unat (?base + ps_data_end ?p)) ?b payload" using m by (simp add: frame_in_def blit_simps)
  \<comment> \<open>The frame lies in the data of the partition, so no later operation touches it.\<close>
  have slot: "ph_slot (ps_header ?p) < vh_partition_count ?v" by (rule slot_lt [OF inv(1) last_header_in [OF inv(1)]])
  have off: "unat (?base + ps_data_end ?p) = unat ?base + unat (ps_data_end ?p)"
    using unat_in_partition [OF cat(3) slot] fit(1) geometry_okD(5) [OF cat(3)] by (simp add: word_less_nat_alt)
  have plen: "unat (128 + of_nat (length payload) :: u64) = 128 + length payload"
    using len cat(2) unat_u32_less [of "vh_max_block_payload ?v"] by (simp add: builder_ok_def unat_word_ariths unat_of_nat)
  have ends: "unat (ps_data_end ?p + span) = unat (ps_data_end ?p) + unat span"
    using fit unat_u64_less [of "index_begin ?v"] by (simp add: not_less word_le_nat_alt unat_word_ariths unat_sub)
  have region: "i \<in> protected s1 (last (partitions s1))"
    if "unat (?base + ps_data_end ?p) \<le> i" "i < unat (?base + ps_data_end ?p) + 128 + length payload" for i
    using that align_up_ok(1) [OF al] plen
    by (auto simp: protected_def data_region_def slot_base_def s1 p1 [unfolded s1] ends off)
  have good1: "good (media s1)" using m(1) media1 by simp
  have kept: "kept_since image s1 s2" by (rule run_keeps_data [OF run(1) inv1 good1 run(2)])
  have "last (partitions s1) \<in> set (partitions s1)" using store_inv_nonempty [OF inv1(1)] by simp
  then have same: "image (media s2) ! i = image m ! i"
    if "i \<in> protected s1 (last (partitions s1))" "i < length (image m)" for i
    using kept run(3) that by (simp add: kept_since_def media1)
  have len2: "length (image (media s2)) = length (image m)" using kept by (simp add: kept_since_def media1)
  have "frame_in (image (media s2)) (unat (?base + ps_data_end ?p)) ?b payload"
    using m(2,3) by (intro frame_in_agree [OF frame1 len2] allI impI same region) auto
  moreover have "configured s s2"
    by (rule config.run_keeps [OF run(1) keepsD [OF keeps_configured_internal(6) configured_refl e]])
  ultimately show ?thesis using that c sel al small fit d p1 run_good [OF run(1) inv1 good1] by blast
qed

lemma emitted_reads_back:
  assumes inv: "store_inv s" "\<not> faulted s" "good (media s)" "builder s \<noteq> []" "writer_id_high s \<noteq> 0 \<or> writer_id_low s \<noteq> 0"
    and codec: "\<And>c. codec_for (open_options s) (po_compression (ph_options (ps_header (last (partitions s)))))
       (po_compression_version (ph_options (ps_header (last (partitions s))))) = Some c \<Longrightarrow> compression_codec c"
    and e: "emit_builder env s = Some (Inr (), s1)"
    and run: "store_run env s1 s2" "\<not> faulted s2" "ps_header (last (partitions s1)) \<in> set (headers s2)"
    and r: "read_block env (last (partitions s1)) (last (ps_active_index (last (partitions s1)))) s2 = Some (Inr (meta, data), s3)"
  shows "data = builder s \<and> bm_record_count meta = builder_records s \<and> bm_min_time_ns meta = builder_min_time s \<and>
    bm_max_time_ns meta = builder_max_time s \<and> bm_flags meta = builder_flags s"
proof -
  let ?p = "last (partitions s)" and ?v = "volume s"
  let ?off = "partition_base ?v (ph_slot (ps_header ?p)) + ps_data_end ?p"
  obtain c d payload selected version span where
    sel: "select_payload c (ph_options (ps_header ?p)) (builder s) = Inr (payload, selected, version)"
    and al: "align_up (128 + of_nat (length payload)) (vh_persistence_quantum ?v) = (span, False)"
    and small: "\<not> 128 + of_nat (length payload) > (0xffffffff :: u64)" "\<not> span > 0xffffffff"
    and d: "codec_for (open_options s) selected version = Some d" "payload \<noteq> []"
      "decompress d (View payload) (length (builder s)) False = Inr (builder s)"
    and p1: "last (partitions s1) = push_entry (new_index_entry ?p (new_block_header s ?p payload selected version span)
      (128 + of_nat (length payload)) span) span ?p"
    and frame: "frame_in (image (media s2)) (unat ?off) (new_block_header s ?p payload selected version span) payload"
    and cfg: "configured s s2" and good: "good (media s2)"
    using emitted_frame_kept [OF inv(1-4) codec e run] by metis
  let ?b = "new_block_header s ?p payload selected version span"
  have "builder_ok s" using inv(1) by (simp add: store_inv_def base_inv_def core_inv_def)
  note wf = new_block_header_wf [OF this inv(4,5) d(2) select_payload_length [OF sel] al small]
  have v2: "volume s2 = ?v" "open_options s2 = open_options s" using cfg by (simp_all add: configured_def)
  have entry: "ie_offset (last (ps_active_index (last (partitions s1)))) = ps_data_end ?p"
    "ph_slot (ps_header (last (partitions s1))) = ph_slot (ps_header ?p)"
    by (simp_all add: p1 new_index_entry_def)
  have "unat ?off + 128 < 2 ^ 64" using frame image_less [OF good] by (simp add: frame_in_def)
  then have off128: "unat (?off + 128) = unat ?off + 128" by (simp add: unat_word_ariths)
  obtain block d' where rb: "decode_block_header (sub_bytes (image (media s2)) (unat ?off) 128) False = Inr block"
    "codec_for (open_options s) (bh_compression block) (bh_compression_version block) = Some d'"
    "decompress d' (View (sub_bytes (image (media s2)) (unat (?off + 128)) (unat (bh_stored_size block)))) (unat (bh_raw_size block)) False = Inr data"
    "meta = block_metadata_of ?v (last (partitions s1)) (last (ps_active_index (last (partitions s1)))) block"
    using read_block_result [OF env_storage good r] by (auto simp: v2 entry)
  have block: "block = ?b" using rb(1) frame_inD(1) [OF frame] decode_encode_block_header [OF wf(1)] by simp
  have "bh_compression ?b = selected" "bh_compression_version ?b = version" by (simp_all add: new_block_header_def)
  then have "data = builder s"
    using rb(2,3) d(1,3) frame_inD(2) [OF frame] wf by (simp add: block off128)
  then show ?thesis using rb(4) by (simp add: block block_metadata_of_def new_block_header_def)
qed

end

end
