(* ===== verification/Ring_Liveness.thy ===== *)
theory Ring_Liveness
  imports Ring_Readback
begin

text \<open>
  On a backend that does not fail, the operations of a writer succeed: every guard of the source that
  could refuse a valid record is excluded by the invariant, so a valid record is always accepted and
  everything accepted can be published and made durable.
\<close>

section \<open>Operations that deliver a value\<close>

definition runs :: "('x, 'a) op \<Rightarrow> 'x \<Rightarrow> ('a \<Rightarrow> 'x \<Rightarrow> bool) \<Rightarrow> bool" where
  "runs m s Q \<longleftrightarrow> (\<exists>a s'. m s = Some (Inr a, s') \<and> Q a s')"

lemma runs_return [simp]: "runs (return_op a) s Q = Q a s"
  by (simp add: runs_def)

lemma runs_get [simp]: "runs get_op s Q = Q s s"
  by (simp add: runs_def)

lemma runs_modify [simp]: "runs (modify_op f) s Q = Q () (f s)"
  by (simp add: runs_def)

lemma runs_bind [simp]: "runs (bind_op m f) s Q = runs m s (\<lambda>a s'. runs (f a) s' Q)"
  by (auto simp: runs_def bind_op_Inr)

lemma runs_status [simp]: "runs (status_op r) s Q = (status_ok r \<and> Q () s)"
  by (simp add: runs_def status_op_def)

lemma runs_if [simp]: "runs (if b then m else n) s Q = (if b then runs m s Q else runs n s Q)"
  by simp

lemma runs_catch: "runs m s Q \<Longrightarrow> runs (catch_op m h) s Q"
  by (auto simp: runs_def catch_op_def)

lemma runs_mono: "runs m s Q \<Longrightarrow> (\<And>a s'. Q a s' \<Longrightarrow> R a s') \<Longrightarrow> runs m s R"
  by (auto simp: runs_def)

text \<open>What holds of every outcome holds of the value.\<close>

lemma runs_wp: "runs m s Q \<Longrightarrow> wp m P E s \<Longrightarrow> runs m s (\<lambda>a s'. Q a s' \<and> P a s')"
  by (auto simp: runs_def wp_def)

lemma runs_check_writer [simp]: "runs check_writer s Q \<longleftrightarrow> writable s \<and> \<not> closed s \<and> \<not> faulted s \<and> Q () s"
  by (auto simp: runs_def check_writer_def)

section \<open>Media access\<close>

definition frames_fit :: "volume_header \<Rightarrow> bool" where
  "frames_fit v \<longleftrightarrow> fst (align_up (128 + ucast (vh_max_block_payload v)) (vh_persistence_quantum v)) \<le> 0xffffffff"

definition within_index :: "'s impl \<Rightarrow> bool" where
  "within_index s \<longleftrightarrow>
     length (ps_active_index (last (partitions s))) \<le> unat (vh_index_region_size (volume s) div 48)"

definition codecs_ok :: "open_options \<Rightarrow> bool" where
  "codecs_ok oo \<longleftrightarrow> (\<forall>c \<in> set (oo_compression_codecs oo). case c of None \<Rightarrow> True | Some d \<Rightarrow> compression_codec d)"

lemma candidate_codec_in: "candidate_codec cs cid version = Some c \<Longrightarrow> Some c \<in> set cs"
  by (induction cs cid version rule: candidate_codec.induct) (auto split: if_splits)

lemma codec_for_ok: "codecs_ok oo \<Longrightarrow> codec_for oo cid version = Some c \<Longrightarrow> compression_codec c"
  by (auto simp: codec_for_def codecs_ok_def built_in_codec_contract split: option.splits if_splits
      dest!: candidate_codec_in bspec)

lemma select_payload_succeeds:
  assumes "compression_codec c" "raw \<noteq> []" "length raw \<le> vector_max"
  obtains payload selected version where "select_payload c options raw = Inr (payload, selected, version)"
proof -
  obtain ys where "compress c (View raw) False = Inr ys" "ys \<noteq> []" "length ys \<le> max_compressed_size c (length raw)"
    using compression_codec.compress_usable [OF assms] by blast
  then have "\<exists>r. select_payload c options raw = Inr r" by (simp add: select_payload_def)
  then show ?thesis using that by auto
qed

lemma frame_span_fits:
  assumes "frames_fit v" "room v p" "n \<le> unat (vh_max_block_payload v)"
  obtains span where "align_up (128 + of_nat n) (vh_persistence_quantum v) = (span, False)"
    "span \<le> index_begin v - ps_data_end p" "ps_data_end p \<le> index_begin v" "span \<le> 0xffffffff"
    "(128 + of_nat n :: u64) \<le> 0xffffffff" "128 + n \<le> unat span"
proof -
  obtain span where s: "align_up (128 + of_nat n) (vh_persistence_quantum v) = (span, False)"
    "span \<le> index_begin v - ps_data_end p" "ps_data_end p \<le> index_begin v" "unat (128 + of_nat n :: u64) = 128 + n"
    using room_frame [OF assms(2,3)] by metis
  obtain w where w: "align_up (128 + ucast (vh_max_block_payload v)) (vh_persistence_quantum v) = (w, False)"
    using assms(2) by (auto simp: room_def)
  have "unat (128 + ucast (vh_max_block_payload v) :: u64) = 128 + unat (vh_max_block_payload v)"
    using unat_u32_less [of "vh_max_block_payload v"] by (simp add: unat_word_ariths)
  then have "(128 + of_nat n :: u64) \<le> 128 + ucast (vh_max_block_payload v)"
    using s(4) assms(3) by (simp add: word_le_nat_alt)
  then obtain u where "align_up (128 + of_nat n) (vh_persistence_quantum v) = (u, False)" "u \<le> w"
    by (rule align_up_mono [OF w])
  then have le: "span \<le> 0xffffffff" using s(1) assms(1) w by (auto simp: frames_fit_def)
  have "128 + n \<le> unat span" using align_up_ok(1) [OF s(1)] s(4) by simp
  moreover from this have "(128 + of_nat n :: u64) \<le> 0xffffffff" using le s(4) by (simp add: word_le_nat_alt)
  ultimately show ?thesis using that s le by blast
qed

context reliable_storage
begin

definition ready_media :: "'a impl \<Rightarrow> bool" where
  "ready_media s \<longleftrightarrow> reliable (media s) \<and> unat (vh_volume_size (volume s)) \<le> length (image (media s))"

lemma runs_write:
  assumes "env_storage env = st" "ready_media s" "unat off + length data \<le> unat (vh_volume_size (volume s))"
    and "\<And>m. ready_media (s\<lparr>media := m\<rparr>) \<Longrightarrow> Q () (s\<lparr>media := m\<rparr>)"
  shows "runs (write_media env off data) s Q"
proof -
  have "unat off + length data \<le> length (image (media s))" using assms(2,3) by (simp add: ready_media_def)
  then obtain m where m: "write_media env off data s = Some (Inr (), s\<lparr>media := m\<rparr>)" "reliable m"
    "image m = blit (image (media s)) (unat off) data"
    using write_media_reliable [OF assms(1)] assms(2) by (metis ready_media_def)
  then have "ready_media (s\<lparr>media := m\<rparr>)" using assms(2) by (simp add: ready_media_def)
  then show ?thesis using m(1) assms(4) by (simp add: runs_def)
qed

lemma runs_sync:
  assumes "env_storage env = st" "ready_media s"
  shows "runs (sync_media env adv) s (\<lambda>_ s'. ready_media s' \<and> same_catalog s s')"
proof -
  obtain fs m where f: "flush st (media s) = (fs, m)" "status_ok fs" "reliable m" "image m = image (media s)"
    using flush_reliable assms(2) by (metis ready_media_def)
  then show ?thesis using assms
    by (auto simp: runs_def sync_media_def Let_def ready_media_def note_sync_def note_durable_def same_catalog_def)
qed

lemma runs_create:
  assumes env: "env_storage env = st" and ready: "ready_media s" and g: "generation \<noteq> 0"
    and opts: "options_ok s options" and geo: "geometry_ok (volume s)" "slot < vh_partition_count (volume s)"
  shows "runs (create_partition env slot generation options) s (\<lambda>_. ready_media)"
proof -
  let ?data = "encode_partition_header (new_partition_header (volume s) slot generation options)
    (vh_partition_size (volume s)) (vh_index_region_size (volume s))"
  have fit: "unat (partition_base (volume s) slot) + length ?data \<le> unat (vh_volume_size (volume s))"
    using partition_extent [OF geo] partition_size_ge [OF geo(1)] by simp
  have rest: "runs (sync_media env False) s' (\<lambda>_ s'. ready_media (install_partition k c s'))" if "ready_media s'" for s' k c
    by (rule runs_mono [OF runs_sync [OF env that]]) (auto simp: ready_media_def install_partition_def Let_def)
  show ?thesis
    using g opts by (auto simp: create_partition_def Let_def options_ok_def intro!: runs_catch runs_write [OF env ready fit] rest)
qed

lemma in_volume:
  assumes "geometry_ok v" "slot < vh_partition_count v" "unat off + n \<le> unat (vh_partition_size v)"
  shows "unat (partition_base v slot + off) + n \<le> unat (vh_volume_size v)"
  using partition_extent [OF assms(1,2)] unat_in_partition [OF assms(1,2)] assms(3) by simp

lemma runs_seal:
  assumes env: "env_storage env = st" and ready: "ready_media s" and inv: "base_inv s" "\<not> ps_sealed (last (partitions s))"
    and idx: "within_index s"
  shows "runs (seal_active_only env) s (\<lambda>_. ready_media)"
proof -
  let ?p = "last (partitions s)" and ?v = "volume s"
  have act: "active s = Some ?p" using inv by (simp add: base_inv_def catalog_active)
  have geo: "geometry_ok ?v" "ph_slot (ps_header ?p) < vh_partition_count ?v"
    using inv by (auto simp: base_inv_def core_inv_def catalog_ok_def catalog_sorted_def headers_def)
  note g = geometry_okD [OF geo(1)]
  have len: "length (ps_active_index ?p) * 48 \<le> unat (vh_index_region_size ?v)"
    using idx by (simp add: within_index_def unat_div less_eq_div_iff_mult_less_eq)
  have w1: "unat (partition_base ?v (ph_slot (ps_header ?p)) + index_begin ?v) + length (encode_index (ps_active_index ?p))
      \<le> unat (vh_volume_size ?v)"
    using g(5) len by (intro in_volume [OF geo]) simp
  have fo: "unat (footer_offset ?v) + 4096 = unat (vh_partition_size ?v)"
    using g(5) by (simp add: footer_offset_def unat_sub word_le_nat_alt)
  have w2: "unat (partition_base ?v (ph_slot (ps_header ?p)) + footer_offset ?v) + length (encode_partition_footer f)
      \<le> unat (vh_volume_size ?v)" for f
    using fo by (intro in_volume [OF geo]) simp
  have last: "runs (sync_media env False) t (\<lambda>_ s'. ready_media (update_active h s'))" if "ready_media t" for t h
    by (rule runs_mono [OF runs_sync [OF env that]]) (auto simp: ready_media_def)
  have rest: "runs (bind_op (if encode_index (ps_active_index ?p) \<noteq> []
         then catch_op (write_media env (partition_base ?v (ph_slot (ps_header ?p)) + index_begin ?v) (encode_index (ps_active_index ?p))) fail
         else return_op ()) (\<lambda>_.
       bind_op (catch_op (write_media env (partition_base ?v (ph_slot (ps_header ?p)) + footer_offset ?v) (encode_partition_footer f)) fail) (\<lambda>_.
       bind_op (sync_media env False) (\<lambda>_. modify_op (update_active h))))) t (\<lambda>_. ready_media)"
    if "ready_media t" "volume t = ?v" for t f h
    using that w1 w2 [of f] by (auto intro!: runs_catch runs_write [OF env] last)
  have first: "runs (if dirty s then sync_media env True else return_op ()) s (\<lambda>_ t. ready_media t \<and> volume t = ?v)"
    using ready by (auto intro!: runs_mono [OF runs_sync [OF env]] simp: same_catalog_def)
  have short: "\<not> length (encode_index (ps_active_index ?p)) > unat (vh_index_region_size ?v)" using len by simp
  show ?thesis
    unfolding seal_active_only_def runs_bind [of get_op] runs_get act option.case if_not_P [OF inv(2)] runs_bind [of "if dirty s then _ else _"]
    by (rule runs_mono [OF first], simp only: Let_def short if_False) (blast intro: rest)
qed

text \<open>A writer on such a backend that has not failed.\<close>

definition live :: "'a impl \<Rightarrow> bool" where
  "live s \<longleftrightarrow> ready_media s \<and> store_inv s \<and> \<not> faulted s \<and> within_index s \<and> codecs_ok (open_options s) \<and>
     frames_fit (volume s)"

lemma runs_rotate:
  assumes env: "env_storage env = st" and live: "live s" and b: "builder s = []" and opts: "options_ok s options"
    and g: "ph_generation (ps_header (last (partitions s))) \<noteq> - 1"
  shows "runs (rotate_internal env options) s (\<lambda>_ s'. live s' \<and> same_config s s' \<and> room (volume s') (last (partitions s')) \<and> \<not> dirty s')"
proof -
  let ?p = "last (partitions s)"
  have inv: "store_inv s" "\<not> faulted s" "base_inv s" "\<not> ps_sealed ?p" "ready_media s" "within_index s"
    using live by (simp_all add: live_def store_inv_def)
  have act: "active s = Some ?p" using inv by (simp add: base_inv_def catalog_active)
  have geo: "geometry_ok (volume s)" using inv by (simp add: base_inv_def core_inv_def)
  have slot: "(ph_slot (ps_header ?p) + 1) mod vh_partition_count (volume s) < vh_partition_count (volume s)"
    using next_slot_differs(2) [OF inv(1)] by (simp add: next_slot_def)
  have gen: "ph_generation (ps_header ?p) + 1 \<noteq> 0" using g eq_neg_iff_add_eq_0 by blast
  have "wp (seal_active_only env) (\<lambda>_ t. same_but_seal s t) (\<lambda>_ _. True) s"
    using inv by (intro wp_seal_active_only) auto
  then have seal: "runs (seal_active_only env) s (\<lambda>_ t. ready_media t \<and> same_but_seal s t)"
    by (rule runs_wp [OF runs_seal [OF env inv(5,3,4,6)]])
  have step: "runs (rotate_internal env options) s (\<lambda>_. ready_media)"
    unfolding rotate_internal_def runs_bind [of get_op] runs_get act option.case if_not_P [OF g] runs_bind [of "seal_active_only env"]
  proof (rule runs_mono [OF seal], elim conjE)
    fix t assume t: "ready_media t" "same_but_seal s t"
    have same: "volume t = volume s" "open_options t = open_options s" using t(2) by (simp_all add: same_but_seal_def)
    have create: "runs (create_partition env ((ph_slot (ps_header ?p) + 1) mod vh_partition_count (volume s))
        (ph_generation (ps_header ?p) + 1) options) t (\<lambda>_. ready_media)"
      using geo slot opts by (intro runs_create [OF env t(1) gen]) (simp_all add: same options_ok_def)
    show "runs (let next_slot = (ph_slot (ps_header ?p) + 1) mod vh_partition_count (volume s);
              next_generation = ph_generation (ps_header ?p) + 1
          in bind_op (create_partition env next_slot next_generation options) (\<lambda>_.
              modify_op (\<lambda>s. s\<lparr>metrics := (metrics s)\<lparr>sm_rotations := sm_rotations (metrics s) + 1\<rparr>\<rparr>))) t (\<lambda>_. ready_media)"
      unfolding Let_def runs_bind runs_modify by (rule runs_mono [OF create]) (simp add: ready_media_def)
  qed
  have "wp (rotate_internal env options) (\<lambda>_ s'. store_inv s' \<and> \<not> faulted s' \<and> same_config s s' \<and>
      room (volume s') (last (partitions s')) \<and> \<not> dirty s') (\<lambda>_ _. True) s"
    by (rule wp_rotate_internal [OF inv(1,2) b opts]) auto
  from runs_wp [OF step this] show ?thesis
    by (rule runs_mono) (use live in \<open>auto simp: live_def within_index_def room_def same_config_def\<close>)
qed

lemma runs_ensure:
  assumes env: "env_storage env = st" and live: "live s"
    and g: "ph_generation (ps_header (last (partitions s))) \<noteq> - 1"
  shows "runs (ensure_empty_builder_capacity env) s (\<lambda>_ s'. live s' \<and> same_config s s' \<and> room (volume s') (last (partitions s')))"
proof (cases "builder s = []")
  case False
  then show ?thesis using live by (simp add: ensure_empty_builder_capacity_def live_def store_inv_def)
next
  case True
  have inv: "store_inv s" "base_inv s" "geometry_ok (volume s)" "options_ok s (next_options s)"
    using live by (simp_all add: live_def store_inv_def base_inv_def core_inv_def)
  have act: "active s = Some (last (partitions s))" using inv by (simp add: base_inv_def catalog_active)
  obtain span where span: "align_up (128 + ucast (vh_max_block_payload (volume s))) (vh_persistence_quantum (volume s)) = (span, False)"
    "span \<le> index_begin (volume s) - 4096" using geometry_okD(7) [OF inv(3)] by blast
  show ?thesis
    using True span runs_rotate [OF env live True inv(4) g] live
    by (auto simp: ensure_empty_builder_capacity_def act Let_def room_def live_def not_less elim!: runs_mono)
qed

lemma runs_emit_frame:
  assumes env: "env_storage env = st" and live: "live s" and b: "builder s \<noteq> []" and len: "length payload \<le> length (builder s)"
  shows "runs (emit_frame env (last (partitions s)) payload selected version) s (\<lambda>_ s'. ready_media s' \<and> within_index s')"
proof -
  let ?p = "last (partitions s)" and ?v = "volume s"
  have inv: "store_inv s" "\<not> faulted s" "base_inv s" "ready_media s" "frames_fit ?v"
    using live by (simp_all add: live_def store_inv_def)
  have room: "room ?v ?p" using inv b by (simp add: store_inv_def)
  have c: "catalog_ok s" "geometry_ok ?v" "builder_ok s" using inv(3) by (simp_all add: base_inv_def core_inv_def)
  have slot: "ph_slot (ps_header ?p) < vh_partition_count ?v" by (rule slot_lt [OF inv(1) last_header_in [OF inv(1)]])
  have n: "length payload \<le> unat (vh_max_block_payload ?v)" using c(3) len by (simp add: builder_ok_def)
  obtain span where span: "align_up (128 + of_nat (length payload)) (vh_persistence_quantum ?v) = (span, False)"
    "span \<le> index_begin ?v - ps_data_end ?p" "ps_data_end ?p \<le> index_begin ?v" "span \<le> 0xffffffff"
    "(128 + of_nat (length payload) :: u64) \<le> 0xffffffff" "128 + length payload \<le> unat span"
    using frame_span_fits [OF inv(5) room n] by metis
  have "unat (ps_data_end ?p) + unat span \<le> unat (index_begin ?v)"
    using span(2,3) by (simp add: word_le_nat_alt unat_sub)
  then have fit: "unat (partition_base ?v (ph_slot (ps_header ?p)) + ps_data_end ?p) + (128 + length payload) \<le> unat (vh_volume_size ?v)"
    using geometry_okD(5) [OF c(2)] span(6) by (intro in_volume [OF c(2) slot]) simp
  have fin: "ready_media (note_published e span k (s\<lparr>media := m\<rparr>)) \<and> within_index (note_published e span k (s\<lparr>media := m\<rparr>))"
    if "ready_media (s\<lparr>media := m\<rparr>)" for e k m
    using that room note_published_partitions [of "s\<lparr>media := m\<rparr>"] c(1)
    by (simp add: ready_media_def within_index_def room_def catalog_ok_def is_active_def headers_def)
  show ?thesis
    using span room fit
    by (auto simp: emit_frame_def Let_def not_less room_def intro!: runs_catch runs_write [OF env inv(4)] fin)
qed

lemma runs_emit:
  assumes env: "env_storage env = st" and live: "live s"
  shows "runs (emit_builder env) s (\<lambda>_ s'. live s' \<and> after_emit s s')"
proof (cases "builder s = []")
  case True
  then show ?thesis using live by (simp add: emit_builder_def after_emit_def)
next
  case False
  let ?p = "last (partitions s)" and ?o = "ph_options (ps_header (last (partitions s)))"
  have inv: "store_inv s" "\<not> faulted s" "base_inv s" "codecs_ok (open_options s)"
    using live by (simp_all add: live_def store_inv_def)
  have act: "active s = Some ?p" using inv by (simp add: base_inv_def catalog_active)
  obtain c where c: "codec_for (open_options s) (po_compression ?o) (po_compression_version ?o) = Some c"
    using inv(3) by (auto simp: base_inv_def options_ok_def validate_partition_options_def Option.is_none_def split: if_splits)
  have "length (builder s) \<le> vector_max"
    using inv(3) unat_u32_less [of "vh_max_block_payload (volume s)"]
    by (simp add: base_inv_def core_inv_def builder_ok_def vector_max_def)
  then obtain payload selected version where sel: "select_payload c ?o (builder s) = Inr (payload, selected, version)"
    using select_payload_succeeds [OF codec_for_ok [OF inv(4) c] False] by metis
  have step: "runs (emit_builder env) s (\<lambda>_ s'. ready_media s' \<and> within_index s')"
    using runs_emit_frame [OF env live False select_payload_length [OF sel]] False
    by (simp add: emit_builder_def act c sel Let_def)
  have "wp (emit_builder env) (\<lambda>_ s'. store_inv s' \<and> \<not> faulted s' \<and> after_emit s s') (\<lambda>_ _. True) s"
    by (rule wp_emit_builder [OF inv(1,2)]) auto
  from runs_wp [OF step this] show ?thesis
    by (rule runs_mono) (use live in \<open>auto simp: live_def after_emit_def\<close>)
qed

text \<open>Synchronising keeps a writer live.\<close>

lemma live_same_catalog:
  "live s \<Longrightarrow> same_catalog s t \<Longrightarrow> ready_media t \<Longrightarrow> store_inv t \<Longrightarrow> \<not> faulted t \<Longrightarrow> live t"
  by (simp add: live_def same_catalog_def within_index_def)

lemma runs_sync_live:
  assumes env: "env_storage env = st" and live: "live s"
  shows "runs (sync_media env True) s (\<lambda>_ s'. live s' \<and> same_catalog s s' \<and> \<not> dirty s' \<and>
    sm_accepted_records (metrics s') = sm_accepted_records (metrics s))"
proof -
  have inv: "store_inv s" "\<not> faulted s" "mirror_ok s" "accounting_ok s" "ready_media s"
    using live by (simp_all add: live_def store_inv_def base_inv_def core_inv_def)
  have w: "wp (sync_media env True) (\<lambda>_ s'. (store_inv s' \<and> \<not> faulted s') \<and> sm_accepted_records (metrics s') = sm_accepted_records (metrics s) \<and> \<not> dirty s')
      (\<lambda>_ _. True \<and> True) s"
    by (rule wp_conj [THEN iffD2], rule conjI [OF wp_sync_store [OF inv(1,2)] wp_mono [OF wp_sync_media [OF inv(3,4,2)]]]) auto
  show ?thesis
    by (rule runs_mono [OF runs_wp [OF runs_sync [OF env inv(5)] w]]) (auto intro: live_same_catalog [OF live])
qed

section \<open>The public operations\<close>

lemma publish_succeeds:
  assumes env: "env_storage env = st" and live: "live s" and up: "writable s" "\<not> closed s"
  shows "runs (publish env) s (\<lambda>_ s'. live s' \<and> after_emit s s')"
  using runs_emit [OF env live] live up by (simp add: publish_def live_def)

lemma checkpoint_succeeds:
  assumes env: "env_storage env = st" and live: "live s" and up: "writable s" "\<not> closed s"
  shows "runs (checkpoint env) s (\<lambda>_ s'. live s' \<and> after_emit s s' \<and> \<not> dirty s')"
proof -
  have sync: "runs (bind_op get_op (\<lambda>s. if \<not> dirty s then return_op () else sync_media env True)) t
      (\<lambda>_ s'. live s' \<and> after_emit s s' \<and> \<not> dirty s')" if "live t" "after_emit s t" for t
  proof (cases "dirty t")
    case True
    then show ?thesis using that
      by (auto intro!: runs_mono [OF runs_sync_live [OF env that(1)]] simp: after_emit_def same_catalog_def keys_def) 
  qed (use that in simp)
  show ?thesis unfolding checkpoint_def runs_bind runs_check_writer
    using up live sync by (auto simp: live_def intro!: runs_mono [OF runs_emit [OF env live]])
qed

lemma rotate_succeeds:
  assumes env: "env_storage env = st" and live: "live s" and up: "writable s" "\<not> closed s" and opts: "options_ok s options"
    and g: "ph_generation (ps_header (last (partitions s))) \<noteq> - 1"
  shows "runs (rotate_store env options) s (\<lambda>_ s'. live s' \<and> builder s' = [])"
proof -
  have rot: "runs (rotate_internal env options) (t\<lparr>next_options := options\<rparr>) (\<lambda>_ s'. live s' \<and> builder s' = [])"
    if t: "live t" "after_emit s t" for t
  proof -
    have o: "options_ok t options" using opts t(2) by (simp add: options_ok_def after_emit_def)
    have l: "live (t\<lparr>next_options := options\<rparr>)"
      using t(1) store_inv_next_options [OF _ o] by (simp add: live_def ready_media_def within_index_def)
    have "ps_header (last (partitions t)) = ps_header (last (partitions s))"
      using t(2) keys_le_step(2) [of s t] store_inv_nonempty [of s] live by (simp add: after_emit_def live_def)
    then have "runs (rotate_internal env options) (t\<lparr>next_options := options\<rparr>) (\<lambda>_ s'. live s' \<and>
        same_config (t\<lparr>next_options := options\<rparr>) s' \<and> room (volume s') (last (partitions s')) \<and> \<not> dirty s')"
      using t(2) o g by (intro runs_rotate [OF env l]) (simp_all add: after_emit_def options_ok_def)
    then show ?thesis by (rule runs_mono) (use t(2) in \<open>simp add: same_config_def after_emit_def\<close>)
  qed
  show ?thesis
    using up live opts rot
    by (auto simp: rotate_store_def live_def options_ok_def intro!: runs_mono [OF runs_emit [OF env live]])
qed

lemma append_succeeds:
  assumes env: "env_storage env = st" and live: "live s" and up: "writable s" "\<not> closed s"
    and item: "view_valid item" "\<not> view_empty item" "view_size item \<le> unat (vh_max_block_payload (volume s))"
    and g: "ph_generation (ps_header (last (partitions s))) \<noteq> - 1"
  shows "runs (append env item time flags) s (\<lambda>_ s'. live s' \<and> \<not> closed s' \<and> builder s' =
    (if length (builder s) + view_size item \<le> unat (vh_max_block_payload (volume s)) then builder s else []) @ view_bytes item)"
proof -
  define pending where "pending = (if length (builder s) + view_size item \<le> unat (vh_max_block_payload (volume s)) then builder s else [])"
  define store_item where "store_item = bind_op get_op (\<lambda>s. case active s of
         None \<Rightarrow> error_op (Error Internal_error ''missing active partition'')
       | Some state \<Rightarrow>
           let options = ph_options (ps_header state) in
           if \<not> contract_holds None options
           then error_op (Error Invalid_argument ''active partition contract changed before append'')
           else modify_op (accept_record env options (view_bytes item) time flags))"
  let ?Q = "\<lambda>(_ :: unit) s'. live s' \<and> \<not> closed s' \<and> builder s' = pending @ view_bytes item"
  have inv: "store_inv s" "\<not> faulted s" using live by (simp_all add: live_def)
  have bl: "length (builder s) \<le> unat (vh_max_block_payload (volume s))"
    using inv by (simp add: store_inv_def base_inv_def core_inv_def builder_ok_def)
  have size: "length (view_bytes item) = view_size item" "view_bytes item \<noteq> []"
    using item by (cases item; simp add: view_valid_def view_empty_def)+
  have room: "length pending + view_size item \<le> unat (vh_max_block_payload (volume s))" using item(3) by (simp add: pending_def)
  let ?first = "if (of_nat (view_size item) :: u64) > ucast (vh_max_block_payload (volume s)) - of_nat (length (builder s))
      then emit_builder env else return_op ()"
  have first: "runs ?first s (\<lambda>_ t. live t \<and> volume t = volume s \<and> \<not> closed t \<and>
      ps_header (last (partitions t)) = ps_header (last (partitions s)) \<and> builder t = pending)"
  proof (cases "unat (vh_max_block_payload (volume s)) < length (builder s) + view_size item")
    case True
    then show ?thesis
      using fits_builder [OF bl item(3)] keys_le_step(2) [of s] store_inv_nonempty [OF inv(1)] up
      by (auto simp: after_emit_def pending_def intro!: runs_mono [OF runs_emit [OF env live]])
  next
    case False
    then show ?thesis using fits_builder [OF bl item(3)] live up by (simp add: pending_def)
  qed
  have acc: "runs store_item t ?Q"
    if t: "live t" "room (volume t) (last (partitions t))" "volume t = volume s" "\<not> closed t" "builder t = pending" for t
  proof -
    have act: "active t = Some (last (partitions t))" using t(1) by (simp add: live_def store_inv_def base_inv_def catalog_active)
    have "store_inv (accept_record env options (view_bytes item) time flags t)" for options
      using t size room by (intro store_inv_accept) (auto simp: live_def)
    then show ?thesis using t by (simp add: store_item_def act contract_holds_def live_def ready_media_def within_index_def)
  qed
  have second: "runs (bind_op (ensure_empty_builder_capacity env) (\<lambda>_. store_item)) t ?Q"
    if t: "live t" "volume t = volume s" "\<not> closed t" "ps_header (last (partitions t)) = ps_header (last (partitions s))"
      "builder t = pending" for t
  proof -
    have g': "ph_generation (ps_header (last (partitions t))) \<noteq> - 1" using g t(4) by simp
    show ?thesis unfolding runs_bind [of "ensure_empty_builder_capacity env"]
      by (rule runs_mono [OF runs_ensure [OF env t(1) g']]) (rule acc, use t in \<open>auto simp: same_config_def\<close>)
  qed
  have "runs (bind_op ?first (\<lambda>_. bind_op (ensure_empty_builder_capacity env) (\<lambda>_. store_item))) s ?Q"
    unfolding runs_bind [of ?first] by (rule runs_mono [OF first]) (use second in blast)
  then show ?thesis
    using up inv(2) item unfolding pending_def [symmetric] by (simp add: append_def append_impl_def store_item_def)
qed

end

section \<open>A new volume\<close>

lemma wp_sync_same: "wp (sync_media env adv) (\<lambda>_ s'. same_catalog s s') (\<lambda>_ _. True) s"
  by (auto simp: wp_def sync_media_def fail_def note_sync_def note_durable_def same_catalog_def Let_def split: prod.splits)

lemma wp_create_installs:
  "wp (create_partition env slot generation options)
    (\<lambda>_ s'. \<exists>t c. same_catalog s t \<and> s' = install_partition (new_partition_header (volume s) slot generation options) c t) (\<lambda>_ _. True) s"
  unfolding create_partition_def
  by (auto simp: Let_def intro!: wp_rules wp_mono [OF wp_sync_same]) (blast intro: exI)

context reliable_storage
begin

lemma opened_live:
  assumes rel: "reliable m" and chk: "status_ok (check_volume_options (storage_size st m) voptions)"
    and vid: "choose_volume_id getrandom voptions = Some (Inr (hi, lo))"
    and blank: "\<forall>i < length (image m). 8192 \<le> i \<longrightarrow> image m ! i = 0"
    and env: "env_storage env = st" and wr: "oo_writable options"
    and wid: "choose_writer_id getrandom' options = Some (Inr (whi, wlo))"
    and opts: "status_ok (validate_partition_options options (oo_next_partition options))"
    and codecs: "codecs_ok options" and frames: "frames_fit (new_volume_header (storage_size st m) voptions hi lo)"
  obtains fs m' s where "format st getrandom voptions m = Some (fs, m')" "status_ok fs" "reliable m'" "durable m' = image m'"
    "open_store env getrandom' options False m' = Some (Inr s, media s)" "live s" "writable s" "\<not> closed s"
    "partitions s = [new_partition_state (new_partition_header (volume s) 0 1 (oo_next_partition options))]"
    "volume s = new_volume_header (storage_size st m) voptions hi lo" "open_options s = options"
    "writer_id_high s = whi" "writer_id_low s = wlo" "builder s = []"
    "sub_bytes (image (media s)) 8192 1024 =
      encode_partition_header (new_partition_header (volume s) 0 1 (oo_next_partition options))
        (vo_partition_size voptions) (vo_index_region_size voptions)"
proof -
  let ?v = "new_volume_header (storage_size st m) voptions hi lo"
  obtain fs m' s m2 m3 where f: "format st getrandom voptions m = Some (fs, m')" "status_ok fs" "reliable m'" "durable m' = image m'"
    and o: "open_store env getrandom' options False m' = Some (Inr s, media s)" "reliable (media s)"
    and len: "length (image (media s)) = length (image m)"
    and hdr: "sub_bytes (image (media s)) 8192 1024 =
      encode_partition_header (new_partition_header ?v 0 1
        (oo_next_partition options)) (vo_partition_size voptions) (vo_index_region_size voptions)"
    and create: "create_partition env 0 1 (oo_next_partition options) (settle_catalog
      ((new_impl m2 ?v options whi wlo)\<lparr>media := m3\<rparr>)) = Some (Inr (), s)"
    using format_then_open [OF rel chk vid blank env wr wid opts] by metis
  have inv: "store_inv s" "\<not> faulted s" using open_store_inv [OF o(1) wr] by auto
  from wpD(1) [OF wp_create_installs create] obtain t c where t: "same_catalog (settle_catalog ((new_impl m2 ?v options whi wlo)\<lparr>media := m3\<rparr>)) t"
    "s = install_partition (new_partition_header ?v 0 1 (oo_next_partition options)) c t"
    by (auto simp: settle_catalog_def new_impl_def)
  have s: "partitions s = [new_partition_state (new_partition_header ?v 0 1 (oo_next_partition options))]"
    "volume s = ?v" "open_options s = options" "writable s" "\<not> closed s" "builder s = []"
    "writer_id_high s = whi" "writer_id_low s = wlo"
    using t wr by (simp_all add: same_catalog_def settle_catalog_def new_impl_def install_partition_def Let_def)
  have "unat (vh_volume_size ?v) \<le> length (image m)"
    using size_image [OF reliable_good [OF rel]] by (simp add: new_volume_header_def)
  then have "live s"
    using inv o(2) codecs frames len by (simp add: live_def ready_media_def s within_index_def new_partition_state_def)
  then show ?thesis using that f o(1) s hdr by simp
qed

end

end
