(* ===== verification/Ring_Termination.thy ===== *)
theory Ring_Termination
  imports Ring_Media
begin

text \<open>
  Every operation of a store returns on a backend that keeps the storage contract, whatever it
  answers: the exact transfers give up or make progress, and the scan's cursor moves.
\<close>

section \<open>Operations that return\<close>

definition returns :: "('x \<Rightarrow> bool) \<Rightarrow> ('x, 'a) op \<Rightarrow> bool" where
  "returns I m \<longleftrightarrow> (\<forall>x. I x \<longrightarrow> (\<exists>r x'. m x = Some (r, x') \<and> I x'))"

named_theorems returns_intros \<open>operations that return and keep an invariant\<close>

lemma returns_basic [returns_intros]:
  "returns I (return_op a)" "returns I (error_op e)" "returns I get_op" "returns I (status_op r)"
  by (simp_all add: returns_def status_op_def)

lemma returns_modify [returns_intros]: "(\<And>x. I x \<Longrightarrow> I (f x)) \<Longrightarrow> returns I (modify_op f)"
  by (simp add: returns_def)

lemma returns_bind [returns_intros]: "returns I m \<Longrightarrow> (\<And>a. returns I (f a)) \<Longrightarrow> returns I (bind_op m f)"
  unfolding returns_def bind_op_def by (fastforce split: sum.split)

lemma returns_try [returns_intros]: "returns I m \<Longrightarrow> returns I (try_op m)"
  unfolding returns_def try_op_def by fastforce

lemma returns_catch [returns_intros]: "returns I m \<Longrightarrow> (\<And>e. returns I (h e)) \<Longrightarrow> returns I (catch_op m h)"
  unfolding returns_def catch_op_def by (fastforce split: sum.split)

lemma returns_split [returns_intros]:
  "(b \<Longrightarrow> returns I m) \<Longrightarrow> (\<not> b \<Longrightarrow> returns I n) \<Longrightarrow> returns I (if b then m else n)"
  "(\<And>e. returns I (g e)) \<Longrightarrow> (\<And>a. returns I (h a)) \<Longrightarrow> returns I (case r of Inl e \<Rightarrow> g e | Inr a \<Rightarrow> h a)"
  "(\<And>a b. returns I (l a b)) \<Longrightarrow> returns I (case z of (a, b) \<Rightarrow> l a b)"
  "returns I n \<Longrightarrow> (\<And>a. returns I (k a)) \<Longrightarrow> returns I (case q of None \<Rightarrow> n | Some a \<Rightarrow> k a)"
  "returns I (f x) \<Longrightarrow> returns I (Let x f)"
  by (auto split: sum.split prod.split option.split)

lemma returns_on_store: "returns I m \<Longrightarrow> returns (\<lambda>(s, v). I s) (on_store m)"
  unfolding returns_def on_store_def by fastforce

lemma returns_visit: "visitor_keeps I visitor \<Longrightarrow> returns (\<lambda>(s, v). I s) (visit visitor event)"
  unfolding returns_def visit_def visitor_keeps_def by (auto split: prod.splits) (metis fst_conv snd_conv)

lemma returns_fail [returns_intros]: "(\<And>x. I x \<Longrightarrow> I (fault e x)) \<Longrightarrow> returns I (fail e)"
  by (simp add: returns_def fail_def fault_def)

lemma returnsD: "returns I m \<Longrightarrow> I s \<Longrightarrow> \<exists>r s'. m s = Some (r, s') \<and> I s'"
  by (simp add: returns_def)

section \<open>Store operations\<close>

context storage_contract
begin

definition on_good :: "'s impl \<Rightarrow> bool" where
  "on_good s \<longleftrightarrow> good (media s)"

lemma on_good_simps [simp]:
  "on_good (fault e s) = on_good s" "on_good (update_active f s) = on_good s"
  "on_good (install_partition k c s) = on_good s" "on_good (note_published entry span n s) = on_good s"
  "on_good (accept_record env options data time flags s) = on_good s"
  "on_good (s\<lparr>metrics := x\<rparr>) = on_good s" "on_good (s\<lparr>next_options := y\<rparr>) = on_good s"
  "on_good (s\<lparr>partitions := ps\<rparr>) = on_good s" "on_good (s\<lparr>corrupt_slots := cs\<rparr>) = on_good s"
  "on_good (mark_closed s) = on_good s" "on_good (count_gap kind s) = on_good s"
  "on_good (settle_catalog s) = on_good s"
  by (simp_all add: on_good_def fault_def mark_closed_def count_gap_def settle_catalog_def Let_def)

lemma returns_media [returns_intros]:
  assumes "env_storage env = st"
  shows "returns on_good (read_media env off n)" "returns on_good (write_media env off data)"
    "returns on_good (sync_media env adv)"
proof -
  show "returns on_good (read_media env off n)"
    unfolding returns_def on_good_def
  proof (intro allI impI)
    fix s :: "'s impl" assume "good (media s)"
    from read_exact_correct [OF this, of off "replicate n 0"]
    obtain r out m where "read_exact st off (View (replicate n 0)) (media s) = Some (r, out, m)" "good m" by metis
    then show "\<exists>r s'. read_media env off n s = Some (r, s') \<and> good (media s')"
      by (simp add: read_media_def assms)
  qed
  show "returns on_good (write_media env off data)"
    unfolding returns_def on_good_def
  proof (intro allI impI)
    fix s :: "'s impl" assume "good (media s)"
    from write_exact_correct [OF this, of off data]
    obtain r m where "write_exact st off (View data) (media s) = Some (r, m)" "good m" by metis
    then show "\<exists>r s'. write_media env off data s = Some (r, s') \<and> good (media s')"
      by (simp add: write_media_def assms)
  qed
  show "returns on_good (sync_media env adv)"
    unfolding returns_def on_good_def
  proof (intro allI impI)
    fix s :: "'s impl" assume g: "good (media s)"
    obtain fs m where f: "flush st (media s) = (fs, m)" by fastforce
    then have "good m" using flush_ok [OF g f] by simp
    then show "\<exists>r s'. sync_media env adv s = Some (r, s') \<and> good (media s')"
      by (simp add: sync_media_def assms f Let_def fail_def note_sync_def note_sync_error_def note_durable_def)
  qed
qed

lemma returns_check_writer [returns_intros]: "returns I check_writer"
  by (simp add: returns_def check_writer_def)

lemma returns_writer [returns_intros]:
  assumes env: "env_storage env = st"
  shows "returns on_good (create_partition env slot generation options)" "returns on_good (seal_active_only env)"
    "returns on_good (rotate_internal env options)" "returns on_good (ensure_empty_builder_capacity env)"
    "returns on_good (emit_frame env p payload selected version)" "returns on_good (emit_builder env)"
proof -
  note io = returns_media [OF env]
  show create: "returns on_good (create_partition env slot generation options)" for slot generation options
    unfolding create_partition_def by (intro returns_intros io) simp_all
  show seal: "returns on_good (seal_active_only env)"
    unfolding seal_active_only_def by (intro returns_intros io) simp_all
  show rot: "returns on_good (rotate_internal env options)" for options
    unfolding rotate_internal_def by (intro returns_intros create seal) simp_all
  show "returns on_good (ensure_empty_builder_capacity env)"
    unfolding ensure_empty_builder_capacity_def by (intro returns_intros rot) simp_all
  show frame: "returns on_good (emit_frame env p payload selected version)" for p payload selected version
    unfolding emit_frame_def by (intro returns_intros io) simp_all
  show "returns on_good (emit_builder env)"
    unfolding emit_builder_def by (intro returns_intros frame) simp_all
qed

lemma returns_public:
  assumes env: "env_storage env = st"
  shows "returns on_good (append env item time flags)" "returns on_good (append_checked env item time contract flags)"
    "returns on_good (publish env)" "returns on_good (checkpoint env)" "returns on_good (rotate_store env options)"
    "returns on_good (set_next_partition_options options)" "returns on_good (close env)"
    "returns on_good (store_metrics_of env)" "returns on_good (health env)"
proof -
  note ops = returns_writer [OF env] returns_media [OF env]
  have impl: "returns on_good (append_impl env item time flags expected)" for expected
    unfolding append_impl_def by (intro returns_intros ops) simp_all
  show "returns on_good (append env item time flags)" by (simp add: append_def impl)
  show "returns on_good (append_checked env item time contract flags)" by (simp add: append_checked_def impl returns_basic)
  show "returns on_good (publish env)" "returns on_good (checkpoint env)" "returns on_good (rotate_store env options)"
    "returns on_good (set_next_partition_options options)" "returns on_good (close env)"
    unfolding publish_def checkpoint_def rotate_store_def set_next_partition_options_def close_def
    by (intro returns_intros ops; simp)+
  show "returns on_good (store_metrics_of env)" "returns on_good (health env)"
    by (simp_all add: returns_def store_metrics_of_def health_def on_good_def Let_def)
qed

section \<open>Reads and queries\<close>

lemma returns_scan_loop:
  assumes "\<And>at. returns I (scan_block env header limit at)"
  shows "returns I (scan_loop env header limit at entries)"
proof -
  have "\<exists>r s'. scan_loop env header limit at entries s = Some (r, s') \<and> I s'" if "I s" for s
    using assms that
  proof (induction env header limit at entries s rule: scan_loop.induct)
    case (1 env header limit at entries s)
    obtain r t where b: "scan_block env header limit at s = Some (r, t)" "I t"
      using returnsD [OF 1(2,3)] by blast
    show ?case
      using 1(1) [OF _ b(1)] 1(2,3) b
      by (subst scan_loop.simps) (auto split: sum.split option.split)
  qed
  then show ?thesis by (simp add: returns_def)
qed

lemma returns_reads:
  assumes env: "env_storage env = st"
  shows "returns on_good (read_partition_header env slot)" "returns on_good (scan_partition env header scan_limit)"
    "returns on_good (load_index env part)" "returns on_good (read_footer env header)"
    "returns on_good (read_block env part entry)" "returns on_good (acquire_index env part)"
proof -
  note io = returns_media [OF env]
  show hdr: "returns on_good (read_partition_header env slot)" for slot
    unfolding read_partition_header_def by (intro returns_intros io)
  have block: "returns on_good (scan_block env header limit at)" for header limit at
    unfolding scan_block_def by (intro returns_intros io)
  show scan: "returns on_good (scan_partition env header scan_limit)" for header scan_limit
    unfolding scan_partition_def by (intro returns_intros returns_scan_loop block)
  show index: "returns on_good (load_index env part)" for part
    unfolding load_index_def by (intro returns_intros io)
  show "returns on_good (read_footer env header)"
    unfolding read_footer_def by (intro returns_intros io)
  have classify: "returns on_good (classify_snapshot_failure env part e)" for part e
    unfolding classify_snapshot_failure_def by (intro returns_intros hdr)
  have decode: "returns on_good (decode_block env part entry block stored)" for part entry block stored
    unfolding decode_block_def by (intro returns_intros classify)
  show "returns on_good (read_block env part entry)"
    unfolding read_block_def by (intro returns_intros hdr io classify decode)
  show "returns on_good (acquire_index env part)"
    unfolding acquire_index_def first_index_def by (intro returns_intros scan index)
qed

lemma returns_query:
  assumes env: "env_storage env = st" and visitor: "visitor_keeps on_good visitor"
  shows "returns (\<lambda>(s, v). on_good s) (query env all_blocks rng options (Some visitor))"
proof -
  note reads = returns_reads [OF env, THEN returns_on_store]
  have report: "returns (\<lambda>(s, v). on_good s) (report_gap options visitor event)" for event
    unfolding report_gap_def by (intro returns_intros returns_visit visitor) auto
  have corrupt: "returns (\<lambda>(s, v). on_good s) (report_corrupt_slots options visitor slots)" for slots
    by (induction slots) (simp_all only: report_corrupt_slots.simps returns_intros report)
  have entries: "returns (\<lambda>(s, v). on_good s) (query_entries env all_blocks rng options visitor part es)" for part es
  proof (induction es)
    case (Cons e es)
    then show ?case
      unfolding query_entries.simps by (intro returns_intros reads report returns_visit visitor) auto
  qed (simp only: query_entries.simps returns_intros)
  have part: "returns (\<lambda>(s, v). on_good s) (query_partition env all_blocks rng options visitor part)" for part
    unfolding query_partition_def by (intro returns_intros reads report entries)
  have parts: "returns (\<lambda>(s, v). on_good s) (query_partitions env all_blocks rng options visitor ps)" for ps
  proof (induction ps)
    case (Cons p ps)
    then show ?case unfolding query_partitions.simps by (intro returns_intros part) auto
  qed (simp only: query_partitions.simps returns_intros)
  show ?thesis unfolding query_def by (simp only: option.case) (intro returns_intros corrupt parts)
qed

section \<open>Recovery\<close>

lemma returns_recover:
  assumes env: "env_storage env = st"
  shows "returns on_good (recover_store env)"
proof -
  note io = returns_media [OF env] and reads = returns_reads [OF env]
  have damaged: "returns on_good (damaged_slot env slot e)" for slot e
    unfolding damaged_slot_def by (intro returns_intros io) simp_all
  have blocks: "returns on_good (verify_blocks env state es)" for state es
    by (induction es) (simp_all only: verify_blocks.simps returns_intros reads)
  have sealed: "returns on_good (verify_sealed env state)" for state
    unfolding verify_sealed_def by (intro returns_intros reads blocks)
  have part: "returns on_good (recover_partition env header)" for header
    unfolding recover_partition_def by (intro returns_intros reads sealed blocks)
  have slot: "returns on_good (recover_slot env slot g)" for slot g
    unfolding recover_slot_def by (intro returns_intros reads damaged part) simp_all
  have slots: "returns on_good (recover_slots env xs g)" for xs g
  proof (induction xs arbitrary: g)
    case (Cons x xs)
    then show ?case by (simp only: recover_slots.simps) (intro returns_intros slot)
  qed (simp only: recover_slots.simps returns_intros)
  have start: "returns on_good (start_writing env)"
    unfolding start_writing_def by (intro returns_intros) (simp_all add: env)
  show ?thesis unfolding recover_store_def by (intro returns_intros slots start) simp_all
qed

text \<open>Opening returns, unless the random source never delivers a usable identifier.\<close>

lemma open_returns:
  assumes env: "env_storage env = st" and good: "good m" and wid: "choose_writer_id getrandom options = Some w"
  shows "\<exists>r m'. open_store env getrandom options null m = Some (r, m') \<and> good m'"
proof -
  obtain r1 d1 m1 where m1: "read_exact st 0 (View (replicate 256 0)) m = Some (r1, d1, m1)" "good m1"
    using read_exact_correct [OF good, of 0 "replicate 256 0"] by metis
  obtain r2 d2 m2 where m2: "read_exact st 4096 (View (replicate 256 0)) m1 = Some (r2, d2, m2)" "good m2"
    using read_exact_correct [OF m1(2), of 4096 "replicate 256 0"] by metis
  have rec: "\<exists>r m'. (case recover_store env (new_impl m2 v options hi lo) of None \<Rightarrow> None
      | Some (Inl status, s) \<Rightarrow> Some (Inl status, media s) | Some (Inr u, s) \<Rightarrow> Some (Inr s, media s)) = Some (r, m') \<and> good m'" for v hi lo
    using returnsD [OF returns_recover [OF env], of "new_impl m2 v options hi lo"] m2(2)
    by (auto simp: on_good_def new_impl_def split: sum.split)
  show ?thesis
    using good m1(2) m2(2) wid
    by (auto simp: open_store_def env m1(1) m2(1) Let_def rec split: sum.split prod.split)
qed

end

section \<open>A good medium stays good\<close>

lemma returns_keeps: "returns I m \<Longrightarrow> keeps I m"
  unfolding returns_def keeps_def wp_def by (fastforce split: sum.split)

context storage_contract
begin

lemma good_kept:
  assumes "env_storage env = st"
  shows "kept_by_operations env on_good"
proof
  show "on_good s \<Longrightarrow> on_good (count_gap kind s)" for s kind by simp
qed (intro returns_keeps returns_public [OF assms] returns_reads [OF assms])+

end

end
