(* ===== verification/Ring_Device.thy ===== *)
theory Ring_Device
  imports Ring_Liveness Ring_Termination
begin

text \<open>
  A small volume on a new memory device, formatted and opened for writing. Its store shows that the
  hypotheses of the properties about stores can hold.
\<close>

abbreviation memory_env :: "(nat \<Rightarrow> u64) \<Rightarrow> memory_storage env" where
  "memory_env clock \<equiv> \<lparr>env_storage = memory_backend None, env_clock = clock\<rparr>"

interpretation good_memory: kept_by_operations "memory_env clock" mem.on_good for clock
  by (rule mem.good_kept) simp

lemma run_keeps_memory: "store_run (memory_env clock) s0 s \<Longrightarrow> mem_good (media s0) \<Longrightarrow> mem_good (media s)"
  using good_memory.run_keeps by (simp add: mem.on_good_def)

definition test_env :: "memory_storage env" where
  "test_env = memory_env (\<lambda>n. of_nat n)"

definition test_volume :: volume_header where
  "test_volume = new_volume_header 25600 test_volume_options 1 2"

definition test_store :: "memory_storage impl \<Rightarrow> bool" where
  "test_store s \<longleftrightarrow> mem_rel.live s \<and> writable s \<and> \<not> closed s \<and> volume s = test_volume \<and> open_options s = test_open_options \<and>
     writer_id_high s = 3"

lemma test_env_storage [simp]: "env_storage test_env = memory_backend None"
  by (simp add: test_env_def)

lemma test_volume_payload [simp]: "vh_max_block_payload test_volume = 100"
  by code_simp

lemma test_storeD:
  assumes "test_store s"
  shows "mem_rel.live s" "writable s" "\<not> closed s" "\<not> faulted s" "store_inv s" "mem_good (media s)"
    "status_ok (writer_status s)"
  using assms mem_rel.reliable_good
  by (auto simp: test_store_def mem_rel.live_def mem_rel.ready_media_def writer_status_def mem_reliable_def)

lemma test_codecs: "codecs_ok test_open_options"
  by (simp add: codecs_ok_def test_open_options_def)

lemma test_frames: "frames_fit test_volume"
  by code_simp

definition test_random :: getrandom where
  "test_random calls n = Random_bytes (replicate n 1)"

lemma test_device:
  obtains fs m' s where "format (memory_backend None) test_random test_volume_options (new_memory_storage 25600 True) = Some (fs, m')"
    "status_ok fs" "mem_durable m' = mem_volatile m'" "mem_good m'"
    "open_store test_env test_random test_open_options False m' = Some (Inr s, media s)" "test_store s"
    "partitions s = [new_partition_state (new_partition_header (volume s) 0 1 (oo_next_partition test_open_options))]"
    "builder s = []"
proof -
  let ?m = "new_memory_storage 25600 True"
  have m: "mem_reliable ?m" "storage_size (memory_backend None) ?m = 25600"
    "\<forall>i < length (mem_volatile ?m). 8192 \<le> i \<longrightarrow> mem_volatile ?m ! i = 0"
    by (simp_all add: mem_reliable_def mem_good_def new_memory_storage_def memory_backend_def mem_size_def)
  have frames: "frames_fit (new_volume_header (storage_size (memory_backend None) ?m) test_volume_options 1 2)"
    using test_frames by (simp add: m(2) test_volume_def)
  have chk: "status_ok (check_volume_options (storage_size (memory_backend None) ?m) test_volume_options)"
    using test_options_ok(1) by (simp add: m(2))
  have wr: "oo_writable test_open_options" by (simp add: test_open_options_def)
  show ?thesis
    by (rule mem_rel.opened_live [OF m(1) chk test_options_ok(2) m(3) test_env_storage wr test_options_ok(3,4) test_codecs frames,
        of test_random test_random], rule that)
      (simp_all add: m(2) test_store_def test_volume_def mem_reliable_def)
qed

lemma test_reachable:
  obtains s where "reachable test_env s" "test_store s" "builder s = []"
    "partitions s = [new_partition_state (new_partition_header test_volume 0 1 (oo_next_partition test_open_options))]"
proof (rule test_device)
  fix fs m' s
  assume "open_store test_env test_random test_open_options False m' = Some (Inr s, media s)" "test_store s" "builder s = []"
    "partitions s = [new_partition_state (new_partition_header (volume s) 0 1 (oo_next_partition test_open_options))]"
  moreover from this have "reachable test_env s"
    unfolding reachable_def using store_run.start by (fastforce simp: test_open_options_def)
  ultimately show ?thesis using that by (simp add: test_store_def)
qed

text \<open>Operations on it succeed and leave it so.\<close>

lemma test_store_configured: "configured s s' \<Longrightarrow> test_store s \<Longrightarrow> mem_rel.live s' \<Longrightarrow> \<not> closed s' \<Longrightarrow> test_store s'"
  by (simp add: configured_def test_store_def)

lemma test_after_emit: "configured s s' \<Longrightarrow> test_store s \<Longrightarrow> mem_rel.live s' \<Longrightarrow> after_emit s s' \<Longrightarrow> test_store s'"
  by (simp add: configured_def test_store_def after_emit_def)

lemma test_append:
  assumes s: "test_store s" and g: "ph_generation (ps_header (last (partitions s))) \<noteq> - 1"
    and item: "data \<noteq> []" "length data \<le> 100"
  obtains s' where "append test_env (View data) time flags s = Some (Inr (), s')" "test_store s'"
    "builder s' = (if length (builder s) + length data \<le> 100 then builder s else []) @ data"
proof -
  have "runs (append test_env (View data) time flags) s (\<lambda>_ s'. mem_rel.live s' \<and> \<not> closed s' \<and> builder s' =
      (if length (builder s) + view_size (View data) \<le> unat (vh_max_block_payload (volume s)) then builder s else [])
        @ view_bytes (View data))"
    using test_storeD [OF s] s item g by (intro mem_rel.append_succeeds) (simp_all add: test_store_def)
  then obtain s' where a: "append test_env (View data) time flags s = Some (Inr (), s')" and l: "mem_rel.live s'" "\<not> closed s'"
    and b: "builder s' = (if length (builder s) + length data \<le> 100 then builder s else []) @ data"
    using s by (auto simp: runs_def test_store_def)
  have "configured s s'" using keepsD [OF config.keeps_append _ a, of s] by simp
  then show ?thesis using that [OF a] b test_store_configured s l by blast
qed

lemma test_checkpoint:
  assumes s: "test_store s"
  obtains s' where "checkpoint test_env s = Some (Inr (), s')" "test_store s'" "after_emit s s'" "\<not> dirty s'"
proof -
  have "runs (checkpoint test_env) s (\<lambda>_ s'. mem_rel.live s' \<and> after_emit s s' \<and> \<not> dirty s')"
    using test_storeD [OF s] by (intro mem_rel.checkpoint_succeeds) simp_all
  then obtain s' where c: "checkpoint test_env s = Some (Inr (), s')" and l: "mem_rel.live s'" "after_emit s s'" "\<not> dirty s'"
    by (auto simp: runs_def)
  have "configured s s'" using keepsD [OF config.keeps_checkpoint _ c, of s] by simp
  then show ?thesis using that [OF c] l test_after_emit [OF _ s] by blast
qed

lemma test_publish:
  assumes s: "test_store s"
  obtains s' where "publish test_env s = Some (Inr (), s')" "test_store s'" "after_emit s s'"
proof -
  have "runs (publish test_env) s (\<lambda>_ s'. mem_rel.live s' \<and> after_emit s s')"
    using test_storeD [OF s] by (intro mem_rel.publish_succeeds) simp_all
  then obtain s' where c: "publish test_env s = Some (Inr (), s')" and l: "mem_rel.live s'" "after_emit s s'"
    by (auto simp: runs_def)
  have "configured s s'" using keepsD [OF config.keeps_publish _ c, of s] by simp
  then show ?thesis using that [OF c] l test_after_emit [OF _ s] by blast
qed

end
