(* ===== verification/Async_Progress.thy ===== *)
theory Async_Progress
  imports Async_Machine Ring_Device
begin

text \<open>
  Further facts of the asynchronous writer's machine: a failure is final, the background thread's turns
  reach a requested checkpoint, and a run with one record on the small volume.
\<close>

section \<open>Failure is final\<close>

lemma failed_step:
  assumes "aw_step env x y" "aw_inv x" "\<not> status_ok (aw_background_status (wr x))"
  shows "aw_background_status (wr y) = aw_background_status (wr x)"
proof -
  have w: "aw_worker (wr x) = No_thread" "\<not> aw_running (wr x)" using aw_invD(2,8) [OF assms(2)] assms(3) by auto
  from assms(1) show ?thesis
  proof (cases rule: aw_step.cases)
    case (start r w)
    then show ?thesis using assms(3) w by (auto simp: aw_start_def)
  next
    case (submit item time flags expected now r w)
    then show ?thesis using assms(3) by (auto simp: submit_impl_def)
  next
    case (request target w)
    then show ?thesis using assms(3) by (auto simp: checkpoint_request_def)
  qed (use w in \<open>auto simp: stop_request_def worker_begin_def worker_take_def worker_store_def worker_finish_def worker_throws_def\<close>)
qed

lemma failed_steps:
  assumes "(aw_step env)\<^sup>*\<^sup>* x y" "aw_inv x" "\<not> status_ok (aw_background_status (wr x))"
  shows "aw_inv y \<and> aw_background_status (wr y) = aw_background_status (wr x)"
  using assms(1)
proof (induction rule: rtranclp_induct)
  case (step y z)
  then show ?case using aw_inv_step failed_step [of env y z] assms(3) by metis
qed (use assms in simp)

section \<open>The options\<close>

lemma interval_nonzero:
  assumes "\<not> (i :: i64) \<le>s 0" "\<not> i > (- 1) div kNanosecondsPerMillisecond"
  shows "i * kNanosecondsPerMillisecond \<noteq> 0"
proof -
  have "i \<noteq> 0" using assms(1) by auto
  then have pos: "0 < unat i" by (simp add: unat_gt_0)
  have "unat i \<le> unat ((- 1) div kNanosecondsPerMillisecond)" using assms(2) by (simp add: not_less word_le_nat_alt)
  also have "\<dots> = (2 ^ 64 - 1) div 1000000" by (simp add: unat_div_distrib)
  finally have "unat i * 1000000 < 2 ^ 64" by simp
  then have "unat (i * kNanosecondsPerMillisecond) = unat i * 1000000" by (simp add: unat_word_ariths)
  then show ?thesis using pos by (metis less_numeral_extra(3) mult_eq_0_iff unat_0 zero_neq_numeral)
qed

lemma aw_step_options:
  assumes "aw_step env x y"
  shows "aw_options (wr y) = aw_options (wr x) \<and> (aw_running (wr y) \<longrightarrow> aw_running (wr x) \<or> interval_ns (wr x) \<noteq> 0)"
  using assms
proof (induction rule: aw_step.induct)
  case (start x r w)
  then show ?case using interval_nonzero [of "ao_checkpoint_interval (aw_options (wr x))"]
    by (auto simp: aw_start_def interval_ns_def split: if_split_asm)
next
  case (submit item time flags expected now x r w)
  then have "aw_options w = aw_options (wr x) \<and> aw_running w = aw_running (wr x)"
    by (auto simp: submit_impl_def Let_def split: if_split_asm)
  then show ?case by simp
next
  case (store x w)
  then have "aw_options w = aw_options (wr x) \<and> aw_running w = aw_running (wr x)"
    by (auto simp: worker_store_def split: worker.splits option.splits)
  then show ?case by (simp add: note_stored_def split: worker.split option.split)
next
  case (finish durable_at x w)
  then have "aw_options w = aw_options (wr x) \<and> (aw_running w \<longrightarrow> aw_running (wr x))"
    by (auto simp: worker_finish_def fail_background_def Let_def split: worker.splits if_split_asm)
  then show ?case by simp
qed (auto simp: checkpoint_request_def stop_request_def worker_begin_def worker_take_def worker_decide_def worker_throws_def
    fail_background_def Let_def split: if_split_asm worker.splits)

lemma aw_reachable_options:
  assumes "(aw_step env)\<^sup>*\<^sup>* (aw_init store options) x"
  shows "aw_options (wr x) = options \<and> (aw_running (wr x) \<longrightarrow> interval_ns (wr x) \<noteq> 0)"
  using assms
proof (induction rule: rtranclp_induct)
  case (step y z)
  then show ?case using aw_step_options [OF step(2)] by (auto simp: interval_ns_def)
qed (simp add: aw_init_def new_async_writer_def)

section \<open>Progress\<close>

text \<open>
  One turn of the background thread, up to its next wait or its end, with the clock readings it makes:
  the last one of the wait, the one that decides, the one at the dequeue and the one at the checkpoint.
  A thread that is already past its wait does the rest of its turn.
\<close>

record turn =
  tn_woken_at :: u64
  tn_now :: u64
  tn_dequeued_at :: u64
  tn_durable_at :: u64

definition rest_of_turn :: "'s env \<Rightarrow> turn \<Rightarrow> 's async_writer \<Rightarrow> 's async_writer option" where
  "rest_of_turn env t w =
     (case aw_worker w of
        Working started job \<Rightarrow>
          (case worker_store env w of None \<Rightarrow> None | Some w \<Rightarrow> worker_finish (tn_durable_at t) w)
      | Finishing started job status \<Rightarrow> worker_finish (tn_durable_at t) w
      | _ \<Rightarrow> None)"

definition worker_turn :: "'s env \<Rightarrow> turn \<Rightarrow> 's async_writer \<Rightarrow> 's async_writer option" where
  "worker_turn env t w =
     (case aw_worker w of
        Starting \<Rightarrow> worker_begin (tn_now t) w
      | Waiting started \<Rightarrow>
          (case worker_take (tn_woken_at t) (tn_now t) (tn_dequeued_at t) w of
             None \<Rightarrow> None
           | Some w \<Rightarrow> rest_of_turn env t w)
      | _ \<Rightarrow> rest_of_turn env t w)"

fun worker_turns :: "'s env \<Rightarrow> turn list \<Rightarrow> 's async_writer \<Rightarrow> 's async_writer option" where
  "worker_turns env [] w = Some w"
| "worker_turns env (t # ts) w = (case worker_turn env t w of None \<Rightarrow> None | Some w \<Rightarrow> worker_turns env ts w)"

text \<open>The turns that find the checkpoint interval over: each of them checkpoints instead of taking a record.\<close>

fun timed_turns :: "'s env \<Rightarrow> turn list \<Rightarrow> 's async_writer \<Rightarrow> nat" where
  "timed_turns env [] w = 0"
| "timed_turns env (t # ts) w =
     (case aw_worker w of
        Waiting started \<Rightarrow> if interval_elapsed started (tn_now t) (interval_ns w) then 1 else 0
      | _ \<Rightarrow> 0) +
     (case worker_turn env t w of None \<Rightarrow> 0 | Some w \<Rightarrow> timed_turns env ts w)"

text \<open>A turn is steps of the machine.\<close>

lemma rest_of_turn_steps:
  assumes "rest_of_turn env t (wr x) = Some w"
  shows "\<exists>y. (aw_step env)\<^sup>*\<^sup>* x y \<and> wr y = w"
proof (cases "aw_worker (wr x)")
  case (Working started job)
  then obtain v where v: "worker_store env (wr x) = Some v" "worker_finish (tn_durable_at t) v = Some w"
    using assms by (auto simp: rest_of_turn_def split: option.splits)
  let ?y = "note_stored v (x\<lparr>wr := v\<rparr>)"
  have y: "aw_step env x ?y" "wr ?y = v" by (rule aw_step.store [OF v(1)]) (simp add: note_stored_def split: worker.split)
  then have "aw_step env ?y (?y\<lparr>wr := w\<rparr>)" using v(2) by (intro aw_step.finish) simp
  then show ?thesis using y(1) by (intro exI [of _ "?y\<lparr>wr := w\<rparr>"]) (simp add: converse_rtranclp_into_rtranclp)
next
  case (Finishing started job status)
  then have "aw_step env x (x\<lparr>wr := w\<rparr>)" using assms by (intro aw_step.finish) (simp add: rest_of_turn_def)
  then show ?thesis by (intro exI [of _ "x\<lparr>wr := w\<rparr>"]) simp
qed (use assms in \<open>simp_all add: rest_of_turn_def\<close>)

lemma worker_turn_steps:
  assumes "worker_turn env t (wr x) = Some w"
  shows "\<exists>y. (aw_step env)\<^sup>*\<^sup>* x y \<and> wr y = w"
proof (cases "aw_worker (wr x)")
  case Starting
  then have "aw_step env x (x\<lparr>wr := w\<rparr>)" using assms by (intro aw_step.begin_loop) (simp add: worker_turn_def)
  then show ?thesis by (intro exI [of _ "x\<lparr>wr := w\<rparr>"]) simp
next
  case (Waiting started)
  then obtain v where v: "worker_take (tn_woken_at t) (tn_now t) (tn_dequeued_at t) (wr x) = Some v" "rest_of_turn env t v = Some w"
    using assms by (auto simp: worker_turn_def split: option.splits)
  have "aw_step env x (x\<lparr>wr := v\<rparr>)" by (rule aw_step.take [OF v(1)])
  moreover obtain y where "(aw_step env)\<^sup>*\<^sup>* (x\<lparr>wr := v\<rparr>) y" "wr y = w"
    using rest_of_turn_steps [of env t "x\<lparr>wr := v\<rparr>" w] v(2) by auto
  ultimately show ?thesis by (intro exI [of _ y]) (simp add: converse_rtranclp_into_rtranclp)
qed (use assms rest_of_turn_steps in \<open>auto simp: worker_turn_def\<close>)

text \<open>No turn finds the interval over while all readings lie within one interval after a time that is not
  after the thread's last checkpoint.\<close>

lemma worker_turn_waiting:
  assumes "worker_turn env t w = Some w'" "aw_worker w = Waiting started" "aw_worker w' = Waiting started'"
  shows "started' = started \<or> started' = tn_durable_at t" "interval_ns w' = interval_ns w"
proof -
  obtain v where v: "worker_take (tn_woken_at t) (tn_now t) (tn_dequeued_at t) w = Some v" "rest_of_turn env t v = Some w'"
    using assms(1,2) by (auto simp: worker_turn_def split: option.splits)
  then have "v = worker_decide started (tn_now t) (tn_dequeued_at t) w"
    using assms(2) by (simp add: worker_take_def split: if_split_asm)
  then obtain job where wk: "aw_worker v = Working started job" "aw_options v = aw_options w"
    by (simp add: worker_decide_def Let_def split: if_split_asm)
  then obtain u where u: "worker_store env v = Some u" "worker_finish (tn_durable_at t) u = Some w'"
    using v(2) by (auto simp: rest_of_turn_def split: option.splits)
  obtain status where u': "aw_worker u = Finishing started job status" "aw_options u = aw_options w"
    using u(1) wk by (auto simp: worker_store_def split: option.splits)
  have f: "aw_options w' = aw_options w \<and> (started' = started \<or> started' = tn_durable_at t)"
    using u(2) u' assms(3)
    by (cases "status_ok status"; cases "jb_exit_after_checkpoint job"; cases "jb_do_checkpoint job")
      (auto simp: worker_finish_def Let_def)
  then show "started' = started \<or> started' = tn_durable_at t" "interval_ns w' = interval_ns w"
    by (simp_all add: interval_ns_def)
qed

lemma no_timed_turns:
  assumes "\<forall>t \<in> set ts. c \<le> tn_now t \<and> tn_now t - c < interval_ns w \<and> c \<le> tn_durable_at t"
    and "aw_worker w = Waiting started" "c \<le> started"
  shows "timed_turns env ts w = 0"
  using assms
proof (induction ts arbitrary: w started)
  case (Cons t ts)
  have "tn_now t - started \<le> tn_now t - c" if "started \<le> tn_now t"
    using that Cons.prems(3) by (simp add: word_le_nat_alt unat_sub)
  then have "\<not> interval_elapsed started (tn_now t) (interval_ns w)"
    using Cons.prems(1) unfolding interval_elapsed_def by (metis leD le_less_trans list.set_intros(1))
  moreover have "timed_turns env ts w' = 0" if turn: "worker_turn env t w = Some w'" for w'
  proof (cases "\<exists>started'. aw_worker w' = Waiting started'")
    case True
    then obtain started' where s: "aw_worker w' = Waiting started'" by blast
    note k = worker_turn_waiting [OF turn Cons.prems(2) s]
    have "c \<le> started'" using k(1) Cons.prems by auto
    then show ?thesis using Cons.prems(1) k(2) by (intro Cons.IH [OF _ s]) simp_all
  next
    case False
    have "aw_worker w' = No_thread"
    proof -
      obtain v u where "worker_finish (tn_durable_at t) u = Some w'"
        using turn Cons.prems(2) by (auto simp: worker_turn_def rest_of_turn_def split: option.splits worker.splits)
      then show ?thesis using False by (auto simp: worker_finish_def Let_def split: worker.splits if_split_asm)
    qed
    then show ?thesis by (cases ts) (simp_all add: worker_turn_def rest_of_turn_def)
  qed
  ultimately show ?case using Cons.prems(2) by (simp split: option.split)
qed simp

definition numbered :: "'s async_writer \<Rightarrow> bool" where
  "numbered w \<longleftrightarrow> unat (aw_processed_sequence w) + length (aw_queue w) = unat (aw_submitted_sequence w) \<and>
     (\<forall>i < length (aw_queue w). unat (it_sequence (aw_queue w ! i)) = unat (aw_processed_sequence w) + i + 1)"

lemma numbered_worker [simp]: "numbered (w\<lparr>aw_worker := k\<rparr>) = numbered w"
  by (simp add: numbered_def)

lemma aw_inv_numbered:
  assumes inv: "aw_inv x" and wk: "aw_worker (wr x) = Waiting started"
  shows "numbered (wr x)" "aw_requested_barrier (wr x) \<le> aw_submitted_sequence (wr x)" "status_ok (aw_background_status (wr x))"
proof -
  show ok: "status_ok (aw_background_status (wr x))" using aw_invD(2,8) [OF inv] wk by auto
  have s: "accepted x = appended x @ aw_queue (wr x)" "base x + unat (aw_submitted_sequence (wr x)) = length (accepted x)"
    "base x + unat (aw_processed_sequence (wr x)) = length (appended x)" "sequences_ok (base x) (accepted x)"
    "aw_requested_barrier (wr x) \<le> aw_submitted_sequence (wr x)"
    using aw_invD(6) [OF inv ok] wk by (auto simp: session_ok_def Let_def in_flight_def unaccounted_def)
  show "aw_requested_barrier (wr x) \<le> aw_submitted_sequence (wr x)" by (fact s(5))
  have "unat (it_sequence (aw_queue (wr x) ! i)) = unat (aw_processed_sequence (wr x)) + i + 1" if "i < length (aw_queue (wr x))" for i
  proof -
    have "accepted x ! (length (appended x) + i) = aw_queue (wr x) ! i" by (simp add: s(1))
    moreover have "unat (it_sequence (accepted x ! (length (appended x) + i))) = length (appended x) + i - base x + 1"
    proof -
      have "base x \<le> length (appended x) + i \<and> length (appended x) + i < length (accepted x)"
        using s(1,3) that by simp
      then show ?thesis using s(4) unfolding sequences_ok_def by blast
    qed
    ultimately show ?thesis using s(3) by simp
  qed
  then show "numbered (wr x)" using s by (simp add: numbered_def)
qed

text \<open>The end of a turn, and what it leaves of a request.\<close>

lemma worker_finish_returns: "aw_worker w = Finishing started job status \<Longrightarrow> \<exists>w'. worker_finish d w = Some w'"
  by (cases "status_ok status"; cases "jb_exit_after_checkpoint job") (simp_all add: worker_finish_def Let_def)

lemma finish_keeps_request:
  fixes v :: "'s async_writer"
  assumes "worker_finish d v = Some w" "aw_checkpoint_requested v"
  shows "\<not> status_ok (aw_background_status w) \<or> \<not> aw_running w \<or> aw_requested_barrier v \<le> aw_completed_barrier w \<or>
    (\<exists>started. aw_worker w = Waiting started) \<and> aw_checkpoint_requested w \<and> aw_queue w = aw_queue v \<and>
    aw_requested_barrier w = aw_requested_barrier v"
proof -
  obtain started job status where wk: "aw_worker v = Finishing started job status"
    using assms(1) by (auto simp: worker_finish_def split: worker.splits)
  have keep: "aw_requested_barrier v \<le> aw_processed_sequence u \<or> aw_checkpoint_requested (finish_checkpoint d u)"
    if "aw_checkpoint_requested u" "aw_requested_barrier u = aw_requested_barrier v" for u :: "'s async_writer"
    using that by (auto simp: finish_checkpoint_def Let_def)
  show ?thesis
  proof (cases "status_ok status \<and> \<not> jb_exit_after_checkpoint job")
    case True
    then show ?thesis using assms wk keep [of "finish_item job v"] by (auto simp: worker_finish_def Let_def split: if_split_asm)
  next
    case False
    then show ?thesis using assms(1) wk by (auto simp: worker_finish_def fail_background_def Let_def split: if_split_asm)
  qed
qed

context storage_contract
begin

lemma returns_store_call:
  assumes "env_storage env = st"
  shows "returns on_good (store_call env job)"
  unfolding store_call_def using returns_public [OF assms] returns_basic(1) by (auto intro!: returns_split(1) split: option.split)

text \<open>A turn takes the next record, or fails.\<close>

lemma turn_item:
  assumes env: "env_storage env = st" and good: "good (media (aw_store w))" and wk: "aw_worker w = Waiting started"
    and ok: "status_ok (aw_background_status w)" and num: "numbered w" and requested: "aw_checkpoint_requested w"
    and early: "\<not> interval_elapsed started (tn_now t) (interval_ns w)" and behind: "aw_processed_sequence w < aw_requested_barrier w"
    and le: "aw_requested_barrier w \<le> aw_submitted_sequence w"
  obtains w' where "worker_turn env t w = Some w'"
    "\<not> status_ok (aw_background_status w') \<or>
     good (media (aw_store w')) \<and> aw_worker w' = Waiting started \<and> status_ok (aw_background_status w') \<and> numbered w' \<and>
     aw_checkpoint_requested w' \<and> aw_options w' = aw_options w \<and> aw_requested_barrier w' = aw_requested_barrier w \<and>
     aw_submitted_sequence w' = aw_submitted_sequence w \<and> unat (aw_processed_sequence w') = unat (aw_processed_sequence w) + 1 \<and>
     aw_running w' = aw_running w"
proof -
  have "unat (aw_processed_sequence w) < unat (aw_submitted_sequence w)" using behind le by (simp add: word_less_nat_alt word_le_nat_alt)
  then have "aw_queue w \<noteq> []" using num by (auto simp: numbered_def)
  then obtain item rest where q: "aw_queue w = item # rest" by (cases "aw_queue w") auto
  define job where "job = \<lparr>jb_item = Some item, jb_do_checkpoint = False, jb_exit_after_checkpoint = False, jb_dequeued_at_ns = tn_dequeued_at t\<rparr>"
  have take: "worker_take (tn_woken_at t) (tn_now t) (tn_dequeued_at t) w = Some (w\<lparr>aw_queue := rest, aw_queued_bytes := aw_queued_bytes w - length (it_bytes item),
      aw_worker := Working started job\<rparr>)"
    using early behind q requested by (simp add: worker_take_def wk worker_wakes_def worker_decide_def Let_def job_def not_le)
  obtain r s where call: "store_call env job (aw_store w) = Some (r, s)" "good (media s)"
    using returnsD [OF returns_store_call [OF env, of job], of "aw_store w"] good by (auto simp: on_good_def)
  define v where "v = w\<lparr>aw_queue := rest, aw_queued_bytes := aw_queued_bytes w - length (it_bytes item),
      aw_store := s, aw_worker := Finishing started job (as_status r)\<rparr>"
  have "worker_turn env t w = worker_finish (tn_durable_at t) v"
    using take call(1) by (simp add: worker_turn_def rest_of_turn_def wk worker_store_def v_def)
  moreover have seq: "unat (it_sequence item) = unat (aw_processed_sequence w) + 1" using num q by (auto simp: numbered_def)
  moreover have "unat (it_sequence (rest ! i)) = unat (aw_processed_sequence w) + i + 2" if "i < length rest" for i
    using num q that by (auto simp: numbered_def dest!: spec [of _ "Suc i"])
  then have "numbered (finish_item job v)" using seq num q by (simp add: numbered_def job_def v_def)
  ultimately show ?thesis
    using that call(2) ok requested
    by (cases "status_ok (as_status r)") (simp_all add: worker_finish_def v_def job_def fail_background_def Let_def)
qed

text \<open>Once the requested records are processed, or the interval is over, a turn checkpoints, or fails.\<close>

lemma turn_checkpoint:
  assumes env: "env_storage env = st" and good: "good (media (aw_store w))" and wk: "aw_worker w = Waiting started"
    and ok: "status_ok (aw_background_status w)" and num: "numbered w" and requested: "aw_checkpoint_requested w"
    and time: "interval_elapsed started (tn_now t) (interval_ns w) \<or> aw_requested_barrier w \<le> aw_processed_sequence w"
    and le: "aw_requested_barrier w \<le> aw_submitted_sequence w"
  obtains w' where "worker_turn env t w = Some w'"
    "\<not> status_ok (aw_background_status w') \<or> aw_requested_barrier w \<le> aw_completed_barrier w' \<or>
     good (media (aw_store w')) \<and> aw_worker w' = Waiting (tn_durable_at t) \<and> status_ok (aw_background_status w') \<and> numbered w' \<and>
     aw_checkpoint_requested w' \<and> aw_options w' = aw_options w \<and> aw_requested_barrier w' = aw_requested_barrier w \<and>
     aw_submitted_sequence w' = aw_submitted_sequence w \<and> aw_queue w' = aw_queue w \<and>
     aw_processed_sequence w < aw_requested_barrier w"
proof -
  define job where "job = \<lparr>jb_item = None, jb_do_checkpoint = True, jb_exit_after_checkpoint = (aw_stopping w \<and> aw_queue w = []), jb_dequeued_at_ns = 0\<rparr>"
  have take: "worker_take (tn_woken_at t) (tn_now t) (tn_dequeued_at t) w = Some (w\<lparr>aw_worker := Working started job\<rparr>)"
    using time requested by (auto simp: worker_take_def wk worker_wakes_def worker_decide_def Let_def job_def)
  obtain r s where call: "store_call env job (aw_store w) = Some (r, s)" "good (media s)"
    using returnsD [OF returns_store_call [OF env, of job], of "aw_store w"] good by (auto simp: on_good_def)
  define v where "v = w\<lparr>aw_store := s, aw_worker := Finishing started job (as_status r)\<rparr>"
  have round: "worker_turn env t w = worker_finish (tn_durable_at t) v"
    using take call(1) by (simp add: worker_turn_def rest_of_turn_def wk worker_store_def v_def)
  define done_v where "done_v = finish_checkpoint (tn_durable_at t) v"
  have d: "aw_completed_barrier done_v = aw_processed_sequence w" "aw_queue done_v = aw_queue w" "aw_store done_v = s"
    "aw_options done_v = aw_options w" "aw_requested_barrier done_v = aw_requested_barrier w"
    "aw_submitted_sequence done_v = aw_submitted_sequence w" "aw_processed_sequence done_v = aw_processed_sequence w"
    "aw_background_status done_v = aw_background_status w"
    by (simp_all add: done_v_def v_def)
  have keep: "aw_checkpoint_requested done_v" if "\<not> aw_requested_barrier w \<le> aw_processed_sequence w"
    using that requested by (simp add: done_v_def finish_checkpoint_def Let_def v_def)
  have fin: "worker_finish (tn_durable_at t) v = Some (if \<not> status_ok (as_status r) then (fail_background (as_status r) v)\<lparr>aw_worker := No_thread\<rparr>
      else if aw_stopping w \<and> aw_queue w = [] then done_v\<lparr>aw_running := False, aw_worker := No_thread\<rparr> else done_v\<lparr>aw_worker := Waiting (tn_durable_at t)\<rparr>)"
    by (simp add: worker_finish_def v_def job_def done_v_def finish_item_def Let_def)
  have empty: "aw_requested_barrier w \<le> aw_processed_sequence w" if "aw_queue w = []"
    using num le that by (simp add: numbered_def word_le_nat_alt)
  have "numbered done_v" using num by (simp add: numbered_def d)
  then show ?thesis
    using that [OF round [unfolded fin]] d keep call(2) ok empty
    by (cases "status_ok (as_status r)"; cases "aw_requested_barrier w \<le> aw_processed_sequence w"; cases "aw_queue w = []")
      (simp_all add: fail_background_def)
qed

lemma turns_reach_barrier:
  assumes "env_storage env = st" "good (media (aw_store w))" "aw_worker w = Waiting started"
    "status_ok (aw_background_status w)" "numbered w" "aw_checkpoint_requested w"
    "aw_requested_barrier w \<le> aw_submitted_sequence w"
    "length (aw_queue w) + timed_turns env ts w + 1 \<le> length ts"
  shows "\<exists>m w'. m \<le> length ts \<and> worker_turns env (take m ts) w = Some w' \<and>
    (\<not> status_ok (aw_background_status w') \<or> aw_requested_barrier w \<le> aw_completed_barrier w')"
  using assms
proof (induction ts arbitrary: w started)
  case (Cons t ts)
  let ?reached = "\<lambda>w'. \<not> status_ok (aw_background_status w') \<or> aw_requested_barrier w \<le> aw_completed_barrier w'"
  have step: ?case if "worker_turn env t w = Some w'" "?reached w' \<or> (\<exists>m w''. m \<le> length ts \<and>
      worker_turns env (take m ts) w' = Some w'' \<and> ?reached w'')" for w'
    using that(2)
  proof
    assume "?reached w'"
    then show ?thesis using that(1) by (intro exI [of _ 1] exI [of _ w']) simp
  next
    assume "\<exists>m w''. m \<le> length ts \<and> worker_turns env (take m ts) w' = Some w'' \<and> ?reached w''"
    then obtain m w'' where "m \<le> length ts" "worker_turns env (take m ts) w' = Some w''" "?reached w''" by blast
    then show ?thesis using that(1) by (intro exI [of _ "Suc m"] exI [of _ w'']) simp
  qed
  show ?case
  proof (cases "interval_elapsed started (tn_now t) (interval_ns w) \<or> aw_requested_barrier w \<le> aw_processed_sequence w")
    case True
    obtain w' where w': "worker_turn env t w = Some w'"
      and c: "\<not> status_ok (aw_background_status w') \<or> aw_requested_barrier w \<le> aw_completed_barrier w' \<or>
       good (media (aw_store w')) \<and> aw_worker w' = Waiting (tn_durable_at t) \<and> status_ok (aw_background_status w') \<and> numbered w' \<and>
       aw_checkpoint_requested w' \<and> aw_options w' = aw_options w \<and> aw_requested_barrier w' = aw_requested_barrier w \<and>
       aw_submitted_sequence w' = aw_submitted_sequence w \<and> aw_queue w' = aw_queue w \<and>
       aw_processed_sequence w < aw_requested_barrier w"
      using turn_checkpoint [OF Cons.prems(1-6) True Cons.prems(7)] by metis
    show ?thesis
    proof (cases "?reached w'")
      case False
      then have "interval_elapsed started (tn_now t) (interval_ns w)" using c True by (auto simp: not_less)
      then have "length (aw_queue w') + timed_turns env ts w' + 1 \<le> length ts"
        using False c Cons.prems(3,8) w' by simp
      then have "\<exists>m w''. m \<le> length ts \<and> worker_turns env (take m ts) w' = Some w'' \<and>
          (\<not> status_ok (aw_background_status w'') \<or> aw_requested_barrier w' \<le> aw_completed_barrier w'')"
        using False c Cons.prems by (intro Cons.IH) auto
      then show ?thesis using step [OF w'] False c by auto
    qed (rule step [OF w'], blast)
  next
    case False
    then obtain w' where w': "worker_turn env t w = Some w'"
      and c: "\<not> status_ok (aw_background_status w') \<or>
       good (media (aw_store w')) \<and> aw_worker w' = Waiting started \<and> status_ok (aw_background_status w') \<and> numbered w' \<and>
       aw_checkpoint_requested w' \<and> aw_options w' = aw_options w \<and> aw_requested_barrier w' = aw_requested_barrier w \<and>
       aw_submitted_sequence w' = aw_submitted_sequence w \<and> unat (aw_processed_sequence w') = unat (aw_processed_sequence w) + 1 \<and>
       aw_running w' = aw_running w"
      using turn_item [OF Cons.prems(1-6) _ _ Cons.prems(7), of t] by (metis not_less)
    show ?thesis
    proof (cases "status_ok (aw_background_status w')")
      case True
      then have "length (aw_queue w') + 1 = length (aw_queue w)" using c Cons.prems(5) by (auto simp: numbered_def)
      then have "length (aw_queue w') + timed_turns env ts w' + 1 \<le> length ts"
        using False Cons.prems(3,8) w' by simp
      then have "\<exists>m w''. m \<le> length ts \<and> worker_turns env (take m ts) w' = Some w'' \<and>
          (\<not> status_ok (aw_background_status w'') \<or> aw_requested_barrier w' \<le> aw_completed_barrier w'')"
        using True c Cons.prems by (intro Cons.IH) auto
      then show ?thesis using step [OF w'] True c by auto
    qed (rule step [OF w'], blast)
  qed
qed simp

text \<open>A thread that is not waiting ends its turn first.\<close>

lemma first_turn:
  assumes env: "env_storage env = st" and good: "good (media (aw_store w))" and thread: "aw_worker w \<noteq> No_thread"
    "\<forall>started. aw_worker w \<noteq> Waiting started" and requested: "aw_checkpoint_requested w"
  obtains w' where "worker_turn env t w = Some w'"
    "\<not> status_ok (aw_background_status w') \<or> \<not> aw_running w' \<or> aw_requested_barrier w \<le> aw_completed_barrier w' \<or>
     (\<exists>started. aw_worker w' = Waiting started) \<and> aw_checkpoint_requested w' \<and> aw_queue w' = aw_queue w \<and>
     aw_requested_barrier w' = aw_requested_barrier w"
proof (cases "aw_worker w")
  case (Working started job)
  obtain r s where "store_call env job (aw_store w) = Some (r, s)"
    using returnsD [OF returns_store_call [OF env, of job], of "aw_store w"] good by (auto simp: on_good_def)
  moreover obtain w' where "worker_finish (tn_durable_at t) (w\<lparr>aw_store := s, aw_worker := Finishing started job (as_status r)\<rparr>) = Some w'"
    using worker_finish_returns [of "w\<lparr>aw_store := s, aw_worker := Finishing started job (as_status r)\<rparr>"] by auto
  ultimately show ?thesis
    using that finish_keeps_request [of "tn_durable_at t" "w\<lparr>aw_store := s, aw_worker := Finishing started job (as_status r)\<rparr>" w'] requested
    by (simp add: worker_turn_def rest_of_turn_def Working worker_store_def)
next
  case (Finishing started job status)
  then obtain w' where "worker_finish (tn_durable_at t) w = Some w'" using worker_finish_returns by blast
  then show ?thesis using that finish_keeps_request [of "tn_durable_at t" w w'] requested Finishing
    by (simp add: worker_turn_def rest_of_turn_def)
qed (use that thread requested in \<open>auto simp: worker_turn_def worker_begin_def\<close>)

end

section \<open>A run with one record\<close>

lemma one_record_run:
  assumes ok: "status_ok (writer_status s)" and item: "data \<noteq> []" "length data \<le> ao_queue_capacity_bytes options"
    and opts: "0 < ao_queue_capacity_records options" "ao_checkpoint_interval options = 1000"
    and call: "append env (View data) time flags s = Some (Inr (), s1)" "checkpoint env s1 = Some (Inr (), s2)"
  obtains x where "(aw_step env)\<^sup>*\<^sup>* (aw_init s options) x" "waiters x = [(1, 1)]" "length (accepted x) = 1"
    "trace x = map Took (accepted x) @ [Checkpointed]" "aw_completed_barrier (wr x) = 1" "aw_running (wr x)" "aw_store (wr x) = s2"
    "status_ok (aw_background_status (wr x))" "aw_worker (wr x) = Waiting 0" "aw_queue (wr x) = []"
    "\<not> aw_stopping (wr x)" "aw_submitted_sequence (wr x) = 1"
proof -
  let ?go = "\<lambda>x y. (aw_step env)\<^sup>*\<^sup>* (aw_init s options) x \<longrightarrow> aw_step env x y \<longrightarrow> (aw_step env)\<^sup>*\<^sup>* (aw_init s options) y"
  have go: "?go x y" for x y by (auto intro: rtranclp.rtrancl_into_rtrancl)
  define q where "q = \<lparr>it_bytes = data, it_time_ns = time, it_flags = flags, it_sequence = 1, it_contract = None, it_submitted_at_ns = 0\<rparr>"
  define j1 where "j1 = \<lparr>jb_item = Some q, jb_do_checkpoint = False, jb_exit_after_checkpoint = False, jb_dequeued_at_ns = 0\<rparr>"
  define j2 where "j2 = \<lparr>jb_item = None, jb_do_checkpoint = True, jb_exit_after_checkpoint = False, jb_dequeued_at_ns = 0\<rparr>"
  define w1 where "w1 = snd (aw_start (new_async_writer s options))"
  have w1: "aw_start (new_async_writer s options) = (Ok, w1)" "aw_worker w1 = Starting" "aw_running w1" "\<not> aw_stopping w1"
    "aw_queue w1 = []" "aw_queued_bytes w1 = 0" "aw_submitted_sequence w1 = 0" "aw_processed_sequence w1 = 0"
    "aw_requested_barrier w1 = 0" "aw_completed_barrier w1 = 0" "aw_store w1 = s" "aw_options w1 = options"
    "aw_background_status w1 = Ok"
    using ok item opts order.strict_trans2 [of 0 "length data"]
    by (auto simp: w1_def aw_start_def new_async_writer_def word_sle_eq)
  define w2 where "w2 = w1\<lparr>aw_worker := Waiting 0\<rparr>"
  define w3 where "w3 = snd (submit_impl (View data) time flags None 0 w2)"
  have w3: "submit_impl (View data) time flags None 0 w2 = (Ok, w3)" "aw_worker w3 = Waiting 0" "aw_running w3" "\<not> aw_stopping w3"
    "aw_queue w3 = [q]" "aw_submitted_sequence w3 = 1" "aw_processed_sequence w3 = 0" "aw_requested_barrier w3 = 0"
    "aw_completed_barrier w3 = 0" "aw_store w3 = s" "aw_options w3 = options" "aw_background_status w3 = Ok"
    using w1 item opts by (auto simp: w3_def w2_def submit_impl_def Let_def q_def)
  define w4 where "w4 = w3\<lparr>aw_requested_barrier := 1, aw_checkpoint_requested := True\<rparr>"
  define w5 where "w5 = worker_decide 0 0 0 w4"
  have w5: "w5 = w4\<lparr>aw_queue := [], aw_queued_bytes := aw_queued_bytes w4 - length data, aw_worker := Working 0 j1\<rparr>"
    using w3 opts by (simp add: w5_def worker_decide_def w4_def interval_elapsed_def interval_ns_def j1_def q_def)
  define w6 where "w6 = w5\<lparr>aw_store := s1, aw_worker := Finishing 0 j1 Ok\<rparr>"
  define w7 where "w7 = (finish_item j1 w6)\<lparr>aw_worker := Waiting 0\<rparr>"
  have w7: "aw_processed_sequence w7 = 1" "aw_queue w7 = []" "aw_requested_barrier w7 = 1" "aw_checkpoint_requested w7"
    "aw_store w7 = s1" "\<not> aw_stopping w7" "aw_options w7 = options" "aw_running w7" "aw_background_status w7 = Ok"
    "aw_worker w7 = Waiting 0" "aw_submitted_sequence w7 = 1"
    using w3 by (simp_all add: w7_def w6_def w5 w4_def j1_def q_def)
  define w8 where "w8 = w7\<lparr>aw_worker := Working 0 j2\<rparr>"
  define w9 where "w9 = w8\<lparr>aw_store := s2, aw_worker := Finishing 0 j2 Ok\<rparr>"
  define w10 where "w10 = (finish_checkpoint 0 w9)\<lparr>aw_worker := Waiting 0\<rparr>"
  let ?x = "\<lambda>w acc tr ws. \<lparr>wr = w, accepted = acc, trace = tr, base = 0, waiters = ws\<rparr>"
  have "(aw_step env)\<^sup>*\<^sup>* (aw_init s options) (?x (new_async_writer s options) [] [] [])" by (simp add: aw_init_def)
  moreover have "aw_step env (?x (new_async_writer s options) [] [] []) (?x w1 [] [] [])"
    using aw_step.start [of "?x (new_async_writer s options) [] [] []"] w1 by simp
  moreover have "aw_step env (?x w1 [] [] []) (?x w2 [] [] [])"
    using aw_step.begin_loop [of 0 "?x w1 [] [] []" w2] w1 by (simp add: worker_begin_def w2_def)
  moreover have "aw_step env (?x w2 [] [] []) (?x w3 [q] [] [])"
    using aw_step.submit [of "View data" time flags None 0 "?x w2 [] [] []"] w3 w1 by (simp add: w2_def submitted_item_def q_def)
  moreover have "aw_step env (?x w3 [q] [] []) (?x w4 [q] [] [(1, 1)])"
    using aw_step.request [of "?x w3 [q] [] []" 1 w4] w3 by (simp add: checkpoint_request_def w4_def)
  moreover have "aw_step env (?x w4 [q] [] [(1, 1)]) (?x w5 [q] [] [(1, 1)])"
    using aw_step.take [of 0 0 0 "?x w4 [q] [] [(1, 1)]" w5] w3 by (simp add: worker_take_def worker_wakes_def w4_def w5_def)
  moreover have "aw_step env (?x w5 [q] [] [(1, 1)]) (?x w6 [q] [Took q] [(1, 1)])"
    using aw_step.store [of env "?x w5 [q] [] [(1, 1)]" w6] call(1) w3
    by (simp add: worker_store_def w5 w6_def w4_def store_call_def j1_def q_def as_status_def note_stored_def job_events_def)
  moreover have "aw_step env (?x w6 [q] [Took q] [(1, 1)]) (?x w7 [q] [Took q] [(1, 1)])"
    using aw_step.finish [of 0 "?x w6 [q] [Took q] [(1, 1)]" w7] by (simp add: worker_finish_def w6_def w7_def j1_def)
  moreover have "aw_step env (?x w7 [q] [Took q] [(1, 1)]) (?x w8 [q] [Took q] [(1, 1)])"
    using aw_step.take [of 0 0 0 "?x w7 [q] [Took q] [(1, 1)]" w8] w7
    by (simp add: worker_take_def worker_wakes_def worker_decide_def w8_def j2_def)
  moreover have "aw_step env (?x w8 [q] [Took q] [(1, 1)]) (?x w9 [q] [Took q, Checkpointed] [(1, 1)])"
    using aw_step.store [of env "?x w8 [q] [Took q] [(1, 1)]" w9] call(2) w7
    by (simp add: worker_store_def w8_def w9_def store_call_def j2_def as_status_def note_stored_def job_events_def)
  moreover have "aw_step env (?x w9 [q] [Took q, Checkpointed] [(1, 1)]) (?x w10 [q] [Took q, Checkpointed] [(1, 1)])"
    using aw_step.finish [of 0 "?x w9 [q] [Took q, Checkpointed] [(1, 1)]" w10] by (simp add: worker_finish_def w9_def w10_def finish_item_def j2_def)
  ultimately have "(aw_step env)\<^sup>*\<^sup>* (aw_init s options) (?x w10 [q] [Took q, Checkpointed] [(1, 1)])"
    using go by blast
  then show ?thesis using that [of "?x w10 [q] [Took q, Checkpointed] [(1, 1)]"] w7 by (simp add: w10_def w9_def w8_def)
qed

text \<open>The same on the small volume, with the writer running or stopped.\<close>

definition test_writer_options :: async_writer_options where
  "test_writer_options = \<lparr>ao_queue_capacity_records = 4, ao_queue_capacity_bytes = 64, ao_checkpoint_interval = 1000,
     ao_custom_clock = True\<rparr>"

lemma test_run:
  obtains m s x where "mem_good m" "mem_durable m = mem_volatile m"
    "open_store test_env test_random test_open_options False m = Some (Inr s, media s)" "test_store s"
    "(aw_step test_env)\<^sup>*\<^sup>* (aw_init s test_writer_options) x" "waiters x = [(1, 1)]" "length (accepted x) = 1"
    "trace x = map Took (accepted x) @ [Checkpointed]" "aw_completed_barrier (wr x) = 1" "aw_running (wr x)"
    "status_ok (aw_background_status (wr x))" "aw_worker (wr x) = Waiting 0" "aw_queue (wr x) = []" "test_store (aw_store (wr x))"
    "\<not> aw_stopping (wr x)" "aw_submitted_sequence (wr x) = 1"
proof (rule test_device)
  fix fs m s
  assume d: "mem_durable m = mem_volatile m" "mem_good m"
    "open_store test_env test_random test_open_options False m = Some (Inr s, media s)" "test_store s"
    "partitions s = [new_partition_state (new_partition_header (volume s) 0 1 (oo_next_partition test_open_options))]"
  have g: "ph_generation (ps_header (last (partitions s))) \<noteq> - 1" by (simp add: d(5) new_partition_state_def new_partition_header_def)
  obtain s1 where a: "append test_env (View [7]) 5 0 s = Some (Inr (), s1)" "test_store s1"
    by (rule test_append [OF d(4) g, of "[7]" 5 0]) simp_all
  obtain s2 where c: "checkpoint test_env s1 = Some (Inr (), s2)" "test_store s2" by (rule test_checkpoint [OF a(2)])
  have opts: "0 < ao_queue_capacity_records test_writer_options" "ao_checkpoint_interval test_writer_options = 1000"
    "length [7 :: u8] \<le> ao_queue_capacity_bytes test_writer_options"
    by (simp_all add: test_writer_options_def)
  show ?thesis
    by (rule one_record_run [OF test_storeD(7) [OF d(4)] _ opts(3,1,2) a(1) c(1)])
      (use that [OF d(2,1,3,4)] c(2) in auto)
qed

text \<open>Continued by \<open>stop()\<close> to the thread's end.\<close>

lemma test_run_stopped:
  obtains m s x where "mem_good m" "mem_durable m = mem_volatile m"
    "open_store test_env test_random test_open_options False m = Some (Inr s, media s)"
    "(aw_step test_env)\<^sup>*\<^sup>* (aw_init s test_writer_options) x" "stop_joined (wr x)"
    "status_ok (stop_result (wr x))" "length (accepted x) = 1"
proof -
  obtain m s x where d: "mem_good m" "mem_durable m = mem_volatile m"
    "open_store test_env test_random test_open_options False m = Some (Inr s, media s)"
    and run: "(aw_step test_env)\<^sup>*\<^sup>* (aw_init s test_writer_options) x"
    and x: "length (accepted x) = 1" "aw_running (wr x)" "status_ok (aw_background_status (wr x))" "aw_worker (wr x) = Waiting 0"
      "aw_queue (wr x) = []" "test_store (aw_store (wr x))"
    by (rule test_run)
  obtain t where c: "checkpoint test_env (aw_store (wr x)) = Some (Inr (), t)" by (rule test_checkpoint [OF x(6)])
  define job where "job = \<lparr>jb_item = None, jb_do_checkpoint = True, jb_exit_after_checkpoint = True, jb_dequeued_at_ns = 0\<rparr>"
  define w1 where "w1 = stop_request (wr x)"
  define w2 where "w2 = w1\<lparr>aw_worker := Working 0 job\<rparr>"
  define w3 where "w3 = w2\<lparr>aw_store := t, aw_worker := Finishing 0 job Ok\<rparr>"
  define w4 where "w4 = (finish_checkpoint 0 w3)\<lparr>aw_running := False, aw_worker := No_thread\<rparr>"
  define x3 where "x3 = note_stored w3 (x\<lparr>wr := w3\<rparr>)"
  have w1: "aw_worker w1 = Waiting 0" "aw_queue w1 = []" "aw_stopping w1" "aw_store w1 = aw_store (wr x)"
    "aw_background_status w1 = aw_background_status (wr x)"
    using x by (simp_all add: w1_def stop_request_def)
  have s1: "aw_step test_env x (x\<lparr>wr := w1\<rparr>)" unfolding w1_def by (rule aw_step.stop)
  have "worker_take 0 0 0 w1 = Some w2"
    using w1 by (auto simp: worker_take_def worker_wakes_def worker_decide_def Let_def w2_def job_def)
  then have s2: "aw_step test_env (x\<lparr>wr := w1\<rparr>) (x\<lparr>wr := w2\<rparr>)"
    using aw_step.take [of 0 0 0 "x\<lparr>wr := w1\<rparr>" w2 test_env] by simp
  have "worker_store test_env w2 = Some w3"
    using c by (simp add: worker_store_def w2_def store_call_def job_def w1 w3_def as_status_def)
  then have s3: "aw_step test_env (x\<lparr>wr := w2\<rparr>) x3"
    using aw_step.store [of test_env "x\<lparr>wr := w2\<rparr>" w3] by (simp add: x3_def)
  have x3: "wr x3 = w3" "accepted x3 = accepted x" by (simp_all add: x3_def note_stored_def w3_def job_def)
  have "worker_finish 0 w3 = Some w4"
    by (simp add: worker_finish_def w3_def job_def finish_item_def w4_def)
  then have s4: "aw_step test_env x3 (x3\<lparr>wr := w4\<rparr>)"
    using aw_step.finish [of 0 x3 w4 test_env] by (simp add: x3)
  have "(aw_step test_env)\<^sup>*\<^sup>* (aw_init s test_writer_options) (x3\<lparr>wr := w4\<rparr>)"
    using run s1 s2 s3 s4 by (meson rtranclp.rtrancl_into_rtrancl)
  then show ?thesis
    using that [OF d] x w1 by (simp add: x3 w4_def w3_def w2_def stop_joined_def stop_result_def)
qed

text \<open>Or with a second record, which is queued.\<close>

lemma test_run_queued:
  obtains m s x where "mem_good m" "open_store test_env test_random test_open_options False m = Some (Inr s, media s)"
    "test_store s" "(aw_step test_env)\<^sup>*\<^sup>* (aw_init s test_writer_options) x" "queued_records (wr x) = 1" "aw_running (wr x)"
    "aw_worker (wr x) = Waiting 0" "status_ok (aw_background_status (wr x))"
proof -
  obtain m s x where d: "mem_good m" "open_store test_env test_random test_open_options False m = Some (Inr s, media s)" "test_store s"
    and run: "(aw_step test_env)\<^sup>*\<^sup>* (aw_init s test_writer_options) x"
    and x: "length (accepted x) = 1" "aw_running (wr x)" "status_ok (aw_background_status (wr x))" "aw_worker (wr x) = Waiting 0"
      "aw_queue (wr x) = []" "\<not> aw_stopping (wr x)" "aw_submitted_sequence (wr x) = 1"
    by (rule test_run)
  note o = aw_reachable_options [OF run] and inv = aw_inv_reachable [OF run]
  have q: "aw_queued_bytes (wr x) = 0" using aw_invD(1) [OF inv] x(5) by (simp add: queue_ok_def)
  define w where "w = snd (submit_impl (View [9]) 6 0 None 0 (wr x))"
  have w: "submit_impl (View [9]) 6 0 None 0 (wr x) = (Ok, w)" "queued_records w = 1" "aw_running w" "aw_worker w = Waiting 0"
    "status_ok (aw_background_status w)"
    using x q o by (auto simp: w_def submit_impl_def Let_def test_writer_options_def queued_records_def)
  have "aw_step test_env x (x\<lparr>wr := w, accepted := accepted x @ [submitted_item (View [9]) 6 0 None 0 2]\<rparr>)"
    using aw_step.submit [of "View [9]" 6 0 None 0 x Ok w] w(1) x(7) by simp
  then show ?thesis using that [OF d rtranclp.rtrancl_into_rtrancl [OF run]] w(2-) by simp
qed

text \<open>Or ended by an exception of the store's call.\<close>

lemma test_run_failed:
  obtains s x where "(aw_step test_env)\<^sup>*\<^sup>* (aw_init s test_writer_options) x" "\<not> status_ok (background_status (wr x))"
proof -
  obtain s x where run: "(aw_step test_env)\<^sup>*\<^sup>* (aw_init s test_writer_options) x"
    and x: "aw_worker (wr x) = Waiting 0"
    by (rule test_run)
  define w where "w = worker_decide 0 1000000000 0 (wr x)"
  have "interval_elapsed 0 1000000000 (interval_ns (wr x))"
    using aw_reachable_options [OF run] by (simp add: interval_elapsed_def interval_ns_def test_writer_options_def)
  then obtain job where w: "worker_take 1000000000 1000000000 0 (wr x) = Some w" "aw_worker w = Working 0 job"
    using x by (auto simp: worker_take_def worker_wakes_def worker_decide_def w_def Let_def)
  define v where "v = (fail_background (Status Internal_error ''async exception'') w)\<lparr>aw_worker := No_thread\<rparr>"
  have "aw_step test_env x (x\<lparr>wr := w\<rparr>)" by (rule aw_step.take [OF w(1)])
  moreover have "aw_step test_env (x\<lparr>wr := w\<rparr>) (x\<lparr>wr := v, trace := trace x @ [Threw]\<rparr>)"
    using aw_step.throws [of None "aw_store w" "x\<lparr>wr := w\<rparr>" v test_env] w(2) by (simp add: worker_throws_def v_def)
  ultimately have "(aw_step test_env)\<^sup>*\<^sup>* (aw_init s test_writer_options) (x\<lparr>wr := v, trace := trace x @ [Threw]\<rparr>)"
    using run by (meson rtranclp.rtrancl_into_rtrancl)
  then show ?thesis using that by (simp add: background_status_def v_def fail_background_def status_ok_def)
qed

end
