(* ===== verification/Ring_Steps.thy ===== *)
theory Ring_Steps
  imports Ring_Machine
begin

text \<open>
  The public operations are built from a few steps: emitting the pending block, rotating, flushing,
  accepting a record, and updates of the store in memory. An invariant that includes the store's own
  and that these steps keep is kept by every operation.
\<close>

locale kept_by_steps =
  fixes env :: "'s env" and I :: "'s impl \<Rightarrow> bool"
  assumes inv: "I s \<Longrightarrow> store_inv s"
    and emit: "I s \<Longrightarrow> \<not> faulted s \<Longrightarrow>
      wp (emit_builder env) (\<lambda>_ t. I t \<and> \<not> faulted t \<and> after_emit s t) (\<lambda>_. I) s"
    and rotate: "I s \<Longrightarrow> \<not> faulted s \<Longrightarrow> builder s = [] \<Longrightarrow> options_ok s options \<Longrightarrow>
      wp (rotate_internal env options) (\<lambda>_ t. I t \<and> \<not> faulted t \<and> same_config s t \<and> room (volume t) (last (partitions t))) (\<lambda>_. I) s"
    and sync: "I s \<Longrightarrow> \<not> faulted s \<Longrightarrow> wp (sync_media env adv) (\<lambda>_. I) (\<lambda>_. I) s"
    and accept: "I s \<Longrightarrow> \<not> faulted s \<Longrightarrow> room (volume s) (last (partitions s)) \<Longrightarrow> data \<noteq> [] \<Longrightarrow>
      length (builder s) + length data \<le> unat (vh_max_block_payload (volume s)) \<Longrightarrow> I (accept_record env options data time flags s)"
    and closing: "I s \<Longrightarrow> I (mark_closed s)"
    and next_options: "I s \<Longrightarrow> options_ok s options \<Longrightarrow> I (s\<lparr>next_options := options\<rparr>)"
    and clock: "I s \<Longrightarrow> I (s\<lparr>clock_reads := n\<rparr>)"
    and gap: "I s \<Longrightarrow> I (count_gap kind s)"
    and header: "keeps I (read_partition_header env slot)" and block: "keeps I (read_block env part e)"
    and index: "keeps I (acquire_index env part)"
begin

lemma ensure:
  assumes s: "I s" "\<not> faulted s"
  shows "wp (ensure_empty_builder_capacity env)
    (\<lambda>_ t. I t \<and> \<not> faulted t \<and> same_config s t \<and> room (volume t) (last (partitions t))) (\<lambda>_. I) s"
proof (cases "builder s = []")
  case False
  then show ?thesis using s inv [OF s(1)] by (simp add: ensure_empty_builder_capacity_def store_inv_def same_config_def)
next
  case True
  let ?v = "volume s" and ?p = "last (partitions s)"
  have act: "active s = Some ?p" and g: "geometry_ok ?v" and opts: "options_ok s (next_options s)" and idx: "index_ok ?v ?p"
    using inv [OF s(1)] s(2) by (simp_all add: store_inv_def base_inv_def core_inv_def catalog_active)
  obtain w where w: "align_up (128 + ucast (vh_max_block_payload ?v)) (vh_persistence_quantum ?v) = (w, False)"
    "w \<le> index_begin ?v - 4096" using geometry_okD(7) [OF g] by blast
  show ?thesis
    using s True act w rotate [OF s True opts] by (auto simp: ensure_empty_builder_capacity_def room_def not_less same_config_def)
qed

lemma keeps_append_impl: "keeps I (append_impl env item time flags expected)"
proof (rule keeps_wp)
  fix s assume s: "I s"
  show "wp (append_impl env item time flags expected) (\<lambda>_. I) (\<lambda>_. I) s"
  proof (cases "writable s \<and> \<not> closed s \<and> \<not> faulted s \<and> \<not> view_empty item \<and> view_valid item \<and>
      view_size item \<le> unat (vh_max_block_payload (volume s))")
    case False
    then show ?thesis using s by (auto simp: append_impl_def not_le)
  next
    case True
    let ?max = "unat (vh_max_block_payload (volume s))" and ?n = "view_size item"
    have bld: "length (builder s) \<le> ?max" using inv [OF s] by (simp add: store_inv_def base_inv_def core_inv_def builder_ok_def)
    have len: "length (view_bytes item) = ?n" "view_bytes item \<noteq> []"
      using True view_size_bytes [of item] by (auto simp: view_empty_def)
    have first: "wp (if (of_nat ?n :: u64) > ucast (vh_max_block_payload (volume s)) - of_nat (length (builder s))
          then emit_builder env else return_op ())
        (\<lambda>_ t. I t \<and> \<not> faulted t \<and> volume t = volume s \<and> length (builder t) + ?n \<le> ?max) (\<lambda>_. I) s"
      using s True bld fits_builder [of s ?n] by (auto simp: after_emit_def not_less intro!: wp_mono [OF emit])
    have second: "wp (ensure_empty_builder_capacity env)
        (\<lambda>_ u. I u \<and> \<not> faulted u \<and> room (volume u) (last (partitions u)) \<and>
          length (builder u) + ?n \<le> unat (vh_max_block_payload (volume u))) (\<lambda>_. I) t"
      if "I t" "\<not> faulted t" "volume t = volume s" "length (builder t) + ?n \<le> ?max" for t
      by (rule wp_mono [OF ensure [OF that(1,2)]]) (use that in \<open>auto simp: same_config_def\<close>)
    have third: "wp (case active u of None \<Rightarrow> error_op (Error Internal_error ''missing active partition'')
         | Some state \<Rightarrow> let options = ph_options (ps_header state) in
             if \<not> contract_holds expected options
             then error_op (Error Invalid_argument ''active partition contract changed before append'')
             else modify_op (accept_record env options (view_bytes item) time flags)) (\<lambda>_. I) (\<lambda>_. I) u"
      if "I u" "\<not> faulted u" "room (volume u) (last (partitions u))"
        "length (builder u) + ?n \<le> unat (vh_max_block_payload (volume u))" for u
    proof -
      have "active u = Some (last (partitions u))" using inv [OF that(1)] by (simp add: store_inv_def base_inv_def catalog_active)
      then show ?thesis using that len accept [of u "view_bytes item"] by simp
    qed
    have guards: "writable s" "\<not> closed s" "\<not> faulted s" "\<not> view_empty item" "view_valid item"
      "\<not> ?max < view_size item" using True by auto
    show ?thesis
      unfolding append_impl_def
      apply (simp only: wp_bind wp_get wp_check_writer guards not_True_eq_False not_False_eq_True if_True if_False)
      apply (rule wp_mono [OF first])
       apply (auto intro!: wp_mono [OF second] third)
      done
  qed
qed

lemma keeps_flush: "I t \<Longrightarrow> \<not> faulted t \<Longrightarrow> wp (if b then sync_media env True else return_op ()) (\<lambda>_. I) (\<lambda>_. I) t"
  using sync by simp

lemma keeps_rotate_store: "keeps I (rotate_store env options)"
proof (rule keeps_wp)
  fix s assume s: "I s"
  have rot: "wp (rotate_internal env options) (\<lambda>_. I) (\<lambda>_. I) (t\<lparr>next_options := options\<rparr>)"
    if "I t" "\<not> faulted t" "after_emit s t" "options_ok s options" for t
  proof -
    have "options_ok t options" using that by (simp add: options_ok_def after_emit_def)
    then show ?thesis
      using that next_options [of t options] by (intro wp_mono [OF rotate]) (auto simp: after_emit_def options_ok_def)
  qed
  show "wp (rotate_store env options) (\<lambda>_. I) (\<lambda>_. I) s"
    using s rot by (auto simp: rotate_store_def options_ok_def intro!: wp_mono [OF emit])
qed

end

sublocale kept_by_steps \<subseteq> kept_by_operations env I
proof
  show "keeps I (append env item time flags)" for item time flags by (simp add: append_def keeps_append_impl)
  show "keeps I (append_checked env item time contract flags)" for item time contract flags
    by (simp add: append_checked_def keeps_append_impl keeps_basic)
  show "keeps I (publish env)" by (rule keeps_wp) (auto simp: publish_def intro!: wp_mono [OF emit])
  show "keeps I (checkpoint env)"
    by (rule keeps_wp) (auto simp: checkpoint_def intro!: wp_mono [OF emit] sync)
  show "keeps I (rotate_store env options)" for options by (rule keeps_rotate_store)
  show "keeps I (set_next_partition_options options)" for options
    by (rule keeps_wp) (auto simp: set_next_partition_options_def options_ok_def [symmetric] intro: next_options)
  show "keeps I (close env)"
    by (rule keeps_wp) (auto simp: close_def closing intro!: wp_mono [OF emit] wp_mono [OF sync])
  show "keeps I (store_metrics_of env)" "keeps I (health env)"
    by (auto simp: keeps_def wp_def store_metrics_of_def health_def Let_def clock)
qed (rule header block index gap, assumption?)+

end
