(* ===== verification/Ring_Opened.thy ===== *)
theory Ring_Opened
  imports Ring_Termination Ring_Readback
begin

text \<open>
  What the recovery of a catalog keeps, and what an opened store has: the identifiers it was given,
  and durable media when the medium was durable.
\<close>

section \<open>Opening\<close>

text \<open>Opening keeps what its reads, the creation of a partition and the catalog's updates keep.\<close>

lemma keeps_recover:
  assumes read: "\<And>off n. keeps I (read_media env off n)" and hdr: "\<And>slot. keeps I (read_partition_header env slot)"
    and scan: "\<And>header limit. keeps I (scan_partition env header limit)" and index: "\<And>part. keeps I (load_index env part)"
    and block: "\<And>part e. keeps I (read_block env part e)"
    and create: "\<And>slot generation options. keeps I (create_partition env slot generation options)"
    and parts: "\<And>s ps. I s \<Longrightarrow> I (s\<lparr>partitions := ps\<rparr>)" and slots: "\<And>s cs. I s \<Longrightarrow> I (s\<lparr>corrupt_slots := cs\<rparr>)"
    and settle: "\<And>s. I s \<Longrightarrow> I (settle_catalog s)"
  shows "keeps I (recover_slots env xs g)" "keeps I (recover_store env)"
proof -
  have footer: "keeps I (read_footer env header)" for header
    unfolding read_footer_def by (intro keeps_intros read)
  have damaged: "keeps I (damaged_slot env slot e)" for slot e
    unfolding damaged_slot_def by (intro keeps_intros read) (simp_all add: slots)
  have blocks: "keeps I (verify_blocks env state es)" for state es
    by (induction es) (simp_all only: verify_blocks.simps keeps_intros block)
  have sealed: "keeps I (verify_sealed env state)" for state
    unfolding verify_sealed_def by (intro keeps_intros index scan blocks)
  have part: "keeps I (recover_partition env header)" for header
    unfolding recover_partition_def by (intro keeps_intros scan footer sealed blocks)
  have slot: "keeps I (recover_slot env slot g)" for slot g
    unfolding recover_slot_def by (intro keeps_intros hdr damaged part) (simp_all add: parts)
  show loop: "keeps I (recover_slots env xs g)" for xs g
  proof (induction xs arbitrary: g)
    case (Cons x xs)
    then show ?case by (simp only: recover_slots.simps) (intro keeps_intros slot)
  qed (simp only: recover_slots.simps keeps_intros)
  have start: "keeps I (start_writing env)"
    unfolding start_writing_def by (intro keeps_intros create)
  show "keeps I (recover_store env)" unfolding recover_store_def by (intro keeps_intros loop start) (simp_all add: settle)
qed

section \<open>Durability\<close>

context storage_contract
begin

lemma synced_settle [simp]: "synced (settle_catalog s) = synced s"
  by (simp add: synced_def settle_catalog_def Let_def)

lemma keeps_synced_recover: "env_storage env = st \<Longrightarrow> keeps synced (recover_store env)"
  by (rule keeps_recover(2)) (simp_all add: keeps_read [OF read_closed_synced] keeps_reads [OF read_closed_synced]
      keeps_synced_create, simp_all add: synced_def)

text \<open>A store that was opened comes out of the recovery of its catalog.\<close>

lemma open_recovers:
  assumes env: "env_storage env = st" and good: "good m" and o: "open_store env getrandom options null m = Some (Inr s, m')"
  obtains m2 v hi lo where "good m2" "image m2 = image m" "durable m2 = durable m" "geometry_ok v"
    "unat (vh_volume_size v) \<le> length (image m)"
    "choose_writer_id getrandom options = Some (Inr (hi, lo))"
    "recover_store env (new_impl m2 v options hi lo) = Some (Inr (), s)"
proof -
  obtain r1 d1 m1 where m1: "read_exact st 0 (View (replicate 256 0)) m = Some (r1, d1, m1)" "good m1"
    "image m1 = image m" "durable m1 = durable m"
    using read_exact_correct [OF good, of 0 "replicate 256 0"] by metis
  obtain r2 d2 m2 where m2: "read_exact st 4096 (View (replicate 256 0)) m1 = Some (r2, d2, m2)" "good m2"
    "image m2 = image m1" "durable m2 = durable m1"
    using read_exact_correct [OF m1(2), of 4096 "replicate 256 0"] by metis
  obtain v hi lo where "status_ok (validate_volume_geometry v (storage_size st m2))"
    "choose_writer_id getrandom options = Some (Inr (hi, lo))" "recover_store env (new_impl m2 v options hi lo) = Some (Inr (), s)"
    using o by (auto simp: open_store_def env m1(1) m2(1) Let_def split: if_split_asm sum.splits option.splits)
  moreover from this(1) have "\<not> vh_volume_size v > storage_size st m2"
    unfolding validate_volume_geometry_def by (simp split: if_split_asm)
  ultimately show ?thesis
    using that [of m2 v hi lo] m1 m2 size_image [OF m2(2)] by (auto simp: geometry_ok_def word_less_nat_alt)
qed

lemma open_synced:
  assumes env: "env_storage env = st" and m: "good m" "durable m = image m"
    and o: "open_store env getrandom options null m = Some (Inr s, m')"
  shows "synced s"
proof -
  obtain m2 v hi lo where m2: "good m2" "image m2 = image m" "durable m2 = durable m"
    and r: "recover_store env (new_impl m2 v options hi lo) = Some (Inr (), s)"
    using open_recovers [OF env m(1) o] by metis
  have "synced (new_impl m2 v options hi lo)" using m m2 by (simp add: synced_def new_impl_def)
  then show ?thesis using keepsD [OF keeps_synced_recover [OF env] _ r] by blast
qed

end

lemma keeps_configured_recover:
  "keeps (configured s0) (recover_slots env xs g)" "keeps (configured s0) (recover_store env)"
proof -
  have reads: "keeps (configured s0) (read_partition_header env slot)" "keeps (configured s0) (scan_partition env header limit)"
    "keeps (configured s0) (load_index env part)" "keeps (configured s0) (read_block env part e)" for slot header limit part e
    by (intro keeps_configured_reads only_media_intros)+
  note rec = keeps_recover [of "configured s0" env]
  show "keeps (configured s0) (recover_slots env xs g)" "keeps (configured s0) (recover_store env)"
    by (rule rec; (simp only: reads keeps_configured_media keeps_configured_internal)?;
      (simp add: configured_def settle_catalog_def Let_def)?)+
qed

end
