(* ===== verification/Ring_Frames.thy ===== *)
theory Ring_Frames
  imports Ring_Device Ring_Steps Ring_Opened
begin

text \<open>
  What is on the medium of a writer that has not failed: the header of its active partition, and one
  frame after the other behind it, exactly those of the index in memory. So a rescan of the medium
  finds every published block again.
\<close>

section \<open>The frames of a partition on an image\<close>

definition block_at :: "volume_header \<Rightarrow> partition_header \<Rightarrow> bytes \<Rightarrow> u64 \<Rightarrow> scan_position \<Rightarrow> block_header option" where
  "block_at v header img limit at =
     (let off = partition_base v (ph_slot header) + sp_cursor at in
      case decode_block_header (sub_bytes img (unat off) 128) False of
        Inl _ \<Rightarrow> None
      | Inr block \<Rightarrow>
          if scan_accepts v header limit at block \<and>
             crc32c (sub_bytes img (unat (off + 128)) (unat (bh_stored_size block))) = bh_payload_crc block
          then Some block else None)"

fun chain :: "volume_header \<Rightarrow> partition_header \<Rightarrow> bytes \<Rightarrow> u64 \<Rightarrow> scan_position \<Rightarrow> block_header list \<Rightarrow> scan_position \<Rightarrow> bool" where
  "chain v header img limit at [] at' \<longleftrightarrow> at' = at"
| "chain v header img limit at (block # blocks) at' \<longleftrightarrow>
     sp_cursor at + 128 \<le> limit \<and> block_at v header img limit at = Some block \<and>
     chain v header img limit (scan_next at block) blocks at'"

fun entries_from :: "scan_position \<Rightarrow> block_header list \<Rightarrow> index_entry list" where
  "entries_from at [] = []"
| "entries_from at (block # blocks) = scan_entry (sp_cursor at) block # entries_from (scan_next at block) blocks"

definition framed :: "volume_header \<Rightarrow> bytes \<Rightarrow> partition_state \<Rightarrow> bool" where
  "framed v img p \<longleftrightarrow> (\<exists>blocks at. chain v (ps_header p) img (index_begin v) scan_start blocks at \<and>
     ps_active_index p = entries_from scan_start blocks \<and> sp_cursor at = ps_data_end p)"

lemma block_at_accepts: "block_at v header img limit at = Some block \<Longrightarrow> scan_accepts v header limit at block"
  by (auto simp: block_at_def Let_def split: sum.splits if_splits)

lemma scan_next_cursor:
  assumes "scan_accepts v header limit at block" "sp_cursor at \<le> limit"
  shows "unat (sp_cursor (scan_next at block)) = unat (sp_cursor at) + unat (bh_frame_span block)"
    "sp_cursor at \<le> sp_cursor (scan_next at block)" "sp_cursor (scan_next at block) \<le> limit"
    "128 + unat (bh_stored_size block) \<le> unat (bh_frame_span block)"
proof -
  let ?span = "ucast (bh_frame_span block) :: u64"
  have span: "?span \<le> limit - sp_cursor at" by (rule scan_accepts_span(1) [OF assms(1)])
  show sum: "unat (sp_cursor (scan_next at block)) = unat (sp_cursor at) + unat (bh_frame_span block)"
    using span assms(2) unat_u64_less [of limit] by (simp add: scan_next_def unat_word_ariths word_le_nat_alt unat_sub)
  show "sp_cursor at \<le> sp_cursor (scan_next at block)" using sum by (simp add: word_le_nat_alt)
  show "sp_cursor (scan_next at block) \<le> limit"
    using sum span assms(2) by (simp add: word_le_nat_alt unat_sub)
  have "align_up (128 + ucast (bh_stored_size block)) (vh_persistence_quantum v) = (?span, False)"
    using assms(1) by (auto simp: scan_accepts_def Let_def split: prod.splits)
  from align_up_ok(1) [OF this] show "128 + unat (bh_stored_size block) \<le> unat (bh_frame_span block)"
    using unat_u32_less [of "bh_stored_size block"] by (simp add: unat_word_ariths)
qed

lemma chain_cursor:
  "chain v header img limit at blocks at' \<Longrightarrow> sp_cursor at \<le> limit \<Longrightarrow> sp_cursor at \<le> sp_cursor at' \<and> sp_cursor at' \<le> limit"
proof (induction blocks arbitrary: at)
  case (Cons block blocks)
  then show ?case using scan_next_cursor(2,3) [OF block_at_accepts] by (fastforce intro: order_trans)
qed simp

lemma chain_snoc:
  "chain v header img limit at blocks at' \<Longrightarrow> sp_cursor at' + 128 \<le> limit \<Longrightarrow> block_at v header img limit at' = Some block \<Longrightarrow>
    chain v header img limit at (blocks @ [block]) (scan_next at' block)"
  by (induction blocks arbitrary: at) auto

lemma entries_snoc:
  "chain v header img limit at blocks at' \<Longrightarrow>
    entries_from at (blocks @ [block]) = entries_from at blocks @ [scan_entry (sp_cursor at') block]"
  by (induction blocks arbitrary: at) auto

lemma chain_position:
  "chain v header img limit at blocks at' \<Longrightarrow> sp_sequence at' = sp_sequence at + of_nat (length blocks) \<and>
    sp_writer_high at' = (if blocks = [] then sp_writer_high at else ie_writer_id_high (last (entries_from at blocks))) \<and>
    sp_writer_low at' = (if blocks = [] then sp_writer_low at else ie_writer_id_low (last (entries_from at blocks)))"
proof (induction blocks arbitrary: at)
  case (Cons block blocks)
  then have "sp_sequence at' = sp_sequence (scan_next at block) + of_nat (length blocks) \<and>
    sp_writer_high at' = (if blocks = [] then sp_writer_high (scan_next at block) else ie_writer_id_high (last (entries_from (scan_next at block) blocks))) \<and>
    sp_writer_low at' = (if blocks = [] then sp_writer_low (scan_next at block) else ie_writer_id_low (last (entries_from (scan_next at block) blocks)))"
    by simp
  then show ?case by (cases blocks) (auto simp: scan_next_def scan_entry_def algebra_simps)
qed simp

lemma length_entries_from [simp]: "length (entries_from at blocks) = length blocks"
  by (induction blocks arbitrary: at) auto

text \<open>The frames depend on nothing but their own bytes.\<close>

lemma chain_agree:
  assumes geo: "geometry_ok v" "ph_slot header < vh_partition_count v" "limit \<le> index_begin v"
    and agree: "agree_outside A img img'"
  shows "chain v header img limit at blocks at' \<Longrightarrow> sp_cursor at \<le> limit \<Longrightarrow>
    A \<inter> {unat (partition_base v (ph_slot header)) + unat (sp_cursor at)..<unat (partition_base v (ph_slot header)) + unat (sp_cursor at')} = {} \<Longrightarrow>
    chain v header img' limit at blocks at'"
proof (induction blocks arbitrary: at)
  case (Cons block blocks)
  let ?base = "partition_base v (ph_slot header)"
  have b: "block_at v header img limit at = Some block" "sp_cursor at + 128 \<le> limit"
    and c: "chain v header img limit (scan_next at block) blocks at'" using Cons.prems(1) by auto
  note n = scan_next_cursor [OF block_at_accepts [OF b(1)] Cons.prems(2)]
  have ends: "unat (sp_cursor at) + unat (bh_frame_span block) \<le> unat (sp_cursor at')"
    using chain_cursor [OF c n(3)] n(1) by (simp add: word_le_nat_alt)
  have size: "unat limit \<le> unat (vh_partition_size v)"
    using geo(3) geometry_okD(5) [OF geo(1)] by (simp add: word_le_nat_alt)
  have c128: "unat (sp_cursor at + 128) = unat (sp_cursor at) + 128"
    using n ends chain_cursor [OF c n(3)] unat_u64_less [of limit] by (simp add: unat_word_ariths word_le_nat_alt)
  have off: "unat (?base + sp_cursor at) = unat ?base + unat (sp_cursor at)"
    "unat (?base + sp_cursor at + 128) = unat ?base + unat (sp_cursor at) + 128"
    using unat_in_partition [OF geo(1,2), of "sp_cursor at"] unat_in_partition [OF geo(1,2), of "sp_cursor at + 128"]
      Cons.prems(2) b(2) size c128 by (simp_all add: word_le_nat_alt add.assoc)
  have same: "sub_bytes img' (unat ?base + unat (sp_cursor at) + k) m = sub_bytes img (unat ?base + unat (sp_cursor at) + k) m"
    if "k + m \<le> unat (bh_frame_span block)" for k m
    using Cons.prems(3) that ends by (intro agree_outside_sub_bytes [OF agree]) auto
  have "block_at v header img' limit at = Some block"
    using b(1) same [of 0 128] n(4) unfolding block_at_def Let_def off
    by (auto split: sum.splits if_splits) (use same [of 128 "unat (bh_stored_size block)"] in simp)+
  moreover have "chain v header img' limit (scan_next at block) blocks at'"
    using Cons.prems(3) n by (intro Cons.IH [OF c n(3)]) (auto simp: word_le_nat_alt)
  ultimately show ?case using b(2) by simp
qed simp

lemma framed_new: "framed v img (new_partition_state header)"
  unfolding framed_def by (intro exI [of _ "[]"] exI [of _ scan_start]) (simp add: new_partition_state_def scan_start_def)

section \<open>Emission\<close>

lemma select_payload_cases:
  assumes "select_payload c options raw = Inr (payload, selected, version)" "raw \<noteq> []"
  shows "payload \<noteq> []" "length payload \<le> length raw"
    "selected = Compression_none \<and> version = 1 \<and> payload = raw \<or>
     selected \<noteq> Compression_none \<and> selected = po_compression options \<and> version = codec_version c"
  using assms by (auto simp: select_payload_def split: if_splits sum.splits)

text \<open>The block a writer emits is the one a scan expects at the end of the data.\<close>

lemma emitted_accepted:
  assumes inv: "store_inv s" "\<not> faulted s" "builder s \<noteq> []"
    and c: "codec_for (open_options s) (po_compression (ph_options (ps_header p))) (po_compression_version (ph_options (ps_header p))) = Some c"
    and sel: "select_payload c (ph_options (ps_header p)) (builder s) = Inr (payload, selected, version)"
    and al: "align_up (128 + of_nat (length payload)) (vh_persistence_quantum (volume s)) = (span, False)"
    and small: "\<not> 128 + of_nat (length payload) > (0xffffffff :: u64)" "\<not> span > 0xffffffff"
    and fit: "\<not> ps_data_end p > index_begin (volume s)" "\<not> span > index_begin (volume s) - ps_data_end p"
    and at: "sp_cursor at = ps_data_end p" "sp_sequence at = of_nat (length (ps_active_index p))"
      "sp_writer_high at = (if ps_active_index p \<noteq> [] then ie_writer_id_high (last (ps_active_index p)) else 0)"
      "sp_writer_low at = (if ps_active_index p \<noteq> [] then ie_writer_id_low (last (ps_active_index p)) else 0)"
    and p: "p = last (partitions s)"
  shows "scan_accepts (volume s) (ps_header p) (index_begin (volume s)) at (new_block_header s p payload selected version span)"
    "sp_cursor at + 128 \<le> index_begin (volume s)"
proof -
  let ?b = "new_block_header s p payload selected version span" and ?v = "volume s"
  note pay = select_payload_cases [OF sel inv(3)]
  have bld: "builder_ok s" "index_ok ?v p" using inv p by (simp_all add: store_inv_def base_inv_def core_inv_def)
  have lt: "length (builder s) \<le> unat (vh_max_block_payload ?v)" "length (builder s) < 2 ^ 32"
    using bld(1) unat_u32_less [of "vh_max_block_payload ?v"] by (simp_all add: builder_ok_def)
  have sizes: "unat (bh_stored_size ?b) = length payload" "unat (bh_raw_size ?b) = length (builder s)"
    using lt pay(2) by (simp_all add: new_block_header_def unat_of_nat)
  then have stored: "(ucast (bh_stored_size ?b) :: u64) = of_nat (length payload)"
    using lt pay(2) by (simp add: word_unat_eq_iff unat_of_nat)
  have span32: "unat (ucast span :: u32) = unat span"
    using small(2) by (simp add: unsigned_ucast_eq take_bit_nat_eq_self_iff word_less_nat_alt)
  then have span: "(ucast (bh_frame_span ?b) :: u64) = span" by (simp add: new_block_header_def word_unat_eq_iff)
  have frame: "unat (128 + of_nat (length payload) :: u64) = 128 + length payload"
    using lt pay(2) by (simp add: unat_word_ariths unat_of_nat)
  note aligned = align_up_ok [OF al]
  have q: "bh_frame_span ?b mod vh_persistence_quantum ?v = 0"
    using aligned(2) span32 by (simp add: word_unat_eq_iff unat_mod new_block_header_def mod_eq_0_iff_dvd)
  have "version = po_compression_version (ph_options (ps_header p))" if "selected \<noteq> Compression_none"
    using pay(3) that codec_for_version [OF c] by simp
  then have comp: "\<not> (selected \<noteq> Compression_none \<and> (selected \<noteq> po_compression (ph_options (ps_header p)) \<or>
      version \<noteq> po_compression_version (ph_options (ps_header p)))) \<and>
    \<not> (selected = Compression_none \<and> (bh_stored_size ?b \<noteq> bh_raw_size ?b \<or> version \<noteq> 1))"
    using pay(3) by (auto simp: new_block_header_def)
  have "bh_stored_size ?b \<le> vh_max_block_payload ?v" "bh_raw_size ?b \<le> vh_max_block_payload ?v"
    using sizes lt pay(2) by (simp_all add: word_le_nat_alt)
  then show "scan_accepts ?v (ps_header p) (index_begin ?v) at ?b"
    using bld inv(3) comp q fit al at stored span
    by (simp add: scan_accepts_def builder_ok_def index_ok_def not_less word_sless_alt word_sle_eq)
      (simp add: new_block_header_def word_sless_alt word_sle_eq)
  have "128 \<le> unat span" using aligned(1) frame by simp
  then show "sp_cursor at + 128 \<le> index_begin ?v"
    using fit at(1) unat_u64_less [of "index_begin ?v"] by (simp add: not_less word_le_nat_alt unat_sub unat_word_ariths)
qed

text \<open>And the index entry in memory is the one a scan derives from it.\<close>

lemma emitted_entry:
  assumes "length payload < 2 ^ 32" "\<not> 128 + of_nat (length payload) > (0xffffffff :: u64)" "\<not> span > 0xffffffff"
  shows "new_index_entry p (new_block_header s p payload selected version span) (128 + of_nat (length payload)) span =
      scan_entry (ps_data_end p) (new_block_header s p payload selected version span)"
    "ucast (bh_frame_span (new_block_header s p payload selected version span)) = span"
proof -
  let ?b = "new_block_header s p payload selected version span"
  have frame: "unat (128 + of_nat (length payload) :: u64) = 128 + length payload"
    using assms(1) by (simp add: unat_word_ariths unat_of_nat)
  then have lt: "128 + length payload < 2 ^ 32" using assms(2) by (simp add: word_less_nat_alt)
  then have "(ucast (128 + of_nat (length payload) :: u64) :: u32) = 128 + bh_stored_size ?b"
    using frame by (simp add: word_unat_eq_iff unsigned_ucast_eq take_bit_nat_eq_self_iff unat_word_ariths unat_of_nat new_block_header_def)
  then show "new_index_entry p ?b (128 + of_nat (length payload)) span = scan_entry (ps_data_end p) ?b"
    by (simp add: new_index_entry_def scan_entry_def) (simp add: new_block_header_def)
  have "unat (ucast span :: u32) = unat span"
    using assms(3) by (simp add: unsigned_ucast_eq take_bit_nat_eq_self_iff word_less_nat_alt)
  then show "ucast (bh_frame_span ?b) = span" by (simp add: new_block_header_def word_unat_eq_iff)
qed

context storage_contract
begin

lemma emitted_framed:
  assumes env: "env_storage env = st" and inv: "store_inv s" "\<not> faulted s" "good (media s)" "builder s \<noteq> []"
    and writer: "writer_id_high s \<noteq> 0 \<or> writer_id_low s \<noteq> 0"
    and f: "framed (volume s) (image (media s)) (last (partitions s))"
    and e: "emit_builder env s = Some (Inr (), s1)"
  shows "framed (volume s1) (image (media s1)) (last (partitions s1))"
proof -
  let ?p = "last (partitions s)" and ?v = "volume s"
  let ?base = "partition_base ?v (ph_slot (ps_header ?p))"
  obtain c payload selected version span m where
    c: "codec_for (open_options s) (po_compression (ph_options (ps_header ?p))) (po_compression_version (ph_options (ps_header ?p))) = Some c"
    and sel: "select_payload c (ph_options (ps_header ?p)) (builder s) = Inr (payload, selected, version)"
    and al: "align_up (128 + of_nat (length payload)) (vh_persistence_quantum ?v) = (span, False)"
    and small: "\<not> 128 + of_nat (length payload) > (0xffffffff :: u64)" "\<not> span > 0xffffffff"
    and fit: "\<not> ps_data_end ?p > index_begin ?v" "\<not> span > index_begin ?v - ps_data_end ?p"
    and s1: "s1 = note_published (new_index_entry ?p (new_block_header s ?p payload selected version span)
        (128 + of_nat (length payload)) span) span (128 + length payload) (s\<lparr>media := m\<rparr>)"
    and m: "good m" "image m = blit (image (media s)) (unat (?base + ps_data_end ?p))
        (encode_block_header (new_block_header s ?p payload selected version span) @ payload)"
      "unat (?base + ps_data_end ?p) + (128 + length payload) \<le> length (image (media s))"
    using emit_result [OF env inv(1,3,4) e] by metis
  let ?b = "new_block_header s ?p payload selected version span"
  let ?frame = "encode_block_header ?b @ payload" and ?off = "?base + ps_data_end ?p"
  have cat: "catalog_ok s" "builder_ok s" "geometry_ok ?v" using inv(1) by (simp_all add: store_inv_def base_inv_def core_inv_def)
  have slot: "ph_slot (ps_header ?p) < vh_partition_count ?v" by (rule slot_lt [OF inv(1) last_header_in [OF inv(1)]])
  obtain blocks at where ch: "chain ?v (ps_header ?p) (image (media s)) (index_begin ?v) scan_start blocks at"
    and idx: "ps_active_index ?p = entries_from scan_start blocks" and cur: "sp_cursor at = ps_data_end ?p"
    using f by (auto simp: framed_def)
  have empty: "ps_active_index ?p = [] \<longleftrightarrow> blocks = []" by (metis idx length_0_conv length_entries_from)
  have pos: "sp_sequence at = of_nat (length (ps_active_index ?p))"
    "sp_writer_high at = (if ps_active_index ?p \<noteq> [] then ie_writer_id_high (last (ps_active_index ?p)) else 0)"
    "sp_writer_low at = (if ps_active_index ?p \<noteq> [] then ie_writer_id_low (last (ps_active_index ?p)) else 0)"
    using chain_position [OF ch] empty idx by (simp_all add: scan_start_def)
  note acc = emitted_accepted [OF inv(1,2,4) c sel al small fit cur pos refl]
  note pay = select_payload_cases [OF sel inv(4)]
  note wf = new_block_header_wf [OF cat(2) inv(4) writer pay(1,2) al small]
  have "unat (ps_data_end ?p) \<le> unat (vh_partition_size ?v)"
    using fit(1) geometry_okD(5) [OF cat(3)] by (simp add: word_le_nat_alt not_less)
  note off = unat_in_partition [OF cat(3) slot this]
  have len: "length ?frame = 128 + length payload" by simp
  have off128: "unat (?off + 128) = unat ?off + 128"
    using m(3) image_less [OF inv(3)] by (simp add: unat_word_ariths)
  have frame: "frame_in (image m) (unat ?off) ?b payload" using m(2,3) by (simp add: frame_in_def blit_simps)
  have new: "block_at ?v (ps_header ?p) (image m) (index_begin ?v) at = Some ?b"
    using frame_inD [OF frame] decode_encode_block_header [OF wf(1)] acc(1) wf(2)
    by (simp add: block_at_def Let_def cur off128) (simp add: new_block_header_def)
  have old: "chain ?v (ps_header ?p) (image m) (index_begin ?v) scan_start blocks at"
  proof (rule chain_agree [OF cat(3) slot order_refl _ ch])
    show "agree_outside {unat ?off..<unat ?off + length ?frame} (image (media s)) (image m)"
      using agree_outside_blit [of "unat ?off" ?frame _ "image (media s)" "length ?frame"] m(2) by simp
    show "sp_cursor scan_start \<le> index_begin ?v" using geometry_okD(6) [OF cat(3)] by (simp add: scan_start_def)
  qed (auto simp: cur off)
  have "length payload < 2 ^ 32" using pay(2) cat(2) unat_u32_less [of "vh_max_block_payload ?v"] by (simp add: builder_ok_def)
  note entry = emitted_entry [OF this small]
  have p1: "last (partitions s1) = push_entry (new_index_entry ?p ?b (128 + of_nat (length payload)) span) span ?p"
    using note_published_partitions [of "s\<lparr>media := m\<rparr>"] cat(1) by (simp add: s1 catalog_ok_def is_active_def headers_def)
  have "ps_active_index (last (partitions s1)) = entries_from scan_start (blocks @ [?b])"
    "ps_data_end (last (partitions s1)) = sp_cursor (scan_next at ?b)" "ps_header (last (partitions s1)) = ps_header ?p"
    using entries_snoc [OF ch] idx by (simp_all add: p1 scan_next_def cur entry)
  moreover have "volume s1 = ?v" "image (media s1) = image m" by (simp_all add: s1)
  ultimately show ?thesis using chain_snoc [OF old acc(2) new] unfolding framed_def by metis
qed

end

section \<open>The header\<close>

text \<open>A reader of the slot accepts the header and finds the partition's identity and options; the feature
  list of a header that was just created is not kept in memory.\<close>

definition header_found :: "volume_header \<Rightarrow> open_options \<Rightarrow> bytes \<Rightarrow> partition_state \<Rightarrow> bool" where
  "header_found v oo img p \<longleftrightarrow> (\<exists>h. slot_base v p + 1024 \<le> length img \<and>
     decode_partition_header (sub_bytes img (slot_base v p) 1024) False = Inr h \<and>
     status_ok (accept_partition_header v oo (ph_slot (ps_header p)) h) \<and>
     h\<lparr>ph_features := []\<rparr> = (ps_header p)\<lparr>ph_features := []\<rparr>)"

text \<open>A codec of version zero would be accepted and written, but no reader accepts its header.\<close>

definition versions_ok :: "open_options \<Rightarrow> bool" where
  "versions_ok oo \<longleftrightarrow> (\<forall>c. Some c \<in> set (oo_compression_codecs oo) \<longrightarrow> codec_version c \<noteq> 0)"

lemma codec_version_nonzero: "versions_ok oo \<Longrightarrow> codec_for oo cid version = Some c \<Longrightarrow> version \<noteq> 0"
  using candidate_codec_in [of "oo_compression_codecs oo" cid version c] candidate_codec_version [of "oo_compression_codecs oo" cid version c]
  by (auto simp: codec_for_def versions_ok_def built_in_codec_def none_codec_def packbits_codec_def lz4_block_codec_def
      split: option.splits if_splits)

lemma core_features_accepted:
  assumes "geometry_ok v"
  shows "check_features v (core_features options (vh_partition_size v) (vh_index_region_size v)) = Ok"
proof -
  note g = geometry_okD(5) [OF assms]
  have "vh_partition_size v - index_begin v = 4096 + ucast (vh_index_region_size v)" by (simp add: index_begin_def)
  moreover have "\<not> vh_partition_size v < index_begin v" using g by (simp add: word_less_nat_alt)
  moreover have "\<not> 4096 + ucast (vh_index_region_size v) < (ucast (vh_index_region_size v) :: u64)"
    using unat_u32_less [of "vh_index_region_size v"] by (simp add: word_less_nat_alt unat_word_ariths)
  moreover have "vh_partition_size v - 4096 - ucast (vh_index_region_size v) = index_begin v" by (simp add: index_begin_def)
  ultimately show ?thesis
    by (simp add: core_features_def check_feature_def Let_def)
qed

lemma new_header_found:
  assumes geo: "geometry_ok v" and opts: "status_ok (validate_partition_options oo options)" "versions_ok oo"
    and img: "unat (partition_base v slot) + 1024 \<le> length img" "sub_bytes img (unat (partition_base v slot)) 1024 =
      encode_partition_header (new_partition_header v slot generation options) (vh_partition_size v) (vh_index_region_size v)"
  shows "header_found v oo img (new_partition_state (new_partition_header v slot generation options))"
proof -
  let ?k = "new_partition_header v slot generation options"
  have "options_encodable options"
    using opts codec_version_nonzero [OF opts(2)]
    by (auto simp: options_encodable_def validate_partition_options_def Option.is_none_def split: if_splits)
  then have "options_encodable (ph_options ?k)" "vh_index_region_size v \<noteq> 0"
    using geometry_okD(3) [OF geo] by (auto simp: new_partition_header_def)
  from decode_encode_partition_header [OF this, of "vh_partition_size v"]
  have "decode_partition_header (sub_bytes img (unat (partition_base v slot)) 1024) False =
      Inr (?k\<lparr>ph_features := core_features options (vh_partition_size v) (vh_index_region_size v)\<rparr>)"
    unfolding img(2) by (simp add: new_partition_header_def)
  moreover have "status_ok (accept_partition_header v oo slot (?k\<lparr>ph_features := core_features options (vh_partition_size v) (vh_index_region_size v)\<rparr>))"
    using opts(1) core_features_accepted [OF geo] by (simp add: accept_partition_header_def new_partition_header_def)
  ultimately show ?thesis
    using img(1) by (auto simp: header_found_def slot_base_def new_partition_state_def new_partition_header_def)
qed

lemma header_found_agree:
  assumes "header_found v oo img p" "agree_outside A img img'" "A \<inter> {slot_base v p..<slot_base v p + 1024} = {}"
  shows "header_found v oo img' p"
proof -
  have "sub_bytes img' (slot_base v p) 1024 = sub_bytes img (slot_base v p) 1024"
    using assms(3) by (intro agree_outside_sub_bytes [OF assms(2)]) auto
  then show ?thesis using assms(1,2) by (simp add: header_found_def agree_outside_def)
qed

section \<open>The invariant\<close>

context storage_contract
begin

lemma wp_create_header:
  assumes env: "env_storage env = st" and good: "good (media s)"
  shows "wp (create_partition env slot generation options) (\<lambda>_ t.
      unat (partition_base (volume s) slot) + 1024 \<le> length (image (media t)) \<and>
      sub_bytes (image (media t)) (unat (partition_base (volume s) slot)) 1024 =
      encode_partition_header (new_partition_header (volume s) slot generation options) (vh_partition_size (volume s))
        (vh_index_region_size (volume s))) (\<lambda>_ _. True) s"
proof -
  let ?data = "encode_partition_header (new_partition_header (volume s) slot generation options) (vh_partition_size (volume s))
        (vh_index_region_size (volume s))"
  let ?P = "\<lambda>t. unat (partition_base (volume s) slot) + 1024 \<le> length (image (media t)) \<and>
      sub_bytes (image (media t)) (unat (partition_base (volume s) slot)) 1024 = ?data"
  have len: "length ?data = 1024" by simp
  then have ne: "?data \<noteq> []" by (metis list.size(3) zero_neq_numeral)
  have written: "?P (s\<lparr>media := m\<rparr>)" if "image m = blit (image (media s)) (unat (partition_base (volume s) slot)) ?data"
    "?data \<noteq> [] \<Longrightarrow> unat (partition_base (volume s) slot) + length ?data \<le> length (image (media s))" for m
    using that(1) that(2) [OF ne] len by (simp add: blit_simps)
  have sync: "wp (sync_media env False) (\<lambda>_. ?P) (\<lambda>_ _. True) t" if "?P t" "good (media t)" for t
    using that by (intro media_in_sync [OF env]) auto
  have wrote: "wp (write_media env (partition_base (volume s) slot) ?data) (\<lambda>_ t. ?P t \<and> good (media t)) (\<lambda>_ _. True) s"
    using written by (intro media_in_write [OF env good]) auto
  show ?thesis
    unfolding create_partition_def wp_bind [of get_op] wp_get Let_def
    using len by (auto intro!: wp_mono [OF wrote] wp_mono [OF sync])
qed

lemma wp_rotate_header:
  assumes env: "env_storage env = st" and inv: "store_inv s" "\<not> faulted s" "good (media s)"
  shows "wp (rotate_internal env options) (\<lambda>_ t.
      unat (partition_base (volume s) (next_slot s)) + 1024 \<le> length (image (media t)) \<and>
      sub_bytes (image (media t)) (unat (partition_base (volume s) (next_slot s))) 1024 =
      encode_partition_header (new_partition_header (volume s) (next_slot s) (ph_generation (ps_header (last (partitions s))) + 1) options)
        (vh_partition_size (volume s)) (vh_index_region_size (volume s))) (\<lambda>_ _. True) s"
proof -
  have b: "base_inv s" "\<not> ps_sealed (last (partitions s))" "index_ok (volume s) (last (partitions s))"
    using inv by (simp_all add: store_inv_def)
  have act: "active s = Some (last (partitions s))" using b(1) by (simp add: base_inv_def catalog_active)
  have m: "media_in UNIV (image (media s)) s" using inv(3) by (simp add: media_in_def)
  have "wp (seal_active_only env) (\<lambda>_ t. volume t = volume s) (\<lambda>_ _. True) s"
    by (rule wp_seal_active_only [OF b(1) inv(2) b(2)]) (simp_all add: same_but_seal_def)
  then have seal: "wp (seal_active_only env) (\<lambda>_ t. volume t = volume s \<and> media_in UNIV (image (media s)) t) (\<lambda>_ t. True \<and> media_in UNIV (image (media s)) t) s"
    by (rule wp_both [OF _ media_in_seal [OF env m b(1,3)]]) simp
  show ?thesis
    unfolding rotate_internal_def wp_bind [of get_op] wp_get act option.case
    by (auto simp: next_slot_def [symmetric] media_in_def intro!: wp_mono [OF seal] wp_mono [OF wp_create_header [OF env]])
qed

definition active_recorded :: "'s impl \<Rightarrow> bool" where
  "active_recorded s \<longleftrightarrow> header_found (volume s) (open_options s) (image (media s)) (last (partitions s)) \<and>
     framed (volume s) (image (media s)) (last (partitions s))"

definition recorded :: "'s impl \<Rightarrow> bool" where
  "recorded s \<longleftrightarrow> store_inv s \<and> good (media s) \<and> (writer_id_high s \<noteq> 0 \<or> writer_id_low s \<noteq> 0) \<and>
     versions_ok (open_options s) \<and> (faulted s \<or> active_recorded s)"

lemma recorded_same:
  assumes "recorded s" "store_inv t" "good (media t)" "image (media t) = image (media s)" "partitions t = partitions s"
    "configured s t" "faulted s \<longrightarrow> faulted t"
  shows "recorded t"
  using assms by (auto simp: recorded_def active_recorded_def configured_def)

lemma recorded_emit:
  assumes env: "env_storage env = st" and s: "recorded s" "\<not> faulted s"
  shows "wp (emit_builder env) (\<lambda>_ t. recorded t \<and> \<not> faulted t \<and> after_emit s t) (\<lambda>_. recorded) s"
proof -
  let ?p = "last (partitions s)" and ?v = "volume s"
  have r: "store_inv s" "good (media s)" "writer_id_high s \<noteq> 0 \<or> writer_id_low s \<noteq> 0" "versions_ok (open_options s)"
    "header_found ?v (open_options s) (image (media s)) ?p" "framed ?v (image (media s)) ?p"
    using s by (simp_all add: recorded_def active_recorded_def)
  have start: "media_in (tail_region ?v ?p) (image (media s)) s" using r(2) by (simp add: media_in_def)
  have cfg: "wp (emit_builder env) (\<lambda>_. configured s) (\<lambda>_. configured s) s"
    by (rule wp_keeps [OF keeps_configured_internal(6)]) simp
  have inv: "wp (emit_builder env) (\<lambda>_ t. store_inv t \<and> \<not> faulted t \<and> after_emit s t \<and> (builder s = [] \<longrightarrow> t = s))
      (\<lambda>_ t. store_inv t \<and> (faulted t \<or> t = s)) s"
    by (rule wp_emit_builder [OF r(1) s(2)]) auto
  have region: "tail_region ?v ?p \<inter> {slot_base ?v ?p..<slot_base ?v ?p + 1024} = {}"
    using r(1) s(2) by (auto simp: tail_region_def store_inv_def index_ok_def word_le_nat_alt)
  have good: "recorded t"
    if t: "emit_builder env s = Some (Inr (), t)" "store_inv t" "\<not> faulted t" "after_emit s t" "builder s = [] \<longrightarrow> t = s"
      "configured s t" "media_in (tail_region ?v ?p) (image (media s)) t" for t
  proof (cases "builder s = []")
    case False
    have h: "ps_header (last (partitions t)) = ps_header ?p"
      using t(4) keys_le_step(2) [of s t] store_inv_nonempty [OF r(1)] by (simp add: after_emit_def)
    have "header_found ?v (open_options s) (image (media t)) ?p"
      using header_found_agree [OF r(5) _ region] t(7) by (simp add: media_in_def)
    then have "header_found (volume t) (open_options t) (image (media t)) (last (partitions t))"
      using t(6) h by (simp add: header_found_def configured_def slot_base_def)
    then show ?thesis
      using emitted_framed [OF env r(1) s(2) r(2) False r(3,6) t(1)] t r by (simp add: recorded_def active_recorded_def configured_def media_in_def)
  qed (use t s in simp)
  show ?thesis
  proof (rule wpI)
    fix a t assume e: "emit_builder env s = Some (Inr a, t)"
    then show "recorded t \<and> \<not> faulted t \<and> after_emit s t"
      using wpD(1) [OF inv e] wpD(1) [OF cfg e] wpD(1) [OF media_in_emit [OF env start r(1) s(2)] e] good [of t] by simp
  next
    fix e t assume e: "emit_builder env s = Some (Inl e, t)"
    then show "recorded t"
      using wpD(2) [OF inv e] wpD(2) [OF cfg e] wpD(2) [OF media_in_emit [OF env start r(1) s(2)] e] s r
      by (auto simp: recorded_def configured_def media_in_def)
  qed
qed

lemma recorded_rotate:
  assumes env: "env_storage env = st" and s: "recorded s" "\<not> faulted s" "builder s = []" "options_ok s options"
  shows "wp (rotate_internal env options)
    (\<lambda>_ t. recorded t \<and> \<not> faulted t \<and> same_config s t \<and> room (volume t) (last (partitions t))) (\<lambda>_. recorded) s"
proof -
  let ?k = "new_partition_header (volume s) (next_slot s) (ph_generation (ps_header (last (partitions s))) + 1) options"
  have r: "store_inv s" "good (media s)" "writer_id_high s \<noteq> 0 \<or> writer_id_low s \<noteq> 0" "versions_ok (open_options s)"
    using s by (simp_all add: recorded_def)
  have geo: "geometry_ok (volume s)" using r(1) by (simp add: store_inv_def base_inv_def core_inv_def)
  have inv: "wp (rotate_internal env options) (\<lambda>_ t. store_inv t \<and> \<not> faulted t \<and> same_config s t \<and>
      room (volume t) (last (partitions t)) \<and> last (partitions t) = new_partition_state ?k) (\<lambda>_ t. store_inv t \<and> faulted t) s"
    by (rule wp_rotate_internal [OF r(1) s(2,3,4)]) (auto simp: store_inv_faulted)
  have cfg: "wp (rotate_internal env options) (\<lambda>_. configured s) (\<lambda>_. configured s) s"
    by (rule wp_keeps [OF keeps_configured_internal(3)]) simp
  have good: "wp (rotate_internal env options) (\<lambda>_ t. good (media t)) (\<lambda>_ t. good (media t)) s"
    using wp_keeps [OF returns_keeps [OF returns_writer(3) [OF env]], of s] r(2) by (simp add: on_good_def [abs_def])
  show ?thesis
  proof (rule wpI)
    fix a t assume e: "rotate_internal env options s = Some (Inr a, t)"
    note t = wpD(1) [OF inv e] wpD(1) [OF cfg e] wpD(1) [OF good e] wpD(1) [OF wp_rotate_header [OF env r(1) s(2) r(2)] e]
    have "header_found (volume s) (open_options s) (image (media t)) (new_partition_state ?k)"
      using t(4) s(4) r(4) by (intro new_header_found [OF geo]) (simp_all add: options_ok_def)
    then have "active_recorded t" using t(1,2) framed_new by (simp add: active_recorded_def configured_def)
    then show "recorded t \<and> \<not> faulted t \<and> same_config s t \<and> room (volume t) (last (partitions t))"
      using t r by (auto simp: recorded_def configured_def)
  next
    fix e t assume e: "rotate_internal env options s = Some (Inl e, t)"
    show "recorded t" using wpD(2) [OF inv e] wpD(2) [OF cfg e] wpD(2) [OF good e] r by (simp add: recorded_def configured_def)
  qed
qed

lemma recorded_sync:
  assumes env: "env_storage env = st" and s: "recorded s" "\<not> faulted s"
  shows "wp (sync_media env adv) (\<lambda>_. recorded) (\<lambda>_. recorded) s"
proof -
  have r: "store_inv s" "good (media s)" using s by (simp_all add: recorded_def)
  have inv: "wp (sync_media env adv) (\<lambda>_ t. store_inv t \<and> same_catalog s t \<and> configured s t) (\<lambda>_ t. (store_inv t \<and> faulted t) \<and> configured s t) s"
    using wp_both [OF wp_sync_store [OF r(1) s(2), where Q = "\<lambda>_ t. store_inv t \<and> same_catalog s t" and E = "\<lambda>_ t. store_inv t \<and> faulted t"]
      wp_keeps [OF keeps_configured_sync [of s], of s]] by simp
  have img: "wp (sync_media env adv) (\<lambda>_ t. good (media t) \<and> image (media t) = image (media s)) (\<lambda>_ t. good (media t)) s"
    by (rule media_in_sync [OF env r(2)]) simp_all
  show ?thesis
  proof (rule wpI)
    fix a t assume e: "sync_media env adv s = Some (Inr a, t)"
    then show "recorded t"
      using wpD(1) [OF inv e] wpD(1) [OF img e] s by (intro recorded_same [OF s(1)]) (simp_all add: same_catalog_def)
  next
    fix e t assume e: "sync_media env adv s = Some (Inl e, t)"
    show "recorded t" using wpD(2) [OF inv e] wpD(2) [OF img e] s by (simp add: recorded_def configured_def)
  qed
qed

lemma recorded_kept:
  assumes env: "env_storage env = st"
  shows "kept_by_steps env recorded"
proof
  have closed: "read_closed recorded" by (auto simp: read_closed_def recorded_def active_recorded_def)
  note reads = keeps_reads [OF closed env]
  show "recorded s \<Longrightarrow> store_inv s" for s by (simp add: recorded_def)
  show "recorded s \<Longrightarrow> \<not> faulted s \<Longrightarrow> wp (emit_builder env) (\<lambda>_ t. recorded t \<and> \<not> faulted t \<and> after_emit s t) (\<lambda>_. recorded) s" for s
    by (rule recorded_emit [OF env])
  show "recorded s \<Longrightarrow> \<not> faulted s \<Longrightarrow> builder s = [] \<Longrightarrow> options_ok s options \<Longrightarrow>
      wp (rotate_internal env options) (\<lambda>_ t. recorded t \<and> \<not> faulted t \<and> same_config s t \<and> room (volume t) (last (partitions t))) (\<lambda>_. recorded) s" for s options
    by (rule recorded_rotate [OF env])
  show "recorded s \<Longrightarrow> \<not> faulted s \<Longrightarrow> wp (sync_media env adv) (\<lambda>_. recorded) (\<lambda>_. recorded) s" for s adv
    by (rule recorded_sync [OF env])
  show "recorded (accept_record env options data time flags s)"
    if "recorded s" "\<not> faulted s" "room (volume s) (last (partitions s))" "data \<noteq> []"
      "length (builder s) + length data \<le> unat (vh_max_block_payload (volume s))" for s data options time flags
    using that by (intro recorded_same [OF that(1)] store_inv_accept) (auto simp: recorded_def configured_def accept_record_def Let_def)
  show "recorded (mark_closed s)" if "recorded s" for s
    using that store_inv_mark_closed [of s] by (auto simp: recorded_def active_recorded_def mark_closed_def)
  show "recorded (s\<lparr>next_options := options\<rparr>)" if "recorded s" "options_ok s options" for s options
    using that store_inv_next_options [of s options] by (auto simp: recorded_def active_recorded_def)
  show "recorded (s\<lparr>clock_reads := n\<rparr>)" if "recorded s" for s n using that by (auto simp: recorded_def active_recorded_def)
  show "recorded (count_gap kind s)" if "recorded s" for s kind
    using that store_inv_count_gap [of s kind] by (auto simp: recorded_def active_recorded_def count_gap_def)
  show "keeps recorded (read_partition_header env slot)" "keeps recorded (read_block env part e)"
    "keeps recorded (acquire_index env part)" for slot part e by (intro reads)+
qed

end

end
