(* ===== verification/Ring_Rescan.thy ===== *)
theory Ring_Rescan
  imports Ring_Frames
begin

text \<open>
  Rescanning a medium: a scan delivers the frames on the medium in order and does not stop before their
  end, so the catalog an opened store starts from is the one that is on the medium.
\<close>

section \<open>Opening\<close>

context storage_contract
begin


text \<open>What a scan delivers are the frames on the medium, in order, from its start.\<close>

lemma scan_block_found:
  assumes env: "env_storage env = st" and good: "good (media s)" and r: "scan_block env header limit at s = Some (Inr b, t)"
  shows "b = block_at (volume s) header (image (media s)) limit at"
    "good (media t)" "image (media t) = image (media s)" "volume t = volume s"
proof -
  let ?I = "\<lambda>u. good (media u) \<and> image (media u) = image (media s) \<and> volume u = volume s"
  have closed: "read_closed ?I" by (auto simp: read_closed_def)
  have "keeps ?I (scan_block env header limit at)"
    unfolding scan_block_def by (intro keeps_intros keeps_read [OF closed env])
  from keepsD [OF this _ r] show "good (media t)" "image (media t) = image (media s)" "volume t = volume s" using good by simp_all
  have "wp (scan_block env header limit at) (\<lambda>b _. b = block_at (volume s) header (image (media s)) limit at) (\<lambda>_ _. True) s"
    unfolding scan_block_def wp_bind wp_get Let_def
    by (intro media_in_read [OF env good])
      (auto simp: block_at_def Let_def add.assoc split: sum.split intro!: media_in_read [OF env])
  from wpD(1) [OF this r] show "b = block_at (volume s) header (image (media s)) limit at" .
qed

lemma scan_loop_chain:
  assumes "scan_loop env header limit at es s = Some (Inr (es', data_end, corrupt), t)" "env_storage env = st" "good (media s)"
  shows "\<exists>blocks at'. chain (volume s) header (image (media s)) limit at blocks at' \<and> es' = es @ entries_from at blocks \<and>
    sp_cursor at' = data_end"
  using assms
proof (induction env header limit at es s rule: scan_loop.induct)
  case (1 env header limit at es s)
  show ?case
  proof (cases "sp_cursor at + 128 \<le> limit")
    case False
    then have "es' = es \<and> data_end = sp_cursor at" using 1(2) by (auto simp: scan_loop.simps [of env header limit at es s])
    then show ?thesis by (intro exI [of _ "[]"] exI [of _ at]) simp
  next
    case True
    then obtain b u where sb: "scan_block env header limit at s = Some (Inr b, u)"
      using 1(2) by (auto simp: scan_loop.simps [of env header limit at es s] split: option.splits sum.splits prod.splits)
    note f = scan_block_found [OF 1(3,4) sb]
    show ?thesis
    proof (cases b)
      case None
      then have "es' = es \<and> data_end = sp_cursor at" using 1(2) True sb by (auto simp: scan_loop.simps [of env header limit at es s])
      then show ?thesis by (intro exI [of _ "[]"] exI [of _ at]) simp
    next
      case (Some block)
      then obtain blocks at' where "chain (volume s) header (image (media s)) limit (scan_next at block) blocks at'"
        "es' = (es @ [scan_entry (sp_cursor at) block]) @ entries_from (scan_next at block) blocks" "sp_cursor at' = data_end"
        using 1(1) [OF True sb refl refl Some] 1(2,3) True sb f by (auto simp: scan_loop.simps [of env header limit at es s])
      then show ?thesis using True f(1) Some by (intro exI [of _ "block # blocks"] exI [of _ at']) simp
    qed
  qed
qed

text \<open>And it does not stop before the end of the frames.\<close>

lemma scan_loop_finds:
  assumes "chain (volume s) header (image (media s)) limit at blocks at'" "env_storage env = st" "good (media s)"
    "scan_loop env header limit at es s = Some (Inr (es', data_end, corrupt), t)"
  shows "\<exists>more. es' = es @ entries_from at blocks @ more"
  using assms
proof (induction blocks arbitrary: at es s)
  case Nil
  then show ?case using scan_loop_chain [OF Nil(4,2,3)] by auto
next
  case (Cons block blocks)
  have b: "sp_cursor at + 128 \<le> limit" "block_at (volume s) header (image (media s)) limit at = Some block"
    using Cons.prems(1) by auto
  obtain r u where sb: "scan_block env header limit at s = Some (Inr r, u)"
    using Cons.prems(4) b(1) by (auto simp: scan_loop.simps [of env header limit at es s] split: option.splits sum.splits prod.splits)
  note f = scan_block_found [OF Cons.prems(2,3) sb]
  have "scan_loop env header limit (scan_next at block) (es @ [scan_entry (sp_cursor at) block]) u = Some (Inr (es', data_end, corrupt), t)"
    using Cons.prems(4) b sb f(1) by (simp add: scan_loop.simps [of env header limit at es s])
  moreover have "chain (volume u) header (image (media u)) limit (scan_next at block) blocks at'" using Cons.prems(1) f by simp
  ultimately show ?case using Cons.IH [of u "scan_next at block" "es @ [scan_entry (sp_cursor at) block]"] Cons.prems(2) f(2) by auto
qed

text \<open>The partitions found so far: their headers are on the medium, and so are the frames of every
  unsealed one, unless a newer one has been found.\<close>

definition found_recorded :: "'s impl \<Rightarrow> bool" where
  "found_recorded s \<longleftrightarrow> good (media s) \<and> (\<forall>p \<in> set (partitions s).
     header_found (volume s) (open_options s) (image (media s)) p \<and>
     (ps_sealed p \<or> framed (volume s) (image (media s)) p \<or>
      (\<exists>q \<in> set (partitions s). ph_generation (ps_header p) < ph_generation (ps_header q))))"

definition same_view :: "'s impl \<Rightarrow> 's impl \<Rightarrow> bool" where
  "same_view s t \<longleftrightarrow> good (media t) \<and> image (media t) = image (media s) \<and> volume t = volume s \<and>
     open_options t = open_options s \<and> partitions t = partitions s"

lemma found_recorded_view: "found_recorded s \<Longrightarrow> same_view s t \<Longrightarrow> found_recorded t"
  by (simp add: found_recorded_def same_view_def)

lemma read_closed_view: "read_closed (same_view s)"
  by (auto simp: read_closed_def same_view_def)

lemma wp_read_header_found:
  assumes env: "env_storage env = st" and good: "good (media s)"
  shows "wp (read_partition_header env slot) (\<lambda>h t. same_view s t \<and> unat (partition_base (volume s) slot) + 1024 \<le> length (image (media s)) \<and>
      decode_partition_header (sub_bytes (image (media s)) (unat (partition_base (volume s) slot)) 1024) False = Inr h \<and>
      status_ok (accept_partition_header (volume s) (open_options s) slot h)) (\<lambda>_. same_view s) s"
  unfolding read_partition_header_def wp_bind wp_get
  by (rule media_in_read [OF env good]) (auto simp: same_view_def split: sum.split)

lemma keeps_view_recover:
  assumes env: "env_storage env = st"
  shows "keeps (same_view s) (read_footer env header)" "keeps (same_view s) (recover_partition env header)"
proof -
  note reads = keeps_reads [OF read_closed_view env]
  show footer: "keeps (same_view s) (read_footer env header)"
    unfolding read_footer_def by (intro keeps_intros keeps_read [OF read_closed_view env])
  have blocks: "keeps (same_view s) (verify_blocks env state es)" for state es
    by (induction es) (simp_all only: verify_blocks.simps keeps_intros reads)
  have sealed: "keeps (same_view s) (verify_sealed env state)" for state
    unfolding verify_sealed_def by (intro keeps_intros reads blocks)
  show "keeps (same_view s) (recover_partition env header)"
    unfolding recover_partition_def by (intro keeps_intros reads footer sealed blocks)
qed

lemma recover_partition_recorded:
  assumes env: "env_storage env = st" and good: "good (media s)" and r: "recover_partition env header s = Some (Inr state, t)"
    and geo: "geometry_ok (volume s)"
  shows "ps_header state = header" "ps_sealed state \<or> framed (volume s) (image (media s)) state" "same_view s t"
proof -
  note view = keeps_view_recover [OF env, of s header]
  from keepsD [OF view(2) _ r] show "same_view s t" using good by (simp add: same_view_def)
  show "ps_header state = header" using recover_partition_state [OF r geo] by simp
  obtain f u where f: "read_footer env header s = Some (f, u)"
    using r by (auto simp: recover_partition_def bind_op_def try_op_def Let_def split: option.splits sum.splits)
  have u: "same_view s u" using keepsD [OF view(1) _ f] good by (simp add: same_view_def)
  show "ps_sealed state \<or> framed (volume s) (image (media s)) state"
  proof (cases f)
    case (Inr fd)
    then show ?thesis
      using r f by (auto simp: recover_partition_def bind_op_def try_op_def Let_def sealed_state_def split: option.splits sum.splits if_splits)
  next
    case (Inl e)
    then obtain es data_end corrupt w where scan: "scan_partition env header 0 u = Some (Inr (es, data_end, corrupt), w)"
      and st: "state = summarize ((new_partition_state header)\<lparr>ps_active_index := es, ps_data_end := data_end\<rparr>)"
      using r f by (auto simp: recover_partition_def bind_op_def try_op_def Let_def split: option.splits sum.splits if_splits)
    have "scan_loop env header (index_begin (volume s)) scan_start [] u = Some (Inr (es, data_end, corrupt), w)"
      using scan u geometry_okD(6) [OF geo] by (simp add: scan_partition_def bind_op_def Let_def not_less same_view_def split: if_splits)
    from scan_loop_chain [OF this env] u have "framed (volume s) (image (media s)) state"
      by (auto simp: framed_def st same_view_def new_partition_state_def)
    then show ?thesis ..
  qed
qed

lemma found_recorded_add:
  assumes "found_recorded s" "header_found (volume s) (open_options s) (image (media s)) p"
    "ps_sealed p \<or> framed (volume s) (image (media s)) p"
  shows "found_recorded (s\<lparr>partitions := drop_old_indexes (partitions s @ [p])\<rparr>)"
proof -
  let ?g = "\<lambda>p. ph_generation (ps_header p)"
  let ?H = "header_found (volume s) (open_options s) (image (media s))" and ?F = "framed (volume s) (image (media s))"
  define ps where "ps = partitions s @ [p]"
  define m where "m = fold (\<lambda>p n. max n (?g p)) ps 0"
  define d where "d q = (if \<not> ps_sealed q \<and> ?g q \<noteq> m then q\<lparr>ps_active_index := []\<rparr> else q)" for q :: partition_state
  have set: "set (drop_old_indexes ps) = d ` set ps" by (simp add: drop_old_indexes_def Let_def d_def m_def)
  have same: "?H (d q) = ?H q" "?g (d q) = ?g q" "ps_sealed (d q) = ps_sealed q" for q
    by (simp_all add: header_found_def slot_base_def d_def)
  have dominated: "\<exists>r \<in> set ps. ?g q < ?g r" if "q \<in> set ps" "?g q \<noteq> m" for q
  proof -
    have "?g q \<le> m" using fold_max_ge(2) [of q ps ?g 0] that(1) by (simp add: m_def)
    then have "?g q < m" using that(2) by simp
    then show ?thesis using fold_max_mem [of ?g ps 0] by (auto simp: m_def)
  qed
  have old: "?H q \<and> (ps_sealed q \<or> ?F q \<or> (\<exists>r \<in> set ps. ?g q < ?g r))" if "q \<in> set ps" for q
    using that assms by (auto simp: found_recorded_def ps_def)
  have "?H (d q) \<and> (ps_sealed (d q) \<or> ?F (d q) \<or> (\<exists>r \<in> set ps. ?g (d q) < ?g (d r)))" if "q \<in> set ps" for q
    unfolding same using old [OF that] dominated [OF that] by (auto simp: d_def)
  then show ?thesis using assms(1) by (simp add: found_recorded_def ps_def [symmetric] set)
qed

lemma keeps_found_slot:
  assumes env: "env_storage env = st"
  shows "keeps (\<lambda>s. found_recorded s \<and> geometry_ok (volume s)) (recover_slot env slot generations)"
proof (rule keeps_wp)
  fix s :: "'s impl"
  let ?J = "\<lambda>s. found_recorded s \<and> geometry_ok (volume s)"
  assume s: "?J s"
  then have good: "good (media s)" by (simp add: found_recorded_def)
  have view: "?J t" if "same_view s t" for t using found_recorded_view [OF _ that] s that by (simp add: same_view_def)
  have damaged: "keeps ?J (damaged_slot env slot e)" for e
  proof -
    have closed: "read_closed ?J" by (auto simp: read_closed_def found_recorded_def)
    show ?thesis
      unfolding damaged_slot_def by (intro keeps_intros keeps_read [OF closed env]) (auto simp: found_recorded_def)
  qed
  have part: "wp (recover_partition env h) (\<lambda>state. wp (bind_op (modify_op (\<lambda>s. s\<lparr>partitions := drop_old_indexes (partitions s @ [state])\<rparr>))
      (\<lambda>_. return_op (insert (ph_generation h) generations))) (\<lambda>_. ?J) (\<lambda>_. ?J)) (\<lambda>_. ?J) t"
    if t: "same_view s t" and h: "header_found (volume s) (open_options s) (image (media s)) (new_partition_state h)" for t h
  proof (rule wp_only_media [OF only_media_recover_partition], goal_cases)
    case (1 state y)
    have tt: "good (media t)" "geometry_ok (volume t)" using view [OF t] t by (simp_all add: same_view_def)
    note r = recover_partition_recorded [OF env tt(1) 1 tt(2)]
    have v: "same_view s (t\<lparr>media := y\<rparr>)" using r(3) t by (simp add: same_view_def)
    have "header_found (volume s) (open_options s) (image (media s)) state"
      using h r(1) by (simp add: header_found_def slot_base_def new_partition_state_def)
    then have "found_recorded (t\<lparr>media := y, partitions := drop_old_indexes (partitions t @ [state])\<rparr>)"
      using found_recorded_add [of "t\<lparr>media := y\<rparr>" state] view [OF v] r(2) v t by (simp add: same_view_def)
    then show ?case using view [OF v] by simp
  next
    case (2 e y)
    then show ?case using keepsD [OF keeps_view_recover(2) [OF env] t] view by blast
  qed
  show "wp (recover_slot env slot generations) (\<lambda>_. ?J) (\<lambda>_. ?J) s"
    unfolding recover_slot_def wp_bind [of "try_op _"] wp_try
  proof (rule wp_mono [OF wp_read_header_found [OF env good]], goal_cases)
    case (1 h t)
    then have h: "header_found (volume s) (open_options s) (image (media s)) (new_partition_state h)" and t: "same_view s t"
      using accept_partition_headerD [of "volume s" "open_options s" slot h]
      by (auto simp: header_found_def slot_base_def new_partition_state_def)
    show ?case using view [OF t] part [OF t h] by (simp add: wp_bind [of "recover_partition env h"])
  next
    case (2 e t)
    show ?case unfolding sum.case wp_bind [of "damaged_slot env slot e"]
      by (rule wp_mono [OF wp_keeps [OF damaged view [OF 2]]]) simp_all
  qed
qed

lemma keeps_found_slots:
  assumes env: "env_storage env = st"
  shows "keeps (\<lambda>s. found_recorded s \<and> geometry_ok (volume s)) (recover_slots env slots generations)"
proof (induction slots arbitrary: generations)
  case (Cons slot slots)
  then show ?case by (simp only: recover_slots.simps) (intro keeps_intros keeps_found_slot [OF env])
qed (simp only: recover_slots.simps keeps_intros)

lemma settled_recorded:
  assumes "found_recorded t" "partitions t \<noteq> []" "\<not> ps_sealed (last (partitions (settle_catalog t)))"
  shows "active_recorded (settle_catalog t)"
proof -
  have "volume (settle_catalog t) = volume t" "open_options (settle_catalog t) = open_options t" "media (settle_catalog t) = media t"
    by (simp_all add: settle_catalog_def Let_def)
  then show ?thesis
    using settle_last(2,4) [OF assms(2)] assms(1,3) by (fastforce simp: active_recorded_def found_recorded_def headers_def)
qed

lemma created_recorded:
  assumes env: "env_storage env = st" and t: "good (media t)" "geometry_ok (volume t)" "versions_ok (open_options t)" "options_ok t options"
    and c: "create_partition env slot generation options t = Some (Inr (), s)" and inv: "store_inv s"
  shows "active_recorded s"
proof -
  let ?k = "new_partition_header (volume t) slot generation options"
  obtain u c' where u: "same_catalog t u" "s = install_partition ?k c' u" using wpD(1) [OF wp_create_installs c] by blast
  have s: "new_partition_state ?k \<in> set (partitions s)" "is_active s (new_partition_state ?k)" "volume s = volume t" "open_options s = open_options t"
    using u by (simp_all add: install_partition_def Let_def is_active_def new_partition_state_def same_catalog_def new_partition_header_def)
  have cat: "catalog_ok s" using inv by (simp add: store_inv_def base_inv_def)
  then have "partitions s = butlast (partitions s) @ [last (partitions s)]" by (simp add: catalog_ok_def)
  then have "new_partition_state ?k \<in> set (butlast (partitions s)) \<or> new_partition_state ?k = last (partitions s)"
    using s(1) by (metis Un_iff empty_iff insert_iff list.set(1) list.set(2) set_append)
  then have lst: "last (partitions s) = new_partition_state ?k" using catalog_not_active [OF cat] s(2) by auto
  have "header_found (volume t) (open_options t) (image (media s)) (new_partition_state ?k)"
    using wpD(1) [OF wp_create_header [OF env t(1)] c] t by (intro new_header_found) (simp_all add: options_ok_def)
  then show ?thesis using s lst framed_new by (simp add: active_recorded_def)
qed

lemma opened_recorded:
  assumes env: "env_storage env = st" and good: "good m" and opts: "oo_writable options" "versions_ok options"
    and o: "open_store env getrandom options null m = Some (Inr s, m')"
  shows "recorded s" "\<not> faulted s"
proof -
  show inv: "\<not> faulted s" using open_store_inv [OF o opts(1)] by simp
  have si: "store_inv s" using open_store_inv [OF o opts(1)] by simp
  obtain m2 v hi lo where m2: "good m2" and geo: "geometry_ok v" and ids: "choose_writer_id getrandom options = Some (Inr (hi, lo))"
    and r: "recover_store env (new_impl m2 v options hi lo) = Some (Inr (), s)"
    using open_recovers [OF env good o] by metis
  let ?s = "new_impl m2 v options hi lo"
  have cfg: "configured ?s s" by (rule keepsD [OF keeps_configured_recover(2) _ r]) simp
  have good_s: "good (media s)"
    using keepsD [OF returns_keeps [OF returns_recover [OF env]] _ r] m2 by (simp add: on_good_def new_impl_def)
  have start: "found_recorded ?s \<and> geometry_ok (volume ?s)" using m2 geo by (simp add: found_recorded_def new_impl_def)
  obtain t where t: "recover_slots env (slots_of v) {} ?s = Some (Inr (), t)" "start_writing env (settle_catalog t) = Some (Inr (), s)"
    and ok: "status_ok (validate_partition_options options (oo_next_partition options))"
    using r opts(1) by (auto simp: recover_store_def bind_op_Inr new_impl_def status_op_def split: if_splits)
  have ft: "found_recorded t \<and> geometry_ok (volume t)" by (rule keepsD [OF keeps_found_slots [OF env] start t(1)])
  have oo: "open_options t = options"
    using keepsD [OF keeps_configured_recover(1) _ t(1), of ?s] by (simp add: configured_def new_impl_def)
  let ?t = "settle_catalog t"
  have st: "good (media ?t)" "geometry_ok (volume ?t)" "open_options ?t = options"
    using ft oo by (simp_all add: settle_catalog_def Let_def found_recorded_def)
  have "active_recorded s"
  proof (cases "partitions ?t = [] \<or> ps_sealed (last (partitions ?t))")
    case True
    then obtain slot generation where "create_partition env slot generation (oo_next_partition options) ?t = Some (Inr (), s)"
      using t(2) st by (auto simp: start_writing_def bind_op_Inr Let_def split: if_splits)
    then show ?thesis
      using st ok opts(2) si by (intro created_recorded [OF env]) (auto simp: options_ok_def)
  next
    case False
    then have "s = ?t" using t(2) by (auto simp: start_writing_def bind_op_Inr Let_def split: if_splits)
    moreover have "partitions t \<noteq> []" using False by (auto simp: settle_catalog_def)
    ultimately show ?thesis using settled_recorded [of t] ft False by simp
  qed
  then show "recorded s"
    using si good_s cfg chosen_id_nonzero(2) [OF ids opts(1)] opts(2) by (simp add: recorded_def configured_def new_impl_def)
qed

end

end
