(* ===== verification/Ring_Delivery.thy ===== *)
theory Ring_Delivery
  imports Ring_Rescan
begin

text \<open>
  Reading succeeds when the backend does not fail: what is on the medium is delivered. A partition
  that is scanned again shows at least the blocks of the index in memory.
\<close>

lemma chain_header:
  assumes "h\<lparr>ph_features := []\<rparr> = h'\<lparr>ph_features := []\<rparr>"
  shows "chain v h img limit at blocks at' = chain v h' img limit at blocks at'"
proof -
  have "ph_generation h = ph_generation h'" "ph_slot h = ph_slot h'" "ph_options h = ph_options h'"
    using assms by (metis partition_header.ext_inject partition_header.surjective partition_header.update_convs)+
  then have "scan_accepts v h limit = scan_accepts v h' limit" "ph_slot h = ph_slot h'"
    by (simp_all add: scan_accepts_def fun_eq_iff)
  then have "block_at v h img limit at = block_at v h' img limit at" for at by (simp only: block_at_def)
  then show ?thesis by (induction blocks arbitrary: at) simp_all
qed

context reliable_storage
begin

definition reread :: "'a impl \<Rightarrow> 'a impl \<Rightarrow> bool" where
  "reread s t \<longleftrightarrow> (\<exists>m. t = s\<lparr>media := m\<rparr> \<and> reliable m \<and> image m = image (media s))"

lemma rereadD: "reread s t \<Longrightarrow> volume t = volume s \<and> open_options t = open_options s \<and> reliable (media t) \<and>
    image (media t) = image (media s)"
  by (auto simp: reread_def)

lemma reread_trans: "reread s t \<Longrightarrow> reread t u \<Longrightarrow> reread s u"
  by (auto simp: reread_def)

lemma runs_read:
  assumes "env_storage env = st" "reliable (media s)" "unat off + n \<le> length (image (media s))"
    and "\<And>t. reread s t \<Longrightarrow> Q (sub_bytes (image (media s)) (unat off) n) t"
  shows "runs (read_media env off n) s Q"
  using read_media_reliable [OF assms(1-3)] assms(4) unfolding runs_def reread_def by metis

lemma runs_header_found:
  assumes env: "env_storage env = st" and rel: "reliable (media s)"
    and p: "header_found (volume s) (open_options s) (image (media s)) p"
  shows "runs (read_partition_header env (ph_slot (ps_header p))) s
    (\<lambda>h t. reread s t \<and> h\<lparr>ph_features := []\<rparr> = (ps_header p)\<lparr>ph_features := []\<rparr>)"
proof -
  obtain h where h: "slot_base (volume s) p + 1024 \<le> length (image (media s))"
    "decode_partition_header (sub_bytes (image (media s)) (slot_base (volume s) p) 1024) False = Inr h"
    "status_ok (accept_partition_header (volume s) (open_options s) (ph_slot (ps_header p)) h)"
    "h\<lparr>ph_features := []\<rparr> = (ps_header p)\<lparr>ph_features := []\<rparr>"
    using p by (auto simp: header_found_def)
  show ?thesis
    unfolding read_partition_header_def runs_bind runs_get
    using h by (intro runs_read [OF env rel]) (auto simp: slot_base_def)
qed

section \<open>Scanning\<close>

lemma runs_scan_block:
  assumes env: "env_storage env = st" and ready: "ready_media s" and geo: "geometry_ok (volume s)"
    "ph_slot header < vh_partition_count (volume s)" "limit \<le> index_begin (volume s)"
    and at: "sp_cursor at \<le> limit" "sp_cursor at + 128 \<le> limit"
  shows "runs (scan_block env header limit at) s (\<lambda>_. reread s)"
proof -
  let ?v = "volume s" and ?base = "partition_base (volume s) (ph_slot header)"
  have lim: "unat limit + 4096 \<le> unat (vh_partition_size ?v)"
    using geo(3) geometry_okD(5) [OF geo(1)] by (simp add: word_le_nat_alt)
  have size: "unat (?base + off) + n \<le> length (image (media s))" if "unat off + n \<le> unat (vh_partition_size ?v)" for off n
    using in_volume [OF geo(1,2) that] ready by (simp add: ready_media_def)
  have rel: "reliable (media s)" using ready by (simp add: ready_media_def)
  have hdr: "unat (?base + sp_cursor at) + 128 \<le> length (image (media s))"
    using lim at(1) by (intro size) (simp add: word_le_nat_alt)
  have c128: "unat (sp_cursor at + 128) = unat (sp_cursor at) + 128"
    using at(1) lim unat_u64_less [of "vh_partition_size ?v"] by (simp add: word_le_nat_alt unat_word_ariths)
  have pay: "unat (?base + sp_cursor at + 128) + unat (bh_stored_size block) \<le> length (image (media s))"
    if acc: "scan_accepts ?v header limit at block" for block
  proof -
    note n = scan_next_cursor [OF acc at(1)]
    have "unat (sp_cursor at) + unat (bh_frame_span block) \<le> unat limit" using n(1,3) by (simp add: word_le_nat_alt)
    then have "unat (sp_cursor at + 128) + unat (bh_stored_size block) \<le> unat (vh_partition_size ?v)"
      using n(4) lim c128 by simp
    from size [OF this] show ?thesis by (simp add: add.assoc)
  qed
  have rest: "runs (read_media env (?base + sp_cursor at + 128) (unat (bh_stored_size block))) t (\<lambda>payload u.
      runs (if crc32c payload \<noteq> bh_payload_crc block then return_op None else return_op (Some block)) u (\<lambda>_. reread s))"
    if t: "reread s t" and acc: "scan_accepts ?v header limit at block" for t block
    using pay [OF acc] rereadD [OF t] by (intro runs_read [OF env]) (auto intro: reread_trans [OF t])
  show ?thesis
    unfolding scan_block_def runs_bind [of get_op] runs_get Let_def runs_bind [of "read_media env (?base + sp_cursor at) _"]
    by (rule runs_read [OF env rel hdr]) (use rest in \<open>auto split: sum.split\<close>)
qed

lemma runs_scan_loop:
  assumes "env_storage env = st" "ready_media s" "geometry_ok (volume s)"
    "ph_slot header < vh_partition_count (volume s)" "limit \<le> index_begin (volume s)" "sp_cursor at \<le> limit"
  shows "runs (scan_loop env header limit at es) s (\<lambda>_. reread s)"
  using assms
proof (induction env header limit at es s rule: scan_loop.induct)
  case (1 env header limit at es s)
  show ?case
  proof (cases "sp_cursor at + 128 \<le> limit")
    case False
    have "reread s s" using 1(3) by (auto simp: reread_def ready_media_def intro: exI [of _ "media s"])
    then show ?thesis using False by (auto simp: runs_def scan_loop.simps [of env header limit at es s])
  next
    case True
    then obtain b t where b: "scan_block env header limit at s = Some (Inr b, t)" and t: "reread s t"
      using runs_scan_block [OF 1(2-6) 1(7) True] by (auto simp: runs_def)
    show ?thesis
    proof (cases b)
      case None
      then show ?thesis using b t True by (auto simp: runs_def scan_loop.simps [of env header limit at es s])
    next
      case (Some block)
      note acc = scan_block_accepts [OF b [unfolded Some]]
      have "runs (scan_loop env header limit (scan_next at block) (es @ [scan_entry (sp_cursor at) block])) t (\<lambda>_. reread t)"
        using 1(2-7) rereadD [OF t] scan_next_cursor(3) [OF acc 1(7)]
        by (intro 1(1) [OF True b refl refl Some]) (simp_all add: ready_media_def)
      then show ?thesis
        using b True Some reread_trans [OF t] by (auto simp: runs_def scan_loop.simps [of env header limit at es s])
    qed
  qed
qed

text \<open>A partition that is scanned again, by this store or by one opened on the same bytes, shows at least
  the blocks of the index in memory.\<close>

lemma rescan_finds:
  assumes env: "env_storage env = st" and rec: "recorded s" "\<not> faulted s"
    and t: "ready_media t" "volume t = volume s" "open_options t = open_options s" "image (media t) = image (media s)"
  obtains h u es data_end corrupt u' more where
    "read_partition_header env (ph_slot (ps_header (last (partitions s)))) t = Some (Inr h, u)"
    "ph_generation h = ph_generation (ps_header (last (partitions s)))"
    "scan_partition env h 0 u = Some (Inr (es, data_end, corrupt), u')" "es = ps_active_index (last (partitions s)) @ more"
proof -
  let ?p = "last (partitions s)" and ?v = "volume s"
  have r: "store_inv s" "header_found ?v (open_options s) (image (media s)) ?p" "framed ?v (image (media s)) ?p"
    using rec by (simp_all add: recorded_def active_recorded_def)
  have geo: "geometry_ok ?v" using r(1) by (simp add: store_inv_def base_inv_def core_inv_def)
  have slot: "ph_slot (ps_header ?p) < vh_partition_count ?v" by (rule slot_lt [OF r(1) last_header_in [OF r(1)]])
  have rel: "reliable (media t)" using t(1) by (simp add: ready_media_def)
  obtain h u where h: "read_partition_header env (ph_slot (ps_header ?p)) t = Some (Inr h, u)" and u: "reread t u"
    and same: "h\<lparr>ph_features := []\<rparr> = (ps_header ?p)\<lparr>ph_features := []\<rparr>"
    using runs_header_found [OF env rel, of ?p] r(2) t by (auto simp: runs_def)
  have id: "ph_generation h = ph_generation (ps_header ?p)" "ph_slot h = ph_slot (ps_header ?p)"
    using same by (metis partition_header.ext_inject partition_header.surjective partition_header.update_convs)+
  have ru: "ready_media u" "volume u = ?v" "image (media u) = image (media s)" "good (media u)"
    using rereadD [OF u] t reliable_good by (auto simp: ready_media_def)
  have start: "sp_cursor scan_start \<le> index_begin ?v" using geometry_okD(6) [OF geo] by (simp add: scan_start_def)
  obtain es data_end corrupt u' where scan: "scan_loop env h (index_begin ?v) scan_start [] u = Some (Inr (es, data_end, corrupt), u')"
    using runs_scan_loop [OF env ru(1), of h "index_begin ?v" scan_start "[]"] geo slot start ru id by (auto simp: runs_def)
  obtain blocks at where ch: "chain ?v (ps_header ?p) (image (media s)) (index_begin ?v) scan_start blocks at"
    "ps_active_index ?p = entries_from scan_start blocks"
    using r(3) by (auto simp: framed_def)
  have "chain (volume u) h (image (media u)) (index_begin ?v) scan_start blocks at" using ch(1) ru chain_header [OF same] by simp
  from scan_loop_finds [OF this env ru(4) scan] ch(2) obtain more where "es = ps_active_index ?p @ more" by auto
  moreover have "scan_partition env h 0 u = Some (Inr (es, data_end, corrupt), u')"
    using scan ru start by (simp add: scan_partition_def bind_op_def Let_def scan_start_def not_less)
  ultimately show ?thesis using that h id by blast
qed

section \<open>Reading a block\<close>

text \<open>A frame whose header agrees with the index entry is delivered.\<close>

lemma runs_read_block:
  assumes env: "env_storage env = st" and rel: "reliable (media s)"
    and p: "header_found (volume s) (open_options s) (image (media s)) p"
    and off: "unat (partition_base (volume s) (ph_slot (ps_header p)) + ie_offset e) = off"
    and frame: "frame_in (image (media s)) off block payload" and wf: "block_header_wf block"
    and block: "block_identity (volume s) p e block" "block_agrees (volume s) p e block"
      "align_up (128 + ucast (bh_stored_size block)) (vh_persistence_quantum (volume s)) = (ucast (bh_frame_span block), False)"
      "unat (bh_stored_size block) = length payload" "bh_payload_crc block = crc32c payload"
    and codec: "codec_for (open_options s) (bh_compression block) (bh_compression_version block) = Some c"
      "decompress c (View payload) (unat (bh_raw_size block)) False = Inr data" "length data = unat (bh_raw_size block)"
  shows "runs (read_block env p e) s (\<lambda>r t. r = (block_metadata_of (volume s) p e block, data) \<and> reread s t)"
proof -
  let ?off = "partition_base (volume s) (ph_slot (ps_header p)) + ie_offset e"
  have fit: "off + 128 + length payload \<le> length (image (media s))" using frame by (simp add: frame_in_def)
  then have off128: "unat (?off + 128) = off + 128"
    using off image_less [OF reliable_good [OF rel]] by (simp add: unat_word_ariths)
  have hdr: "runs (catch_op (read_partition_header env (ph_slot (ps_header p))) (classify_snapshot_failure env p)) t Q"
    if "reread s t" "\<And>h u. ph_generation h = ph_generation (ps_header p) \<Longrightarrow> reread s u \<Longrightarrow> Q h u" for t Q
  proof (rule runs_catch, rule runs_mono [OF runs_header_found [OF env]])
    show "reliable (media t)" "header_found (volume t) (open_options t) (image (media t)) p"
      using rereadD [OF that(1)] p by simp_all
    fix h u assume "reread t u \<and> h\<lparr>ph_features := []\<rparr> = (ps_header p)\<lparr>ph_features := []\<rparr>"
    then show "Q h u"
      using reread_trans [OF that(1)] by (intro that(2)) (metis partition_header.ext_inject partition_header.surjective partition_header.update_convs)+
  qed
  have bytes: "runs (read_media env x n) t Q" if "reread s t" "unat x + n \<le> length (image (media s))"
    "\<And>u. reread s u \<Longrightarrow> Q (sub_bytes (image (media s)) (unat x) n) u" for x n t and Q :: "bytes \<Rightarrow> 'a impl \<Rightarrow> bool"
    using that rereadD [OF that(1)] reread_trans [OF that(1)] by (intro runs_read [OF env]) simp_all
  have start: "reread s s" using rel by (auto simp: reread_def intro: exI [of _ "media s"])
  have last: "runs (decode_block env p e block payload) u (\<lambda>r t. r = (block_metadata_of (volume s) p e block, data) \<and> reread s t)"
    if "reread s u" for u
    using that rereadD [OF that] block(5) codec by (simp add: decode_block_def)
  have stored: "runs (read_media env (?off + 128) (unat (bh_stored_size block))) t (\<lambda>stored u.
      runs (catch_op (read_partition_header env (ph_slot (ps_header p))) (classify_snapshot_failure env p)) u (\<lambda>after_read w.
        runs (if ph_generation after_read \<noteq> ph_generation (ps_header p)
          then error_op (Error Overwritten ''partition changed while reading block payload'')
          else decode_block env p e block stored) w (\<lambda>r t. r = (block_metadata_of (volume s) p e block, data) \<and> reread s t)))"
    if "reread s t" for t
    using frame_inD(2) [OF frame] fit block(4) off128 last by (intro bytes [OF that] hdr) simp_all
  have main: "runs (read_media env ?off 128) t Q" if "reread s t" "\<And>u. reread s u \<Longrightarrow> Q (encode_block_header block) u" for t Q
    using frame_inD(1) [OF frame] fit off that(2) by (intro bytes [OF that(1)]) simp_all
  show ?thesis
    unfolding read_block_def runs_bind [of get_op] runs_get Let_def runs_bind [of "catch_op _ _"]
  proof (rule hdr [OF start], goal_cases)
    case (1 h t)
    show ?case
      unfolding 1(1) simp_thms if_False runs_bind [of "read_media env ?off _"]
      by (rule main [OF 1(2)]) (use stored block decode_encode_block_header [OF wf] in simp)
  qed
qed

end

end
