(* ===== verification/Ring_Published.thy ===== *)
theory Ring_Published
  imports Ring_Delivery
begin

text \<open>
  A published block is delivered: its frame and its partition's header stay on the medium as long as
  the partition is in the catalog, and a reader on a backend that does not fail gets its bytes.
\<close>

text \<open>A block that a scan accepts agrees with the index entry the scan makes of it.\<close>

lemma accepted_agrees:
  assumes "scan_accepts v (ps_header p) limit at block"
  shows "block_identity v p (scan_entry cursor block) block" "block_agrees v p (scan_entry cursor block) block"
    "align_up (128 + ucast (bh_stored_size block)) (vh_persistence_quantum v) = (ucast (bh_frame_span block), False)"
  using assms by (auto simp: scan_accepts_def block_identity_def block_agrees_def scan_entry_def add.commute Let_def
      split: prod.splits)

lemma header_found_kept:
  assumes "header_found v oo img p" "length img' = length img"
    "\<forall>i. slot_base v p \<le> i \<and> i < slot_base v p + 1024 \<longrightarrow> img' ! i = img ! i"
  shows "header_found v oo img' p"
  using header_found_agree [OF assms(1), of "- {slot_base v p..<slot_base v p + 1024}" img'] assms(2,3)
  by (auto simp: agree_outside_def)

locale ring_on_reliable = ring_on_storage st image durable good read_stall write_stall env +
    reliable_storage st image durable good read_stall write_stall reliable
  for st image durable good read_stall write_stall env reliable
begin

text \<open>The header of a partition stays on the medium as long as the partition is in the catalog.\<close>

lemma active_header_kept:
  assumes s: "store_inv s" "\<not> faulted s" "good (media s)" "active_recorded s"
    and run: "store_run env s t" "\<not> faulted t" "ps_header (last (partitions s)) \<in> set (headers t)"
  shows "header_found (volume t) (open_options t) (image (media t)) (last (partitions s))"
proof (rule header_found_kept)
  let ?p = "last (partitions s)"
  have v: "volume s = volume t" "open_options s = open_options t"
    using config.run_keeps [OF run(1), of s] by (simp_all add: configured_def)
  show found: "header_found (volume t) (open_options t) (image (media s)) ?p" using s(4) v by (simp add: active_recorded_def)
  have kept: "kept_since image s t" by (rule run_keeps_data [OF run(1) s(1-3) run(2)])
  then show "length (image (media t)) = length (image (media s))" by (simp add: kept_since_def)
  have "1024 \<le> unat (ps_data_end ?p)" using s(1,2) by (auto simp: store_inv_def index_ok_def word_le_nat_alt)
  then have "i \<in> protected s ?p" if "slot_base (volume t) ?p \<le> i" "i < slot_base (volume t) ?p + 1024" for i
    using that v by (auto simp: protected_def data_region_def)
  then show "\<forall>i. slot_base (volume t) ?p \<le> i \<and> i < slot_base (volume t) ?p + 1024 \<longrightarrow> image (media t) ! i = image (media s) ! i"
    using kept run(3) store_inv_nonempty [OF s(1)] found by (auto simp: kept_since_def header_found_def)
qed

text \<open>A block that was published is delivered, with its bytes and metadata, as long as its partition is in
  the catalog.\<close>

lemma emitted_delivered:
  assumes rec: "recorded s" "\<not> faulted s" "builder s \<noteq> []" "codecs_ok (open_options s)"
    and e: "emit_builder env s = Some (Inr (), s1)"
    and run: "store_run env s1 s2" "\<not> faulted s2" "ps_header (last (partitions s1)) \<in> set (headers s2)"
    and rel: "reliable (media s2)"
  obtains meta s3 where "read_block env (last (partitions s1)) (last (ps_active_index (last (partitions s1)))) s2 =
      Some (Inr (meta, builder s), s3)"
proof -
  let ?p = "last (partitions s)" and ?v = "volume s" and ?p1 = "last (partitions s1)"
  let ?off = "partition_base ?v (ph_slot (ps_header ?p)) + ps_data_end ?p"
  have inv: "store_inv s" "good (media s)" "writer_id_high s \<noteq> 0 \<or> writer_id_low s \<noteq> 0" using rec(1) by (simp_all add: recorded_def)
  obtain c d payload selected version span where
    c: "codec_for (open_options s) (po_compression (ph_options (ps_header ?p))) (po_compression_version (ph_options (ps_header ?p))) = Some c"
    and sel: "select_payload c (ph_options (ps_header ?p)) (builder s) = Inr (payload, selected, version)"
    and al: "align_up (128 + of_nat (length payload)) (vh_persistence_quantum ?v) = (span, False)"
    and small: "\<not> 128 + of_nat (length payload) > (0xffffffff :: u64)" "\<not> span > 0xffffffff"
    and fit: "\<not> ps_data_end ?p > index_begin ?v" "\<not> span > index_begin ?v - ps_data_end ?p"
    and d: "codec_for (open_options s) selected version = Some d" "payload \<noteq> []"
      "decompress d (View payload) (length (builder s)) False = Inr (builder s)"
    and p1: "?p1 = push_entry (new_index_entry ?p (new_block_header s ?p payload selected version span)
      (128 + of_nat (length payload)) span) span ?p"
    and frame: "frame_in (image (media s2)) (unat ?off) (new_block_header s ?p payload selected version span) payload"
    and cfg: "configured s s2" and good: "good (media s2)"
    by (rule emitted_frame_kept [OF inv(1) rec(2) inv(2) rec(3) codec_for_ok [OF rec(4)] e run]) (assumption, rule that)
  let ?b = "new_block_header s ?p payload selected version span"
  have bld: "builder_ok s" using inv(1) by (simp add: store_inv_def base_inv_def core_inv_def)
  have v2: "volume s2 = ?v" "open_options s2 = open_options s" using cfg by (simp_all add: configured_def)
  note wf = new_block_header_wf [OF bld rec(3) inv(3) d(2) select_payload_length [OF sel] al small]
  have acc: "scan_accepts ?v (ps_header ?p) (index_begin ?v) \<lparr>sp_cursor = ps_data_end ?p, sp_sequence = of_nat (length (ps_active_index ?p)),
      sp_writer_high = (if ps_active_index ?p \<noteq> [] then ie_writer_id_high (last (ps_active_index ?p)) else 0),
      sp_writer_low = (if ps_active_index ?p \<noteq> [] then ie_writer_id_low (last (ps_active_index ?p)) else 0)\<rparr> ?b"
    by (rule emitted_accepted(1) [OF inv(1) rec(2,3) c sel al small fit]) simp_all
  have "length payload < 2 ^ 32"
    using select_payload_length [OF sel] bld unat_u32_less [of "vh_max_block_payload ?v"] by (simp add: builder_ok_def)
  note entry = emitted_entry(1) [OF this small, of ?p s selected version]
  have last1: "last (ps_active_index ?p1) = scan_entry (ps_data_end ?p) ?b" and hdr1: "ps_header ?p1 = ps_header ?p"
    by (simp_all add: p1 entry)
  have "wp (emit_builder env) (\<lambda>_ t. recorded t \<and> \<not> faulted t \<and> after_emit s t) (\<lambda>_. recorded) s"
    by (rule recorded_emit [OF env_storage rec(1,2)])
  from wpD(1) [OF this e] have r1: "store_inv s1" "\<not> faulted s1" "good (media s1)" "active_recorded s1" by (auto simp: recorded_def)
  have found: "header_found (volume s2) (open_options s2) (image (media s2)) ?p1"
    by (rule active_header_kept [OF r1(1-4) run])
  note agrees = accepted_agrees [of ?v ?p1, unfolded hdr1, OF acc]
  have "runs (read_block env ?p1 (last (ps_active_index ?p1))) s2
      (\<lambda>r t. r = (block_metadata_of (volume s2) ?p1 (last (ps_active_index ?p1)) ?b, builder s) \<and> reread s2 t)"
    by (rule runs_read_block [OF env_storage rel found _ frame wf(1)])
      (use wf d v2 in \<open>simp_all add: last1 hdr1 agrees\<close>, simp_all add: new_block_header_def scan_entry_def)
  then show ?thesis using that by (auto simp: runs_def)
qed

end

interpretation mem_reliable_ring: ring_on_reliable "memory_backend None" mem_volatile mem_durable mem_good
  mem_read_stall mem_write_stall "\<lparr>env_storage = memory_backend None, env_clock = clock\<rparr>" mem_reliable for clock
  by unfold_locales

end
