(* ===== verification/Ring_Guarantees.thy ===== *)
theory Ring_Guarantees
  imports Ring_Published
begin

text \<open>
  What a store guarantees about data, on the memory backend: published blocks are delivered with the
  bytes that were appended, published bytes never change while their partition is in the catalog, a
  reopened medium shows what was checkpointed before a crash, and a session on a working device succeeds.
\<close>

interpretation recorded_memory: kept_by_steps "memory_env clock" mem.recorded for clock
  by (rule mem.recorded_kept) simp

lemma opened_options:
  assumes "mem_good m" "open_store (memory_env clock) getrandom options null m = Some (Inr s0, m')" "store_run (memory_env clock) s0 s"
  shows "open_options s = options"
proof -
  obtain m2 v hi lo where "recover_store (memory_env clock) (new_impl m2 v options hi lo) = Some (Inr (), s0)"
    by (rule mem.open_recovers [OF _ assms(1,2)]) simp_all
  from keepsD [OF keeps_configured_recover(2) configured_refl this]
  show ?thesis using config.run_keeps [OF assms(3), of s0] by (simp add: configured_def new_impl_def)
qed

lemma memory_run_recorded:
  assumes "mem_good m" "open_store (memory_env clock) getrandom options null m = Some (Inr s0, m')"
    "oo_writable options" "versions_ok options" "store_run (memory_env clock) s0 s"
  shows "mem.recorded s" "open_options s = options" "store_inv s0" "\<not> faulted s0" "mem_good (media s0)"
proof -
  note o = mem.opened_recorded [OF _ assms(1,3,4,2)]
  have "mem.recorded s0" using o by simp
  then show "mem.recorded s" "store_inv s0" "mem_good (media s0)"
    using recorded_memory.run_keeps [OF assms(5)] by (simp_all add: mem.recorded_def)
  show "\<not> faulted s0" using o by simp
  show "open_options s = options" by (rule opened_options [OF assms(1,2,5)])
qed

lemma opened_good:
  assumes "mem_good m" "open_store (memory_env clock) getrandom options null m = Some (Inr s0, m')"
  shows "mem_good (media s0)"
proof -
  have env: "env_storage (memory_env clock) = memory_backend None" by simp
  obtain m2 v hi lo where m2: "mem_good m2" and r: "recover_store (memory_env clock) (new_impl m2 v options hi lo) = Some (Inr (), s0)"
    by (rule mem.open_recovers [OF env assms])
  show ?thesis using keepsD [OF returns_keeps [OF mem.returns_recover [OF env]] _ r] m2 by (simp add: mem.on_good_def new_impl_def)
qed

lemma test_versions: "versions_ok test_open_options"
  by (simp add: versions_ok_def test_open_options_def)

section \<open>Published data\<close>

text \<open>C1: a published block reads back. Take any state of a writer opened on a memory device, publish its
  pending records, then do anything: as long as the writer has not failed and the partition has not been
  reused for a newer one, whatever a read of the block by its index entry returns, if it succeeds, is
  exactly the pending bytes with their count, time bounds and flags, and it succeeds when the device has
  no faults.\<close>

theorem published_block_reads_back:
  assumes opened: "mem_good m" "open_store (memory_env clock) getrandom options null m = Some (Inr s0, m')" "oo_writable options"
    and codecs: "versions_ok options" "codecs_ok options"
    and published: "store_run (memory_env clock) s0 s" "builder s \<noteq> []" "publish (memory_env clock) s = Some (Inr (), s1)"
    and later: "store_run (memory_env clock) s1 s2" "\<not> faulted s2" "ps_header (last (partitions s1)) \<in> set (headers s2)"
  shows "(\<forall>meta data s3. read_block (memory_env clock) (last (partitions s1)) (last (ps_active_index (last (partitions s1)))) s2 =
        Some (Inr (meta, data), s3) \<longrightarrow>
      data = builder s \<and> bm_record_count meta = builder_records s \<and> bm_min_time_ns meta = builder_min_time s \<and>
      bm_max_time_ns meta = builder_max_time s \<and> bm_flags meta = builder_flags s) \<and>
    (mem_reliable (media s2) \<longrightarrow>
      (\<exists>meta s3. read_block (memory_env clock) (last (partitions s1)) (last (ps_active_index (last (partitions s1)))) s2 =
        Some (Inr (meta, builder s), s3)))"
proof -
  note r = memory_run_recorded [OF opened codecs(1) published(1)]
  have p: "\<not> faulted s" "emit_builder (memory_env clock) s = Some (Inr (), s1)"
    using published(3) by (auto simp: publish_def bind_op_Inr check_writer_def split: if_splits)
  have s: "store_inv s" "mem_good (media s)" "writer_id_high s \<noteq> 0 \<or> writer_id_low s \<noteq> 0" using r(1) by (simp_all add: mem.recorded_def)
  have codec: "codecs_ok (open_options s)" using codecs(2) r(2) by simp
  have laws: "compression_codec c" if "codec_for (open_options s) (po_compression (ph_options (ps_header (last (partitions s)))))
       (po_compression_version (ph_options (ps_header (last (partitions s))))) = Some c" for c
    by (rule codec_for_ok [OF codec that])
  note reads = mem_ring.emitted_reads_back [OF s(1) p(1) s(2) published(2) s(3) laws p(2) later]
  have "\<exists>meta s3. read_block (memory_env clock) (last (partitions s1)) (last (ps_active_index (last (partitions s1)))) s2 =
      Some (Inr (meta, builder s), s3)" if "mem_reliable (media s2)"
    by (rule mem_reliable_ring.emitted_delivered [OF r(1) p(1) published(2) codec p(2) later that]) blast
  then show ?thesis using reads by blast
qed

theorem published_block_reads_back_witness:
  "\<exists>s s1 meta s3. builder s = [1, 2, 3] \<and> publish test_env s = Some (Inr (), s1) \<and>
    read_block test_env (last (partitions s1)) (last (ps_active_index (last (partitions s1)))) s1 = Some (Inr (meta, [1, 2, 3]), s3)"
proof (rule test_device)
  fix fs m' s0
  assume d: "mem_good m'" and s0: "test_store s0" "builder s0 = []"
    "partitions s0 = [new_partition_state (new_partition_header (volume s0) 0 1 (oo_next_partition test_open_options))]"
    and o: "open_store test_env test_random test_open_options False m' = Some (Inr s0, media s0)"
  have g: "ph_generation (ps_header (last (partitions s0))) \<noteq> - 1"
    using s0(3) by (simp add: new_partition_state_def new_partition_header_def)
  obtain s where a: "append test_env (View [1, 2, 3]) 7 0 s0 = Some (Inr (), s)" and s: "test_store s" "builder s = [1, 2, 3]"
    by (rule test_append [OF s0(1) g, of "[1, 2, 3]" 7 0]) (simp_all add: s0(2))
  obtain s1 where p: "publish test_env s = Some (Inr (), s1)" and s1: "test_store s1" by (rule test_publish [OF s(1)])
  note inv = test_storeD [OF s1]
  have hdr: "ps_header (last (partitions s1)) \<in> set (headers s1)" by (rule last_header_in [OF inv(5)])
  have rel: "mem_reliable (media s1)" using inv(1) by (simp add: mem_rel.live_def mem_rel.ready_media_def)
  have run: "store_run test_env s0 s" using store_run.start a by (rule store_run.append)
  have "oo_writable test_open_options" by (simp add: test_open_options_def)
  from published_block_reads_back [OF d o [unfolded test_env_def] this test_versions test_codecs run [unfolded test_env_def] _
      p [unfolded test_env_def] store_run.start inv(4) hdr] rel s(2)
  show ?thesis using p s(2) unfolding test_env_def by auto
qed

text \<open>C3: published data never changes. Take two states of a run in which the writer has not failed, and a
  partition of the first that is still in the catalog of the second: every byte of its data, and every
  byte of the whole partition when it was not the active one, is the same in both.\<close>

theorem published_data_immutable:
  assumes opened: "mem_good m" "open_store (memory_env clock) getrandom options null m = Some (Inr s0, m')" "oo_writable options"
    and run: "store_run (memory_env clock) s0 s" "\<not> faulted s" "store_run (memory_env clock) s s'" "\<not> faulted s'"
    and part: "p \<in> set (partitions s)" "ps_header p \<in> set (map ps_header (partitions s'))"
    and span: "off + n \<le> (if ps_header p = ps_header (last (partitions s)) then unat (ps_data_end p) else unat (vh_partition_size (volume s)))"
  shows "sub_bytes (mem_volatile (media s')) (unat (partition_base (volume s) (ph_slot (ps_header p))) + off) n =
    sub_bytes (mem_volatile (media s)) (unat (partition_base (volume s) (ph_slot (ps_header p))) + off) n"
proof -
  have "store_inv s" "mem_good (media s0)"
    using open_store_inv [OF opened(2,3)] run(1) opened_good [OF opened(1,2)] by (auto intro: store.run_keeps)
  then have kept: "kept_since mem_volatile s s'"
    by (intro mem_ring.run_keeps_data [OF run(3) _ run(2) _ run(4)]) (auto intro: run_keeps_memory [OF run(1)])
  have "mem_volatile (media s') ! i = mem_volatile (media s) ! i"
    if "i \<in> protected s p" "i < length (mem_volatile (media s))" for i
    using kept part that by (simp add: kept_since_def headers_def)
  moreover have "length (mem_volatile (media s')) = length (mem_volatile (media s))" using kept by (simp add: kept_since_def)
  ultimately show ?thesis
    using span by (intro nth_equalityI) (auto simp: protected_def data_region_def slot_base_def split: if_splits)
qed

theorem published_data_immutable_witness:
  "\<exists>s s' p. test_store s \<and> builder s = [1, 2, 3] \<and> publish test_env s = Some (Inr (), s') \<and> builder s' = [] \<and> p \<in> set (partitions s) \<and>
    sub_bytes (mem_volatile (media s')) (unat (partition_base (volume s) (ph_slot (ps_header p)))) (unat (ps_data_end p)) =
      sub_bytes (mem_volatile (media s)) (unat (partition_base (volume s) (ph_slot (ps_header p)))) (unat (ps_data_end p))"
proof (rule test_device)
  fix fs m' s0
  assume d: "mem_good m'" and s0: "test_store s0" "builder s0 = []"
    "partitions s0 = [new_partition_state (new_partition_header (volume s0) 0 1 (oo_next_partition test_open_options))]"
    and o: "open_store test_env test_random test_open_options False m' = Some (Inr s0, media s0)"
  have g: "ph_generation (ps_header (last (partitions s0))) \<noteq> - 1"
    using s0(3) by (simp add: new_partition_state_def new_partition_header_def)
  obtain s where a: "append test_env (View [1, 2, 3]) 7 0 s0 = Some (Inr (), s)" and s: "test_store s" "builder s = [1, 2, 3]"
    by (rule test_append [OF s0(1) g, of "[1, 2, 3]" 7 0]) (simp_all add: s0(2))
  obtain s' where p: "publish test_env s = Some (Inr (), s')" and s': "test_store s'" "after_emit s s'" by (rule test_publish [OF s(1)])
  have run: "store_run test_env s0 s" "store_run test_env s s'"
    by (rule store_run.append [OF store_run.start a], rule store_run.publish [OF store_run.start p])
  let ?p = "last (partitions s)"
  have ne: "partitions s \<noteq> []" by (rule store_inv_nonempty [OF test_storeD(5) [OF s(1)]])
  have hdr: "ps_header ?p \<in> set (map ps_header (partitions s'))"
    using keys_le_step(2) [of s s'] s'(2) ne last_header_in [OF test_storeD(5) [OF s'(1)]] by (simp add: after_emit_def headers_def)
  have wr: "oo_writable test_open_options" by (simp add: test_open_options_def)
  from published_data_immutable [OF d o [unfolded test_env_def] wr run(1) [unfolded test_env_def] test_storeD(4) [OF s(1)]
      run(2) [unfolded test_env_def] test_storeD(4) [OF s'(1)] _ hdr, of 0 "unat (ps_data_end ?p)"] ne
  have "sub_bytes (mem_volatile (media s')) (unat (partition_base (volume s) (ph_slot (ps_header ?p)))) (unat (ps_data_end ?p)) =
      sub_bytes (mem_volatile (media s)) (unat (partition_base (volume s) (ph_slot (ps_header ?p)))) (unat (ps_data_end ?p))"
    by simp
  moreover have "builder s' = []" using s'(2) by (simp add: after_emit_def)
  ultimately show ?thesis using s p last_in_set [OF ne] by blast
qed

section \<open>Recovery\<close>

text \<open>The medium holds the volume.\<close>

lemma memory_run_size:
  assumes "mem_good m" "open_store (memory_env clock) getrandom options null m = Some (Inr s0, m')"
    "oo_writable options" "versions_ok options" "store_run (memory_env clock) s0 s" "\<not> faulted s"
  shows "unat (vh_volume_size (volume s)) \<le> length (mem_volatile (media s))"
proof -
  have env: "env_storage (memory_env clock) = memory_backend None" by simp
  obtain m2 v hi lo where m2: "mem_good m2" "mem_volatile m2 = mem_volatile m" and v: "unat (vh_volume_size v) \<le> length (mem_volatile m)"
    and r: "recover_store (memory_env clock) (new_impl m2 v options hi lo) = Some (Inr (), s0)"
    by (rule mem.open_recovers [OF env assms(1,2)])
  have start: "mem.media_in UNIV (mem_volatile m) (new_impl m2 v options hi lo)"
    using m2 by (simp add: mem.media_in_def agree_outside_def new_impl_def)
  have "keeps (mem.media_in UNIV (mem_volatile m)) (recover_store (memory_env clock))"
  proof (rule keeps_recover(2))
    show "keeps (mem.media_in UNIV (mem_volatile m)) (create_partition (memory_env clock) slot generation options)" for slot generation options
      unfolding keeps_def by (auto intro: mem.media_in_create [OF env])
  qed (simp_all add: mem.keeps_read [OF mem.read_closed_media_in env] mem.keeps_reads [OF mem.read_closed_media_in env],
      simp_all add: mem.media_in_def settle_catalog_def Let_def)
  from keepsD [OF this start r] have "length (mem_volatile (media s0)) = length (mem_volatile m)"
    by (simp add: mem.media_in_def agree_outside_def)
  moreover have "volume s0 = v" using keepsD [OF keeps_configured_recover(2) configured_refl r] by (simp add: configured_def new_impl_def)
  moreover have "kept_since mem_volatile s0 s"
    by (rule mem_ring.run_keeps_data [OF assms(5) memory_run_recorded(3-5) [OF assms(1-5)] assms(6)])
  ultimately show ?thesis using v by (simp add: kept_since_def)
qed

section \<open>Durability\<close>

lemma checkpoint_clean:
  "store_inv s \<Longrightarrow> wp (checkpoint env) (\<lambda>_ s'. store_inv s' \<and> builder s' = [] \<and> \<not> dirty s' \<and> \<not> faulted s') (\<lambda>_ _. True) s"
  by (auto simp: checkpoint_def after_emit_def same_catalog_def intro!: wp_emit_builder wp_sync_store split: if_split_asm)

lemma checkpoint_settles:
  assumes device: "mem_good m" "mem_durable m = mem_volatile m"
    and opened: "open_store (memory_env clock) getrandom options null m = Some (Inr s0, m')" "oo_writable options"
    and run: "store_run (memory_env clock) s0 s" and success: "checkpoint (memory_env clock) s = Some (Inr (), s')"
  shows "store_inv s'" "builder s' = []" "\<not> dirty s'" "\<not> faulted s'" "mem_durable (media s') = mem_volatile (media s')"
proof -
  have env: "env_storage (memory_env clock) = memory_backend None" by simp
  have "mem.synced s0" by (rule mem.open_synced [OF env device opened(1)])
  then have "mem.synced s" by (rule mem_ring.synced.run_keeps [OF run])
  then have synced: "mem.synced s'" using keepsD [OF mem.keeps_synced_public(4) [OF env] _ success] by blast
  have "store_inv s" using run opened by (blast intro: store.run_keeps open_store_inv)
  from wpD(1) [OF checkpoint_clean [OF this] success]
  show c: "store_inv s'" "builder s' = []" "\<not> dirty s'" "\<not> faulted s'" by simp_all
  show "mem_durable (media s') = mem_volatile (media s')" using synced c by (simp add: mem.synced_def)
qed

text \<open>A checkpoint that does not succeed returns an error.\<close>

lemma checkpoint_error:
  assumes inv: "store_inv s" and codecs: "codecs_ok (open_options s)"
  shows "wp (checkpoint env) (\<lambda>_ _. True) (\<lambda>e _. \<not> status_ok e) s"
proof -
  have mirror: "faulted s \<longrightarrow> \<not> status_ok (fault_status s)"
    using inv by (simp add: store_inv_def base_inv_def core_inv_def mirror_ok_def Let_def)
  have size: "length (builder s) \<le> vector_max"
    using inv unat_u32_less [of "vh_max_block_payload (volume s)"]
    by (simp add: store_inv_def base_inv_def core_inv_def builder_ok_def vector_max_def)
  have frame: "wp (emit_frame env p payload c v) (\<lambda>_ _. True) (\<lambda>e _. \<not> status_ok e) t" for p payload c v t
    by (auto simp: emit_frame_def Let_def intro!: wp_write_media split: prod.split)
  have select: "select_payload c options (builder s) \<noteq> Inl e"
    if "codec_for (open_options s) cid version = Some c" "builder s \<noteq> []" for c options e cid version
    by (rule select_payload_succeeds [OF codec_for_ok [OF codecs that(1)] that(2) size, of options]) simp
  have emit: "wp (emit_builder env) (\<lambda>_ _. True) (\<lambda>e _. \<not> status_ok e) s"
    using frame select by (auto simp: emit_builder_def Let_def split: option.split sum.split)
  have sync: "wp (sync_media env b) (\<lambda>_ _. True) (\<lambda>e _. \<not> status_ok e) t" for b t
    by (auto simp: sync_media_def wp_def fail_def Let_def split: prod.split)
  have "wp check_writer (\<lambda>_ t. t = s) (\<lambda>e _. \<not> status_ok e) s" using mirror by (simp add: check_writer_def wp_def)
  then show ?thesis
    unfolding checkpoint_def wp_bind by (rule wp_mono) (use sync in \<open>auto intro!: wp_mono [OF emit]\<close>)
qed

text \<open>Pending records become a block of the index, with their time bounds.\<close>

lemma emit_pushes:
  assumes "store_inv s" "builder s \<noteq> []"
  shows "wp (emit_builder env) (\<lambda>_ t. \<exists>e span. partitions t = butlast (partitions s) @ [push_entry e span (last (partitions s))] \<and>
    ie_min_time_ns e = builder_min_time s \<and> ie_max_time_ns e = builder_max_time s) (\<lambda>_ _. True) s"
proof -
  let ?Q = "\<lambda>(_ :: unit) t. \<exists>e span. partitions t = butlast (partitions s) @ [push_entry e span (last (partitions s))] \<and>
    ie_min_time_ns e = builder_min_time s \<and> ie_max_time_ns e = builder_max_time s"
  have "catalog_ok s" using assms(1) by (simp add: store_inv_def base_inv_def)
  then have cat: "catalog_ok (s\<lparr>media := m\<rparr>)" for m by (simp add: catalog_ok_def is_active_def headers_def)
  have "?Q () (note_published (new_index_entry p (new_block_header s p payload c v span) n span) span k (s\<lparr>media := m\<rparr>))"
    for p payload c v span n k m
    by (rule exI [of _ "new_index_entry p (new_block_header s p payload c v span) n span"], rule exI [of _ span])
      (simp add: note_published_partitions [OF cat], simp add: new_index_entry_def new_block_header_def)
  then have frame: "wp (emit_frame env p payload c v) ?Q (\<lambda>_ _. True) s" for p payload c v
    unfolding emit_frame_def wp_bind wp_get Let_def by (auto intro!: wp_write_media split: prod.split simp del: split_paired_Ex)
  show ?thesis
    using frame assms(2) by (auto simp: emit_builder_def Let_def split: option.split sum.split)
qed

lemma checkpoint_indexes:
  assumes "store_inv s" "builder s \<noteq> []"
  shows "wp (checkpoint env) (\<lambda>_ t. ps_active_index (last (partitions t)) \<noteq> []) (\<lambda>_ _. True) s"
proof -
  let ?Q = "\<lambda>(_ :: unit) t. ps_active_index (last (partitions t)) \<noteq> []"
  have emit: "wp (emit_builder env) ?Q (\<lambda>_ _. True) s"
    by (rule wp_mono [OF emit_pushes [OF assms]]) auto
  have sync: "wp (sync_media env b) ?Q (\<lambda>_ _. True) t" if "?Q () t" for b t
    using that by (auto simp: sync_media_def wp_def fail_def note_sync_def note_durable_def Let_def split: prod.split)
  have "wp check_writer (\<lambda>_ t. t = s) (\<lambda>_ _. True) s" by (simp add: check_writer_def wp_def)
  then show ?thesis
    unfolding checkpoint_def wp_bind by (rule wp_mono) (use sync in \<open>auto intro!: wp_mono [OF emit]\<close>)
qed

text \<open>C4: a successful checkpoint makes everything durable: in every state that a store opened on a
  settled memory device reaches, when \<open>checkpoint\<close> returns success no record is pending, every accepted
  record counts as durable, the durable image equals what reads see, and a crash that loses all
  unflushed writes loses nothing.\<close>

theorem checkpoint_durable:
  assumes device: "mem_good m" "mem_durable m = mem_volatile m"
    and opened: "open_store (memory_env clock) getrandom options null m = Some (Inr s0, m')" "oo_writable options"
    and run: "store_run (memory_env clock) s0 s" and success: "checkpoint (memory_env clock) s = Some (Inr (), s')"
  shows "mem_durable (media s') = mem_volatile (media s') \<and>
    mem_volatile (crash_discard_volatile (media s')) = mem_volatile (media s') \<and>
    builder s' = [] \<and> sm_durable_records (metrics s') = sm_accepted_records (metrics s')"
proof -
  note c = checkpoint_settles [OF assms]
  then have "accounting_ok s'" by (simp add: store_inv_def base_inv_def core_inv_def)
  then show ?thesis using c by (simp add: accounting_ok_def crash_discard_volatile_def)
qed

theorem checkpoint_durable_witness:
  "\<exists>m s0 s s'. mem_good m \<and> mem_durable m = mem_volatile m \<and>
    open_store test_env test_random test_open_options False m = Some (Inr s0, media s0) \<and>
    append test_env (View [7, 8]) 5 0 s0 = Some (Inr (), s) \<and> builder s = [7, 8] \<and>
    checkpoint test_env s = Some (Inr (), s') \<and> builder s' = [] \<and> mem_durable (media s') = mem_volatile (media s')"
proof (rule test_device)
  fix fs m' s0
  assume d: "mem_durable m' = mem_volatile m'" "mem_good m'" and s0: "test_store s0" "builder s0 = []"
    "partitions s0 = [new_partition_state (new_partition_header (volume s0) 0 1 (oo_next_partition test_open_options))]"
    and o: "open_store test_env test_random test_open_options False m' = Some (Inr s0, media s0)"
  have g: "ph_generation (ps_header (last (partitions s0))) \<noteq> - 1"
    using s0(3) by (simp add: new_partition_state_def new_partition_header_def)
  obtain s where a: "append test_env (View [7, 8]) 5 0 s0 = Some (Inr (), s)" and s: "test_store s" "builder s = [7, 8]"
    by (rule test_append [OF s0(1) g, of "[7, 8]" 5 0]) (simp_all add: s0(2))
  obtain s' where c: "checkpoint test_env s = Some (Inr (), s')" by (rule test_checkpoint [OF s(1)])
  have run: "store_run test_env s0 s" using store_run.start a by (rule store_run.append)
  have wr: "oo_writable test_open_options" by (simp add: test_open_options_def)
  from checkpoint_durable [OF d(2,1) o [unfolded test_env_def] wr run [unfolded test_env_def] c [unfolded test_env_def]]
  show ?thesis using d o a s(2) c by blast
qed

text \<open>C2: what a checkpoint made durable survives a crash. Take a writer opened on a settled memory device,
  one on which everything that reads see is durable at the time of the open, in any state it reaches. When
  \<open>checkpoint\<close> has returned success and the device then loses every unflushed write and works without
  faults, a store that opens the device reads the header of the active partition, with its generation, and
  the scan of that partition finds every block of the index in memory, in order, from the start; no
  accepted record was outside a block. On a device that is not settled at the open this does not hold:
  the first checkpoint then need not flush.\<close>

theorem checkpoint_survives_crash:
  assumes device: "mem_good m" "mem_durable m = mem_volatile m"
    and opened: "open_store (memory_env clock) getrandom options null m = Some (Inr s0, m')" "oo_writable options" "versions_ok options"
    and run: "store_run (memory_env clock) s0 s" and success: "checkpoint (memory_env clock) s = Some (Inr (), s')"
    and working: "mem_reliable (media s')"
  shows "\<exists>h u es data_end corrupt u'. builder s' = [] \<and>
    read_partition_header (memory_env clock) (ph_slot (ps_header (last (partitions s'))))
      (new_impl (crash_discard_volatile (media s')) (volume s') options hi lo) = Some (Inr h, u) \<and>
    ph_generation h = ph_generation (ps_header (last (partitions s'))) \<and>
    scan_partition (memory_env clock) h 0 u = Some (Inr (es, data_end, corrupt), u') \<and>
    take (length (ps_active_index (last (partitions s')))) es = ps_active_index (last (partitions s'))"
proof -
  have env: "env_storage (memory_env clock) = memory_backend None" by simp
  note c = checkpoint_settles [OF device opened(1,2) run success]
  have run': "store_run (memory_env clock) s0 s'" using run success by (rule store_run.checkpoint)
  note r = memory_run_recorded [OF device(1) opened run']
  let ?t = "new_impl (crash_discard_volatile (media s')) (volume s') options hi lo"
  have t: "mem_rel.ready_media ?t" "volume ?t = volume s'" "open_options ?t = open_options s'"
    "mem_volatile (media ?t) = mem_volatile (media s')"
    using memory_run_size [OF device(1) opened run' c(4)] working c(5) r(2)
    by (simp_all add: mem_rel.ready_media_def new_impl_def crash_discard_volatile_def mem_reliable_def mem_good_def)
  obtain h u es data_end corrupt u' more where
    "read_partition_header (memory_env clock) (ph_slot (ps_header (last (partitions s')))) ?t = Some (Inr h, u)"
    "ph_generation h = ph_generation (ps_header (last (partitions s')))"
    "scan_partition (memory_env clock) h 0 u = Some (Inr (es, data_end, corrupt), u')" "es = ps_active_index (last (partitions s')) @ more"
    by (rule mem_rel.rescan_finds [OF env r(1) c(4) t])
  then show ?thesis using c(2) by fastforce
qed

theorem checkpoint_survives_crash_witness:
  "\<exists>m s0 s s' h u es data_end corrupt u'. mem_good m \<and> mem_durable m = mem_volatile m \<and>
    open_store test_env test_random test_open_options False m = Some (Inr s0, media s0) \<and>
    append test_env (View [7, 8]) 5 0 s0 = Some (Inr (), s) \<and> builder s = [7, 8] \<and>
    checkpoint test_env s = Some (Inr (), s') \<and> mem_reliable (media s') \<and>
    ps_active_index (last (partitions s')) \<noteq> [] \<and>
    read_partition_header test_env (ph_slot (ps_header (last (partitions s'))))
      (new_impl (crash_discard_volatile (media s')) (volume s') test_open_options 5 6) = Some (Inr h, u) \<and>
    scan_partition test_env h 0 u = Some (Inr (es, data_end, corrupt), u') \<and>
    take (length (ps_active_index (last (partitions s')))) es = ps_active_index (last (partitions s'))"
proof (rule test_device)
  fix fs m' s0
  assume d: "mem_durable m' = mem_volatile m'" "mem_good m'" and s0: "test_store s0" "builder s0 = []"
    "partitions s0 = [new_partition_state (new_partition_header (volume s0) 0 1 (oo_next_partition test_open_options))]"
    and o: "open_store test_env test_random test_open_options False m' = Some (Inr s0, media s0)"
  have g: "ph_generation (ps_header (last (partitions s0))) \<noteq> - 1"
    using s0(3) by (simp add: new_partition_state_def new_partition_header_def)
  obtain s where a: "append test_env (View [7, 8]) 5 0 s0 = Some (Inr (), s)" and s: "test_store s" "builder s = [7, 8]"
    by (rule test_append [OF s0(1) g, of "[7, 8]" 5 0]) (simp_all add: s0(2))
  obtain s' where c: "checkpoint test_env s = Some (Inr (), s')" and s': "test_store s'" by (rule test_checkpoint [OF s(1)])
  have run: "store_run test_env s0 s" using store_run.start a by (rule store_run.append)
  have ne: "ps_active_index (last (partitions s')) \<noteq> []"
    using wpD(1) [OF checkpoint_indexes [OF test_storeD(5) [OF s(1)]] c] s(2) by simp
  have wr: "oo_writable test_open_options" by (simp add: test_open_options_def)
  have rel: "mem_reliable (media s')" using test_storeD(1) [OF s'] by (simp add: mem_rel.live_def mem_rel.ready_media_def)
  from checkpoint_survives_crash [OF d(2,1) o [unfolded test_env_def] wr test_versions run [unfolded test_env_def]
      c [unfolded test_env_def] rel, of 5 6]
  obtain h u es data_end corrupt u' where
    "read_partition_header test_env (ph_slot (ps_header (last (partitions s'))))
      (new_impl (crash_discard_volatile (media s')) (volume s') test_open_options 5 6) = Some (Inr h, u)"
    "scan_partition test_env h 0 u = Some (Inr (es, data_end, corrupt), u')"
    "take (length (ps_active_index (last (partitions s')))) es = ps_active_index (last (partitions s'))"
    unfolding test_env_def by blast
  then show ?thesis using d o a s(2) c rel ne by blast
qed

section \<open>A session\<close>

text \<open>C5: the program does its job. On a blank memory device that works, with options that pass the
  checks, formatting and opening succeed, a record that fits a block is accepted, published and made
  durable, and the block read back is that record.\<close>

theorem session_succeeds:
  assumes device: "mem_reliable m" "\<forall>i < length (mem_volatile m). 8192 \<le> i \<longrightarrow> mem_volatile m ! i = 0"
    and volume: "status_ok (check_volume_options (storage_size (memory_backend None) m) voptions)"
      "choose_volume_id getrandom voptions = Some (Inr (hi, lo))"
      "frames_fit (new_volume_header (storage_size (memory_backend None) m) voptions hi lo)"
    and options: "oo_writable options" "choose_writer_id getrandom' options = Some (Inr (whi, wlo))"
      "status_ok (validate_partition_options options (oo_next_partition options))" "codecs_ok options" "versions_ok options"
    and data: "data \<noteq> []" "length data \<le> unat (vo_max_block_payload voptions)"
  shows "\<exists>fs m' s s1 s2 s3 meta s4. format (memory_backend None) getrandom voptions m = Some (fs, m') \<and> status_ok fs \<and>
    open_store (memory_env clock) getrandom' options False m' = Some (Inr s, media s) \<and>
    append (memory_env clock) (View data) time flags s = Some (Inr (), s1) \<and>
    publish (memory_env clock) s1 = Some (Inr (), s2) \<and> checkpoint (memory_env clock) s2 = Some (Inr (), s3) \<and>
    mem_durable (media s3) = mem_volatile (media s3) \<and>
    read_block (memory_env clock) (last (partitions s2)) (last (ps_active_index (last (partitions s2)))) s3 = Some (Inr (meta, data), s4)"
proof -
  have env: "env_storage (memory_env clock) = memory_backend None" by simp
  obtain fs m' s where f: "format (memory_backend None) getrandom voptions m = Some (fs, m')" "status_ok fs" "mem_reliable m'"
      "mem_durable m' = mem_volatile m'"
    and o: "open_store (memory_env clock) getrandom' options False m' = Some (Inr s, media s)"
    and s: "mem_rel.live s" "writable s" "\<not> closed s"
      "partitions s = [new_partition_state (new_partition_header (volume s) 0 1 (oo_next_partition options))]"
      "volume s = new_volume_header (storage_size (memory_backend None) m) voptions hi lo" "builder s = []"
    by (rule mem_rel.opened_live [OF device(1) volume(1,2) device(2) env options(1-4) volume(3)]) (rule that)
  have good: "mem_good m'" using f(3) by (simp add: mem_reliable_def)
  have payload: "vh_max_block_payload (volume s) = vo_max_block_payload voptions" using s(5) by (simp add: new_volume_header_def)
  have g: "ph_generation (ps_header (last (partitions s))) \<noteq> - 1" using s(4) by (simp add: new_partition_state_def new_partition_header_def)
  obtain s1 where a: "append (memory_env clock) (View data) time flags s = Some (Inr (), s1)"
    and s1: "mem_rel.live s1" "\<not> closed s1" "builder s1 = data"
    using mem_rel.append_succeeds [OF env s(1-3) _ _ _ g, of "View data" time flags] data s(6) payload by (auto simp: runs_def)
  have run1: "store_run (memory_env clock) s s1" using store_run.start a by (rule store_run.append)
  have w1: "writable s1" using config.run_keeps [OF run1 configured_refl] s(2) by (simp add: configured_def)
  obtain s2 where p: "publish (memory_env clock) s1 = Some (Inr (), s2)" and s2: "mem_rel.live s2" "after_emit s1 s2"
    using mem_rel.publish_succeeds [OF env s1(1) w1 s1(2)] by (auto simp: runs_def)
  have run2: "store_run (memory_env clock) s s2" using run1 p by (rule store_run.publish)
  have up2: "writable s2" "\<not> closed s2" using s2(2) w1 s1(2) by (simp_all add: after_emit_def)
  obtain s3 where c: "checkpoint (memory_env clock) s2 = Some (Inr (), s3)" and s3: "mem_rel.live s3" "after_emit s2 s3"
    using mem_rel.checkpoint_succeeds [OF env s2(1) up2] by (auto simp: runs_def)
  have run23: "store_run (memory_env clock) s2 s3" using store_run.start c by (rule store_run.checkpoint)
  have inv: "store_inv s2" "store_inv s3" "\<not> faulted s3" "mem_reliable (media s3)" "codecs_ok (open_options s1)" "\<not> faulted s1"
    using s1 s2 s3 by (simp_all add: mem_rel.live_def mem_rel.ready_media_def)
  have hdr: "ps_header (last (partitions s2)) \<in> set (headers s3)"
    using keys_le_step(2) [of s2 s3] s3(2) store_inv_nonempty [OF inv(1)] last_header_in [OF inv(2)] by (simp add: after_emit_def)
  have e: "emit_builder (memory_env clock) s1 = Some (Inr (), s2)"
    using p by (auto simp: publish_def bind_op_Inr check_writer_def split: if_splits)
  have rec: "mem.recorded s1" by (rule memory_run_recorded [OF good o options(1,5) run1])
  have ne: "builder s1 \<noteq> []" using s1(3) data(1) by simp
  obtain meta s4 where "read_block (memory_env clock) (last (partitions s2)) (last (ps_active_index (last (partitions s2)))) s3 =
      Some (Inr (meta, builder s1), s4)"
    by (rule mem_reliable_ring.emitted_delivered [OF rec inv(6) ne inv(5) e run23 inv(3) hdr inv(4)])
  moreover have "mem_durable (media s3) = mem_volatile (media s3)"
    by (rule checkpoint_settles [OF good f(4) o options(1) run2 c])
  ultimately show ?thesis using f(1,2) o a p c s1(3) by blast
qed

theorem session_succeeds_witness:
  "\<exists>fs m' s s1 s2 s3 meta s4. format (memory_backend None) test_random test_volume_options (new_memory_storage 25600 True) = Some (fs, m') \<and>
    open_store test_env test_random test_open_options False m' = Some (Inr s, media s) \<and>
    append test_env (View [1, 2, 3]) 7 0 s = Some (Inr (), s1) \<and> publish test_env s1 = Some (Inr (), s2) \<and>
    checkpoint test_env s2 = Some (Inr (), s3) \<and>
    read_block test_env (last (partitions s2)) (last (ps_active_index (last (partitions s2)))) s3 = Some (Inr (meta, [1, 2, 3]), s4)"
proof -
  let ?m = "new_memory_storage 25600 True"
  have m: "mem_reliable ?m" "storage_size (memory_backend None) ?m = 25600"
    "\<forall>i < length (mem_volatile ?m). 8192 \<le> i \<longrightarrow> mem_volatile ?m ! i = 0"
    by (simp_all add: mem_reliable_def mem_good_def new_memory_storage_def memory_backend_def mem_size_def)
  have frames: "frames_fit (new_volume_header (storage_size (memory_backend None) ?m) test_volume_options 1 2)"
    using test_frames by (simp add: m(2) test_volume_def)
  have chk: "status_ok (check_volume_options (storage_size (memory_backend None) ?m) test_volume_options)"
    using test_options_ok(1) by (simp add: m(2))
  have wr: "oo_writable test_open_options" by (simp add: test_open_options_def)
  have data: "[1, 2, 3] \<noteq> ([] :: bytes)" "length ([1, 2, 3] :: bytes) \<le> unat (vo_max_block_payload test_volume_options)"
    by (simp_all add: test_volume_options_def)
  from session_succeeds [OF m(1,3) chk test_options_ok(2) frames wr test_options_ok(3,4) test_codecs test_versions data,
      where clock = "\<lambda>n. of_nat n" and time = 7 and flags = 0]
  show ?thesis unfolding test_env_def by blast
qed

section \<open>Codecs of version zero\<close>

text \<open>A caller's codec may have version zero: the options are accepted and the header is written, but no
  reader accepts that header. This is why the guarantees above ask for nonzero versions.\<close>

lemma zero_version_unreadable:
  assumes "candidate_codec (oo_compression_codecs oo) (po_compression options) 0 = Some c" "po_compression_version options = 0"
    "po_time_domain_id options \<noteq> 0" "po_record_format_id options = 0 \<longleftrightarrow> po_record_format_version options = 0"
  shows "status_ok (validate_partition_options oo options)"
    "\<exists>e. decode_partition_header (encode_partition_header (new_partition_header v slot generation options) psize isize) False = Inl e"
proof -
  show "status_ok (validate_partition_options oo options)"
    using assms by (auto simp: validate_partition_options_def codec_for_def Option.is_none_def split: option.split)
  have four: "decode_features data i 4 doff dsize coff clen st =
      decode_features data i (Suc (Suc (Suc (Suc 0)))) doff dsize coff clen st"
    for data i doff dsize coff clen st by (simp add: numeral_eq_Suc)
  show "\<exists>e. decode_partition_header (encode_partition_header (new_partition_header v slot generation options) psize isize) False = Inl e"
    using assms(2)
    by (simp add: encoded_gaps decode_partition_header_def encode_partition_header_check encoded_fields four
        decode_feature_def encoded_features core_features_def Let_def claim_config_def
        dispatch_feature_def default_partition_options_def new_partition_header_def)
qed

end
