(* ===== verification/Async_Properties.thy ===== *)
theory Async_Properties
  imports Async_Progress Ring_Guarantees
begin

text \<open>
  What the asynchronous writer promises its callers: the store is given the submitted records, none lost
  or reordered, the queue stays within its limits, a checkpoint that returns success has made every record
  submitted before it durable in the store, a failure is final and visible, and a requested checkpoint is
  reached.
\<close>

lemma session_reachable:
  assumes "(aw_step env)\<^sup>*\<^sup>* (aw_init store options) x" "status_ok (aw_background_status (wr x))"
  shows "accepted x = appended x @ in_flight (aw_worker (wr x)) @ aw_queue (wr x)"
    "base x + unat (aw_completed_barrier (wr x)) \<le> durable_count x"
    "waiters_ok (base x) (aw_submitted_sequence (wr x)) (waiters x)"
  using aw_invD(6) [OF aw_inv_reachable [OF assms(1)] assms(2)] unfolding session_ok_def Let_def by blast+

text \<open>C11: the store takes the submitted records in the order of their submission. Whatever the threads and
  the other users of the store do, the state of the store is what the recorded calls make of the initial
  one, each record taken being a call of \<open>append\<close> or \<open>append_checked\<close> with its bytes, time, flags and
  contract that the store answered with success; the records taken are the first ones submitted, in order,
  each once. While the writer has not failed, what the store has not taken is in the background thread's
  hands or in the queue.\<close>

theorem async_fifo:
  assumes "(aw_step env)\<^sup>*\<^sup>* (aw_init store options) x"
  shows "store_trace env store (trace x) (aw_store (wr x)) \<and> prefix (took (trace x)) (accepted x) \<and>
    (status_ok (background_status (wr x)) \<longrightarrow>
      accepted x = took (trace x) @ in_flight (aw_worker (wr x)) @ aw_queue (wr x))"
proof (cases "status_ok (aw_background_status (wr x))")
  case True
  then show ?thesis using session_reachable(1) [OF assms] aw_reachable_trace [OF assms] by (auto simp: background_status_def)
next
  case False
  then show ?thesis
    using aw_invD(8) [OF aw_inv_reachable [OF assms]] aw_reachable_trace [OF assms] by (simp add: background_status_def)
qed

theorem async_fifo_witness:
  "\<exists>s x. (aw_step test_env)\<^sup>*\<^sup>* (aw_init s test_writer_options) x \<and> length (accepted x) = 1 \<and>
    took (trace x) = accepted x \<and> store_trace test_env s (trace x) (aw_store (wr x))"
proof (rule test_run)
  fix m s x
  assume x: "(aw_step test_env)\<^sup>*\<^sup>* (aw_init s test_writer_options) x" "length (accepted x) = 1"
    "aw_queue (wr x) = []" "aw_worker (wr x) = Waiting 0" "status_ok (aw_background_status (wr x))"
  then have "took (trace x) = accepted x \<and> store_trace test_env s (trace x) (aw_store (wr x))"
    using async_fifo [OF x(1)] by (simp add: background_status_def in_flight_def)
  then show ?thesis using x(1,2) by metis
qed

text \<open>C12: the queue never holds more records or bytes than configured, and its byte count is that of
  its records.\<close>

theorem async_queue_bounds:
  assumes "(aw_step env)\<^sup>*\<^sup>* (aw_init store options) x"
  shows "queued_records (wr x) \<le> ao_queue_capacity_records options \<and>
    queued_bytes (wr x) = sum_list (map (length \<circ> it_bytes) (aw_queue (wr x))) \<and>
    queued_bytes (wr x) \<le> ao_queue_capacity_bytes options"
  using aw_invD(1) [OF aw_inv_reachable [OF assms]] aw_reachable_options [OF assms]
  by (simp add: queue_ok_def queued_records_def queued_bytes_def)

theorem async_queue_bounds_witness:
  "\<exists>s x. (aw_step test_env)\<^sup>*\<^sup>* (aw_init s test_writer_options) x \<and> length (accepted x) = 1 \<and> queued_bytes (wr x) \<le> 64"
proof (rule test_run)
  fix m s x
  assume "(aw_step test_env)\<^sup>*\<^sup>* (aw_init s test_writer_options) x" "length (accepted x) = 1"
  then show ?thesis using async_queue_bounds [of test_env s test_writer_options x]
    by (auto simp: test_writer_options_def)
qed

text \<open>The last successful checkpoint of the background thread, as a call of the store: it made everything
  durable that the store had been given before.\<close>

lemma covered_durable:
  assumes device: "mem_good m" "mem_durable m = mem_volatile m"
    and opened: "open_store (memory_env clock) getrandom oo null m = Some (Inr store, m')" "oo_writable oo" "codecs_ok oo"
    and run: "(aw_step (memory_env clock))\<^sup>*\<^sup>* (aw_init store options) x"
    and ok: "status_ok (aw_background_status (wr x))" and some: "0 < covered (trace x)"
  obtains before after s1 s2 where "trace x = before @ Checkpointed # after" "length (took before) = covered (trace x)"
    "store_trace (memory_env clock) store before s1" "checkpoint (memory_env clock) s1 = Some (Inr (), s2)"
    "store_trace (memory_env clock) s2 after (aw_store (wr x))" "builder s2 = []" "mem_durable (media s2) = mem_volatile (media s2)"
proof -
  let ?env = "memory_env clock"
  obtain before after where tr: "trace x = before @ Checkpointed # after" "covered (trace x) = length (took before)"
    by (rule covered_split [OF some])
  have calm: "Threw \<notin> set (trace x)"
    using aw_invD(6) [OF aw_inv_reachable [OF run] ok] by (simp add: session_ok_def Let_def)
  obtain s1 s2 r where s: "store_trace ?env store before s1" "checkpoint ?env s1 = Some (r, s2)" "status_ok (as_status r)"
    "store_trace ?env s2 after (aw_store (wr x))"
    using aw_reachable_trace [OF run] by (auto simp: tr(1) store_trace_append)
  have run1: "store_run ?env store s1" using s(1) calm by (auto simp: tr(1) intro: store_trace_run)
  have inv: "store_inv s1" using run1 opened(1,2) by (blast intro: store.run_keeps open_store_inv)
  have "codecs_ok (open_options s1)" using opened_options [OF device(1) opened(1) run1] opened(3) by simp
  then have "r = Inr ()"
    using wpD(2) [OF checkpoint_error [OF inv], of ?env] s(2,3) by (cases r) (auto simp: as_status_def)
  then have c: "checkpoint ?env s1 = Some (Inr (), s2)" using s(2) by simp
  note d = checkpoint_settles [OF device opened(1,2) run1 c]
  show ?thesis using that [OF tr(1) tr(2) [symmetric] s(1) c s(4) d(2,5)] .
qed

text \<open>C13: a waiting \<open>checkpoint()\<close> call that returns success has made its records durable. For a writer over
  a store that was opened for writing on a settled memory device (everything that reads see is durable at
  the open) with codecs that keep their contract: when the call returns success, then either no record had
  ever been submitted before it, or the background thread has called \<open>checkpoint\<close> of the store and got
  success, after the store had taken every record submitted before the call; that checkpoint left no
  record pending and made all that the store had written durable.\<close>

theorem async_checkpoint_durable:
  assumes device: "mem_good m" "mem_durable m = mem_volatile m"
    and opened: "open_store (memory_env clock) getrandom oo null m = Some (Inr store, m')" "oo_writable oo" "codecs_ok oo"
    and run: "(aw_step (memory_env clock))\<^sup>*\<^sup>* (aw_init store options) x" and call: "(target, n) \<in> set (waiters x)"
    and success: "checkpoint_wakes target (wr x)" "status_ok (checkpoint_result target (wr x))"
  shows "n = 0 \<or> (\<exists>before after s1 s2. trace x = before @ Checkpointed # after \<and>
    store_trace (memory_env clock) store before s1 \<and> checkpoint (memory_env clock) s1 = Some (Inr (), s2) \<and>
    store_trace (memory_env clock) s2 after (aw_store (wr x)) \<and>
    take n (took before) = take n (accepted x) \<and> n \<le> length (took before) \<and>
    builder s2 = [] \<and> mem_durable (media s2) = mem_volatile (media s2))"
proof (cases "n = 0")
  case False
  have ok: "status_ok (aw_background_status (wr x))" "target \<le> aw_completed_barrier (wr x)"
    using success(2) by (auto simp: checkpoint_result_def not_less split: if_split_asm)
  note s = session_reachable [OF run ok(1)]
  have "n \<le> base x \<or> n = base x + unat target" using s(3) call by (auto simp: waiters_ok_def)
  then have n: "n \<le> covered (trace x)" using s(2) ok(2) aw_invD(5) [OF aw_inv_reachable [OF run]] by (auto simp: word_le_nat_alt)
  then have "0 < covered (trace x)" using False by simp
  then obtain before after s1 s2 where c: "trace x = before @ Checkpointed # after" "length (took before) = covered (trace x)"
    "store_trace (memory_env clock) store before s1" "checkpoint (memory_env clock) s1 = Some (Inr (), s2)"
    "store_trace (memory_env clock) s2 after (aw_store (wr x))" "builder s2 = []" "mem_durable (media s2) = mem_volatile (media s2)"
    by (rule covered_durable [OF device opened run ok(1)])
  have "take n (accepted x) = take n (took before)" using s(1) c(1,2) n by simp
  then show ?thesis using c n by metis
qed simp

theorem async_checkpoint_durable_witness:
  "\<exists>m s x s1 s2. open_store test_env test_random test_open_options False m = Some (Inr s, media s) \<and>
    (aw_step test_env)\<^sup>*\<^sup>* (aw_init s test_writer_options) x \<and> (1, 1) \<in> set (waiters x) \<and>
    checkpoint_wakes 1 (wr x) \<and> status_ok (checkpoint_result 1 (wr x)) \<and> accepted x \<noteq> [] \<and>
    store_trace test_env s [Took (hd (accepted x))] s1 \<and> checkpoint test_env s1 = Some (Inr (), s2) \<and>
    mem_durable (media s2) = mem_volatile (media s2)"
proof (rule test_run)
  fix m s x
  assume d: "mem_good m" "mem_durable m = mem_volatile m"
    "open_store test_env test_random test_open_options False m = Some (Inr s, media s)"
    and x: "(aw_step test_env)\<^sup>*\<^sup>* (aw_init s test_writer_options) x" "waiters x = [(1, 1)]" "length (accepted x) = 1"
      "aw_completed_barrier (wr x) = 1" "status_ok (aw_background_status (wr x))" "trace x = map Took (accepted x) @ [Checkpointed]"
  have w: "checkpoint_wakes 1 (wr x)" "status_ok (checkpoint_result 1 (wr x))" "(1, 1) \<in> set (waiters x)"
    using x by (simp_all add: checkpoint_wakes_def checkpoint_result_def)
  have wr: "oo_writable test_open_options" by (simp add: test_open_options_def)
  obtain q where q: "accepted x = [q]" using x(3) by (auto simp: length_Suc_conv)
  have tr: "before = [Took q]" if "trace x = before @ Checkpointed # after" for before after
    using that x(6) q by (auto simp: Cons_eq_append_conv append_eq_Cons_conv)
  obtain before after s1 s2 where c: "trace x = before @ Checkpointed # after" "store_trace test_env s before s1"
    "checkpoint test_env s1 = Some (Inr (), s2)" "mem_durable (media s2) = mem_volatile (media s2)"
    using async_checkpoint_durable [OF d(1,2) d(3) [unfolded test_env_def] wr test_codecs x(1) [unfolded test_env_def] w(3,1,2)]
    unfolding test_env_def by auto
  show ?thesis using d(3) x(1) w c tr [OF c(1)] q by (intro exI [of _ m] exI [of _ s] exI [of _ x] exI [of _ s1] exI [of _ s2]) simp
qed

text \<open>C14: a \<open>stop()\<close> that returns success has drained the queue into the store and made it durable. For a
  writer over a store that was opened for writing on a settled memory device with codecs that keep their
  contract: the queue is empty, the store has taken every record ever submitted, in order, and, if there
  was one, the background thread has after the last of them called \<open>checkpoint\<close> of the store and got
  success, which left no record pending and made all that the store had written durable.\<close>

theorem async_stop_drains:
  assumes device: "mem_good m" "mem_durable m = mem_volatile m"
    and opened: "open_store (memory_env clock) getrandom oo null m = Some (Inr store, m')" "oo_writable oo" "codecs_ok oo"
    and run: "(aw_step (memory_env clock))\<^sup>*\<^sup>* (aw_init store options) x"
    and stopped: "stop_joined (wr x)" "status_ok (stop_result (wr x))"
  shows "queued_records (wr x) = 0 \<and> store_trace (memory_env clock) store (trace x) (aw_store (wr x)) \<and>
    took (trace x) = accepted x \<and>
    (accepted x = [] \<or> (\<exists>before after s1 s2. trace x = before @ Checkpointed # after \<and> took before = accepted x \<and>
      store_trace (memory_env clock) store before s1 \<and> checkpoint (memory_env clock) s1 = Some (Inr (), s2) \<and>
      store_trace (memory_env clock) s2 after (aw_store (wr x)) \<and>
      builder s2 = [] \<and> mem_durable (media s2) = mem_volatile (media s2)))"
proof -
  have ok: "status_ok (aw_background_status (wr x))" "\<not> aw_running (wr x)"
    using stopped aw_invD(2) [OF aw_inv_reachable [OF run]] by (simp_all add: stop_result_def stop_joined_def)
  have s: "queued_records (wr x) = 0" "took (trace x) = accepted x" "covered (trace x) = length (accepted x)"
    using aw_invD(7) [OF aw_inv_reachable [OF run] ok] session_reachable(1) [OF run ok(1)] stopped(1)
    by (simp_all add: stop_joined_def in_flight_def queued_records_def)
  have "\<exists>before after s1 s2. trace x = before @ Checkpointed # after \<and> took before = accepted x \<and>
      store_trace (memory_env clock) store before s1 \<and> checkpoint (memory_env clock) s1 = Some (Inr (), s2) \<and>
      store_trace (memory_env clock) s2 after (aw_store (wr x)) \<and>
      builder s2 = [] \<and> mem_durable (media s2) = mem_volatile (media s2)" if "accepted x \<noteq> []"
  proof -
    have "0 < covered (trace x)" using that s(3) by simp
    then obtain before after s1 s2 where c: "trace x = before @ Checkpointed # after" "length (took before) = covered (trace x)"
      "store_trace (memory_env clock) store before s1" "checkpoint (memory_env clock) s1 = Some (Inr (), s2)"
      "store_trace (memory_env clock) s2 after (aw_store (wr x))" "builder s2 = []" "mem_durable (media s2) = mem_volatile (media s2)"
      by (rule covered_durable [OF device opened run ok(1)])
    have "took before @ took after = accepted x" using s(2) c(1) by simp
    moreover from this have "length (took before) + length (took after) = length (accepted x)" by (metis length_append)
    then have "took after = []" using c(2) s(3) by simp
    ultimately have "took before = accepted x" by simp
    then show ?thesis using c by blast
  qed
  then show ?thesis using s aw_reachable_trace [OF run] by blast
qed

theorem async_stop_drains_witness:
  "\<exists>m s x before s1 s2. open_store test_env test_random test_open_options False m = Some (Inr s, media s) \<and>
    (aw_step test_env)\<^sup>*\<^sup>* (aw_init s test_writer_options) x \<and> stop_joined (wr x) \<and>
    status_ok (stop_result (wr x)) \<and> length (took before) = 1 \<and> took before = accepted x \<and>
    store_trace test_env s before s1 \<and> checkpoint test_env s1 = Some (Inr (), s2) \<and>
    mem_durable (media s2) = mem_volatile (media s2)"
proof (rule test_run_stopped)
  fix m s x
  assume d: "mem_good m" "mem_durable m = mem_volatile m"
    "open_store test_env test_random test_open_options False m = Some (Inr s, media s)"
    and x: "(aw_step test_env)\<^sup>*\<^sup>* (aw_init s test_writer_options) x" "stop_joined (wr x)"
    "status_ok (stop_result (wr x))" "length (accepted x) = 1"
  have wr: "oo_writable test_open_options" by (simp add: test_open_options_def)
  have "accepted x \<noteq> []" using x(4) by auto
  then obtain before s1 s2 where "took before = accepted x" "store_trace test_env s before s1"
    "checkpoint test_env s1 = Some (Inr (), s2)" "mem_durable (media s2) = mem_volatile (media s2)"
    using async_stop_drains [OF d(1,2) d(3) [unfolded test_env_def] wr test_codecs x(1) [unfolded test_env_def] x(2,3)]
    unfolding test_env_def by auto
  then show ?thesis using d(3) x by metis
qed

text \<open>C15: a failure of the background thread is final: whatever happens afterwards, the status stays,
  the queue stays empty, every \<open>submit\<close>, \<open>checkpoint\<close> and \<open>start\<close> reports it, and no waiting
  \<open>checkpoint()\<close> call is left waiting.\<close>

theorem async_failure_sticky:
  assumes run: "(aw_step env)\<^sup>*\<^sup>* (aw_init store options) x" "\<not> status_ok (background_status (wr x))"
    and later: "(aw_step env)\<^sup>*\<^sup>* x y"
  shows "background_status (wr y) = background_status (wr x) \<and> queued_records (wr y) = 0 \<and>
    submit item time flags now (wr y) = (background_status (wr x), wr y) \<and>
    aw_start (wr y) = (background_status (wr x), wr y) \<and>
    checkpoint_request (wr y) = (Inl (background_status (wr x)), wr y) \<and>
    checkpoint_wakes target (wr y) \<and> checkpoint_result target (wr y) = background_status (wr x)"
proof -
  have bad: "\<not> status_ok (aw_background_status (wr x))" using run(2) by (simp add: background_status_def)
  note y = failed_steps [OF later aw_inv_reachable [OF run(1)] bad]
  then have "\<not> aw_running (wr y)" "aw_queue (wr y) = []" using aw_invD(8) [of y] bad by auto
  then show ?thesis
    using y bad by (simp add: background_status_def queued_records_def submit_def submit_impl_def aw_start_def
        checkpoint_request_def checkpoint_wakes_def checkpoint_result_def)
qed

theorem async_failure_sticky_witness:
  "\<exists>s x. (aw_step test_env)\<^sup>*\<^sup>* (aw_init s test_writer_options) x \<and> \<not> status_ok (background_status (wr x)) \<and>
    aw_start (wr x) = (background_status (wr x), wr x)"
proof (rule test_run_failed)
  fix s x
  assume "(aw_step test_env)\<^sup>*\<^sup>* (aw_init s test_writer_options) x" "\<not> status_ok (background_status (wr x))"
  then show ?thesis using async_failure_sticky [of test_env s test_writer_options x x] by blast
qed

text \<open>From a wait, the turns reach the requested barrier.\<close>

lemma waiting_answered:
  assumes reach: "(aw_step (memory_env clock))\<^sup>*\<^sup>* (aw_init store options) y" and good: "mem_good (media store)"
    and thread: "aw_worker (wr y) = Waiting started" "aw_checkpoint_requested (wr y)"
    and turns: "length (aw_queue (wr y)) + timed_turns (memory_env clock) ts (wr y) + 1 \<le> length ts"
  shows "\<exists>n w. n \<le> length ts \<and> worker_turns (memory_env clock) (take n ts) (wr y) = Some w \<and>
    (\<not> status_ok (aw_background_status w) \<or> aw_requested_barrier (wr y) \<le> aw_completed_barrier w)"
proof -
  have env: "env_storage (memory_env clock) = memory_backend None" by simp
  note i = aw_inv_numbered [OF aw_inv_reachable [OF reach] thread(1)]
  have "mem_good (media (aw_store (wr y)))" using run_keeps_memory [OF aw_reachable_run [OF reach i(3)]] good by simp
  then show ?thesis by (rule mem.turns_reach_barrier [OF env _ thread(1) i(3,1) thread(2) i(2) turns])
qed

text \<open>C16: a \<open>checkpoint()\<close> request is answered. On the memory backend, whatever faults it injects, and
  wherever the background thread is when the request is made: if it then takes turns, each with its own
  clock readings, and no other call intervenes, the call's wait is over after at most two turns more than
  there are queued records and turns that find the checkpoint interval over. Such a turn checkpoints
  instead of taking a record, so a clock that is past the interval at every turn keeps the call waiting.\<close>

theorem async_checkpoint_answered:
  assumes run: "(aw_step (memory_env clock))\<^sup>*\<^sup>* (aw_init store options) x" and good: "mem_good (media store)"
    and request: "checkpoint_request (wr x) = (Inr target, w)"
    and turns: "queued_records (wr x) + timed_turns (memory_env clock) ts w + 2 \<le> length ts"
  shows "\<exists>n w'. n \<le> length ts \<and> worker_turns (memory_env clock) (take n ts) w = Some w' \<and> checkpoint_wakes target w'"
proof -
  let ?env = "memory_env clock" and ?x = "x\<lparr>wr := w, waiters := (target, length (accepted x)) # waiters x\<rparr>"
  have env: "env_storage ?env = memory_backend None" by simp
  have w: "w = (wr x)\<lparr>aw_requested_barrier := max (aw_requested_barrier (wr x)) target, aw_checkpoint_requested := True\<rparr>"
    "status_ok (aw_background_status (wr x))" "aw_running (wr x)"
    using request by (auto simp: checkpoint_request_def Let_def split: if_split_asm)
  have reach: "(aw_step ?env)\<^sup>*\<^sup>* (aw_init store options) ?x"
    using run aw_step.request [OF request] by (rule rtranclp.rtrancl_into_rtrancl)
  have target: "target \<le> aw_requested_barrier w" by (simp add: w(1))
  show ?thesis
  proof (cases "\<exists>started. aw_worker w = Waiting started")
    case True
    then obtain started where wk: "aw_worker (wr ?x) = Waiting started" by auto
    have "aw_checkpoint_requested (wr ?x)" "length (aw_queue (wr ?x)) + timed_turns ?env ts (wr ?x) + 1 \<le> length ts"
      using turns by (simp_all add: w(1) queued_records_def)
    from waiting_answered [OF reach good wk this] obtain n w' where "n \<le> length ts"
      "worker_turns ?env (take n ts) w = Some w'" "\<not> status_ok (aw_background_status w') \<or> aw_requested_barrier w \<le> aw_completed_barrier w'"
      by auto
    then show ?thesis using target by (intro exI [of _ n] exI [of _ w']) (auto simp: checkpoint_wakes_def)
  next
    case False
    obtain t us where ts: "ts = t # us" using turns by (cases ts) auto
    have thread: "aw_worker w \<noteq> No_thread" using aw_invD(2) [OF aw_inv_reachable [OF run]] w by simp
    have good': "mem_good (media (aw_store w))"
      using run_keeps_memory [OF aw_reachable_run [OF run w(2)]] good by (simp add: w(1))
    obtain v where v: "worker_turn ?env t w = Some v"
      "\<not> status_ok (aw_background_status v) \<or> \<not> aw_running v \<or> aw_requested_barrier w \<le> aw_completed_barrier v \<or>
       (\<exists>started. aw_worker v = Waiting started) \<and> aw_checkpoint_requested v \<and> aw_queue v = aw_queue w \<and>
       aw_requested_barrier v = aw_requested_barrier w"
      by (rule mem.first_turn [OF env good' thread]) (use False in \<open>auto simp: w(1)\<close>)
    show ?thesis
    proof (cases "checkpoint_wakes target v")
      case True
      then show ?thesis using v(1) ts by (intro exI [of _ 1] exI [of _ v]) simp
    next
      case wait: False
      then obtain started where c: "aw_worker v = Waiting started" "aw_checkpoint_requested v" "aw_queue v = aw_queue w"
        "aw_requested_barrier v = aw_requested_barrier w"
        using v(2) target by (auto simp: checkpoint_wakes_def)
      obtain y where y: "(aw_step ?env)\<^sup>*\<^sup>* ?x y" "wr y = v" using worker_turn_steps [of ?env t ?x v] v(1) by auto
      have "timed_turns ?env ts w = timed_turns ?env us v" using False v(1) by (auto simp: ts split: worker.split)
      then have len: "length (aw_queue v) + timed_turns ?env us v + 1 \<le> length us"
        using turns c(3) by (simp add: ts queued_records_def w(1))
      obtain n w' where "n \<le> length us" "worker_turns ?env (take n us) v = Some w'"
        "\<not> status_ok (aw_background_status w') \<or> aw_requested_barrier v \<le> aw_completed_barrier w'"
        using waiting_answered [OF rtranclp_trans [OF reach y(1)] good, unfolded y(2), OF c(1,2) len] by blast
      then show ?thesis using v(1) ts c(4) target by (intro exI [of _ "Suc n"] exI [of _ w']) (auto simp: checkpoint_wakes_def)
    qed
  qed
qed

theorem async_checkpoint_answered_witness:
  "\<exists>s x target w n w'. (aw_step test_env)\<^sup>*\<^sup>* (aw_init s test_writer_options) x \<and> queued_records (wr x) = 1 \<and>
    checkpoint_request (wr x) = (Inr target, w) \<and> n \<le> 3 \<and>
    worker_turns test_env (take n (replicate 3 \<lparr>tn_woken_at = 1, tn_now = 2, tn_dequeued_at = 3, tn_durable_at = 4\<rparr>)) w = Some w' \<and>
    checkpoint_wakes target w'"
proof (rule test_run_queued)
  fix m s x
  assume x: "(aw_step test_env)\<^sup>*\<^sup>* (aw_init s test_writer_options) x" "queued_records (wr x) = 1" "aw_running (wr x)"
    "aw_worker (wr x) = Waiting 0" "status_ok (aw_background_status (wr x))" "test_store s"
  let ?ts = "replicate 3 \<lparr>tn_woken_at = 1, tn_now = 2, tn_dequeued_at = 3, tn_durable_at = 4\<rparr>"
  define w where "w = snd (checkpoint_request (wr x))"
  have w: "checkpoint_request (wr x) = (Inr (aw_submitted_sequence (wr x)), w)" "aw_worker w = Waiting 0" "aw_options w = aw_options (wr x)"
    using x by (simp_all add: w_def checkpoint_request_def Let_def)
  have "interval_ns w = 1000000000" using aw_reachable_options [OF x(1)] w(3) by (simp add: interval_ns_def test_writer_options_def)
  then have "timed_turns test_env ?ts w = 0" using w(2) by (intro no_timed_turns [of _ 0 _ 0]) simp_all
  then have turns: "queued_records (wr x) + timed_turns test_env ?ts w + 2 \<le> length ?ts" using x(2) by simp
  from async_checkpoint_answered [OF x(1) [unfolded test_env_def] test_storeD(6) [OF x(6)] w(1) turns [unfolded test_env_def]]
  obtain n w' where "n \<le> length ?ts" "worker_turns test_env (take n ?ts) w = Some w'" "checkpoint_wakes (aw_submitted_sequence (wr x)) w'"
    unfolding test_env_def by blast
  then show ?thesis using x(1,2) w(1) by (metis length_replicate)
qed

end
