(* ===== verification/Ring_Properties.thy ===== *)
theory Ring_Properties
  imports Ring_Device
begin

text \<open>
  What a ring store promises: the catalog and the observers agree with what it does, operations
  return and succeed when the backend does, what is published stays, reads back and is durable after
  a checkpoint, and a fault freezes the writer.
\<close>

section \<open>The catalog\<close>

lemma length_le_slots:
  assumes "distinct xs" "\<forall>x \<in> set xs. x < (n :: u32)"
  shows "length xs \<le> unat n"
proof -
  have "set (map unat xs) \<subseteq> {..<unat n}" using assms(2) by (auto simp: word_less_nat_alt)
  then have "card (set (map unat xs)) \<le> unat n" by (metis card_lessThan card_mono finite_lessThan)
  moreover have "distinct (map unat xs)" using assms(1) by (simp add: distinct_map inj_on_def word_unat_eq_iff)
  ultimately show ?thesis by (metis distinct_card length_map)
qed

text \<open>C7: in every state an opened writer reaches, on any backend and whatever its operations returned,
  the catalog is ordered by generation, no two partitions share a slot or lie outside the volume, and
  the newest partition is the one records go to; the pending block never exceeds the maximum.\<close>

theorem store_catalog:
  assumes "reachable env s"
  shows "sorted_wrt (\<lambda>p q. ph_generation (ps_header p) < ph_generation (ps_header q)) (partitions s) \<and>
    distinct (map (ph_slot \<circ> ps_header) (partitions s)) \<and>
    (\<forall>p \<in> set (partitions s). ph_slot (ps_header p) < vh_partition_count (volume s)) \<and>
    length (partitions s) \<le> unat (vh_partition_count (volume s)) \<and>
    active s = Some (last (partitions s)) \<and>
    length (builder s) \<le> unat (vh_max_block_payload (volume s))"
proof -
  have inv: "catalog_sorted (volume s) (headers s)" "catalog_ok s" "builder_ok s"
    using reachable_inv [OF assms] by (simp_all add: store_inv_def base_inv_def core_inv_def)
  then have slots: "distinct (map (ph_slot \<circ> ps_header) (partitions s))"
    "\<forall>p \<in> set (partitions s). ph_slot (ps_header p) < vh_partition_count (volume s)"
    by (auto simp: catalog_sorted_def headers_def)
  have "length (map (ph_slot \<circ> ps_header) (partitions s)) \<le> unat (vh_partition_count (volume s))"
    by (rule length_le_slots [OF slots(1)]) (use slots(2) in auto)
  then show ?thesis
    using inv slots catalog_active [of s] by (auto simp: catalog_sorted_def headers_def sorted_wrt_map builder_ok_def)
qed

theorem store_catalog_witness:
  "\<exists>s. reachable test_env s \<and> active s = Some (last (partitions s))"
proof (rule test_reachable)
  fix s assume "reachable test_env s"
  then show ?thesis using store_catalog [of test_env s] by blast
qed

text \<open>C10: the lock-free health snapshot tells the truth: what it reports is the state of the store and
  its metrics, a faulted store always has an error to report, and when nothing is pending and nothing
  unflushed, every accepted record is counted durable.\<close>

theorem health_truthful:
  assumes "reachable env s"
  shows "\<exists>h s'. health env s = Some (Inr h, s') \<and> wh_closed h = closed s \<and> wh_faulted h = faulted s \<and>
    (faulted s \<longrightarrow> wh_fault_code h = code (fault_status s) \<and> \<not> status_ok (fault_status s)) \<and>
    wh_sync_calls h = sm_sync_calls (metrics s) \<and> wh_sync_errors h = sm_sync_errors (metrics s) \<and>
    wh_checkpoints h = sm_checkpoints (metrics s) \<and>
    (builder s = [] \<and> \<not> dirty s \<longrightarrow> wh_oldest_undurable_age_ns h = 0 \<and>
      sm_durable_records (metrics s) = sm_accepted_records (metrics s))"
proof -
  have "mirror_ok s" "accounting_ok s"
    using reachable_inv [OF assms] by (simp_all add: store_inv_def base_inv_def core_inv_def)
  then show ?thesis by (auto simp: mirror_ok_def accounting_ok_def health_def Let_def)
qed

theorem health_truthful_witness:
  "\<exists>s h s'. reachable test_env s \<and> health test_env s = Some (Inr h, s') \<and> wh_closed h = closed s"
proof (rule test_reachable)
  fix s assume "reachable test_env s"
  then show ?thesis using health_truthful [of test_env s] by blast
qed

section \<open>Time arithmetic\<close>

text \<open>C40: the time comparisons are those of unbounded integers: a block's time bounds intersect a query
  range exactly when some time lies in both, and a gap exceeds the allowed distance exactly when time
  goes back or the difference, which may not fit 64 signed bits, is larger.\<close>

theorem time_arithmetic_exact:
  assumes "min_time \<le>s max_time" "tr_begin_ns r <s tr_end_ns r"
  shows "(ranges_intersect min_time max_time r \<longleftrightarrow>
      (\<exists>t :: i64. sint min_time \<le> sint t \<and> sint t \<le> sint max_time \<and> sint (tr_begin_ns r) \<le> sint t \<and> sint t < sint (tr_end_ns r))) \<and>
    (delta_exceeds earlier later allowed \<longleftrightarrow>
      0 \<le> sint allowed \<and> (sint later < sint earlier \<or> sint allowed < sint later - sint earlier))"
proof -
  have "sint min_time \<le> sint max_time" "sint (tr_begin_ns r) < sint (tr_end_ns r)"
    using assms by (simp_all add: word_sle_eq word_sless_alt)
  from ranges_intersect_sint [OF this] show ?thesis by (simp add: delta_exceeds_sint)
qed

theorem time_arithmetic_exact_witness:
  "(10 :: i64) \<le>s 20 \<and> ranges_intersect 10 20 \<lparr>tr_begin_ns = 20, tr_end_ns = 30, tr_time_domain_id = 1\<rparr> \<and>
    delta_exceeds (- 9223372036854775808) 9223372036854775807 9223372036854775807"
proof -
  have "(10 :: i64) \<le>s 20" "tr_begin_ns \<lparr>tr_begin_ns = 20, tr_end_ns = 30, tr_time_domain_id = 1\<rparr> <s
      tr_end_ns \<lparr>tr_begin_ns = 20, tr_end_ns = 30, tr_time_domain_id = 1\<rparr>"
    by code_simp+
  from time_arithmetic_exact [OF this, of "- 9223372036854775808" 9223372036854775807 9223372036854775807]
  show ?thesis by (simp add: word_sle_eq) (rule exI [of _ 20], simp)
qed

section \<open>Every operation returns\<close>

text \<open>C9: on the memory backend every operation of a store returns, whatever faults the backend injects
  and whatever is on the medium: writing, flushing, rotating, closing, queries, and opening once the
  random source has delivered an identifier.\<close>

theorem operations_return:
  assumes "mem_good (media s)" "visitor_keeps (\<lambda>s. mem_good (media s)) visitor" "mem_good m"
    "choose_writer_id getrandom options = Some w"
  shows "(\<exists>r s'. append (memory_env clock) item time flags s = Some (r, s')) \<and>
    (\<exists>r s'. append_checked (memory_env clock) item time contract flags s = Some (r, s')) \<and>
    (\<exists>r s'. publish (memory_env clock) s = Some (r, s')) \<and> (\<exists>r s'. checkpoint (memory_env clock) s = Some (r, s')) \<and>
    (\<exists>r s'. rotate_store (memory_env clock) poptions s = Some (r, s')) \<and> (\<exists>r s'. close (memory_env clock) s = Some (r, s')) \<and>
    (\<exists>r x. query (memory_env clock) all_blocks rng qoptions (Some visitor) (s, v) = Some (r, x)) \<and>
    (\<exists>r m'. open_store (memory_env clock) getrandom options null m = Some (r, m'))"
proof -
  have env: "env_storage (memory_env clock) = memory_backend None" by simp
  have s: "mem.on_good s" using assms(1) by (simp add: mem.on_good_def)
  have v: "visitor_keeps mem.on_good visitor" using assms(2) by (simp add: mem.on_good_def [abs_def])
  note ops = mem.returns_public [OF env, THEN returnsD, OF s]
  have "\<exists>r x. query (memory_env clock) all_blocks rng qoptions (Some visitor) (s, v) = Some (r, x)"
    using returnsD [OF mem.returns_query [OF env v, of all_blocks rng qoptions], of "(s, v)"] s by blast
  then show ?thesis using ops mem.open_returns [OF env assms(3,4)] by meson
qed

theorem operations_return_witness:
  "\<exists>s m r s'. mem_good (media s) \<and> mem_good m \<and> append test_env (View [7]) 5 0 s = Some (r, s')"
proof (rule test_device)
  fix fs m' s
  assume m: "mem_good m'" and s: "test_store s"
  have v: "visitor_keeps (\<lambda>s. mem_good (media s)) (\<lambda>_ x. (True, x))" by (simp add: visitor_keeps_def)
  obtain r s' where "append test_env (View [7]) 5 0 s = Some (r, s')"
    using conjunct1 [OF operations_return [OF test_storeD(6) [OF s] v m test_options_ok(3), of "\<lambda>n. of_nat n" "View [7]" 5 0]]
    unfolding test_env_def by blast
  then show ?thesis using test_storeD(6) [OF s] m by blast
qed

section \<open>A faulted store\<close>

text \<open>What a fault freezes: its status, the catalog, the pending block and the medium.\<close>

context storage_contract
begin

definition frozen :: "'s impl \<Rightarrow> 's impl \<Rightarrow> bool" where
  "frozen s0 s \<longleftrightarrow> writable s \<and> \<not> closed s \<and> faulted s \<and> fault_status s = fault_status s0 \<and> partitions s = partitions s0 \<and>
     builder s = builder s0 \<and> good (media s) \<and> image (media s) = image (media s0)"

lemma frozen_check: "frozen s0 s \<Longrightarrow> check_writer s = Some (Inl (fault_status s0), s)"
  by (simp add: frozen_def check_writer_def)

lemma frozen_calls:
  assumes "frozen s0 s"
  shows "append env item time flags s = Some (Inl (fault_status s0), s)" "publish env s = Some (Inl (fault_status s0), s)"
    "checkpoint env s = Some (Inl (fault_status s0), s)" "rotate_store env options s = Some (Inl (fault_status s0), s)"
    "set_next_partition_options options s = Some (Inl (fault_status s0), s)" "close env s = Some (Inl (fault_status s0), s)"
  using frozen_check [OF assms] assms
  by (simp_all add: append_def append_impl_def publish_def checkpoint_def rotate_store_def set_next_partition_options_def
      close_def bind_op_def frozen_def)

lemma keeps_refused: "(\<And>s. I s \<Longrightarrow> \<exists>e. m s = Some (Inl e, s)) \<Longrightarrow> keeps I m"
  by (fastforce simp: keeps_def wp_def)

lemma frozen_kept:
  assumes env: "env_storage env = st"
  shows "kept_by_operations env (frozen s0)"
proof
  have closed: "read_closed (frozen s0)" by (auto simp: read_closed_def frozen_def)
  note reads = keeps_reads [OF closed env]
  show "keeps (frozen s0) (append env item time flags)" "keeps (frozen s0) (publish env)" "keeps (frozen s0) (checkpoint env)"
    "keeps (frozen s0) (rotate_store env options)" "keeps (frozen s0) (set_next_partition_options options)"
    "keeps (frozen s0) (close env)" for item time flags options
    by (rule keeps_refused, blast dest: frozen_calls)+
  show "keeps (frozen s0) (append_checked env item time contract flags)" for item time contract flags
    by (rule keeps_refused) (auto simp: append_checked_def append_impl_def bind_op_def dest: frozen_check)
  show "keeps (frozen s0) (store_metrics_of env)" "keeps (frozen s0) (health env)"
    by (auto simp: keeps_def wp_def store_metrics_of_def health_def Let_def frozen_def)
  show "keeps (frozen s0) (read_partition_header env slot)" "keeps (frozen s0) (read_block env part e)"
    "keeps (frozen s0) (acquire_index env part)" for slot part e by (intro reads)+
  show "frozen s0 s \<Longrightarrow> frozen s0 (count_gap kind s)" for s kind by (simp add: frozen_def count_gap_def)
qed

end

text \<open>C8: a fault is final. Whatever is called on a faulted writer afterwards, it stays faulted with the
  same status, every writing operation returns this status, and neither the catalog nor the pending
  block nor a byte of the medium changes.\<close>

theorem fault_freezes:
  assumes "writable s" "\<not> closed s" "faulted s" "mem_good (media s)" "store_run (memory_env clock) s s'"
  shows "faulted s' \<and> partitions s' = partitions s \<and> builder s' = builder s \<and> mem_volatile (media s') = mem_volatile (media s) \<and>
    append (memory_env clock) item time flags s' = Some (Inl (fault_status s), s') \<and>
    publish (memory_env clock) s' = Some (Inl (fault_status s), s') \<and>
    checkpoint (memory_env clock) s' = Some (Inl (fault_status s), s') \<and>
    rotate_store (memory_env clock) options s' = Some (Inl (fault_status s), s') \<and>
    close (memory_env clock) s' = Some (Inl (fault_status s), s')"
proof -
  have "mem.frozen s s" using assms(1-4) by (simp add: mem.frozen_def)
  then have f: "mem.frozen s s'"
    using kept_by_operations.run_keeps [OF mem.frozen_kept assms(5)] by simp
  then show ?thesis using mem.frozen_calls [OF f] by (simp add: mem.frozen_def)
qed

theorem fault_freezes_witness:
  "\<exists>s. faulted s \<and> append test_env (View [7]) 5 0 s = Some (Inl (fault_status s), s)"
proof (rule test_reachable)
  fix s assume "test_store s"
  note d = test_storeD [OF this]
  let ?s = "s\<lparr>faulted := True, fault_status := Error Io_error ''flush failed''\<rparr>"
  have "append test_env (View [7]) 5 0 ?s = Some (Inl (fault_status ?s), ?s)"
    using fault_freezes [of ?s "\<lambda>n. of_nat n" ?s "View [7]" 5 0] d store_run.start [of _ ?s]
    by (simp add: test_env_def)
  then show ?thesis by (intro exI [of _ ?s]) simp
qed

end
