(* ===== verification/Ring_Query_Properties.thy ===== *)
theory Ring_Query_Properties
  imports Ring_Guarantees
begin

text \<open>
  What a query shows its visitor, on any backend: only blocks of the requested time domain that
  intersect the requested range, and all of them, each with its data or as a gap.
\<close>

lemma wp_any: "(\<And>a t. Q a t) \<Longrightarrow> (\<And>e t. E e t) \<Longrightarrow> wp m Q E s"
  by (rule wpI) simp_all

text \<open>A block that is delivered is the one of its index entry.\<close>

lemma read_block_metadata:
  "wp (read_block env part e) (\<lambda>(meta, data) _. bm_partition_generation meta = ph_generation (ps_header part) \<and>
      bm_block_sequence meta = ie_sequence e \<and> bm_min_time_ns meta = ie_min_time_ns e \<and> bm_max_time_ns meta = ie_max_time_ns e \<and>
      bm_time_domain_id meta = po_time_domain_id (ph_options (ps_header part)) \<and> length data = unat (bm_raw_size meta)) (\<lambda>_ _. True) s"
proof -
  let ?Q = "\<lambda>(meta, data) (_ :: 'a impl). bm_partition_generation meta = ph_generation (ps_header part) \<and>
      bm_block_sequence meta = ie_sequence e \<and> bm_min_time_ns meta = ie_min_time_ns e \<and> bm_max_time_ns meta = ie_max_time_ns e \<and>
      bm_time_domain_id meta = po_time_domain_id (ph_options (ps_header part)) \<and> length data = unat (bm_raw_size meta)"
  have decode: "wp (decode_block env part e block stored) ?Q (\<lambda>_ _. True) t"
    if "block_identity v part e block" "block_agrees v part e block" for v block stored t
    using that unfolding decode_block_def wp_bind wp_get
    by (auto simp: block_metadata_of_def block_identity_def block_agrees_def intro!: wp_classify split: option.split sum.split)
  show ?thesis
    unfolding read_block_def wp_bind [of get_op] wp_get Let_def
    by (auto intro!: wp_any [where m = "read_media env off n" for off n] wp_any [where m = "catch_op r h" for r h] wp_classify
        simp del: wp_catch split: sum.split) (use decode in auto)
qed

section \<open>Invariants of a query\<close>

text \<open>The events a time query may show.\<close>

definition requested :: "time_range \<Rightarrow> block_event \<Rightarrow> bool" where
  "requested rng event \<longleftrightarrow> be_kind event = Event_data \<longrightarrow>
     ranges_intersect (bm_min_time_ns (be_metadata event)) (bm_max_time_ns (be_metadata event)) rng \<and>
     bm_time_domain_id (be_metadata event) = tr_time_domain_id rng \<and>
     length (be_data event) = unat (bm_raw_size (be_metadata event))"

text \<open>What an operation of a query does to the visitor's own state: \<open>J\<close> stays, unless the query gives up
  with an error, and then \<open>E\<close> is what remains.\<close>

definition leaves :: "('v \<Rightarrow> bool) \<Rightarrow> ('v \<Rightarrow> bool) \<Rightarrow> ('s impl \<times> 'v, 'a) op \<Rightarrow> bool" where
  "leaves J E m \<longleftrightarrow> (\<forall>x. J (snd x) \<longrightarrow> wp m (\<lambda>_ y. J (snd y)) (\<lambda>_ y. E (snd y)) x)"

lemma leavesD: "leaves J E m \<Longrightarrow> J (snd x) \<Longrightarrow> wp m (\<lambda>_ y. J (snd y)) (\<lambda>_ y. E (snd y)) x"
  unfolding leaves_def by blast

lemma leaves_bind: "leaves J E m \<Longrightarrow> (\<And>a. leaves J E (f a)) \<Longrightarrow> leaves J E (bind_op m f)"
  unfolding leaves_def wp_bind by (blast intro: wp_mono)

lemma leaves_basic: "leaves J E (return_op a)" "(\<And>v. J v \<Longrightarrow> E v) \<Longrightarrow> leaves J E (error_op e)" "leaves J E get_op"
  by (simp_all add: leaves_def)

lemma wp_on_store: "wp m P (\<lambda>_ _. True) (fst x) \<Longrightarrow>
  wp (on_store m) (\<lambda>a y. P a (fst y) \<and> snd y = snd x) (\<lambda>_ y. snd y = snd x) x"
  by (auto simp: wp_def on_store_def split: prod.splits option.splits sum.splits)

lemma leaves_on_store:
  fixes m :: "('s impl, 'a) op" and J E :: "'v \<Rightarrow> bool"
  shows "(\<And>v. J v \<Longrightarrow> E v) \<Longrightarrow> leaves J E (on_store m)"
  unfolding leaves_def
proof (intro allI impI)
  fix x :: "'s impl \<times> 'v" assume "\<And>v. J v \<Longrightarrow> E v" "J (snd x)"
  then show "wp (on_store m) (\<lambda>_ y. J (snd y)) (\<lambda>_ y. E (snd y)) x"
    by (intro wp_mono [OF wp_on_store [of m "\<lambda>_ _. True"]]) (simp_all add: wp_any)
qed

lemma leaves_try: "leaves J J m \<Longrightarrow> leaves J E (try_op m)"
  by (simp add: leaves_def)

lemma leaves_if: "(b \<Longrightarrow> leaves J E m) \<Longrightarrow> (\<not> b \<Longrightarrow> leaves J E n) \<Longrightarrow> leaves J E (if b then m else n)"
  by simp

lemma leaves_sum:
  "(\<And>e. leaves J E (g e)) \<Longrightarrow> (\<And>a. leaves J E (h a)) \<Longrightarrow> leaves J E (case r of Inl e \<Rightarrow> g e | Inr a \<Rightarrow> h a)"
  by (cases r) simp_all

locale query_invariant =
  fixes options :: query_options and rng :: time_range and visitor :: "('s, 'v) visitor"
    and J E :: "'v \<Rightarrow> bool"
  assumes weaker: "J v \<Longrightarrow> E v"
    and on_data: "be_kind event = Event_data \<Longrightarrow> requested rng event \<Longrightarrow> leaves J E (visit visitor event)"
    and on_gap: "be_kind event \<noteq> Event_data \<Longrightarrow> leaves J E (report_gap options visitor event)"
begin

lemma corrupt_slots_leave: "leaves J E (report_corrupt_slots options visitor slots)"
proof (induction slots)
  case (Cons slot slots)
  show ?case
    unfolding report_corrupt_slots.simps by (intro leaves_bind on_gap leaves_if leaves_basic Cons) (simp add: gap_event_def)
qed (simp only: report_corrupt_slots.simps leaves_basic)

lemma entries_leave:
  assumes "po_time_domain_id (ph_options (ps_header part)) = tr_time_domain_id rng"
  shows "leaves J E (query_entries env False rng options visitor part es)"
proof (induction es)
  case (Cons e es)
  let ?rest = "query_entries env False rng options visitor part es"
  have gap: "leaves J E (bind_op (report_gap options visitor (gap_event kind status meta))
      (\<lambda>go_on. if \<not> go_on then return_op False else if kind = Event_overwritten_gap then return_op True else ?rest))"
    if "kind \<noteq> Event_data" for kind status meta
    using that by (intro leaves_bind on_gap leaves_if leaves_basic Cons) (simp add: gap_event_def)
  have data: "leaves J E (bind_op (visit visitor \<lparr>be_kind = Event_data, be_metadata = meta, be_data = decoded, be_detail = Ok\<rparr>)
      (\<lambda>go_on. if \<not> go_on then return_op False else ?rest))"
    if "requested rng \<lparr>be_kind = Event_data, be_metadata = meta, be_data = decoded, be_detail = Ok\<rparr>" for meta decoded
    using that by (intro leaves_bind on_data leaves_if leaves_basic Cons) simp_all
  show ?case
  proof (cases "ranges_intersect (ie_min_time_ns e) (ie_max_time_ns e) rng")
    case True
    show ?thesis
      unfolding leaves_def query_entries.simps wp_bind [of "try_op _"] wp_try
    proof (intro allI impI, simp only: True simp_thms if_False wp_bind [of "try_op _"] wp_try,
        rule wp_mono [OF wp_on_store [OF read_block_metadata]], goal_cases)
      case (1 x r y)
      obtain meta decoded where r: "r = (meta, decoded)" by fastforce
      show ?case
        unfolding r sum.case prod.case
        by (rule leavesD [OF data]) (use 1 True assms r in \<open>simp_all add: requested_def\<close>)
    next
      case (2 x status y)
      show ?case unfolding sum.case Let_def by (rule leavesD [OF gap]) (use 2 in simp_all)
    qed
  qed (simp add: Cons)
qed (simp only: query_entries.simps leaves_basic)

lemma partition_leaves:
  assumes "tr_time_domain_id rng \<noteq> 0"
  shows "leaves J E (query_partition env False rng options visitor part)"
proof (cases "po_time_domain_id (ph_options (ps_header part)) = tr_time_domain_id rng")
  case True
  have gap: "leaves J E (report_gap options visitor (gap_event kind status meta))" if "kind \<noteq> Event_data" for kind status meta
    using that by (intro on_gap) (simp add: gap_event_def)
  show ?thesis
    unfolding query_partition_def
    by (intro leaves_if leaves_bind leaves_try leaves_on_store leaves_sum gap entries_leave [OF True] leaves_basic weaker) simp_all
next
  case False
  then show ?thesis using assms by (simp add: query_partition_def leaves_def)
qed

lemma partitions_leave:
  assumes "tr_time_domain_id rng \<noteq> 0"
  shows "leaves J E (query_partitions env False rng options visitor parts)"
proof (induction parts)
  case (Cons part parts)
  then show ?case
    unfolding query_partitions.simps by (intro leaves_bind partition_leaves [OF assms] leaves_if leaves_basic)
qed (simp only: query_partitions.simps leaves_basic)

lemma query_leaves: "leaves J E (query_blocks env rng options (Some visitor))"
  unfolding query_blocks_def query_def option.case Let_def
  by (intro leaves_if leaves_bind leaves_basic) 
    (auto intro!: leaves_bind leaves_if leaves_basic corrupt_slots_leave partitions_leave weaker split: prod.split)

end

section \<open>What a query shows\<close>

text \<open>A visitor that keeps a log of what it was shown, does anything to the store, and may stop at any event.\<close>

definition recording :: "(block_event \<Rightarrow> 's impl \<Rightarrow> bool \<times> 's impl) \<Rightarrow> ('s, block_event list) visitor" where
  "recording act event x = (let (go_on, s) = act event (fst x) in (go_on, (s, snd x @ [event])))"

lemma wp_visit_recording:
  "wp (visit (recording act) event) (\<lambda>go_on y. go_on = fst (act event (fst x)) \<and> snd y = snd x @ [event]) (\<lambda>_ _. False) x"
  by (simp add: wp_def visit_def recording_def Let_def split: prod.split)

lemma leaves_visit_recording:
  "(\<And>log. J log \<Longrightarrow> J (log @ [event])) \<Longrightarrow> leaves J E (visit (recording act) event)"
  unfolding leaves_def by (intro allI impI, rule wp_mono [OF wp_visit_recording]) simp_all

interpretation requested_log: query_invariant options rng "recording act" "\<lambda>log. \<forall>e \<in> set log. requested rng e"
  "\<lambda>log. \<forall>e \<in> set log. requested rng e" for options rng act
proof
  fix event :: block_event
  let ?J = "\<lambda>log. \<forall>e \<in> set log. requested rng e"
  show data: "leaves ?J ?J (visit (recording act) event)" if "requested rng event"
    using that by (intro leaves_visit_recording) simp
  assume "be_kind event \<noteq> Event_data"
  then have event: "requested rng event" by (simp add: requested_def)
  have "leaves ?J ?J (modify_op (\<lambda>(s, v). (count_gap (be_kind event) s, v)))" by (simp add: leaves_def split: prod.split)
  then show "leaves ?J ?J (report_gap options (recording act) event)"
    unfolding report_gap_def by (intro leaves_bind leaves_if leaves_basic data [OF event])
qed

text \<open>When gaps end a query and the visitor never stops it, a query that succeeds has shown no gap.\<close>

lemma gapless_log:
  assumes "\<not> qo_continue_on_gap options" "\<forall>e s. fst (act e s)"
  shows "query_invariant options rng (recording act) (\<lambda>log. \<forall>e \<in> set log. be_kind e = Event_data) (\<lambda>_. True)"
proof
  fix event :: block_event
  let ?J = "\<lambda>log. \<forall>e \<in> set log. be_kind e = Event_data"
  show "leaves ?J (\<lambda>_. True) (visit (recording act) event)" if "be_kind event = Event_data"
    using that by (intro leaves_visit_recording) simp
  have "wp (visit (recording act) event) (\<lambda>go_on y. wp (if \<not> go_on then return_op False
      else if \<not> qo_continue_on_gap options then error_op (be_detail event) else return_op True) Q (\<lambda>_ _. True) y) (\<lambda>_ _. True) x"
    for Q and x :: "'a impl \<times> block_event list"
    by (rule wp_mono [OF wp_visit_recording]) (use assms in simp_all)
  then show "leaves ?J (\<lambda>_. True) (report_gap options (recording act) event)"
    unfolding leaves_def report_gap_def wp_bind wp_modify by blast
qed simp

section \<open>What a query has to show\<close>

text \<open>The gap of a slot whose header recovery could not read.\<close>

definition slot_gap :: "u32 \<Rightarrow> block_event" where
  "slot_gap slot = gap_event Event_corrupt_gap (Error Corrupt ''partition header is damaged'')
     (zero_metadata\<lparr>bm_partition_slot := slot\<rparr>)"

text \<open>A block is answered with what a read of it returned: its data, or a gap with the read's error.\<close>

definition block_answered :: "'s env \<Rightarrow> partition_state \<Rightarrow> index_entry \<Rightarrow> block_event set \<Rightarrow> bool" where
  "block_answered env part entry events \<longleftrightarrow>
     (\<exists>t t' r. read_block env part entry t = Some (r, t') \<and>
       (case r of
          Inr (metadata, data) \<Rightarrow>
            \<lparr>be_kind = Event_data, be_metadata = metadata, be_data = data, be_detail = Ok\<rparr> \<in> events
        | Inl status \<Rightarrow>
            gap_event (if code status = Overwritten then Event_overwritten_gap else Event_corrupt_gap) status
              ((partition_metadata part)\<lparr>bm_block_sequence := ie_sequence entry\<rparr>) \<in> events))"

text \<open>The partition was found to be overwritten, which ends its reading.\<close>

definition overwritten_shown :: "partition_state \<Rightarrow> block_event set \<Rightarrow> bool" where
  "overwritten_shown part events \<longleftrightarrow>
     (\<exists>event. event \<in> events \<and> be_kind event = Event_overwritten_gap \<and>
       bm_partition_generation (be_metadata event) = ph_generation (ps_header part))"

definition entries_answered ::
  "'s env \<Rightarrow> time_range \<Rightarrow> partition_state \<Rightarrow> index_entry list \<Rightarrow> block_event set \<Rightarrow> bool" where
  "entries_answered env rng part entries events \<longleftrightarrow>
     (\<forall>entry \<in> set entries. ranges_intersect (ie_min_time_ns entry) (ie_max_time_ns entry) rng \<longrightarrow>
       block_answered env part entry events \<or> overwritten_shown part events)"

text \<open>A partition is answered with one gap when its header cannot be read or is of another generation. Else
  all blocks of its index are answered, with a gap more when the index or the data end does not fit.\<close>

definition partition_answered :: "'s env \<Rightarrow> time_range \<Rightarrow> partition_state \<Rightarrow> block_event set \<Rightarrow> bool" where
  "partition_answered env rng part events \<longleftrightarrow>
     (\<exists>t t' status. read_partition_header env (ph_slot (ps_header part)) t = Some (Inl status, t') \<and>
        gap_event Event_corrupt_gap status (partition_metadata part) \<in> events) \<or>
     (\<exists>t t' h. read_partition_header env (ph_slot (ps_header part)) t = Some (Inr h, t') \<and>
        ph_generation h \<noteq> ph_generation (ps_header part) \<and>
        gap_event Event_overwritten_gap (Error Overwritten ''partition changed while acquiring its index'')
          (partition_metadata part) \<in> events) \<or>
     (\<exists>t t' a. acquire_index env part t = Some (Inr a, t') \<and>
        (invalid_prefix part a \<longrightarrow>
           (\<exists>detail. gap_event Event_corrupt_gap detail (partition_metadata part) \<in> events)) \<and>
        entries_answered env rng part (aq_entries a) events)"

lemma block_answeredI:
  "read_block env part e t = Some (Inl status, t') \<Longrightarrow>
    gap_event (if code status = Overwritten then Event_overwritten_gap else Event_corrupt_gap) status
      ((partition_metadata part)\<lparr>bm_block_sequence := ie_sequence e\<rparr>) \<in> A \<Longrightarrow> block_answered env part e A"
  "read_block env part e t = Some (Inr (metadata, data), t') \<Longrightarrow>
    \<lparr>be_kind = Event_data, be_metadata = metadata, be_data = data, be_detail = Ok\<rparr> \<in> A \<Longrightarrow> block_answered env part e A"
  unfolding block_answered_def by fastforce+

lemma block_answered_mono: "block_answered env part e A \<Longrightarrow> A \<subseteq> B \<Longrightarrow> block_answered env part e B"
  unfolding block_answered_def by (fastforce split: sum.splits prod.splits)

lemma overwritten_shown_mono: "overwritten_shown part A \<Longrightarrow> A \<subseteq> B \<Longrightarrow> overwritten_shown part B"
  unfolding overwritten_shown_def by blast

lemma entries_answered_mono: "entries_answered env rng part es A \<Longrightarrow> A \<subseteq> B \<Longrightarrow> entries_answered env rng part es B"
  unfolding entries_answered_def by (meson block_answered_mono overwritten_shown_mono)

lemma partition_answered_mono: "partition_answered env rng part A \<Longrightarrow> A \<subseteq> B \<Longrightarrow> partition_answered env rng part B"
  unfolding partition_answered_def by (meson entries_answered_mono in_mono)

text \<open>What a round of a query adds to the log, when it goes on.\<close>

definition adds :: "(block_event set \<Rightarrow> bool) \<Rightarrow> ('s impl \<times> block_event list, bool) op \<Rightarrow> bool" where
  "adds P m \<longleftrightarrow> (\<forall>x. wp m (\<lambda>go_on y. go_on \<and> (\<exists>new. snd y = snd x @ new \<and> P (set new))) (\<lambda>_ _. True) x)"

lemma addsD: "adds P m \<Longrightarrow> wp m (\<lambda>go_on y. go_on \<and> (\<exists>new. snd y = snd x @ new \<and> P (set new))) (\<lambda>_ _. True) x"
  unfolding adds_def by blast

lemma adds_return: "P {} \<Longrightarrow> adds P (return_op True)"
  by (simp add: adds_def)

lemma adds_mono: "adds P m \<Longrightarrow> (\<And>A. P A \<Longrightarrow> Q A) \<Longrightarrow> adds Q m"
  unfolding adds_def by (blast intro: wp_mono)

lemma adds_bind:
  fixes m n :: "('s impl \<times> block_event list, bool) op"
  assumes "adds P m" "adds Q n" "\<And>A B. P A \<Longrightarrow> Q B \<Longrightarrow> R (A \<union> B)"
  shows "adds R (bind_op m (\<lambda>go_on. if \<not> go_on then return_op False else n))"
  unfolding adds_def wp_bind
proof (intro allI, rule wp_mono [OF addsD [OF assms(1)]])
  fix x y :: "'s impl \<times> block_event list" and go_on
  assume "go_on \<and> (\<exists>new. snd y = snd x @ new \<and> P (set new))"
  then obtain new where y: go_on "snd y = snd x @ new" "P (set new)" by blast
  have "wp n (\<lambda>go_on z. go_on \<and> (\<exists>more. snd z = snd x @ more \<and> R (set more))) (\<lambda>_ _. True) y"
  proof (rule wp_mono [OF addsD [OF assms(2)]], elim conjE exE)
    fix go_on z more
    assume "go_on" "snd z = snd y @ more" "Q (set more)"
    then show "go_on \<and> (\<exists>more. snd z = snd x @ more \<and> R (set more))"
      using y assms(3) [of "set new" "set more"] by (auto intro: exI [of _ "new @ more"])
  qed
  then show "wp (if \<not> go_on then return_op False else n)
      (\<lambda>go_on z. go_on \<and> (\<exists>new. snd z = snd x @ new \<and> R (set new))) (\<lambda>_ _. True) y" using y by simp
qed

text \<open>A read between the rounds leaves the log alone.\<close>

lemma adds_read:
  fixes m :: "('s impl, 'a) op"
  assumes "\<And>a t t'. m t = Some (Inr a, t') \<Longrightarrow> adds P (f a)"
  shows "adds P (bind_op (on_store m) f)"
  unfolding adds_def wp_bind
proof
  fix x :: "'s impl \<times> block_event list"
  show "wp (on_store m) (\<lambda>a. wp (f a) (\<lambda>go_on y. go_on \<and> (\<exists>new. snd y = snd x @ new \<and> P (set new))) (\<lambda>_ _. True)) (\<lambda>_ _. True) x"
  proof (rule wpI)
    fix a y assume "on_store m x = Some (Inr a, y)"
    then have "m (fst x) = Some (Inr a, fst y)" "snd y = snd x" by (auto simp: on_store_def split: prod.splits option.splits)
    then show "wp (f a) (\<lambda>go_on y. go_on \<and> (\<exists>new. snd y = snd x @ new \<and> P (set new))) (\<lambda>_ _. True) y"
      using addsD [OF assms, of "fst x" a "fst y" y] by simp
  qed simp
qed

lemma adds_try_read:
  fixes m :: "('s impl, 'a) op"
  assumes "\<And>r t t'. m t = Some (r, t') \<Longrightarrow> adds P (f r)"
  shows "adds P (bind_op (try_op (on_store m)) f)"
  unfolding adds_def wp_bind wp_try
proof
  fix x :: "'s impl \<times> block_event list"
  let ?Q = "\<lambda>go_on y. go_on \<and> (\<exists>new. snd y = snd x @ new \<and> P (set new))"
  show "wp (on_store m) (\<lambda>a. wp (f (Inr a)) ?Q (\<lambda>_ _. True)) (\<lambda>e. wp (f (Inl e)) ?Q (\<lambda>_ _. True)) x"
  proof (rule wpI)
    fix a y assume "on_store m x = Some (Inr a, y)"
    then have "m (fst x) = Some (Inr a, fst y)" "snd y = snd x" by (auto simp: on_store_def split: prod.splits option.splits)
    then show "wp (f (Inr a)) ?Q (\<lambda>_ _. True) y" using addsD [OF assms, of "fst x" "Inr a" "fst y" y] by simp
  next
    fix e y assume "on_store m x = Some (Inl e, y)"
    then have "m (fst x) = Some (Inl e, fst y)" "snd y = snd x" by (auto simp: on_store_def split: prod.splits option.splits)
    then show "wp (f (Inl e)) ?Q (\<lambda>_ _. True) y" using addsD [OF assms, of "fst x" "Inl e" "fst y" y] by simp
  qed
qed

lemma adds_error: "adds P (error_op e)"
  by (simp add: adds_def)

lemma adds_if: "(b \<Longrightarrow> adds P m) \<Longrightarrow> (\<not> b \<Longrightarrow> adds P n) \<Longrightarrow> adds P (if b then m else n)"
  by simp

lemma adds_sum:
  "(\<And>e. r = Inl e \<Longrightarrow> adds P (g e)) \<Longrightarrow> (\<And>a. r = Inr a \<Longrightarrow> adds P (h a)) \<Longrightarrow> adds P (case r of Inl e \<Rightarrow> g e | Inr a \<Rightarrow> h a)"
  by (cases r) simp_all

lemma adds_prod: "(\<And>a b. z = (a, b) \<Longrightarrow> adds P (f a b)) \<Longrightarrow> adds P (case z of (a, b) \<Rightarrow> f a b)"
  by (cases z) simp

lemma adds_visit: "\<forall>e s. fst (act e s) \<Longrightarrow> adds (\<lambda>A. event \<in> A) (visit (recording act) event)"
  unfolding adds_def by (intro allI, rule wp_mono [OF wp_visit_recording]) auto

lemma adds_gap:
  assumes "\<forall>e s. fst (act e s)"
  shows "adds (\<lambda>A. event \<in> A) (report_gap options (recording act) event)"
  unfolding adds_def report_gap_def wp_bind wp_modify
proof
  fix x :: "'a impl \<times> block_event list"
  let ?x = "case x of (s, v) \<Rightarrow> (count_gap (be_kind event) s, v)"
  have "snd ?x = snd x" by (simp split: prod.split)
  then show "wp (visit (recording act) event) (\<lambda>go_on. wp (if \<not> go_on then return_op False
      else if \<not> qo_continue_on_gap options then error_op (be_detail event) else return_op True)
      (\<lambda>go_on y. go_on \<and> (\<exists>new. snd y = snd x @ new \<and> event \<in> set new)) (\<lambda>_ _. True)) (\<lambda>_ _. True) ?x"
    by (intro wp_mono [OF wp_visit_recording]) (use assms in auto)
qed

lemma adds_corrupt_slots:
  assumes "\<forall>e s. fst (act e s)"
  shows "adds (\<lambda>A. slot_gap ` set slots \<subseteq> A) (report_corrupt_slots options (recording act) slots)"
proof (induction slots)
  case (Cons slot slots)
  show ?case
    unfolding report_corrupt_slots.simps slot_gap_def [symmetric] by (rule adds_bind [OF adds_gap [OF assms] Cons]) auto
qed (unfold report_corrupt_slots.simps, rule adds_return, simp)

lemma adds_entries:
  assumes "\<forall>e s. fst (act e s)"
  shows "adds (entries_answered env rng part es) (query_entries env False rng options (recording act) part es)"
proof (induction es)
  case Nil
  show ?case unfolding query_entries.simps by (rule adds_return) (simp add: entries_answered_def)
next
  case (Cons e es)
  let ?rest = "query_entries env False rng options (recording act) part es"
  have all: "entries_answered env rng part (e # es) (A \<union> B)"
    if "block_answered env part e A" "entries_answered env rng part es B" for A B
    using block_answered_mono [OF that(1), of "A \<union> B"] entries_answered_mono [OF that(2), of "A \<union> B"]
    by (auto simp: entries_answered_def)
  have over: "entries_answered env rng part (e # es) A"
    if "gap_event Event_overwritten_gap status ((partition_metadata part)\<lparr>bm_block_sequence := ie_sequence e\<rparr>) \<in> A" for status A
    using that unfolding entries_answered_def overwritten_shown_def
    by (auto simp: gap_event_def partition_metadata_def intro!: bexI exI)
  show ?case
  proof (cases "ranges_intersect (ie_min_time_ns e) (ie_max_time_ns e) rng")
    case False
    then have "entries_answered env rng part (e # es) = entries_answered env rng part es" by (simp add: entries_answered_def fun_eq_iff)
    then show ?thesis using Cons False by simp
  next
    case True
    have gap: "adds (entries_answered env rng part (e # es)) (bind_op (report_gap options (recording act) (gap_event kind status
        ((partition_metadata part)\<lparr>bm_block_sequence := ie_sequence e\<rparr>)))
        (\<lambda>go_on. if \<not> go_on then return_op False else if kind = Event_overwritten_gap then return_op True else ?rest))"
      if "read_block env part e t = Some (Inl status, t')" "kind = (if code status = Overwritten then Event_overwritten_gap else Event_corrupt_gap)"
      for kind status t t'
    proof (cases "kind = Event_overwritten_gap")
      case over_gap: True
      show ?thesis unfolding over_gap simp_thms if_True
        by (rule adds_bind [OF adds_gap [OF assms] adds_return [of "\<lambda>_. True"]]) (auto intro: over)
    next
      case False
      show ?thesis unfolding if_not_P [OF False]
        by (rule adds_bind [OF adds_gap [OF assms] Cons], rule all, rule block_answeredI(1) [OF that(1)]) (simp_all only: that(2))
    qed
    have data: "adds (entries_answered env rng part (e # es)) (bind_op (visit (recording act)
        \<lparr>be_kind = Event_data, be_metadata = metadata, be_data = decoded, be_detail = Ok\<rparr>) (\<lambda>go_on. if \<not> go_on then return_op False else ?rest))"
      if "read_block env part e t = Some (Inr (metadata, decoded), t')" for metadata decoded t t'
      by (rule adds_bind [OF adds_visit [OF assms] Cons], rule all, rule block_answeredI(2) [OF that])
    show ?thesis
      unfolding query_entries.simps using True
      by (simp only: simp_thms if_False Let_def) (intro adds_try_read adds_sum adds_prod, (simp add: gap data)+)
  qed
qed

lemma adds_partition:
  assumes go: "\<forall>e s. fst (act e s)" and domain: "po_time_domain_id (ph_options (ps_header part)) = tr_time_domain_id rng"
  shows "adds (partition_answered env rng part) (query_partition env False rng options (recording act) part)"
proof -
  let ?gap = "\<lambda>kind detail. report_gap options (recording act) (gap_event kind detail (partition_metadata part))"
  let ?detail = "Error Corrupt (if ps_sealed part then ''sealed partition has invalid data/index prefix''
    else ''footerless partition changed after catalog snapshot'')"
  have unreadable: "adds (partition_answered env rng part) (?gap Event_corrupt_gap status)"
    if "read_partition_header env (ph_slot (ps_header part)) t = Some (Inl status, t')" for status t t'
    by (rule adds_mono [OF adds_gap [OF go]]) (use that in \<open>auto simp: partition_answered_def\<close>)
  have changed: "adds (partition_answered env rng part)
      (?gap Event_overwritten_gap (Error Overwritten ''partition changed while acquiring its index''))"
    if "read_partition_header env (ph_slot (ps_header part)) t = Some (Inr h, t')" "ph_generation h \<noteq> ph_generation (ps_header part)" for h t t'
    by (rule adds_mono [OF adds_gap [OF go]]) (use that in \<open>auto simp: partition_answered_def\<close>)
  have entries: "adds (partition_answered env rng part) (bind_op (if invalid_prefix part a then ?gap Event_corrupt_gap ?detail else return_op True)
      (\<lambda>go_on. if \<not> go_on then return_op False else query_entries env False rng options (recording act) part (aq_entries a)))"
    if index: "acquire_index env part t = Some (Inr a, t')" for a t t'
  proof (rule adds_bind [OF _ adds_entries [OF go]])
    let ?P = "\<lambda>A. invalid_prefix part a \<longrightarrow> gap_event Event_corrupt_gap ?detail (partition_metadata part) \<in> A"
    show "adds ?P (if invalid_prefix part a then ?gap Event_corrupt_gap ?detail else return_op True)"
      by (cases "invalid_prefix part a", simp_all only: if_True if_False simp_thms) (rule adds_gap [OF go], rule adds_return, rule TrueI)
    show "partition_answered env rng part (A \<union> B)" if "?P A" "entries_answered env rng part (aq_entries a) B" for A B
      using index that(1) entries_answered_mono [OF that(2), of "A \<union> B"] unfolding partition_answered_def by blast
  qed
  show ?thesis
    unfolding query_partition_def using domain
    by (simp only: simp_thms if_False, intro adds_read adds_try_read adds_sum adds_if adds_error)
      (blast intro: unreadable, blast intro: changed, rule entries)
qed

lemma adds_partitions:
  assumes "\<forall>e s. fst (act e s)" "tr_time_domain_id rng \<noteq> 0"
  shows "adds (\<lambda>A. \<forall>p \<in> set parts. po_time_domain_id (ph_options (ps_header p)) = tr_time_domain_id rng \<longrightarrow> partition_answered env rng p A)
    (query_partitions env False rng options (recording act) parts)"
proof (induction parts)
  case Nil
  show ?case unfolding query_partitions.simps by (rule adds_return) simp
next
  case (Cons part parts)
  let ?P = "\<lambda>A. po_time_domain_id (ph_options (ps_header part)) = tr_time_domain_id rng \<longrightarrow> partition_answered env rng part A"
  have "adds ?P (query_partition env False rng options (recording act) part)"
  proof (cases "po_time_domain_id (ph_options (ps_header part)) = tr_time_domain_id rng")
    case True
    then show ?thesis by (intro adds_mono [OF adds_partition [OF assms(1) True]]) simp
  next
    case False
    then have "query_partition env False rng options (recording act) part = return_op True"
      unfolding query_partition_def using assms(2) by (simp only: simp_thms if_True)
    then show ?thesis using False by (simp only:) (rule adds_return, simp)
  qed
  then show ?case
    unfolding query_partitions.simps by (rule adds_bind [OF _ Cons]) (auto intro: partition_answered_mono)
qed

lemma query_answers:
  assumes q: "query_blocks env rng options (Some (recording act)) (s, []) = Some (Inr (), (s', log))" and go: "\<forall>e t. fst (act e t)"
  shows "slot_gap ` set (corrupt_slots s) \<subseteq> set log"
    "p \<in> set (partitions s) \<Longrightarrow> po_time_domain_id (ph_options (ps_header p)) = tr_time_domain_id rng \<Longrightarrow> partition_answered env rng p (set log)"
proof -
  let ?ps = "sort_key (\<lambda>p. ph_generation (ps_header p)) (partitions s)"
  have rng: "\<not> tr_end_ns rng \<le>s tr_begin_ns rng" "tr_time_domain_id rng \<noteq> 0"
    using q by (auto simp: query_blocks_def query_def split: if_split_asm)
  define R where "R A \<longleftrightarrow> slot_gap ` set (corrupt_slots s) \<subseteq> A \<and>
    (\<forall>p \<in> set ?ps. po_time_domain_id (ph_options (ps_header p)) = tr_time_domain_id rng \<longrightarrow> partition_answered env rng p A)" for A
  have a: "adds R (bind_op (report_corrupt_slots options (recording act) (corrupt_slots s))
      (\<lambda>go_on. if \<not> go_on then return_op False else query_partitions env False rng options (recording act) ?ps))"
    by (rule adds_bind [OF adds_corrupt_slots [OF go] adds_partitions [OF go rng(2)]]) (auto simp: R_def intro: partition_answered_mono)
  obtain b where "bind_op (report_corrupt_slots options (recording act) (corrupt_slots s))
      (\<lambda>go_on. if \<not> go_on then return_op False else query_partitions env False rng options (recording act) ?ps) (s, []) = Some (Inr b, (s', log))"
    using q rng by (auto simp: query_blocks_def query_def bind_op_def get_op_def return_op_def Let_def split: option.splits sum.splits if_split_asm)
  from wpD(1) [OF addsD [OF a] this] have "R (set log)" by simp
  then show "slot_gap ` set (corrupt_slots s) \<subseteq> set log"
    "p \<in> set (partitions s) \<Longrightarrow> po_time_domain_id (ph_options (ps_header p)) = tr_time_domain_id rng \<Longrightarrow> partition_answered env rng p (set log)"
    by (simp_all add: R_def)
qed

section \<open>A query of the small volume\<close>

text \<open>The small volume with one published block.\<close>

lemma test_block:
  obtains m s0 s s1 p e where "mem_good m" "open_store test_env test_random test_open_options False m = Some (Inr s0, media s0)"
    "store_run test_env s0 s" "test_store s" "builder s = [1, 2, 3]" "publish test_env s = Some (Inr (), s1)" "test_store s1"
    "partitions s1 = [p]" "ps_active_index p = [e]" "\<not> ps_sealed p" "ie_min_time_ns e = 7" "ie_max_time_ns e = 7"
    "po_time_domain_id (ph_options (ps_header p)) = 1"
proof (rule test_device)
  fix fs m s0
  assume m: "mem_good m" and s0: "test_store s0" "builder s0 = []"
    "partitions s0 = [new_partition_state (new_partition_header (volume s0) 0 1 (oo_next_partition test_open_options))]"
    and o: "open_store test_env test_random test_open_options False m = Some (Inr s0, media s0)"
  let ?p0 = "new_partition_state (new_partition_header (volume s0) 0 1 (oo_next_partition test_open_options))"
  have g: "ph_generation (ps_header (last (partitions s0))) \<noteq> - 1"
    using s0(3) by (simp add: new_partition_state_def new_partition_header_def)
  obtain s where a: "append test_env (View [1, 2, 3]) 7 0 s0 = Some (Inr (), s)" and s: "test_store s" "builder s = [1, 2, 3]"
    by (rule test_append [OF s0(1) g, of "[1, 2, 3]" 7 0]) (simp_all add: s0(2))
  have act: "active s0 = Some ?p0" and vol: "volume s0 = test_volume"
    using test_storeD(5) [OF s0(1)] s0 catalog_active [of s0] by (simp_all add: store_inv_def base_inv_def test_store_def)
  have geo: "align_up (kBlockHeaderEncodedSize + ucast (vh_max_block_payload test_volume)) (vh_persistence_quantum test_volume) = (256, False)"
    "(index_begin test_volume - kPartitionHeaderRegionSize < 256) = False" "(index_begin test_volume < kPartitionHeaderRegionSize) = False"
    "1 \<le> unat (vh_index_region_size test_volume div kIndexEntryEncodedSize)"
    by code_simp+
  have "ensure_empty_builder_capacity test_env s0 = Some (Inr (), s0)"
    using geo(1,4) by (simp add: ensure_empty_builder_capacity_def bind_op_def s0(2) act vol new_partition_state_def Let_def geo(2,3))
  then have "s = accept_record test_env (ph_options (ps_header ?p0)) [1, 2, 3] 7 0 s0"
    using a test_storeD [OF s0(1)] s0(2)
    by (simp add: append_def append_impl_def check_writer_def vol act contract_holds_def Let_def bind_op_def)
  then have acc: "partitions s = [?p0]" "builder_min_time s = 7" "builder_max_time s = 7"
    using s0 by (simp_all add: accept_record_def Let_def)
  obtain s1 where p: "publish test_env s = Some (Inr (), s1)" and s1: "test_store s1" by (rule test_publish [OF s(1)])
  have em: "emit_builder test_env s = Some (Inr (), s1)"
    using p by (auto simp: publish_def bind_op_Inr check_writer_def split: if_splits)
  obtain e span where e: "partitions s1 = [push_entry e span ?p0]" "ie_min_time_ns e = 7" "ie_max_time_ns e = 7"
    using wpD(1) [OF emit_pushes [OF test_storeD(5) [OF s(1)]] em] s(2) acc by auto
  have run: "store_run test_env s0 s" using store_run.start a by (rule store_run.append)
  show ?thesis
    by (rule that [OF m o run s p s1 e(1) _ _ e(2,3)])
      (simp_all add: push_entry_def add_time_def new_partition_state_def new_partition_header_def Let_def
        test_open_options_def default_partition_options_def)
qed

text \<open>A visitor that only updates its own state and always goes on.\<close>

definition watching :: "(block_event \<Rightarrow> 'v \<Rightarrow> 'v) \<Rightarrow> ('s, 'v) visitor" where
  "watching f event x = (True, (fst x, f event (snd x)))"

lemma recording_watching: "recording (\<lambda>_ s. (True, s)) = watching (\<lambda>event log. log @ [event])"
  by (simp add: recording_def watching_def fun_eq_iff)

lemma watching_corrupt_slots:
  "qo_continue_on_gap options \<Longrightarrow> report_corrupt_slots options (watching f) slots (s, v) =
    Some (Inr True, (fold (\<lambda>_. count_gap Event_corrupt_gap) slots s, fold (\<lambda>slot. f (slot_gap slot)) slots v))"
  by (induction slots arbitrary: s v)
    (simp_all add: report_gap_def bind_op_def visit_def watching_def slot_gap_def gap_event_def modify_op_def)

lemma count_gaps_same:
  "let t = fold (\<lambda>_. count_gap Event_corrupt_gap) slots s in
    media t = media s \<and> volume t = volume s \<and> open_options t = open_options s \<and> partitions t = partitions s \<and>
    faulted t = faulted s"
  by (induction slots arbitrary: s) (simp_all add: count_gap_def Let_def)

text \<open>A query of a store with one partition that is not sealed and whose header is found.\<close>

lemma watching_query:
  assumes rng: "\<not> tr_end_ns rng \<le>s tr_begin_ns rng" "tr_time_domain_id rng \<noteq> 0" "qo_continue_on_gap options"
    and part: "partitions s = [p]" "ps_active_index p = [e]" "\<not> ps_sealed p" "po_time_domain_id (ph_options (ps_header p)) = tr_time_domain_id rng"
    and hdr: "read_partition_header env (ph_slot (ps_header p)) (fold (\<lambda>_. count_gap Event_corrupt_gap) (corrupt_slots s) s) = Some (Inr h, t)"
      "ph_generation h = ph_generation (ps_header p)"
  shows "query_blocks env rng options (Some (watching f)) (s, v) =
    (case query_entries env False rng options (watching f) p [e] (t, fold (\<lambda>slot. f (slot_gap slot)) (corrupt_slots s) v) of
       None \<Rightarrow> None | Some (Inl err, x) \<Rightarrow> Some (Inl err, x) | Some (Inr _, x) \<Rightarrow> Some (Inr (), x))"
proof -
  let ?c = "fold (\<lambda>_. count_gap Event_corrupt_gap) (corrupt_slots s) s" and ?l = "fold (\<lambda>slot. f (slot_gap slot)) (corrupt_slots s) v"
  let ?a = "\<lparr>aq_entries = [e], aq_corrupt_scan = False, aq_invalid_sealed_index = False, aq_rescanned_unsealed = False, aq_scanned_end = 0\<rparr>"
  have idx: "acquire_index env p ?c = Some (Inr ?a, ?c)"
    using part by (simp add: acquire_index_def first_index_def catch_op_def)
  have "query_partition env False rng options (watching f) p (?c, ?l) = query_entries env False rng options (watching f) p [e] (t, ?l)"
    using idx hdr part(3,4) by (simp add: query_partition_def bind_op_def on_store_def try_op_def invalid_prefix_def del: query_entries.simps)
  then show ?thesis
    using rng part(1) watching_corrupt_slots [OF rng(3), of f "corrupt_slots s" s v]
    by (simp add: query_blocks_def query_def bind_op_def get_op_def Let_def del: query_entries.simps
        split: option.split sum.split)
qed

lemma test_query:
  assumes a: "mem_good m" "open_store test_env test_random test_open_options False m = Some (Inr s0, media s0)" "store_run test_env s0 s"
    "test_store s" "builder s = [1, 2, 3]" "publish test_env s = Some (Inr (), s1)" "test_store s1"
    "partitions s1 = [p]" "ps_active_index p = [e]" "\<not> ps_sealed p" "ie_min_time_ns e = 7" "ie_max_time_ns e = 7"
    "po_time_domain_id (ph_options (ps_header p)) = 1"
  obtains s' meta log where "query_blocks test_env \<lparr>tr_begin_ns = 0, tr_end_ns = 10, tr_time_domain_id = 1\<rparr>
      \<lparr>qo_continue_on_gap = True, qo_verify_payload_crc = True\<rparr> (Some (recording (\<lambda>_ s. (True, s)))) (s1, []) = Some (Inr (), (s', log))"
    "\<lparr>be_kind = Event_data, be_metadata = meta, be_data = [1, 2, 3], be_detail = Ok\<rparr> \<in> set log"
proof -
  let ?rng = "\<lparr>tr_begin_ns = 0, tr_end_ns = 10, tr_time_domain_id = 1\<rparr>" and ?opt = "\<lparr>qo_continue_on_gap = True, qo_verify_payload_crc = True\<rparr>"
  let ?far = "\<lparr>tr_begin_ns = 100, tr_end_ns = 200, tr_time_domain_id = 1\<rparr>"
  let ?c = "fold (\<lambda>_. count_gap Event_corrupt_gap) (corrupt_slots s1) s1"
  have wr: "oo_writable test_open_options" by (simp add: test_open_options_def)
  have run1: "store_run test_env s0 s1" using a(3,6) by (rule store_run.publish)
  have rec: "mem.recorded s" "mem.recorded s1"
    using memory_run_recorded(1) [OF a(1) a(2) [unfolded test_env_def] wr test_versions] a(3) run1 by (simp_all add: test_env_def)
  note inv = test_storeD [OF a(7)]
  have rel: "mem_reliable (media s1)" using inv(1) by (simp add: mem_rel.live_def mem_rel.ready_media_def)
  have lastp: "last (partitions s1) = p" "ps_header p \<in> set (headers s1)" using a(8) by (simp_all add: headers_def)
  have found: "header_found (volume s1) (open_options s1) (mem_volatile (media s1)) p"
    using mem_reliable_ring.active_header_kept [of s1 "\<lambda>n. of_nat n" s1, OF inv(5,4,6) _ store_run.start inv(4)] rec(2) lastp inv(4)
    by (simp add: mem.recorded_def)
  have c: "media ?c = media s1" "volume ?c = volume s1" "open_options ?c = open_options s1" "partitions ?c = partitions s1"
    "faulted ?c = faulted s1"
    using count_gaps_same [of "corrupt_slots s1" s1] by (simp_all add: Let_def)
  obtain h t where h: "read_partition_header test_env (ph_slot (ps_header p)) ?c = Some (Inr h, t)"
    "h\<lparr>ph_features := []\<rparr> = (ps_header p)\<lparr>ph_features := []\<rparr>" "mem_rel.reread ?c t"
    using mem_rel.runs_header_found [OF test_env_storage, of ?c p] found rel by (auto simp: c runs_def)
  have gen: "ph_generation h = ph_generation (ps_header p)"
    using h(2) by (metis partition_header.ext_inject partition_header.surjective partition_header.update_convs)
  have "fold (\<lambda>slot v. v) slots v = v" for slots :: "u32 list" and v :: nat by (induction slots) simp_all
  then have far: "query test_env False ?far ?opt (Some (watching (\<lambda>_ v. v))) (s1, 0 :: nat) = Some (Inr (), (t, 0))"
    using watching_query [of ?far ?opt s1 p e test_env h t "\<lambda>_ v. v" "0 :: nat"] a(8-13) h(1) gen
    by (simp add: query_blocks_def ranges_intersect_def word_sle_eq word_sless_alt)
  have t: "store_run test_env s1 t"
    by (rule store_run.query [OF store_run.start far]) (simp add: watching_def store_run.start)
  have em: "emit_builder test_env s = Some (Inr (), s1)"
    using a(6) by (auto simp: publish_def bind_op_Inr check_writer_def split: if_splits)
  have t': "\<not> faulted t" "ps_header p \<in> set (headers t)" "mem_reliable (media t)"
    using h(3) c(4,5) inv(4) a(8) by (auto simp: mem_rel.reread_def headers_def)
  obtain meta s3 where rd: "read_block test_env p e t = Some (Inr (meta, [1, 2, 3]), s3)"
    using mem_reliable_ring.emitted_delivered [of s "\<lambda>n. of_nat n" s1 t, folded test_env_def, OF rec(1) test_storeD(4) [OF a(4)] _ _ em t t'(1) _ t'(3)]
      a(4,5,9) lastp t'(2) test_codecs by (auto simp: test_store_def)
  show ?thesis
    using watching_query [of ?rng ?opt s1 p e test_env h t "\<lambda>event log. log @ [event]" "[]"] a(8-13) h(1) gen rd
    by (intro that) (auto simp: recording_watching ranges_intersect_def word_sle_eq word_sless_alt bind_op_def try_op_def on_store_def visit_def watching_def)
qed

text \<open>C6: a time query shows its visitor what it asked for, no more and no less. Every block shown has time
  bounds that intersect the range, belongs to a partition of the requested time domain and comes with all
  its bytes. When the query succeeds and its visitor never stopped it, nothing was hidden: each slot that
  recovery found damaged is shown as a gap; each partition of the requested domain in the catalog at the
  start is either shown as one gap because its header could not be read or was of another generation, or
  all entries of the index that was acquired for it and intersect the range are answered, with the data or
  the error that reading the block returned, unless the partition was shown as overwritten meanwhile, and
  an index that does not fit its partition is a gap too. When gaps are not tolerated, a query that succeeds
  has shown none. This holds on every backend, whatever the visitor does to the store between the events.\<close>

theorem query_shows_requested:
  assumes "query_blocks env rng options (Some (recording act)) (s, []) = Some (r, (s', log))"
  shows "(\<forall>e. e \<in> set log \<longrightarrow> be_kind e = Event_data \<longrightarrow>
      ranges_intersect (bm_min_time_ns (be_metadata e)) (bm_max_time_ns (be_metadata e)) rng \<and>
      bm_time_domain_id (be_metadata e) = tr_time_domain_id rng \<and>
      length (be_data e) = unat (bm_raw_size (be_metadata e))) \<and>
    (r = Inr () \<and> (\<forall>e t. fst (act e t)) \<longrightarrow>
      slot_gap ` set (corrupt_slots s) \<subseteq> set log \<and>
      (\<forall>p. p \<in> set (partitions s) \<longrightarrow> po_time_domain_id (ph_options (ps_header p)) = tr_time_domain_id rng \<longrightarrow>
        partition_answered env rng p (set log))) \<and>
    (r = Inr () \<and> \<not> qo_continue_on_gap options \<and> (\<forall>e t. fst (act e t)) \<longrightarrow> (\<forall>e. e \<in> set log \<longrightarrow> be_kind e = Event_data))"
proof (intro conjI)
  let ?q = "query_blocks env rng options (Some (recording act))"
  have "wp ?q (\<lambda>_ y. \<forall>e \<in> set (snd y). requested rng e) (\<lambda>_ y. \<forall>e \<in> set (snd y). requested rng e) (s, [])"
    by (rule leavesD [OF requested_log.query_leaves]) simp
  then have "\<forall>e \<in> set log. requested rng e" using assms by (cases r) (auto simp: wp_def)
  then show "\<forall>e. e \<in> set log \<longrightarrow> be_kind e = Event_data \<longrightarrow>
      ranges_intersect (bm_min_time_ns (be_metadata e)) (bm_max_time_ns (be_metadata e)) rng \<and>
      bm_time_domain_id (be_metadata e) = tr_time_domain_id rng \<and>
      length (be_data e) = unat (bm_raw_size (be_metadata e))" by (simp add: requested_def)
  show "r = Inr () \<and> (\<forall>e t. fst (act e t)) \<longrightarrow> slot_gap ` set (corrupt_slots s) \<subseteq> set log \<and>
      (\<forall>p. p \<in> set (partitions s) \<longrightarrow> po_time_domain_id (ph_options (ps_header p)) = tr_time_domain_id rng \<longrightarrow>
        partition_answered env rng p (set log))"
    using query_answers [of env rng options act s s' log] assms by blast
  have "\<forall>e. e \<in> set log \<longrightarrow> be_kind e = Event_data"
    if "r = Inr ()" "\<not> qo_continue_on_gap options" "\<forall>e t. fst (act e t)"
    using wpD(1) [OF leavesD [OF query_invariant.query_leaves [OF gapless_log [OF that(2,3)]], of "(s, [])"], of env rng "()" "(s', log)"]
      assms that(1) by simp
  then show "r = Inr () \<and> \<not> qo_continue_on_gap options \<and> (\<forall>e t. fst (act e t)) \<longrightarrow>
      (\<forall>e. e \<in> set log \<longrightarrow> be_kind e = Event_data)" by blast
qed

theorem query_shows_requested_witness:
  "\<exists>s s1 p e meta s' log s'' log'. builder s = [1, 2, 3] \<and> publish test_env s = Some (Inr (), s1) \<and>
    partitions s1 = [p] \<and> ps_active_index p = [e] \<and>
    query_blocks test_env \<lparr>tr_begin_ns = 0, tr_end_ns = 10, tr_time_domain_id = 1\<rparr> \<lparr>qo_continue_on_gap = True, qo_verify_payload_crc = True\<rparr>
      (Some (recording (\<lambda>_ s. (True, s)))) (s1, []) = Some (Inr (), (s', log)) \<and>
    \<lparr>be_kind = Event_data, be_metadata = meta, be_data = [1, 2, 3], be_detail = Ok\<rparr> \<in> set log \<and>
    partition_answered test_env \<lparr>tr_begin_ns = 0, tr_end_ns = 10, tr_time_domain_id = 1\<rparr> p (set log) \<and>
    query_blocks test_env \<lparr>tr_begin_ns = 0, tr_end_ns = 10, tr_time_domain_id = 1\<rparr> \<lparr>qo_continue_on_gap = True, qo_verify_payload_crc = True\<rparr>
      (Some (recording (\<lambda>_ s. (True, s)))) (s1\<lparr>partitions := [], corrupt_slots := [2]\<rparr>, []) = Some (Inr (), (s'', log')) \<and>
    slot_gap 2 \<in> set log'"
proof (rule test_block)
  fix m s0 s s1 p e
  let ?rng = "\<lparr>tr_begin_ns = 0, tr_end_ns = 10, tr_time_domain_id = 1\<rparr>" and ?opt = "\<lparr>qo_continue_on_gap = True, qo_verify_payload_crc = True\<rparr>"
  assume a: "mem_good m" "open_store test_env test_random test_open_options False m = Some (Inr s0, media s0)" "store_run test_env s0 s"
    "test_store s" "builder s = [1, 2, 3]" "publish test_env s = Some (Inr (), s1)" "test_store s1"
    "partitions s1 = [p]" "ps_active_index p = [e]" "\<not> ps_sealed p" "ie_min_time_ns e = 7" "ie_max_time_ns e = 7"
    "po_time_domain_id (ph_options (ps_header p)) = 1"
  obtain s' meta log where q: "query_blocks test_env ?rng ?opt (Some (recording (\<lambda>_ s. (True, s)))) (s1, []) = Some (Inr (), (s', log))"
    "\<lparr>be_kind = Event_data, be_metadata = meta, be_data = [1, 2, 3], be_detail = Ok\<rparr> \<in> set log"
    by (rule test_query [OF a])
  let ?s2 = "s1\<lparr>partitions := [], corrupt_slots := [2]\<rparr>"
  have q2: "query_blocks test_env ?rng ?opt (Some (recording (\<lambda>_ s. (True, s)))) (?s2, []) =
      Some (Inr (), (count_gap Event_corrupt_gap ?s2, [slot_gap 2]))"
    using watching_corrupt_slots [of ?opt "\<lambda>event log. log @ [event]" "[2]" ?s2 "[]"]
    by (simp add: query_blocks_def query_def recording_watching bind_op_def word_sle_eq Let_def)
  have "partition_answered test_env ?rng p (set log)" using query_shows_requested [OF q(1)] a(8,13) by simp
  moreover have "slot_gap ` {2} \<subseteq> set [slot_gap 2]" using query_shows_requested [OF q2] by simp
  then have "slot_gap 2 \<in> set [slot_gap 2]" by blast
  ultimately show ?thesis using a(5,6,8,9) q q2 by metis
qed

end
