(* ===== verification/Ring_Limits.thy ===== *)
theory Ring_Limits
  imports Ring_Guarantees
begin

text \<open>
  Where the guarantees of the ring store stop. Each group of lemmas shows a behaviour of the code
  that a caller of \<open>ring_store.cpp\<close> or \<open>async_writer.cpp\<close> may not expect: a volume that is formatted
  although its largest blocks cannot be written, blocks recovered by an open that a later checkpoint
  does not flush, and errors of an append that leave the store healthy.
\<close>

section \<open>Blocks too large for their frame\<close>

text \<open>\<open>format\<close> bounds the largest frame by the partition only; the frame's size is a 32-bit field.\<close>

definition oversized_options :: volume_options where
  "oversized_options =
     \<lparr>vo_partition_size = 0x200000000, vo_index_region_size = 0x100000, vo_max_block_payload = 0xffffffff,
      vo_persistence_quantum = 4096, vo_volume_id_high = 1, vo_volume_id_low = 2,
      vo_allow_explicit_volume_id_for_testing = True, vo_created_time_ns = 0\<rparr>"

lemma oversized_volume_accepted:
  "status_ok (check_volume_options 0x800000000 oversized_options)"
  "\<not> frames_fit (new_volume_header 0x800000000 oversized_options 1 2)"
  by code_simp+

lemma oversized_frame_faults:
  assumes "0xffffffff - 128 < length payload" "length payload \<le> 0xffffffff" "\<not> faulted s"
  shows "\<exists>s'. emit_frame env state payload selected version s =
    Some (Inl (Error Out_of_range ''encoded block too large''), s') \<and> faulted s'"
proof -
  have "unat (128 + of_nat (length payload) :: u64) = 128 + length payload"
    using assms(2) by (subst unat_add_lem [THEN iffD1]) (simp_all add: unat_of_nat)
  then have "128 + of_nat (length payload) > (0xffffffff :: u64)"
    using assms(1) by (simp add: word_less_nat_alt)
  then show ?thesis using assms(3)
    by (simp add: emit_frame_def fail_def bind_op_def get_op_def Let_def split_beta)
qed

section \<open>Blocks recovered but not flushed\<close>

text \<open>An opened store is never dirty, whatever its catalog holds, so a checkpoint with no pending record
  and the seal of the active partition skip the flush: blocks that were published before a crash of
  the process, and that were found again by the open, need not be durable after it.\<close>

definition untouched :: "open_options \<Rightarrow> 's impl \<Rightarrow> bool" where
  "untouched options s \<longleftrightarrow> \<not> dirty s \<and> builder s = [] \<and> writable s = oo_writable options \<and> \<not> closed s"

lemma keeps_clean_reads: "only_media op \<Longrightarrow> keeps (untouched options) op"
  by (auto simp: keeps_def untouched_def intro: wp_only_media)

lemma keeps_clean_writes:
  "keeps (untouched options) (fail status)" "keeps (untouched options) (write_media env off data)"
  "keeps (untouched options) (sync_media env adv)"
  by (auto simp: untouched_def keeps_def wp_def fail_def write_media_def sync_media_def note_sync_def note_sync_error_def
      note_durable_def Let_def split: option.splits prod.splits)

lemma keeps_clean_create: "keeps (untouched options) (create_partition env slot generation po)"
  unfolding create_partition_def
  by (intro keeps_intros keeps_clean_writes) (auto simp: untouched_def install_partition_def Let_def)

lemma opened_untouched:
  assumes "open_store env getrandom options null m = Some (Inr s, m')"
  shows "untouched options s"
proof -
  obtain v x hi lo where r: "recover_store env (new_impl x v options hi lo) = Some (Inr (), s)"
    using assms by (auto simp: open_store_def Let_def split: if_splits option.splits sum.splits prod.splits)
  have k: "keeps (untouched options) (recover_store env)"
    by (rule keeps_recover(2); (intro keeps_clean_reads keeps_clean_create only_media_intros)?;
      simp add: untouched_def settle_catalog_def Let_def)
  show ?thesis using keepsD [OF k _ r] by (simp add: new_impl_def untouched_def)
qed

lemma opened_checkpoint_skips_flush:
  assumes "open_store env getrandom options null m = Some (Inr s, m')" "oo_writable options"
  shows "checkpoint env s = Some (Inr (), s)"
  using opened_untouched [OF assms(1)] open_store_inv(2) [OF assms] assms(2)
  by (simp add: untouched_def checkpoint_def check_writer_def emit_builder_def bind_op_def get_op_def return_op_def)

section \<open>Errors that do not fault the store\<close>

text \<open>A record that exceeds the payload limit is refused and nothing else happens, so a background
  failure of the asynchronous writer need not come with a faulted store.\<close>

lemma refused_record_leaves_store:
  assumes "writable s" "\<not> closed s" "\<not> faulted s" "length data > unat (vh_max_block_payload (volume s))"
  shows "append env (View data) time flags s =
    Some (Inl (Error Out_of_range ''record exceeds block payload limit''), s)"
proof -
  have "data \<noteq> []" using assms(4) by auto
  then show ?thesis using assms
    by (simp add: append_def append_impl_def check_writer_def bind_op_def get_op_def error_op_def)
qed

end
