(* ===== verification/Tool_Text.thy ===== *)
theory Tool_Text
  imports Ring_Geometry
begin

text \<open>
  The text the command line tools read and write (tools/common.hpp and the stream insertions of the
  tools): numbers of the command line through \<open>strtoull\<close> and \<open>strtoll\<close> with base 0, numbers printed
  in decimal and hexadecimal, and byte strings printed in hexadecimal. Characters are bytes in the C
  locale. The C standard leaves open whether \<open>errno\<close> is set when a text holds no number: the flag
  \<open>sets_einval\<close> says what the C library does.
\<close>

section \<open>Characters\<close>

definition c_isspace :: "char \<Rightarrow> bool" where
  "c_isspace c \<longleftrightarrow> c = CHR '' '' \<or> 9 \<le> (of_char c :: nat) \<and> (of_char c :: nat) \<le> 13"

definition digit_value :: "char \<Rightarrow> nat option" where
  "digit_value c =
     (let n = of_char c :: nat in
      if 48 \<le> n \<and> n \<le> 57 then Some (n - 48)
      else if 97 \<le> n \<and> n \<le> 122 then Some (n - 87)
      else if 65 \<le> n \<and> n \<le> 90 then Some (n - 55)
      else None)"

definition is_digit :: "nat \<Rightarrow> char \<Rightarrow> bool" where
  "is_digit base c = (case digit_value c of None \<Rightarrow> False | Some d \<Rightarrow> d < base)"

definition digits_value :: "nat \<Rightarrow> string \<Rightarrow> nat" where
  "digits_value base ds = foldl (\<lambda>n c. n * base + the (digit_value c)) 0 ds"

section \<open>Reading numbers\<close>

text \<open>An optional sign, and the base that the prefix of base-0 syntax selects.\<close>

definition split_sign :: "string \<Rightarrow> bool \<times> string" where
  "split_sign s = (case s of
     [] \<Rightarrow> (False, s)
   | c # cs \<Rightarrow> if c = CHR ''-'' then (True, cs) else if c = CHR ''+'' then (False, cs) else (False, s))"

definition split_base :: "string \<Rightarrow> nat \<times> string" where
  "split_base s =
     (if length s \<ge> 3 \<and> s ! 0 = CHR ''0'' \<and> (s ! 1 = CHR ''x'' \<or> s ! 1 = CHR ''X'') \<and> is_digit 16 (s ! 2)
      then (16, drop 2 s)
      else if s \<noteq> [] \<and> hd s = CHR ''0'' then (8, s) else (10, s))"

text \<open>The sign, the digits' value and the text after the number, if the text starts with one.\<close>

definition scan_number :: "string \<Rightarrow> (bool \<times> nat \<times> string) option" where
  "scan_number text =
     (let (negative, s) = split_sign (dropWhile c_isspace text);
          (base, s) = split_base s;
          ds = takeWhile (is_digit base) s
      in if ds = [] then None else Some (negative, digits_value base ds, dropWhile (is_digit base) s))"

text \<open>The value, where \<open>end\<close> points, and whether \<open>errno\<close> was set.\<close>

definition strtoull :: "bool \<Rightarrow> string \<Rightarrow> u64 \<times> string \<times> bool" where
  "strtoull sets_einval text =
     (case scan_number text of
        None \<Rightarrow> (0, text, sets_einval)
      | Some (negative, n, rest) \<Rightarrow>
          if n \<ge> 2 ^ 64 then (- 1, rest, True)
          else (if negative then - of_nat n else of_nat n, rest, False))"

definition strtoll :: "bool \<Rightarrow> string \<Rightarrow> i64 \<times> string \<times> bool" where
  "strtoll sets_einval text =
     (case scan_number text of
        None \<Rightarrow> (0, text, sets_einval)
      | Some (negative, n, rest) \<Rightarrow>
          if negative then if n > 2 ^ 63 then (of_nat (2 ^ 63), rest, True) else (- of_nat n, rest, False)
          else if n \<ge> 2 ^ 63 then (of_nat (2 ^ 63 - 1), rest, True) else (of_nat n, rest, False))"

definition parse_u64 :: "bool \<Rightarrow> string \<Rightarrow> u64 option" where
  "parse_u64 sets_einval text =
     (if text \<noteq> [] \<and> hd text = CHR ''-'' then None
      else let (number, rest, errno) = strtoull sets_einval text
        in if errno \<or> rest \<noteq> [] then None else Some number)"

definition parse_i64 :: "bool \<Rightarrow> string \<Rightarrow> i64 option" where
  "parse_i64 sets_einval text =
     (let (number, rest, errno) = strtoll sets_einval text
      in if errno \<or> rest \<noteq> [] then None else Some number)"

section \<open>Printing\<close>

definition digit_char :: "nat \<Rightarrow> char" where
  "digit_char d = ''0123456789abcdef'' ! d"

fun digits_of :: "nat \<Rightarrow> nat \<Rightarrow> string" where
  "digits_of base n =
     (if base < 2 \<or> n < base then [digit_char n] else digits_of base (n div base) @ [digit_char (n mod base)])"

declare digits_of.simps [simp del]

definition show_unsigned :: "'w::len word \<Rightarrow> string" where
  "show_unsigned w = digits_of 10 (unat w)"

definition show_signed :: "i64 \<Rightarrow> string" where
  "show_signed w = (if w <s 0 then CHR ''-'' # digits_of 10 (unat (- w)) else digits_of 10 (unat w))"

text \<open>\<open>std::hex\<close>, with \<open>std::setw(width)\<close> and \<open>std::setfill('0')\<close>.\<close>

definition show_hex :: "nat \<Rightarrow> nat \<Rightarrow> string" where
  "show_hex width n = (let ds = digits_of 16 n in replicate (width - length ds) (CHR ''0'') @ ds)"

definition hex_bytes :: "bytes \<Rightarrow> nat \<Rightarrow> string" where
  "hex_bytes data limit =
     (let count = min (length data) limit
      in concat (map (\<lambda>b. show_hex 2 (unat b)) (take count data)) @
         (if count \<noteq> length data then ''...'' else []))"

text \<open>A status on the error stream and the exit code that goes with it.\<close>

definition print_status :: "status \<Rightarrow> nat \<times> string" where
  "print_status status = (2, status_code_name (code status) @ '': '' @ message status @ [CHR 0x0A])"

section \<open>Digits\<close>

lemma digit_value_char [simp]: "d < 16 \<Longrightarrow> digit_value (digit_char d) = Some d"
proof -
  have "\<forall>d \<in> set [0..<16]. digit_value (digit_char d) = Some d" by code_simp
  then show "d < 16 \<Longrightarrow> ?thesis" by simp
qed

lemma is_digit_char: "d < base \<Longrightarrow> base \<le> 16 \<Longrightarrow> is_digit base (digit_char d)"
  by (simp add: is_digit_def)

lemma digits_of_digits: "2 \<le> base \<Longrightarrow> base \<le> 16 \<Longrightarrow> c \<in> set (digits_of base n) \<Longrightarrow> is_digit base c"
proof (induction base n rule: digits_of.induct)
  case (1 base n)
  show ?case
  proof (cases "n < base")
    case True
    then show ?thesis using 1 by (simp add: digits_of.simps [of base n] is_digit_char)
  next
    case False
    have "n mod base < base" using 1(2) by simp
    then show ?thesis using 1 False by (auto simp: digits_of.simps [of base n] is_digit_char)
  qed
qed

lemma digits_value_snoc: "digits_value base (ds @ [c]) = digits_value base ds * base + the (digit_value c)"
  by (simp add: digits_value_def)

lemma digits_value_digits_of: "2 \<le> base \<Longrightarrow> base \<le> 16 \<Longrightarrow> digits_value base (digits_of base n) = n"
proof (induction base n rule: digits_of.induct)
  case (1 base n)
  show ?case
  proof (cases "n < base")
    case True
    then show ?thesis using 1 by (subst digits_of.simps) (simp add: digits_value_def)
  next
    case False
    have "n mod base < base" using 1(2) by simp
    then have "n mod base < 16" using 1(3) by linarith
    then show ?thesis using 1 False by (subst digits_of.simps) (simp add: digits_value_snoc)
  qed
qed

lemma digits_of_nonempty [simp]: "digits_of base n \<noteq> []"
  by (subst digits_of.simps) simp

lemma hd_digits_of: "2 \<le> base \<Longrightarrow> base \<le> 16 \<Longrightarrow> hd (digits_of base n) = CHR ''0'' \<Longrightarrow> n = 0"
proof (induction base n rule: digits_of.induct)
  case (1 base n)
  show ?case
  proof (cases "n < base")
    case True
    then have "digit_value (CHR ''0'') = Some n"
      using 1 digit_value_char [of n] by (simp add: digits_of.simps [of base n])
    then show ?thesis by (simp add: digit_value_def)
  next
    case False
    then have "n div base = 0" using 1 by (simp add: digits_of.simps [of base n])
    then show ?thesis using False 1(2) by (simp add: div_eq_0_iff)
  qed
qed

lemma scan_digits:
  assumes "2 \<le> base" "base \<le> 16"
  shows "takeWhile (is_digit base) (digits_of base n) = digits_of base n" "dropWhile (is_digit base) (digits_of base n) = []"
  using digits_of_digits [OF assms] by (simp_all add: takeWhile_eq_all_conv dropWhile_eq_Nil_conv)

lemma decimal_digit:
  assumes "is_digit 10 c"
  shows "\<not> c_isspace c" "c \<noteq> CHR ''-''" "c \<noteq> CHR ''+''" "c \<noteq> CHR ''x''" "c \<noteq> CHR ''X''"
proof -
  have "48 \<le> (of_char c :: nat) \<and> (of_char c :: nat) \<le> 57"
    using assms by (auto simp: is_digit_def digit_value_def Let_def split: if_splits)
  then show "\<not> c_isspace c" "c \<noteq> CHR ''-''" "c \<noteq> CHR ''+''" "c \<noteq> CHR ''x''" "c \<noteq> CHR ''X''"
    by (auto simp: c_isspace_def)
qed

lemma hd_digit: "2 \<le> base \<Longrightarrow> base \<le> 16 \<Longrightarrow> is_digit base (hd (digits_of base n))"
  by (rule digits_of_digits [of _ _ n]) simp_all

lemma split_base_decimal: "split_base (digits_of 10 n) = (if n = 0 then 8 else 10, digits_of 10 n)"
proof (cases "n = 0")
  case True
  then show ?thesis by (simp add: digits_of.simps split_base_def digit_char_def)
next
  case False
  then have "hd (digits_of 10 n) \<noteq> CHR ''0''" using hd_digits_of [of 10 n] by auto
  then show ?thesis using False by (simp add: split_base_def hd_conv_nth)
qed

lemma split_sign_decimal: "split_sign (dropWhile c_isspace (digits_of 10 n)) = (False, digits_of 10 n)"
  using hd_digit [of 10 n] decimal_digit [of "hd (digits_of 10 n)"]
  by (cases "digits_of 10 n") (auto simp: split_sign_def)

section \<open>Scanning printed numbers\<close>

lemma scan_after_base:
  assumes "split_base (digits_of 10 n) = (base, s)"
  shows "takeWhile (is_digit base) s \<noteq> []" "digits_value base (takeWhile (is_digit base) s) = n" "dropWhile (is_digit base) s = []"
proof (atomize (full), cases "n = 0")
  case True
  then have "base = 8" "s = ''0''"
    using assms unfolding split_base_decimal by (simp_all add: digits_of.simps digit_char_def)
  then show "takeWhile (is_digit base) s \<noteq> [] \<and> digits_value base (takeWhile (is_digit base) s) = n \<and> dropWhile (is_digit base) s = []"
    using True by (simp add: is_digit_def digit_value_def digits_value_def)
next
  case False
  then have "base = 10" "s = digits_of 10 n" using assms unfolding split_base_decimal by simp_all
  then show "takeWhile (is_digit base) s \<noteq> [] \<and> digits_value base (takeWhile (is_digit base) s) = n \<and> dropWhile (is_digit base) s = []"
    by (simp add: scan_digits digits_value_digits_of)
qed

lemma scan_after_sign:
  assumes "split_sign (dropWhile c_isspace text) = (negative, digits_of 10 n)"
  shows "scan_number text = Some (negative, n, [])"
proof -
  obtain base s where b: "split_base (digits_of 10 n) = (base, s)" by fastforce
  show ?thesis unfolding scan_number_def assms Let_def prod.case b using scan_after_base [OF b] by simp
qed

lemma scan_decimal: "scan_number (digits_of 10 n) = Some (False, n, [])" "scan_number (CHR ''-'' # digits_of 10 n) = Some (True, n, [])"
proof -
  have "split_sign (dropWhile c_isspace (CHR ''-'' # digits_of 10 n)) = (True, digits_of 10 n)"
    by (simp add: split_sign_def c_isspace_def)
  then show "scan_number (CHR ''-'' # digits_of 10 n) = Some (True, n, [])" by (rule scan_after_sign)
qed (rule scan_after_sign [OF split_sign_decimal])

lemma scan_hex: "scan_number (''0x'' @ digits_of 16 n) = Some (False, n, [])"
proof -
  have base: "split_base (''0x'' @ digits_of 16 n) = (16, digits_of 16 n)"
    using hd_digit [of 16 n] by (cases "digits_of 16 n") (simp_all add: split_base_def)
  have sign: "split_sign (dropWhile c_isspace (''0x'' @ digits_of 16 n)) = (False, ''0x'' @ digits_of 16 n)"
    by (simp add: split_sign_def c_isspace_def)
  show ?thesis unfolding scan_number_def sign Let_def prod.case base
    by (simp add: scan_digits digits_value_digits_of)
qed

lemma parse_u64_decimal: "parse_u64 e (digits_of 10 n) = (if n < 2 ^ 64 then Some (of_nat n) else None)"
proof -
  have "hd (digits_of 10 n) \<noteq> CHR ''-''" using hd_digit [of 10 n] decimal_digit(2) by simp
  then show ?thesis by (simp add: parse_u64_def strtoull_def scan_decimal)
qed

lemma signed_magnitude:
  fixes t :: i64
  shows "t <s 0 \<Longrightarrow> unat (- t) \<le> 2 ^ 63" "\<not> t <s 0 \<Longrightarrow> unat t < 2 ^ 63"
proof -
  assume "t <s 0"
  then have "uint (0 - t) = - sint t" using uint_diff_signed [of t 0] by (simp add: word_sless_alt)
  then show "unat (- t) \<le> 2 ^ 63" using i64_bounds(1) [of t] by (simp add: unat_eq_nat_uint nat_le_iff)
next
  assume "\<not> t <s 0"
  then have "uint (t - 0) = sint t" using uint_diff_signed [of 0 t] by (simp add: word_sless_alt)
  then show "unat t < 2 ^ 63" using i64_bounds(2) [of t] by (simp add: unat_eq_nat_uint nat_less_iff)
qed

lemma parse_i64_signed: "parse_i64 e (show_signed t) = Some t"
proof (cases "t <s 0")
  case True
  then show ?thesis using signed_magnitude(1) [of t] by (simp add: parse_i64_def strtoll_def show_signed_def scan_decimal)
next
  case False
  then show ?thesis using signed_magnitude(2) [of t] by (simp add: parse_i64_def strtoll_def show_signed_def scan_decimal)
qed

section \<open>Printed bytes\<close>

lemma length_byte_hex: "length (show_hex 2 (unat (b :: u8))) = 2"
proof -
  have "unat b < 2 ^ 8" using unsigned_less [where ?'a = nat, of b] by simp
  then have "unat b div 16 < 16" by simp
  then show ?thesis
    by (simp add: show_hex_def digits_of.simps [of _ "unat b"] digits_of.simps [of _ "unat b div 16"])
qed

lemma digits_value_padded: "digits_value base (replicate k (CHR ''0'') @ ds) = digits_value base ds"
  by (induction k) (simp_all add: digits_value_def digit_value_def)

lemma show_hex_inject: "show_hex k m = show_hex k n \<Longrightarrow> m = n"
  by (drule arg_cong [where f = "digits_value 16"])
    (simp add: show_hex_def Let_def digits_value_padded digits_value_digits_of)

lemma concat_hex_inject:
  "concat (map (\<lambda>b. show_hex 2 (unat b)) xs) = concat (map (\<lambda>b. show_hex 2 (unat (b :: u8))) ys) \<Longrightarrow> xs = ys"
proof (induction xs arbitrary: ys)
  case Nil
  then show ?case using length_byte_hex [of "hd ys"] by (cases ys) auto
next
  case (Cons x xs)
  then obtain y zs where ys: "ys = y # zs" using length_byte_hex [of x] by (cases ys) auto
  then have "show_hex 2 (unat x) = show_hex 2 (unat y)"
    "concat (map (\<lambda>b. show_hex 2 (unat b)) xs) = concat (map (\<lambda>b. show_hex 2 (unat b)) zs)"
    using Cons.prems by (simp_all add: append_eq_append_conv length_byte_hex)
  then show ?case using Cons.IH [of zs] ys show_hex_inject [of 2 "unat x" "unat y"] by (simp add: word_unat_eq_iff)
qed

lemma hex_bytes_inject:
  "length xs \<le> limit \<Longrightarrow> length ys \<le> limit \<Longrightarrow> hex_bytes xs limit = hex_bytes ys limit \<Longrightarrow> xs = ys"
  by (simp add: hex_bytes_def concat_hex_inject)

section \<open>What the parser lets through\<close>

text \<open>\<open>parse_u64\<close> looks for a sign in the first character only and never asks whether a digit was read.\<close>

lemma parse_u64_lenient: "parse_u64 False [] = Some 0" "parse_u64 e '' -5'' = Some (- 5)"
  by (simp_all add: parse_u64_def strtoull_def scan_number_def split_sign_def split_base_def c_isspace_def
      is_digit_def digit_value_def digits_value_def)


end
