(* ===== verification/Tools.thy ===== *)
theory Tools
  imports Tool_Text File_Storage Record_Profile
begin

text \<open>
  The command line tools (tools/tfdb_format.cpp, tfdb_inspect.cpp, tfdb_verify.cpp, tfdb_dump.cpp):
  each \<open>main\<close> as a function from the arguments and the kernel's state to the exit code, what it wrote
  on the two streams, and the kernel's state after the destructors ran. \<open>None\<close> means that the kernel
  interrupts a call for ever. A tool takes the arguments the process got, \<open>argv\<close>, with the program's
  name first; the text of \<open>/proc/self/mounts\<close>, if there is one, is an argument of the formatter, and
  whether the standard output accepted what was written is one of the dump.
\<close>

section \<open>Streams\<close>

record streams =
  cout :: string
  cerr :: string

definition silent :: streams where
  "silent = \<lparr>cout = [], cerr = []\<rparr>"

definition say :: "string \<Rightarrow> streams \<Rightarrow> streams" where
  "say text s = s\<lparr>cout := cout s @ text\<rparr>"

definition complain :: "string \<Rightarrow> streams \<Rightarrow> streams" where
  "complain text s = s\<lparr>cerr := cerr s @ text\<rparr>"

abbreviation (input) eol :: string where "eol \<equiv> [CHR 0x0A]"

type_synonym 'k tool_result = "(nat \<times> streams \<times> 'k) option"

definition fails_with :: "status \<Rightarrow> streams \<Rightarrow> nat \<times> streams" where
  "fails_with status s = (let (exit_code, text) = print_status status in (exit_code, complain text s))"

section \<open>Formatting\<close>

definition default_volume_options :: volume_options where
  "default_volume_options =
     \<lparr>vo_partition_size = 64 * 1024 * 1024, vo_index_region_size = 1024 * 1024,
      vo_max_block_payload = 32 * 1024, vo_persistence_quantum = 4096, vo_volume_id_high = 0,
      vo_volume_id_low = 0, vo_allow_explicit_volume_id_for_testing = False, vo_created_time_ns = 0\<rparr>"

record format_args =
  fa_size :: u64
  fa_overwrite :: bool
  fa_device :: bool
  fa_confirmed :: bool
  fa_options :: volume_options

definition no_format_args :: format_args where
  "no_format_args = \<lparr>fa_size = 0, fa_overwrite = False, fa_device = False, fa_confirmed = False,
     fa_options = default_volume_options\<rparr>"

definition format_usage :: string where
  "format_usage = ''usage: tfdb_format PATH --size BYTES [--partition BYTES] '' @
     ''[--index BYTES] [--block BYTES] [--quantum BYTES] '' @ ''[--overwrite | --device --yes]'' @ eol"

text \<open>One option with its number.\<close>

definition format_number :: "string \<Rightarrow> u64 \<Rightarrow> format_args \<Rightarrow> format_args option" where
  "format_number argument number a =
     (let options = fa_options a in
      if argument = ''--size'' then Some (a\<lparr>fa_size := number\<rparr>)
      else if argument = ''--partition'' then Some (a\<lparr>fa_options := options\<lparr>vo_partition_size := number\<rparr>\<rparr>)
      else if argument = ''--index'' then Some (a\<lparr>fa_options := options\<lparr>vo_index_region_size := ucast number\<rparr>\<rparr>)
      else if argument = ''--block'' then Some (a\<lparr>fa_options := options\<lparr>vo_max_block_payload := ucast number\<rparr>\<rparr>)
      else if argument = ''--quantum'' then Some (a\<lparr>fa_options := options\<lparr>vo_persistence_quantum := ucast number\<rparr>\<rparr>)
      else None)"

fun format_arguments :: "bool \<Rightarrow> string list \<Rightarrow> format_args \<Rightarrow> format_args option" where
  "format_arguments sets_einval [] a = Some a"
| "format_arguments sets_einval (argument # args) a =
     (if argument = ''--overwrite'' then format_arguments sets_einval args (a\<lparr>fa_overwrite := True\<rparr>)
      else if argument = ''--device'' then format_arguments sets_einval args (a\<lparr>fa_device := True\<rparr>)
      else if argument = ''--yes'' then format_arguments sets_einval args (a\<lparr>fa_confirmed := True\<rparr>)
      else case args of
          [] \<Rightarrow> None
        | text # rest \<Rightarrow>
            (case parse_u64 sets_einval text of
               None \<Rightarrow> None
             | Some number \<Rightarrow>
                 if number > 0xffffffff \<and> argument \<noteq> ''--size'' \<and> argument \<noteq> ''--partition'' then None
                 else (case format_number argument number a of
                     None \<Rightarrow> None
                   | Some a \<Rightarrow> format_arguments sets_einval rest a)))"

lemma rest_shorter: "xs \<noteq> [] \<Longrightarrow> length (tl (dropWhile P xs)) < length xs"
  using length_dropWhile_le [of P xs] by (cases xs) auto

text \<open>\<open>std::getline\<close> and \<open>operator>>\<close> into a string.\<close>

function lines_of :: "string \<Rightarrow> string list" where
  "lines_of text =
     (if text = [] then []
      else takeWhile (\<lambda>c. c \<noteq> CHR 0x0A) text # lines_of (tl (dropWhile (\<lambda>c. c \<noteq> CHR 0x0A) text)))"
  by pat_completeness auto
termination
  by (relation "measure length") (simp_all add: rest_shorter del: length_tl)

declare lines_of.simps [simp del]

definition next_field :: "string \<Rightarrow> string \<times> string" where
  "next_field line =
     (let s = dropWhile c_isspace line
      in (takeWhile (\<lambda>c. \<not> c_isspace c) s, dropWhile (\<lambda>c. \<not> c_isspace c) s))"

definition mount_line :: "string \<Rightarrow> string \<Rightarrow> bool" where
  "mount_line path line =
     (let (source, rest) = next_field line; (target, _) = next_field rest
      in source \<noteq> [] \<and> target \<noteq> [] \<and> (source = path \<or> target = path))"

definition looks_mounted :: "string option \<Rightarrow> string \<Rightarrow> bool" where
  "looks_mounted mounts path =
     (case mounts of None \<Rightarrow> False | Some text \<Rightarrow> list_ex (mount_line path) (lines_of text))"

text \<open>\<open>main\<close> after the storage is open.\<close>

definition format_opened ::
  "'k posix \<Rightarrow> getrandom \<Rightarrow> string \<Rightarrow> volume_options \<Rightarrow> 'k opened_file \<Rightarrow> 'k tool_result" where
  "format_opened px getrandom path options m =
     (case format (file_backend px) getrandom options m of
        None \<Rightarrow> None
      | Some (status, m) \<Rightarrow>
          let k = file_destroy px (of_file m) (of_kernel m) in
          if \<not> status_ok status then (let (exit_code, text) = fails_with status silent in Some (exit_code, text, k))
          else Some (0, say (''formatted path='' @ path @ '' bytes='' @ show_unsigned (fs_size (of_file m)) @
            '' partition_bytes='' @ show_unsigned (vo_partition_size options) @
            '' block_payload_bytes='' @ show_unsigned (vo_max_block_payload options) @
            '' persistence_quantum='' @ show_unsigned (vo_persistence_quantum options) @ eol) silent, k))"

definition tfdb_format ::
  "bool \<Rightarrow> 'k posix \<Rightarrow> getrandom \<Rightarrow> string option \<Rightarrow> string list \<Rightarrow> 'k \<Rightarrow> 'k tool_result" where
  "tfdb_format sets_einval px getrandom mounts argv k =
     (let usage = Some (1, complain format_usage silent, k) in
      if length argv < 3 then usage
      else let path = argv ! 1 in
      case format_arguments sets_einval (drop 2 argv) no_format_args of
        None \<Rightarrow> usage
      | Some a \<Rightarrow>
          if fa_device a \<and> fa_overwrite a then usage
          else if \<not> fa_device a \<and> fa_confirmed a
          then Some (1, complain (''--yes applies to --device only'' @ eol) silent, k)
          else if fa_device a \<and> \<not> fa_confirmed a
          then Some (1, complain (''refusing to format block device '' @ path @ '' without --yes'' @ eol) silent, k)
          else if fa_device a \<and> looks_mounted mounts path
          then Some (1, complain (''refusing to format '' @ path @ '': it appears in /proc/self/mounts'' @ eol) silent, k)
          else if \<not> fa_device a \<and> fa_size a = 0 then usage
          else (case (if fa_device a then Some (open_existing px path True False k)
                     else create_file px path (fa_size a) (fa_overwrite a) False k) of
              None \<Rightarrow> None
            | Some (Inl status, k) \<Rightarrow> (let (exit_code, text) = fails_with status silent in Some (exit_code, text, k))
            | Some (Inr file, k) \<Rightarrow>
                format_opened px getrandom path (fa_options a) \<lparr>of_kernel = k, of_file = file\<rparr>))"

section \<open>Opening a volume to read it\<close>

definition default_open_options :: open_options where
  "default_open_options =
     \<lparr>oo_writable = False, oo_verify_payloads_on_open = False, oo_next_partition = default_partition_options,
      oo_compression_codecs = [], oo_writer_id_high = 0, oo_writer_id_low = 0,
      oo_allow_explicit_writer_id_for_testing = False\<rparr>"

definition default_query_options :: query_options where
  "default_query_options = \<lparr>qo_continue_on_gap = True, qo_verify_payload_crc = True\<rparr>"

type_synonym 'k store = "'k opened_file impl"

definition file_env :: "'k posix \<Rightarrow> (nat \<Rightarrow> u64) \<Rightarrow> 'k opened_file env" where
  "file_env px clock = \<lparr>env_storage = file_backend px, env_clock = clock\<rparr>"

text \<open>The first half of each reading tool, and the destructors after its second half.\<close>

definition with_volume ::
  "'k posix \<Rightarrow> (nat \<Rightarrow> u64) \<Rightarrow> getrandom \<Rightarrow> string \<Rightarrow>
   ('k store \<Rightarrow> ((nat \<times> streams) \<times> 'k store) option) \<Rightarrow> 'k \<Rightarrow> 'k tool_result" where
  "with_volume px clock getrandom path body k =
     (case open_existing px path False False k of
        (Inl status, k) \<Rightarrow> (let (exit_code, text) = fails_with status silent in Some (exit_code, text, k))
      | (Inr file, k) \<Rightarrow>
          (case open_store (file_env px clock) getrandom default_open_options False
                  \<lparr>of_kernel = k, of_file = file\<rparr> of
             None \<Rightarrow> None
           | Some (Inl status, m) \<Rightarrow>
               (let (exit_code, text) = fails_with status silent
                in Some (exit_code, text, file_destroy px (of_file m) (of_kernel m)))
           | Some (Inr s, _) \<Rightarrow>
               (case body s of
                  None \<Rightarrow> None
                | Some ((exit_code, text), s) \<Rightarrow>
                    Some (exit_code, text, file_destroy px (of_file (media s)) (of_kernel (media s))))))"

section \<open>Inspection\<close>

definition show_volume :: "volume_info \<Rightarrow> string" where
  "show_volume i = ''volume id='' @ show_hex 16 (unat (vi_volume_id_high i)) @ show_hex 16 (unat (vi_volume_id_low i)) @
     '' bytes='' @ show_unsigned (vi_volume_size i) @ '' partitions='' @ show_unsigned (vi_partition_count i) @
     '' partition_bytes='' @ show_unsigned (vi_partition_size i) @
     '' block_payload_bytes='' @ show_unsigned (vi_max_block_payload i) @
     '' quantum='' @ show_unsigned (vi_persistence_quantum i) @
     '' index_bytes='' @ show_unsigned (vi_index_region_size i) @ eol"

definition show_partition :: "partition_info \<Rightarrow> string" where
  "show_partition p = ''partition slot='' @ show_unsigned (pi_slot p) @ '' generation='' @ show_unsigned (pi_generation p) @
     '' state='' @ (if pi_sealed p then ''sealed'' else ''active'') @ '' blocks='' @ show_unsigned (pi_block_count p) @
     '' data_span_bytes='' @ show_unsigned (pi_data_bytes p) @
     '' min_time='' @ show_signed (pi_min_time_ns p) @ '' max_time='' @ show_signed (pi_max_time_ns p) @
     '' flags=0x'' @ show_hex 0 (unat (pi_flags p)) @
     '' compression='' @ show_unsigned (po_compression (pi_options p)) @
     '' record_profile='' @ show_unsigned (po_record_format_id (pi_options p)) @
     '':'' @ show_unsigned (po_record_format_version (pi_options p)) @
     '' time_domain='' @ show_unsigned (po_time_domain_id (pi_options p)) @ eol"

definition inspect_body :: "'k store \<Rightarrow> ((nat \<times> streams) \<times> 'k store) option" where
  "inspect_body s =
     (case inspect False s of
        Inl status \<Rightarrow> Some (fails_with status silent, s)
      | Inr i \<Rightarrow> Some ((0, say (show_volume i @ concat (map show_partition (vi_partitions i))) silent), s))"

definition tfdb_inspect ::
  "'k posix \<Rightarrow> (nat \<Rightarrow> u64) \<Rightarrow> getrandom \<Rightarrow> string list \<Rightarrow> 'k \<Rightarrow> 'k tool_result" where
  "tfdb_inspect px clock getrandom argv k =
     (if length argv \<noteq> 2 then Some (1, complain (''usage: tfdb_inspect PATH'' @ eol) silent, k)
      else with_volume px clock getrandom (argv ! 1) inspect_body k)"

section \<open>Verification\<close>

record verify_state =
  vs_blocks :: u64
  vs_raw_bytes :: u64
  vs_gaps :: u64
  vs_streams :: streams

definition verify_visitor :: "('s, verify_state) visitor" where
  "verify_visitor event = (\<lambda>(s, v).
     (True, (s, if be_kind event = Event_data
       then v\<lparr>vs_blocks := vs_blocks v + 1, vs_raw_bytes := vs_raw_bytes v + of_nat (length (be_data event))\<rparr>
       else v\<lparr>vs_gaps := vs_gaps v + 1,
         vs_streams := complain (''gap generation='' @ show_unsigned (bm_partition_generation (be_metadata event)) @
           '' block='' @ show_unsigned (bm_block_sequence (be_metadata event)) @
           '' reason='' @ message (be_detail event) @ eol) (vs_streams v)\<rparr>)))"

definition verify_body :: "'k opened_file env \<Rightarrow> 'k store \<Rightarrow> ((nat \<times> streams) \<times> 'k store) option" where
  "verify_body env s =
     (case scan_blocks env default_query_options (Some verify_visitor)
             (s, \<lparr>vs_blocks = 0, vs_raw_bytes = 0, vs_gaps = 0, vs_streams = silent\<rparr>) of
        None \<Rightarrow> None
      | Some (r, (s, v)) \<Rightarrow>
          let summary = (if vs_gaps v = 0 then 0 else 3,
                say (''verified blocks='' @ show_unsigned (vs_blocks v) @ '' raw_bytes='' @ show_unsigned (vs_raw_bytes v) @
                  '' gaps='' @ show_unsigned (vs_gaps v) @ eol) (vs_streams v))
          in Some (case r of Inl status \<Rightarrow> if vs_gaps v = 0 then fails_with status (vs_streams v) else summary
             | Inr _ \<Rightarrow> summary, s))"

definition tfdb_verify ::
  "'k posix \<Rightarrow> (nat \<Rightarrow> u64) \<Rightarrow> getrandom \<Rightarrow> string list \<Rightarrow> 'k \<Rightarrow> 'k tool_result" where
  "tfdb_verify px clock getrandom argv k =
     (if length argv \<noteq> 2 then Some (1, complain (''usage: tfdb_verify PATH'' @ eol) silent, k)
      else with_volume px clock getrandom (argv ! 1) (verify_body (file_env px clock)) k)"

section \<open>Dumps\<close>

record dump_args =
  da_framed :: bool
  da_raw :: bool
  da_have_range :: bool
  da_from :: i64
  da_to :: i64
  da_selectors :: "u64 list"
  da_time_domain_id :: u64

definition no_dump_args :: dump_args where
  "no_dump_args = \<lparr>da_framed = False, da_raw = False, da_have_range = False, da_from = of_nat (2 ^ 63),
     da_to = of_nat (2 ^ 63 - 1), da_selectors = [], da_time_domain_id = 1\<rparr>"

definition dump_usage :: string where
  "dump_usage = ''usage: tfdb_dump PATH [--from NS --to NS] [--selector ID] '' @
     ''[--time-domain ID] [--framed-v1 | --raw-blocks]'' @ eol"

definition dump_option :: "bool \<Rightarrow> string \<Rightarrow> string \<Rightarrow> dump_args \<Rightarrow> dump_args option" where
  "dump_option sets_einval argument text a =
     (if argument = ''--from''
      then map_option (\<lambda>t. a\<lparr>da_from := t, da_have_range := True\<rparr>) (parse_i64 sets_einval text)
      else if argument = ''--to''
      then map_option (\<lambda>t. a\<lparr>da_to := t, da_have_range := True\<rparr>) (parse_i64 sets_einval text)
      else if argument = ''--selector''
      then map_option (\<lambda>n. a\<lparr>da_selectors := da_selectors a @ [n]\<rparr>) (parse_u64 sets_einval text)
      else if argument = ''--time-domain''
      then (case parse_u64 sets_einval text of
          None \<Rightarrow> None
        | Some n \<Rightarrow> if n = 0 then None else Some (a\<lparr>da_time_domain_id := n\<rparr>))
      else None)"

fun dump_arguments :: "bool \<Rightarrow> string list \<Rightarrow> dump_args \<Rightarrow> dump_args option" where
  "dump_arguments sets_einval [] a = Some a"
| "dump_arguments sets_einval (argument # args) a =
     (if argument = ''--framed-v1'' then dump_arguments sets_einval args (a\<lparr>da_framed := True\<rparr>)
      else if argument = ''--raw-blocks'' then dump_arguments sets_einval args (a\<lparr>da_raw := True\<rparr>)
      else case args of
          [] \<Rightarrow> None
        | text # rest \<Rightarrow>
            (case dump_option sets_einval argument text a of
               None \<Rightarrow> None
             | Some a \<Rightarrow> dump_arguments sets_einval rest a))"

definition write_u32 :: "u32 \<Rightarrow> string" where
  "write_u32 n = map (\<lambda>i. char_of (unat (drop_bit (8 * i) n))) [0, 1, 2, 3]"

definition raw_bytes :: "bytes \<Rightarrow> string" where
  "raw_bytes data = map (\<lambda>b. char_of (unat b)) data"

record dump_state =
  ds_saw_gap :: bool
  ds_streams :: streams

definition dump_gap :: "status \<Rightarrow> dump_state \<Rightarrow> dump_state" where
  "dump_gap detail d = d\<lparr>ds_saw_gap := True, ds_streams := complain (''gap '' @ message detail @ eol) (ds_streams d)\<rparr>"

definition show_record :: "record_event \<Rightarrow> string" where
  "show_record event = ''generation='' @ show_unsigned (bm_partition_generation (re_block event)) @
     '' block='' @ show_unsigned (bm_block_sequence (re_block event)) @
     '' time='' @ show_signed (rv_index_time_ns (re_record event)) @
     '' selector='' @ show_unsigned (rv_selector (re_record event)) @
     '' flags=0x'' @ show_hex 0 (unat (rv_flags (re_record event))) @
     '' payload='' @ hex_bytes (view_bytes (rv_payload (re_record event))) 64 @ eol"

definition dump_record_visitor :: "('s, dump_state) record_visitor" where
  "dump_record_visitor event = (\<lambda>(s, d).
     (True, (s, if re_kind event \<noteq> Event_data then dump_gap (re_detail event) d
       else d\<lparr>ds_streams := say (show_record event) (ds_streams d)\<rparr>)))"

definition show_block :: "bool \<Rightarrow> block_event \<Rightarrow> string" where
  "show_block raw event =
     (if raw then write_u32 (of_nat (length (be_data event))) @ raw_bytes (be_data event)
      else ''generation='' @ show_unsigned (bm_partition_generation (be_metadata event)) @
        '' block='' @ show_unsigned (bm_block_sequence (be_metadata event)) @
        '' records='' @ show_unsigned (bm_record_count (be_metadata event)) @
        '' min_time='' @ show_signed (bm_min_time_ns (be_metadata event)) @
        '' max_time='' @ show_signed (bm_max_time_ns (be_metadata event)) @
        '' raw_bytes='' @ digits_of 10 (length (be_data event)) @
        '' data='' @ hex_bytes (be_data event) 64 @ eol)"

definition dump_visitor :: "bool \<Rightarrow> ('s, dump_state) visitor" where
  "dump_visitor raw event = (\<lambda>(s, d).
     (True, (s, if be_kind event \<noteq> Event_data then dump_gap (be_detail event) d
       else d\<lparr>ds_streams := say (show_block raw event) (ds_streams d)\<rparr>)))"

definition dump_query :: "'k opened_file env \<Rightarrow> dump_args \<Rightarrow> ('k store \<times> dump_state, unit) op" where
  "dump_query env a =
     (let rng = \<lparr>tr_begin_ns = da_from a, tr_end_ns = da_to a, tr_time_domain_id = da_time_domain_id a\<rparr> in
      if da_framed a
      then query_records env \<lparr>rq_time = rng, rq_selectors = da_selectors a, rq_block_options = default_query_options\<rparr>
        framed_record_v1 (Some dump_record_visitor)
      else if da_have_range a then query_blocks env rng default_query_options (Some (dump_visitor (da_raw a)))
      else scan_blocks env default_query_options (Some (dump_visitor (da_raw a))))"

definition dump_body ::
  "'k opened_file env \<Rightarrow> bool \<Rightarrow> dump_args \<Rightarrow> 'k store \<Rightarrow> ((nat \<times> streams) \<times> 'k store) option" where
  "dump_body env cout_good a s =
     (if da_framed a \<and> da_to a \<le>s da_from a then Some ((1, complain dump_usage silent), s)
      else case dump_query env a (s, \<lparr>ds_saw_gap = False, ds_streams = silent\<rparr>) of
        None \<Rightarrow> None
      | Some (Inl status, (s, d)) \<Rightarrow> Some (fails_with status (ds_streams d), s)
      | Some (Inr _, (s, d)) \<Rightarrow>
          Some ((if \<not> cout_good then 4 else if ds_saw_gap d then 3 else 0, ds_streams d), s))"

definition tfdb_dump ::
  "bool \<Rightarrow> bool \<Rightarrow> 'k posix \<Rightarrow> (nat \<Rightarrow> u64) \<Rightarrow> getrandom \<Rightarrow> string list \<Rightarrow> 'k \<Rightarrow> 'k tool_result" where
  "tfdb_dump sets_einval cout_good px clock getrandom argv k =
     (let usage = Some (1, complain dump_usage silent, k) in
      if length argv < 2 then usage
      else case dump_arguments sets_einval (drop 2 argv) no_dump_args of
        None \<Rightarrow> usage
      | Some a \<Rightarrow>
          if da_framed a \<and> da_raw a then usage
          else with_volume px clock getrandom (argv ! 1) (dump_body (file_env px clock) cout_good a) k)"

end
