(* ===== verification/Tool_Safety.thy ===== *)
theory Tool_Safety
  imports Tools
begin

text \<open>
  What the command line tools promise: the formatter writes to a block device only when the operator
  asked for it twice and the device is not mounted, and the three reading tools make no system call
  that could change a file.
\<close>

section \<open>Operations that only read\<close>

text \<open>Two environments that answer reads alike. The lemmas go through the reading operations of the ring
  store: none of them calls \<open>write_at\<close> or \<open>flush\<close>.\<close>

lemma read_exact_loop_reads:
  assumes "read_exact_loop st off d out s = Some y"
  shows "read_at st' = read_at st \<longrightarrow> read_exact_loop st' off d out s = Some y"
  using assms
proof (rule read_exact_loop.raw_induct [rotated, where P = "\<lambda>st off d out s y. read_at st' = read_at st \<longrightarrow>
    read_exact_loop st' off d out s = Some y"], goal_cases)
  case (1 loop st off d out s y)
  obtain r part s1 where c: "read_at st (off + of_nat d) (View (drop d out)) s = (r, part, s1)" by (metis prod_cases3)
  show ?case
  proof
    assume reads: "read_at st' = read_at st"
    show "read_exact_loop st' off d out s = Some y"
      using 1 reads by (subst read_exact_loop.simps) (auto simp: c Let_def split: if_splits)
  qed
qed

lemma read_exact_loop_cong:
  assumes "read_at st' = read_at st"
  shows "read_exact_loop st' off d out s = read_exact_loop st off d out s"
proof (cases "read_exact_loop st off d out s")
  case None
  then show ?thesis
    using read_exact_loop_reads [where st = st' and st' = st] assms by (cases "read_exact_loop st' off d out s") fastforce+
qed (use read_exact_loop_reads assms in fastforce)

lemma scan_loop_cong:
  "scan_block env' = scan_block env \<Longrightarrow> scan_loop env' header limit at entries s = scan_loop env header limit at entries s"
proof (induction env header limit at entries s rule: scan_loop.induct)
  case (1 env header limit at entries s)
  show ?case
  proof (cases "scan_block env header limit at s")
    case None
    then show ?thesis using 1(2) by (simp add: scan_loop.simps [of env'] scan_loop.simps [of env])
  next
    case (Some x)
    obtain r s1 where x: "x = (r, s1)" by fastforce
    show ?thesis
      using 1 Some x
      by (cases "sp_cursor at + 128 \<le> limit"; cases r)
        (auto simp: scan_loop.simps [of env' _ _ at entries] scan_loop.simps [of env _ _ at entries] split: option.split)
  qed
qed

locale same_reads =
  fixes env env' :: "'s env"
  assumes read_at: "read_at (env_storage env') = read_at (env_storage env)"
    and size: "storage_size (env_storage env') = storage_size (env_storage env)"
begin

lemma read_exact: "read_exact (env_storage env') = read_exact (env_storage env)"
  by (intro ext) (simp add: read_exact_def read_exact_loop_cong [OF read_at])

lemma read_media: "read_media env' = read_media env"
  by (intro ext) (simp add: read_media_def read_exact)

lemma read_partition_header: "read_partition_header env' = read_partition_header env"
  by (intro ext) (simp only: read_partition_header_def read_media)

lemma scan_block: "scan_block env' = scan_block env"
  unfolding scan_block_def fun_eq_iff read_media by (intro allI refl)

lemma scan_partition: "scan_partition env' = scan_partition env"
  unfolding scan_partition_def fun_eq_iff scan_loop_cong [OF scan_block] by (intro allI refl)

lemma catalog_reads: "read_footer env' = read_footer env" "load_index env' = load_index env"
  unfolding read_footer_def load_index_def fun_eq_iff read_media by (intro allI refl)+

lemma read_block: "read_block env' = read_block env"
proof -
  have classify: "classify_snapshot_failure env' = (classify_snapshot_failure env :: _ \<Rightarrow> _ \<Rightarrow> ('s impl, 'a) op)"
    unfolding classify_snapshot_failure_def fun_eq_iff read_partition_header by (intro allI refl)
  have decode: "decode_block env' = decode_block env"
    unfolding decode_block_def fun_eq_iff classify by (intro allI refl)
  show ?thesis
    unfolding read_block_def fun_eq_iff classify decode read_partition_header read_media by (intro allI refl)
qed

lemmas reads = read_media read_partition_header scan_partition catalog_reads read_block

lemma recover_slots: "recover_slots env' xs = recover_slots env xs"
proof -
  have damaged: "damaged_slot env' = damaged_slot env"
    unfolding damaged_slot_def fun_eq_iff reads by (intro allI refl)
  have blocks: "verify_blocks env' state es = verify_blocks env state es" for state es
    by (induction es) (simp_all only: verify_blocks.simps reads)
  have part: "recover_partition env' = recover_partition env"
    unfolding recover_partition_def verify_sealed_def fun_eq_iff reads blocks by (intro allI refl)
  have slot: "recover_slot env' = recover_slot env"
    unfolding recover_slot_def fun_eq_iff reads damaged part by (intro allI refl)
  show ?thesis
  proof (induction xs)
    case (Cons x xs)
    show ?case by (rule ext) (simp only: recover_slots.simps slot Cons)
  qed (rule ext, simp only: recover_slots.simps)
qed

lemma open_store_reads:
  "\<not> oo_writable options \<Longrightarrow> open_store env' getrandom options null m = open_store env getrandom options null m"
proof -
  assume ro: "\<not> oo_writable options"
  have rec: "recover_store env' (new_impl m v options hi lo) = recover_store env (new_impl m v options hi lo)" for m v hi lo
    using ro by (simp add: recover_store_def recover_slots bind_op_def get_op_def new_impl_def)
  show ?thesis unfolding open_store_def Let_def read_exact size rec using ro by simp
qed

lemma query: "query env' all_blocks rng options visitor x = query env all_blocks rng options visitor x"
proof -
  have index: "acquire_index env' = acquire_index env"
    unfolding acquire_index_def first_index_def fun_eq_iff reads by (intro allI refl)
  have entries: "query_entries env' all_blocks rng options v part es = query_entries env all_blocks rng options v part es" for v part es
    by (induction es) (simp_all only: query_entries.simps reads)
  have part: "query_partition env' all_blocks rng options v part = query_partition env all_blocks rng options v part" for v part
    unfolding query_partition_def reads index entries by (rule refl)
  have parts: "query_partitions env' all_blocks rng options v parts = query_partitions env all_blocks rng options v parts" for v parts
    by (induction parts) (simp_all only: query_partitions.simps part)
  show ?thesis unfolding query_def parts by (rule refl)
qed

lemma queries:
  "query_blocks env' rng options visitor x = query_blocks env rng options visitor x"
  "scan_blocks env' options visitor x = scan_blocks env options visitor x"
  "query_records env' q profile record_visitor y = query_records env q profile record_visitor y"
  unfolding query_records_def query_blocks_def scan_blocks_def query by (rule refl)+

end

section \<open>The reading tools\<close>

text \<open>The system calls that can change a file, or wait for one, replaced by others.\<close>

definition other_writes :: "'k posix \<Rightarrow> 'k posix \<Rightarrow> 'k posix" where
  "other_writes px qx = px\<lparr>sys_flock := sys_flock qx, sys_ftruncate := sys_ftruncate qx, sys_fallocate := sys_fallocate qx,
     sys_fdatasync := sys_fdatasync qx, sys_fsync := sys_fsync qx, sys_pwrite := sys_pwrite qx\<rparr>"

lemma other_writes_calls:
  "sys_open (other_writes px qx) = sys_open px" "sys_close (other_writes px qx) = sys_close px"
  "sys_fstat (other_writes px qx) = sys_fstat px" "sys_blkgetsize64 (other_writes px qx) = sys_blkgetsize64 px"
  "sys_pread (other_writes px qx) = sys_pread px" "sys_strerror (other_writes px qx) = sys_strerror px"
  by (simp_all add: other_writes_def)

interpretation file_reads: same_reads "file_env px clock" "file_env (other_writes px qx) clock" for px qx :: "'k posix" and clock
proof
  have "file_read_at (other_writes px qx) = file_read_at px"
    unfolding file_read_at_def errno_status_def fun_eq_iff other_writes_calls by (intro allI refl)
  then show "read_at (env_storage (file_env (other_writes px qx) clock)) = read_at (env_storage (file_env px clock))"
    by (simp add: file_env_def file_backend_def)
qed (simp add: file_env_def file_backend_def)

lemma with_volume_reads: "with_volume (other_writes px qx) clock getrandom path body k = with_volume px clock getrandom path body k"
proof -
  have opened: "open_existing (other_writes px qx) path False False k = open_existing px path False False k"
    unfolding open_existing_def determine_size_def errno_status_def other_writes_calls if_False by (rule refl)
  have ro: "\<not> oo_writable default_open_options" by (simp add: default_open_options_def)
  show ?thesis
    unfolding with_volume_def opened file_destroy_def other_writes_calls file_reads.open_store_reads [OF ro] by (rule refl)
qed

text \<open>C39: the inspection, the verification and the dump of a volume make none of the system calls that write,
  resize, synchronize or lock a file: whatever those calls would do, the exit code, the streams and the
  kernel's state are the same.\<close>

theorem reading_tools_never_write:
  "tfdb_inspect (other_writes px qx) clock getrandom argv k = tfdb_inspect px clock getrandom argv k \<and>
   tfdb_verify (other_writes px qx) clock getrandom argv k = tfdb_verify px clock getrandom argv k \<and>
   tfdb_dump e cout_good (other_writes px qx) clock getrandom argv k = tfdb_dump e cout_good px clock getrandom argv k"
proof -
  have verify: "verify_body (file_env (other_writes px qx) clock) = verify_body (file_env px clock)"
    unfolding verify_body_def file_reads.queries fun_eq_iff by (intro allI refl)
  have dump: "dump_body (file_env (other_writes px qx) clock) = dump_body (file_env px clock)"
  proof -
    have q: "dump_query (file_env (other_writes px qx) clock) a x = dump_query (file_env px clock) a x" for a x
      by (simp add: dump_query_def Let_def file_reads.queries)
    show ?thesis unfolding dump_body_def q fun_eq_iff by (intro allI refl)
  qed
  show ?thesis
    unfolding tfdb_inspect_def tfdb_verify_def tfdb_dump_def with_volume_reads verify dump by (intro conjI refl)
qed

section \<open>The formatter\<close>

lemma parsed_not_option: "parse_u64 e t = Some n \<Longrightarrow> t \<notin> {''--device'', ''--yes'', ''--overwrite''}"
  by (auto simp: parse_u64_def)

lemma format_number_flags:
  "format_number argument n a = Some b \<Longrightarrow>
    fa_device b = fa_device a \<and> fa_confirmed b = fa_confirmed a \<and> fa_overwrite b = fa_overwrite a"
  by (auto simp: format_number_def Let_def split: if_splits)

text \<open>An option counts wherever it stands: a text that is taken for the number of another option is no
  number.\<close>

lemma format_flags:
  "format_arguments e args a = Some b \<Longrightarrow>
    (fa_device b \<longleftrightarrow> fa_device a \<or> ''--device'' \<in> set args) \<and> (fa_confirmed b \<longleftrightarrow> fa_confirmed a \<or> ''--yes'' \<in> set args) \<and>
    (fa_overwrite b \<longleftrightarrow> fa_overwrite a \<or> ''--overwrite'' \<in> set args)"
proof (induction e args a rule: format_arguments.induct)
  case (2 e argument args a)
  show ?case
  proof (cases "argument \<in> {''--overwrite'', ''--device'', ''--yes''}")
    case True
    then show ?thesis using 2 by auto
  next
    case False
    then obtain t rest n a' where more: "args = t # rest" "parse_u64 e t = Some n" "format_number argument n a = Some a'"
      "format_arguments e rest a' = Some b"
      using "2.prems" by (auto split: list.splits option.splits if_splits)
    have "\<not> (n > 0xffffffff \<and> argument \<noteq> ''--size'' \<and> argument \<noteq> ''--partition'')"
      using "2.prems" False more(1,2) by (auto split: if_splits)
    then have "(fa_device b \<longleftrightarrow> fa_device a' \<or> ''--device'' \<in> set rest) \<and> (fa_confirmed b \<longleftrightarrow> fa_confirmed a' \<or> ''--yes'' \<in> set rest) \<and>
        (fa_overwrite b \<longleftrightarrow> fa_overwrite a' \<or> ''--overwrite'' \<in> set rest)"
      using "2.IH"(4) [OF _ _ _ more(1,2)] False more(3,4) by simp
    then show ?thesis using False more(1) parsed_not_option [OF more(2)] format_number_flags [OF more(3)] by auto
  qed
qed simp

text \<open>The lines of a text that ends with a newline, and the mount table: a line that names the path as its
  source or its target is found wherever it stands.\<close>

lemma lines_of_lines:
  "(\<And>l. l \<in> set ls \<Longrightarrow> CHR 0x0A \<notin> set l) \<Longrightarrow> lines_of (concat (map (\<lambda>l. l @ eol) ls)) = ls"
proof (induction ls)
  case (Cons l ls)
  have "takeWhile (\<lambda>c. c \<noteq> CHR 0x0A) (l @ eol @ xs) = l" "dropWhile (\<lambda>c. c \<noteq> CHR 0x0A) (l @ eol @ xs) = eol @ xs" for xs
    using Cons.prems [of l] by (auto simp: takeWhile_append dropWhile_append)
  then show ?case using Cons by (subst lines_of.simps) simp
qed (simp add: lines_of.simps)

lemma mounted_source:
  assumes "path \<noteq> []" "\<And>c. c \<in> set path \<Longrightarrow> \<not> c_isspace c" "target \<noteq> []" "\<not> c_isspace (hd target)"
  shows "mount_line path (path @ CHR '' '' # target)"
proof -
  have "\<not> c_isspace (hd path)" using assms(1,2) by simp
  then have "dropWhile c_isspace (path @ xs) = path @ xs" for xs using assms(1) by (cases path) auto
  moreover have "takeWhile (\<lambda>c. \<not> c_isspace c) (path @ CHR '' '' # xs) = path"
    "dropWhile (\<lambda>c. \<not> c_isspace c) (path @ CHR '' '' # xs) = CHR '' '' # xs" for xs
    using assms(2) by (simp_all add: takeWhile_append dropWhile_append c_isspace_def)
  moreover have "c_isspace (CHR '' '')" by (simp add: c_isspace_def)
  ultimately show ?thesis
    using assms(1,3,4) by (cases target) (simp_all add: mount_line_def next_field_def Let_def)
qed

text \<open>What the kernel documents of a path that names a block device: \<open>open\<close> with \<open>O_CREAT\<close> and \<open>O_EXCL\<close> fails,
  as for every path that exists, and \<open>ftruncate\<close> fails on a descriptor of it, as on everything that is not a
  regular file.\<close>

definition block_device_at :: "'k posix \<Rightarrow> string \<Rightarrow> bool" where
  "block_device_at px path \<longleftrightarrow>
     (\<forall>flags mode k. O_CREAT \<in> set flags \<and> O_EXCL \<in> set flags \<longrightarrow> (\<exists>e k'. sys_open px path flags mode k = (Inl e, k'))) \<and>
     (\<forall>flags mode k fd k1. sys_open px path flags mode k = (Inr fd, k1) \<longrightarrow>
       (\<forall>n. \<exists>e k2. sys_ftruncate px fd n (snd (sys_flock px fd k1)) = (Some e, k2)))"

text \<open>The system calls that write data, or make it durable, replaced by others.\<close>

definition other_data :: "'k posix \<Rightarrow> 'k posix \<Rightarrow> 'k posix" where
  "other_data px qx = px\<lparr>sys_fallocate := sys_fallocate qx, sys_fdatasync := sys_fdatasync qx,
     sys_fsync := sys_fsync qx, sys_pwrite := sys_pwrite qx\<rparr>"

lemma other_data_calls:
  "sys_open (other_data px qx) = sys_open px" "sys_close (other_data px qx) = sys_close px"
  "sys_flock (other_data px qx) = sys_flock px" "sys_ftruncate (other_data px qx) = sys_ftruncate px"
  "sys_strerror (other_data px qx) = sys_strerror px"
  by (simp_all add: other_data_def)

lemma create_on_device:
  assumes device: "block_device_at px path"
  shows "\<exists>status k'. create_file px path n overwrite False k = Some (Inl status, k') \<and>
    create_file (other_data px qx) path n overwrite False k = Some (Inl status, k') \<and> \<not> status_ok status"
proof (cases "n = 0 \<or> unat n > int64_max")
  case True
  then show ?thesis by (simp add: create_file_def)
next
  case False
  let ?flags = "[O_RDWR, O_CREAT, O_CLOEXEC] @ (if \<not> overwrite then [O_EXCL] else [])"
  have status: "errno_status (other_data px qx) = errno_status px" by (simp add: fun_eq_iff errno_status_def other_data_calls)
  have lock: "lock_writer (other_data px qx) = lock_writer px" 
    unfolding fun_eq_iff lock_writer_def other_data_calls status by (intro allI refl)
  obtain r k1 where o: "sys_open px path ?flags 416 k = (r, k1)" by fastforce
  show ?thesis
  proof (cases r)
    case (Inl e)
    then show ?thesis using False o by (simp add: create_file_def other_data_calls status)
  next
    case (Inr fd)
    have overwrite
    proof (rule ccontr)
      assume "\<not> overwrite"
      then have "O_CREAT \<in> set ?flags \<and> O_EXCL \<in> set ?flags" by simp
      then obtain e' k' where "sys_open px path ?flags 416 k = (Inl e', k')" using device unfolding block_device_at_def by blast
      then show False using o Inr by simp
    qed
    obtain l k2 where l: "lock_writer px fd k1 = (l, k2)" by fastforce
    have k2: "k2 = snd (sys_flock px fd k1)" using l by (auto simp: lock_writer_def split: prod.splits option.splits)
    obtain e k3 where "sys_ftruncate px fd n k2 = (Some e, k3)"
      using device o Inr unfolding block_device_at_def k2 by blast
    then obtain status k' where "create_open px path n overwrite fd k1 = Some (status, k')"
      "create_open (other_data px qx) path n overwrite fd k1 = Some (status, k')" "\<not> status_ok status"
      using l \<open>overwrite\<close> by (cases "status_ok l") (simp_all add: create_open_def lock status other_data_calls)
    then show ?thesis using False o Inr by (simp add: create_file_def other_data_calls)
  qed
qed

text \<open>C38: the formatter writes nothing to a block device that it was not authorized to format. When the path
  names a block device, on a kernel that behaves as documented there, then either the options hold both
  \<open>--device\<close> and \<open>--yes\<close> and not \<open>--overwrite\<close>, and the mount table does not name the path, or no data is
  written, allocated or synchronized: the result and the kernel's state are the same whatever those system
  calls would do, and the exit code is not zero. The kind of the target is not tested: without \<open>--device\<close>,
  \<open>--overwrite\<close> has the device opened and locked before \<open>ftruncate\<close> fails.\<close>

theorem format_needs_authorization:
  assumes device: "block_device_at px (argv ! 1)"
  shows "(''--device'' \<in> set (drop 2 argv) \<and> ''--yes'' \<in> set (drop 2 argv) \<and> ''--overwrite'' \<notin> set (drop 2 argv) \<and>
      \<not> looks_mounted mounts (argv ! 1)) \<or>
    tfdb_format e (other_data px qx) getrandom mounts argv k = tfdb_format e px getrandom mounts argv k \<and>
    (\<exists>exit_code text k'. tfdb_format e px getrandom mounts argv k = Some (exit_code, text, k') \<and> exit_code \<noteq> 0)"
proof (cases "format_arguments e (drop 2 argv) no_format_args")
  case None
  then show ?thesis by (simp add: tfdb_format_def Let_def)
next
  case (Some a)
  note flags = format_flags [OF Some]
  obtain status k' where c: "create_file px (argv ! 1) (fa_size a) (fa_overwrite a) False k = Some (Inl status, k')"
    "create_file (other_data px qx) (argv ! 1) (fa_size a) (fa_overwrite a) False k = Some (Inl status, k')" "\<not> status_ok status"
    using create_on_device [OF device] by blast
  obtain exit_code out where f: "fails_with status silent = (exit_code, out)" "exit_code \<noteq> 0"
    by (simp add: fails_with_def print_status_def)
  show ?thesis
  proof (cases "length argv < 3 \<or> \<not> fa_device a \<or> fa_overwrite a \<or> \<not> fa_confirmed a \<or> looks_mounted mounts (argv ! 1)")
    case True
    then show ?thesis using Some c f by (auto simp: tfdb_format_def Let_def)
  next
    case False
    then show ?thesis using flags by (simp add: no_format_args_def)
  qed
qed

theorem format_needs_authorization_witness:
  "\<exists>px qx :: test_kernel posix. \<exists>k exit_code out k'. block_device_at px ''/dev/sdb'' \<and> sys_pwrite (other_data px qx) \<noteq> sys_pwrite px \<and>
    tfdb_format False px (\<lambda>_ _. Random_error False []) None [''tfdb_format'', ''/dev/sdb'', ''--size'', ''100'', ''--overwrite''] k =
      Some (exit_code, out, k') \<and> exit_code \<noteq> 0 \<and>
    tfdb_format False (other_data px qx) (\<lambda>_ _. Random_error False []) None [''tfdb_format'', ''/dev/sdb'', ''--size'', ''100'', ''--overwrite''] k =
      Some (exit_code, out, k')"
proof -
  let ?px = "test_posix\<lparr>sys_open := \<lambda>path flags mode k. if O_EXCL \<in> set flags then (Inl (Errno 17), k) else sys_open test_posix path flags mode k,
    sys_ftruncate := \<lambda>_ _ k. (Some EINVAL, k)\<rparr>"
  let ?qx = "test_posix\<lparr>sys_pwrite := \<lambda>_ _ _ k. (Inl ENOSPC, k\<lparr>tk_bytes := []\<rparr>)\<rparr>"
  let ?k = "\<lparr>tk_bytes = [1, 2], tk_durable = [1, 2], tk_interrupts = 0, tk_open = []\<rparr>"
  let ?argv = "[''tfdb_format'', ''/dev/sdb'', ''--size'', ''100'', ''--overwrite'']"
  have device: "block_device_at ?px (?argv ! 1)" by (auto simp: block_device_at_def split: if_splits)
  have "sys_pwrite (other_data ?px ?qx) 3 [] 0 ?k \<noteq> sys_pwrite ?px 3 [] 0 ?k" by (simp add: other_data_def test_posix_def)
  then have "sys_pwrite (other_data ?px ?qx) \<noteq> sys_pwrite ?px" by metis
  moreover have "''--device'' \<notin> set (drop 2 ?argv)" by simp
  then have "tfdb_format False (other_data ?px ?qx) (\<lambda>_ _. Random_error False []) None ?argv ?k =
      tfdb_format False ?px (\<lambda>_ _. Random_error False []) None ?argv ?k \<and>
    (\<exists>exit_code out k'. tfdb_format False ?px (\<lambda>_ _. Random_error False []) None ?argv ?k = Some (exit_code, out, k') \<and> exit_code \<noteq> 0)"
    using format_needs_authorization [OF device, of None False ?qx "\<lambda>_ _. Random_error False []" ?k] by blast
  then obtain exit_code out k' where "tfdb_format False ?px (\<lambda>_ _. Random_error False []) None ?argv ?k = Some (exit_code, out, k')"
    "exit_code \<noteq> 0" "tfdb_format False (other_data ?px ?qx) (\<lambda>_ _. Random_error False []) None ?argv ?k = Some (exit_code, out, k')"
    by (elim conjE exE) (rule that, assumption, assumption, simp only:)
  moreover have "block_device_at ?px ''/dev/sdb''" using device by (simp only: nth_Cons_Suc nth_Cons_0 One_nat_def)
  ultimately show ?thesis by blast
qed

end
