(* ===== verification/Spec2Isabelle.thy ===== *)
theory Spec2Isabelle
  imports Counting_Storage File_Storage Record_Profile Async_Properties Ring_Guarantees Ring_Properties Ring_Query_Properties Ring_Limits Tool_Safety
begin

text \<open>
  A verification of TFDB, an embedded append-only store for time-stamped records on a fixed-size
  ring of partitions (C++ sources under src/src, src/include/tfdb and src/tools).

  \<^bold>\<open>The program.\<close> An application hands records to a \<open>RingStore\<close>, directly or through an
  \<open>AsyncWriter\<close>. The store collects them in a block in memory, compresses the block with a codec,
  frames it with a checksummed header and writes it behind the data of the active partition of its
  storage backend (a file, memory, or a counting decorator around another backend). A full partition is
  sealed with an index and a footer and the next slot is recycled. \<open>open\<close> rebuilds the catalog from the
  media, whatever a crash has left there; queries read blocks back through the index. A record profile
  gives the bytes of a block the structure of single records. Command line tools format, inspect, verify
  and dump a volume.

  \<^bold>\<open>Reading the model.\<close> C++ integers are words of their width (\<open>u8\<close> to \<open>u64\<close>; \<open>i64\<close> is a 64-bit word
  compared by \<open><s\<close>), so every sum wraps as in the source. Byte vectors are lists of \<open>u8\<close>, sizes \<open>nat\<close>.
  A function that returns a \<open>Status\<close> and fills an output parameter returns \<open>status + 'a\<close>; null
  pointers are flags. Classes are records over explicit state. An operation of a store has the type
  \<open>('s impl, 'a) op\<close>: it maps the state to a result and a new state, or to \<open>None\<close> when it does not return;
  \<open>bind_op\<close> is the source's sequence with early return on error. Enumerations keep the source's
  constructors, fields their names behind a prefix of the struct.

  \<^bold>\<open>Parts and theories.\<close>

  \<^item> Prelude, Status: integer widths, lists of bytes; status.hpp, status.cpp, bytes.hpp.
  \<^item> Le_Bytes, Crc32c, Wire_Format, Partition_Header: internal_format.cpp and .hpp. Little-endian fields,
    CRC32C by table, volume and block headers, index, footer, and the partition header with its feature
    directory; \<open>align_up\<close>. Round trips of every structure, the table equals the bitwise definition, any
    change of four adjacent bytes changes the checksum and any change of one byte is rejected.
  \<^item> Codec, Packbits, Lz4, Codecs: codec.hpp, codec.cpp. The locale \<open>compression_codec\<close> is the interface
    the store relies on; every built-in codec interprets it (lossless, within its declared bound).
  \<^item> Storage: storage.hpp and \<open>read_exact\<close>, \<open>write_exact\<close> of storage_posix.cpp. The locale
    \<open>storage_contract\<close> states what a backend promises: what a transfer moves, what a flush makes
    durable, and that calls are not interrupted for ever.
  \<^item> Memory_Storage, Counting_Storage, File_Storage: the three backends, each an interpretation or a
    sublocale of \<open>storage_contract\<close>: memory_storage.cpp with injected faults and crashes,
    counting_storage.cpp around any backend, and \<open>FileStorage\<close> of storage_posix.cpp over the system calls it
    makes. Reliable_Storage adds that calls succeed.
  \<^item> Ring_Types, Ring_Read, Ring_Write, Ring_Query, Ring_Open: ring_store.hpp, ring_store.cpp. The state
    \<open>RingStore::Impl\<close> is the record \<open>impl\<close>; the backend and the clock are the environment \<open>env\<close>; every
    method is one definition, split only where a loop or a long branch needs a name.
  \<^item> Record_Profile: record_profile.cpp. Framed records, their decoding over a block, framed append and
    record queries.
  \<^item> Async_Writer, Async_Machine, Async_Progress, Async_Properties: async_writer.cpp. Every section under
    the mutex is a function; the machine interleaves application calls, the background thread and other
    users of the store in any order, and records every call of the store as an event. \<open>store_trace\<close> ties
    these events to the store: its state is what the recorded calls of \<open>append\<close>, \<open>append_checked\<close> and
    \<open>checkpoint\<close>, with the results they returned, make of the initial one. An exception ends the thread and
    leaves the store in any state.
  \<^item> Tool_Text, Tools, Tool_Safety: tools/common.hpp, tfdb_format.cpp, tfdb_inspect.cpp, tfdb_verify.cpp,
    tfdb_dump.cpp. Each \<open>main\<close> as a function from its arguments to exit code, streams and the kernel's
    state, over \<open>FileStorage\<close>. Numbers that are printed parse back, the formatter needs the operator's
    authorization, and the locale \<open>same_reads\<close> shows that the reading tools only read.

  \<^bold>\<open>The ring store's proofs.\<close> Op_Wp: weakest preconditions of operations. Ring_Geometry: arithmetic of the
  layout. Ring_Invariant, Ring_Operations, Ring_Recovery: the invariant \<open>store_inv\<close> (catalog ordered,
  active partition last, index consistent with the data, mirrors and counters exact), that every
  operation keeps it, and that \<open>open\<close> establishes it whatever is on the media. Ring_Machine: the step
  relation \<open>store_run\<close> and the locale \<open>kept_by_operations\<close>, by which an invariant of the operations is an
  invariant of all runs; Ring_Steps: the same from the operations' internal steps. Ring_Format,
  Ring_Media, Ring_Evolution, Ring_Immutable: which bytes an operation may write, that a clean store is
  durable, and that published bytes stay. Ring_Readback, Ring_Frames, Ring_Rescan, Ring_Delivery,
  Ring_Published: the frames on the medium are those of the index in memory, a scan finds them again,
  and a block that was published is delivered. Ring_Liveness, Ring_Termination: on a backend that works
  operations succeed, on any backend that keeps its contract they return. Ring_Opened, Ring_Device: what
  an opened store has, and a small volume on which every hypothesis holds. Ring_Guarantees,
  Ring_Properties, Ring_Query_Properties: the properties themselves. Ring_Limits: where they stop.

  \<^bold>\<open>What is shown.\<close> C1 to C10: a published block reads back, a checkpoint makes everything durable and
  survives a crash, published bytes never change, a session on a working device succeeds, a query shows
  what was asked and answers every block and every gap that was asked for, the catalog is well formed, a
  fault freezes the writer, operations return, the health snapshot is true. C11 to C16: the asynchronous
  writer gives the store the submitted records, losing and reordering none, stays within its bounds, its
  checkpoint and stop have made durable in the store what was submitted, failures stay, and a requested
  checkpoint is reached. C17: printed numbers parse. C18 to C27: checksum, wire format and codecs. C28 to
  C33: backends. C34 to C37: framed records. C38 and C39: the tools. C40: time arithmetic.

  \<^bold>\<open>Hypotheses.\<close> Properties of the store are proved for every backend that keeps the contract where they
  are lemmas of a locale, and stated for the memory backend. \<open>versions_ok\<close> excludes caller codecs of
  version zero: they are accepted and written, but no reader accepts their headers (lemma
  \<open>zero_version_unreadable\<close>). \<open>frames_fit\<close> excludes geometries whose largest frame exceeds 32 bits.
  \<open>codecs_ok\<close> asks caller codecs for the laws of \<open>compression_codec\<close>. What a checkpoint makes durable (C2,
  C4, C13, C14) is stated for a device that is settled when the store is opened, \<open>mem_durable m = mem_volatile m\<close>,
  as after \<open>format\<close> or a clean \<open>close\<close>: an opened store is not dirty, so on another device its first
  checkpoint need not flush (lemma \<open>opened_checkpoint_skips_flush\<close>). A block device (C38) is a path whose
  exclusive creation and whose \<open>ftruncate\<close> fail, as the kernel documents. The system calls under \<open>FileStorage\<close>,
  \<open>getrandom\<close> and the clock are arguments, with the POSIX behaviour as locale assumptions.

  \<^bold>\<open>Loops.\<close> No fuel is used. Loops with a measure are recursive functions (\<open>scan_loop\<close> moves its cursor,
  codecs consume input); loops that may retry for ever (exact transfers, identifiers from \<open>getrandom\<close>,
  \<open>fdatasync\<close>) are partial functions into \<open>option\<close>, with theorems that they return.

  \<^bold>\<open>Not modelled.\<close> The mutexes themselves: a method that holds the lock throughout is one step, and the
  visitor of a query, which runs without it, is a transformer of the store. Between two reads of one query
  only its visitor runs; other threads that write between them are not interleaved. Notifications of condition
  variables: a waiting call is enabled when its wait condition holds; how many turns the background thread
  takes until then (C16) depends on how often its clock finds the checkpoint interval over. Memory
  exhaustion and other exceptions except where the source catches them. The load generator and the examples: threads, signals,
  wall-clock pacing and printed measurements around calls of the library.
\<close>

end
